(* ===== verification/Prelude.thy ===== *)
theory Prelude
  imports Main "HOL-Library.Word" "HOL-Library.Multiset" "HOL-Library.List_Lexorder" "HOL-Library.Char_ord"
begin

text \<open>
  Shared vocabulary of the development.

  A Go error return is a value of a sum type \<open>'e + 'a\<close> (\<open>Inl\<close> the error); \<open>bind_r\<close>
  threads it and \<open>map_r\<close> is the loop that stops at the first error.  A Go \<open>byte\<close> is an
  \<open>8 word\<close>, a Go \<open>string\<close> (a byte sequence) is a HOL \<open>string\<close>, and \<open>to_bytes\<close> and
  \<open>to_string\<close> are the conversions \<open>[]byte(s)\<close> and \<open>string(b)\<close>.  The theory also holds
  the big-endian accessors of \<open>encoding/binary\<close>, the loops of the code base that test a
  slice for repeated keys, and the facts on sorted, complete, numbered sets that several
  components rely on.
\<close>

unbundle bit_operations_syntax

named_theorems result_simps \<open>inversion of error-threading operations\<close>
named_theorems wire_simps \<open>lengths and round trips of byte encodings\<close>

type_synonym byte = "8 word"
type_synonym u16 = "16 word"
type_synonym u32 = "32 word"
type_synonym u64 = "64 word"

section \<open>Error-threading\<close>

definition bind_r :: "'e + 'a \<Rightarrow> ('a \<Rightarrow> 'e + 'b) \<Rightarrow> 'e + 'b" where
  "bind_r m f = (case m of Inl e \<Rightarrow> Inl e | Inr x \<Rightarrow> f x)"

lemma bind_r_simps [simp]:
  "bind_r (Inl e) f = Inl e"
  "bind_r (Inr x) f = f x"
  by (simp_all add: bind_r_def)

lemma bind_r_Inr_iff [result_simps]:
  "bind_r m f = Inr y \<longleftrightarrow> (\<exists>x. m = Inr x \<and> f x = Inr y)"
  by (cases m) auto

lemma bind_r_Inl_iff [result_simps]:
  "bind_r m f = Inl e \<longleftrightarrow> m = Inl e \<or> (\<exists>x. m = Inr x \<and> f x = Inl e)"
  by (cases m) auto

lemma bind_r_cong [fundef_cong]:
  "m = m' \<Longrightarrow> (\<And>x. m' = Inr x \<Longrightarrow> f x = f' x) \<Longrightarrow> bind_r m f = bind_r m' f'"
  by (cases m) auto

fun map_r :: "('a \<Rightarrow> 'e + 'b) \<Rightarrow> 'a list \<Rightarrow> 'e + 'b list" where
  "map_r f [] = Inr []"
| "map_r f (x # xs) = bind_r (f x) (\<lambda>y. bind_r (map_r f xs) (\<lambda>ys. Inr (y # ys)))"

lemma map_r_Inr_iff [result_simps]:
  "map_r f xs = Inr ys \<longleftrightarrow> list_all2 (\<lambda>x y. f x = Inr y) xs ys"
  by (induction xs arbitrary: ys) (auto simp: result_simps list_all2_Cons1)

lemma map_r_total: "(\<And>x. x \<in> set xs \<Longrightarrow> f x = Inr (g x)) \<Longrightarrow> map_r f xs = Inr (map g xs)"
  by (induction xs) auto

definition is_ok :: "'e + 'a \<Rightarrow> bool" where
  "is_ok r = (case r of Inl _ \<Rightarrow> False | Inr _ \<Rightarrow> True)"

lemma is_ok_simps [simp]: "is_ok (Inr x)" "\<not> is_ok (Inl e)"
  by (simp_all add: is_ok_def)

lemma is_ok_iff: "is_ok r \<longleftrightarrow> (\<exists>x. r = Inr x)"
  by (cases r) auto

section \<open>Bytes and strings\<close>

definition to_bytes :: "string \<Rightarrow> byte list" where
  "to_bytes s = map (\<lambda>c. word_of_nat (of_char c)) s"

definition to_string :: "byte list \<Rightarrow> string" where
  "to_string bs = map (\<lambda>b. char_of (unat b)) bs"

lemma char_of_unat_word [simp]: "char_of (unat (word_of_nat (of_char c) :: byte)) = c"
  by (simp add: unat_of_nat nat_of_char_less_256)

lemma unat_byte_less: "unat (b :: byte) < 256"
proof -
  have "unat b < 2 ^ LENGTH(8)" by (rule unsigned_less)
  then show ?thesis by simp
qed

lemma unat_u64_less: "unat (w :: u64) < 2 ^ 64"
proof -
  have "unat w < 2 ^ LENGTH(64)" by (rule unsigned_less)
  then show ?thesis by simp
qed

lemma unat_u16_less: "unat (w :: u16) < 65536"
proof -
  have "unat w < 2 ^ LENGTH(16)" by (rule unsigned_less)
  then show ?thesis by simp
qed

lemma unat_byte_mod [simp]: "unat (b :: byte) mod 256 = unat b"
  by (simp add: unat_byte_less)

lemma to_string_to_bytes [simp, wire_simps]: "to_string (to_bytes s) = s"
  by (simp add: to_string_def to_bytes_def o_def)

lemma to_bytes_to_string [simp, wire_simps]: "to_bytes (to_string bs) = bs"
  by (simp add: to_string_def to_bytes_def o_def)

lemma length_to_bytes [simp, wire_simps]: "length (to_bytes s) = length s"
  by (simp add: to_bytes_def)

lemma length_to_string [simp, wire_simps]: "length (to_string s) = length s"
  by (simp add: to_string_def)

lemma to_bytes_append [simp]: "to_bytes (s @ t) = to_bytes s @ to_bytes t"
  by (simp add: to_bytes_def)

lemma to_bytes_eq_iff [simp]: "to_bytes s = to_bytes t \<longleftrightarrow> s = t"
  by (metis to_string_to_bytes)

text \<open>\<open>strings.IndexByte(s, 0) >= 0\<close>: the string contains a NUL byte.\<close>

definition has_nul :: "string \<Rightarrow> bool" where
  "has_nul s \<longleftrightarrow> CHR 0x00 \<in> set s"

text \<open>\<open>strings.Cut(s, sep)\<close> for a one-byte separator.\<close>

fun str_cut :: "char \<Rightarrow> string \<Rightarrow> string \<times> string \<times> bool" where
  "str_cut sep [] = ([], [], False)"
| "str_cut sep (c # s) =
     (if c = sep then ([], s, True)
      else (case str_cut sep s of (before, after, found) \<Rightarrow> (c # before, after, found)))"

lemma str_cut_found_iff: "snd (snd (str_cut sep s)) \<longleftrightarrow> sep \<in> set s"
  by (induction s) (auto split: prod.splits)

lemma str_cut_append: "sep \<notin> set a \<Longrightarrow> str_cut sep (a @ sep # b) = (a, b, True)"
  by (induction a) auto

lemma str_cut_none: "sep \<notin> set a \<Longrightarrow> str_cut sep a = (a, [], False)"
  by (induction a) auto

section \<open>Big-endian integers (encoding/binary)\<close>

definition be :: "nat \<Rightarrow> 'a::len word \<Rightarrow> byte list" where
  "be n w = map (\<lambda>i. ucast (drop_bit (8 * i) w)) (rev [0..<n])"

definition unbe :: "byte list \<Rightarrow> 'a::len word" where
  "unbe bs = foldl (\<lambda>a b. push_bit 8 a OR ucast b) 0 bs"

abbreviation be16 :: "u16 \<Rightarrow> byte list" where "be16 \<equiv> be 2"
abbreviation be32 :: "u32 \<Rightarrow> byte list" where "be32 \<equiv> be 4"
abbreviation be64 :: "u64 \<Rightarrow> byte list" where "be64 \<equiv> be 8"

lemma length_be [simp, wire_simps]: "length (be n w) = n"
  by (simp add: be_def)

lemma be_0 [simp]: "be 0 w = []"
  by (simp add: be_def)

lemma be_Suc: "be (Suc n) w = be n (drop_bit 8 w) @ [ucast w]"
proof -
  have "rev [0..<Suc n] = map Suc (rev [0..<n]) @ [0]"
    by (simp add: map_Suc_upt [symmetric] rev_map upt_conv_Cons del: upt_Suc)
  then show ?thesis
    by (simp add: be_def o_def drop_bit_drop_bit add.commute)
qed

lemma unbe_Nil [simp]: "unbe [] = 0"
  by (simp add: unbe_def)

lemma unbe_snoc: "unbe (bs @ [b]) = push_bit 8 (unbe bs) OR ucast b"
  by (simp add: unbe_def)

lemma unbe_be_take_bit: "unbe (be n w) = take_bit (8 * n) (w :: 'a::len word)"
proof (induction n arbitrary: w)
  case (Suc n)
  show ?case
    by (rule bit_word_eqI) (auto simp: be_Suc unbe_snoc Suc bit_simps)
qed simp

lemma unbe_be [simp, wire_simps]:
  "8 * n = LENGTH('a) \<Longrightarrow> unbe (be n (w :: 'a::len word)) = w"
  by (simp add: unbe_be_take_bit take_bit_word_eq_self)

lemma bit_byte_ge [simp]: "\<not> bit (b :: byte) (8 + k)"
  using bit_imp_le_length [of b "8 + k"] by auto

lemma bit_unbe_less: "bit (unbe bs :: 'a::len word) k \<Longrightarrow> k < 8 * length bs"
proof (induction bs arbitrary: k rule: rev_induct)
  case (snoc b bs)
  show ?case
  proof (cases "k < 8")
    case False
    with snoc.prems have "bit (unbe bs :: 'a word) (k - 8)"
      using bit_byte_ge [of b "k - 8"] by (auto simp: unbe_snoc bit_simps)
    then show ?thesis using snoc.IH [of "k - 8"] False by simp
  qed simp
qed simp

lemma be_unbe [wire_simps]:
  "length bs = n \<Longrightarrow> 8 * n \<le> LENGTH('a) \<Longrightarrow> be n (unbe bs :: 'a::len word) = bs"
proof (induction bs arbitrary: n rule: rev_induct)
  case (snoc b bs)
  have "drop_bit 8 (unbe (bs @ [b]) :: 'a word) = unbe bs"
    by (rule bit_word_eqI)
      (use snoc.prems in \<open>auto simp: unbe_snoc bit_simps dest: bit_unbe_less\<close>)
  moreover have "(ucast (unbe (bs @ [b]) :: 'a word) :: byte) = b"
    by (rule bit_word_eqI) (use snoc.prems in \<open>auto simp: unbe_snoc bit_simps\<close>)
  ultimately show ?case
    using snoc by (auto simp: be_Suc)
qed simp

section \<open>Loops over a slice that remember the keys they have seen\<close>

text \<open>
  The recurring loop
  \<^verbatim>\<open>for _, x := range xs { if bad(x) {return e}; if _, dup := seen[key(x)]; dup {return d}; seen[key(x)] = struct{}{} }\<close>
  with \<open>check\<close> the per-element conditions, \<open>dup\<close> the error for a repeated key and the
  set of keys seen so far threaded as a list.
\<close>

fun scan_seen :: "('a \<Rightarrow> 'e option) \<Rightarrow> ('a \<Rightarrow> 'k) \<Rightarrow> ('a \<Rightarrow> 'e) \<Rightarrow> 'k list \<Rightarrow> 'a list \<Rightarrow> 'e + 'k list"
where
  "scan_seen check key dup seen [] = Inr seen"
| "scan_seen check key dup seen (x # xs) =
     (case check x of
        Some e \<Rightarrow> Inl e
      | None \<Rightarrow>
          if key x \<in> set seen then Inl (dup x)
          else scan_seen check key dup (key x # seen) xs)"

lemma scan_seen_Inr_iff [result_simps]:
  "scan_seen check key dup seen xs = Inr r \<longleftrightarrow>
     (\<forall>x \<in> set xs. check x = None) \<and> distinct (map key xs) \<and>
     set (map key xs) \<inter> set seen = {} \<and> r = rev (map key xs) @ seen"
  by (induction xs arbitrary: seen) (auto split: option.splits)

lemma scan_seen_Inl:
  "scan_seen check key dup seen xs = Inl e \<Longrightarrow> \<exists>x \<in> set xs. check x = Some e \<or> e = dup x"
  by (induction xs arbitrary: seen) (auto split: option.splits if_splits)

lemma scan_seen_ok_iff:
  "is_ok (scan_seen check key dup [] xs) \<longleftrightarrow>
     (\<forall>x \<in> set xs. check x = None) \<and> distinct (map key xs)"
  by (auto simp: is_ok_iff result_simps)

section \<open>Slices sorted by a key\<close>

text \<open>
  \<open>sort.Slice\<close> is modelled by \<open>sort_key\<close>.  It is not stable in Go; every use below sorts
  by keys that are pairwise different, or refuses the slice right after sorting when they
  are not, so that the order of equal keys is never observable in a successful result.
\<close>

lemma filter_eq_singleton: "distinct zs \<Longrightarrow> k \<in> set zs \<Longrightarrow> filter (\<lambda>x. x = k) zs = [k]"
  by (induction zs) (auto simp: filter_empty_conv)

lemma sort_key_unique:
  assumes "distinct (map f xs)" "mset ys = mset xs" "sorted (map f ys)"
  shows "sort_key f xs = ys"
proof (rule properties_for_sort_key)
  show "mset ys = mset xs" by fact
  show "sorted (map f ys)" by fact
  show "filter (\<lambda>x. f k = f x) ys = filter (\<lambda>x. f k = f x) xs" if "k \<in> set ys" for k
  proof -
    have inj: "inj_on f (set xs)" and d: "distinct xs"
      using assms(1) by (auto simp: distinct_map)
    have set_eq: "set ys = set xs" using assms(2) by (metis set_mset_mset)
    have dy: "distinct ys" using assms(2) d by (metis mset_eq_imp_distinct_iff)
    have "filter (\<lambda>x. f k = f x) zs = [k]" if "distinct zs" "set zs = set xs" for zs
    proof -
      have "filter (\<lambda>x. f k = f x) zs = filter (\<lambda>x. x = k) zs"
        using inj that \<open>k \<in> set ys\<close> set_eq by (intro filter_cong) (auto dest: inj_onD)
      also have "\<dots> = [k]"
        using that \<open>k \<in> set ys\<close> set_eq by (simp add: filter_eq_singleton)
      finally show ?thesis .
    qed
    from this [OF dy set_eq] this [OF d refl] show ?thesis by simp
  qed
qed

lemma sort_key_idem: "sorted (map f xs) \<Longrightarrow> sort_key f xs = xs"
  by (simp add: sorted_sort_id sort_key_stable properties_for_sort_key)

lemma sorted_distinct_upt:
  fixes ns :: "nat list"
  assumes "sorted ns" "distinct ns" "set ns = {1..length ns}"
  shows "ns = [1..<Suc (length ns)]"
  using assms
  by (metis sorted_distinct_set_unique sorted_upt distinct_upt set_upt atLeastLessThanSuc_atLeastAtMost)

lemma subset_card_complete:
  fixes ns :: "nat list"
  assumes "distinct ns" "{1..length ns} \<subseteq> set ns"
  shows "set ns = {1..length ns}"
  using assms by (metis card_atLeastAtMost card_subset_eq diff_Suc_1 distinct_card finite_set)

section \<open>Indexes by key\<close>

text \<open>\<open>for i, x := range xs { m[key(x)] = i }\<close>: a later element overrides an earlier one.\<close>

definition index_of :: "('a \<Rightarrow> 'k) \<Rightarrow> 'a list \<Rightarrow> ('k \<rightharpoonup> nat)" where
  "index_of key xs = map_of (rev (zip (map key xs) [0..<length xs]))"

lemma map_of_rev_distinct: "distinct (map fst xs) \<Longrightarrow> map_of (rev xs) = map_of xs"
  by (rule map_of_inject_set [THEN iffD2]) (simp_all flip: rev_map)

lemma index_of_Some_iff:
  assumes "distinct (map key xs)"
  shows "index_of key xs p = Some i \<longleftrightarrow> i < length xs \<and> key (xs ! i) = p"
proof -
  have "map_of (rev (zip (map key xs) [0..<length xs])) p = Some i \<longleftrightarrow>
      (p, i) \<in> set (zip (map key xs) [0..<length xs])"
    using assms by (subst map_of_eq_Some_iff) (simp_all flip: rev_map)
  also have "\<dots> \<longleftrightarrow> i < length xs \<and> key (xs ! i) = p"
    by (auto simp: in_set_zip intro!: exI [of _ i])
  finally show ?thesis by (simp add: index_of_def)
qed

end
