(* ===== verification/Go_Path.thy ===== *)
theory Go_Path
  imports Prelude
begin

text \<open>
  The part of Go's \<open>path/filepath\<close> (Unix) that the program uses: \<open>IsAbs\<close>, \<open>Clean\<close>,
  \<open>Base\<close> and \<open>Join\<close>, and the program's own path predicates that are written with them:
  \<open>normalizeRelativePath\<close>, \<open>validateBaseName\<close> and \<open>validateRootPath\<close>
  (\<open>internal/sourcefiles/tree.go\<close>) and \<open>cleanAbsolute\<close>
  (\<open>internal/runcommand/request.go\<close>).  The main facts characterise the accepted paths by
  their components: no component is empty, \<open>.\<close> or \<open>..\<close>, so no accepted relative path
  leaves the directory it is resolved in.
\<close>

abbreviation slash :: char where "slash \<equiv> CHR ''/''"

section \<open>Splitting at separators\<close>

fun split_on :: "char \<Rightarrow> string \<Rightarrow> string list" where
  "split_on sep [] = [[]]"
| "split_on sep (c # s) =
     (if c = sep then [] # split_on sep s
      else (case split_on sep s of
              [] \<Rightarrow> [[c]]
            | p # ps \<Rightarrow> (c # p) # ps))"

fun join_with :: "char \<Rightarrow> string list \<Rightarrow> string" where
  "join_with sep [] = []"
| "join_with sep [p] = p"
| "join_with sep (p # ps) = p @ sep # join_with sep ps"

lemma split_on_not_Nil [simp]: "split_on sep s \<noteq> []"
  by (cases s) (auto split: list.splits)

lemma join_with_Cons_char: "join_with sep ((c # p) # ps) = c # join_with sep (p # ps)"
  by (cases ps) auto

lemma join_with_Nil_Cons: "ps \<noteq> [] \<Longrightarrow> join_with sep ([] # ps) = sep # join_with sep ps"
  by (cases ps) auto

lemma join_split [simp]: "join_with sep (split_on sep s) = s"
  by (induction s) (auto simp: join_with_Cons_char join_with_Nil_Cons split: list.splits)

lemma split_on_no_sep: "p \<in> set (split_on sep s) \<Longrightarrow> sep \<notin> set p"
  by (induction s arbitrary: p) (auto split: list.splits if_splits)

lemma split_on_append: "sep \<notin> set p \<Longrightarrow> split_on sep (p @ sep # s) = p # split_on sep s"
  by (induction p) auto

lemma split_on_single: "sep \<notin> set p \<Longrightarrow> split_on sep p = [p]"
  by (induction p) auto

lemma split_join:
  "ps \<noteq> [] \<Longrightarrow> (\<And>p. p \<in> set ps \<Longrightarrow> sep \<notin> set p) \<Longrightarrow> split_on sep (join_with sep ps) = ps"
  by (induction sep ps rule: join_with.induct) (auto simp: split_on_append split_on_single)

section \<open>filepath\<close>

definition IsAbs :: "string \<Rightarrow> bool" where
  "IsAbs p = (case p of [] \<Rightarrow> False | c # _ \<Rightarrow> c = slash)"

text \<open>One path element of \<open>Clean\<close>'s loop; the output is kept reversed.\<close>

definition clean_step :: "bool \<Rightarrow> string list \<Rightarrow> string \<Rightarrow> string list" where
  "clean_step rooted out part =
     (if part = '''' \<or> part = ''.'' then out
      else if part = ''..'' then
        (case out of
           x # xs \<Rightarrow> if x \<noteq> ''..'' then xs else ''..'' # out
         | [] \<Rightarrow> if rooted then [] else [''..''])
      else part # out)"

definition Clean :: "string \<Rightarrow> string" where
  "Clean p =
     (if p = '''' then ''.''
      else let rooted = IsAbs p;
               out = rev (foldl (clean_step rooted) [] (split_on slash p))
           in if rooted then slash # join_with slash out
              else if out = [] then ''.'' else join_with slash out)"

definition drop_trailing_slashes :: "string \<Rightarrow> string" where
  "drop_trailing_slashes p = rev (dropWhile (\<lambda>c. c = slash) (rev p))"

lemma drop_trailing_slashes_id: "p \<noteq> [] \<Longrightarrow> last p \<noteq> slash \<Longrightarrow> drop_trailing_slashes p = p"
  by (cases p rule: rev_cases) (auto simp: drop_trailing_slashes_def)

definition Base :: "string \<Rightarrow> string" where
  "Base p =
     (if p = '''' then ''.''
      else let q = drop_trailing_slashes p
           in if q = '''' then ''/'' else last (split_on slash q))"

definition Join :: "string list \<Rightarrow> string" where
  "Join ps = (case filter (\<lambda>p. p \<noteq> '''') ps of [] \<Rightarrow> '''' | qs \<Rightarrow> Clean (join_with slash qs))"

lemma Clean_examples:
  "Clean ''a/./b//c/../d'' = ''a/b/d''" "Clean ''/../a/'' = ''/a''" "Clean ''../../x'' = ''../../x''"
  "Clean ''a/..'' = ''.''" "Clean ''/'' = ''/''" "Base ''/a/b//'' = ''b''" "Base ''/'' = ''/''"
  by (simp_all add: Clean_def IsAbs_def clean_step_def Base_def drop_trailing_slashes_def)

text \<open>A proper component: what a cleaned path consists of below its leading \<open>..\<close> elements.\<close>

definition proper_part :: "string \<Rightarrow> bool" where
  "proper_part p \<longleftrightarrow> p \<noteq> '''' \<and> p \<noteq> ''.'' \<and> p \<noteq> ''..'' \<and> slash \<notin> set p"

definition parts :: "string \<Rightarrow> string list" where
  "parts p = split_on slash p"

lemma clean_step_proper: "proper_part p \<Longrightarrow> clean_step r out p = p # out"
  by (simp add: clean_step_def proper_part_def)

lemma foldl_clean_proper:
  "list_all proper_part ps \<Longrightarrow> foldl (clean_step r) out ps = rev ps @ out"
  by (induction ps arbitrary: out) (auto simp: clean_step_proper)

text \<open>The output stack: no empty or dot element, and \<open>..\<close> only below everything else.\<close>

fun stack_ok :: "bool \<Rightarrow> string list \<Rightarrow> bool" where
  "stack_ok r [] = True"
| "stack_ok r (x # xs) =
     (x \<noteq> '''' \<and> x \<noteq> ''.'' \<and> slash \<notin> set x \<and>
      (x = ''..'' \<longrightarrow> \<not> r \<and> set xs \<subseteq> {''..''}) \<and> stack_ok r xs)"

lemma clean_step_stack_ok:
  "stack_ok r out \<Longrightarrow> slash \<notin> set p \<Longrightarrow> stack_ok r (clean_step r out p)"
  by (cases out) (auto simp: clean_step_def)

lemma foldl_clean_stack_ok:
  "stack_ok r out \<Longrightarrow> (\<And>p. p \<in> set ps \<Longrightarrow> slash \<notin> set p) \<Longrightarrow>
     stack_ok r (foldl (clean_step r) out ps)"
  by (induction ps arbitrary: out) (auto intro: clean_step_stack_ok)

lemma stack_ok_parts:
  assumes "stack_ok r xs" "x \<in> set xs"
  shows "x \<noteq> ''''" "x \<noteq> ''.''" "slash \<notin> set x" "r \<Longrightarrow> x \<noteq> ''..''"
  using assms by (induction xs) auto

lemma stack_ok_dotdot_last: "stack_ok r xs \<Longrightarrow> ''..'' \<in> set xs \<Longrightarrow> last xs = ''..''"
proof (induction xs)
  case (Cons x xs)
  then show ?case using last_in_set [of xs] by fastforce
qed simp

section \<open>The program's path predicates\<close>

datatype path_error = PathNotNormalized string | PathEscapes string | BaseNameInvalid string
  | RootNotNormalized string | RootIsFilesystemRoot string

text \<open>\<open>strings.HasPrefix\<close>.\<close>

definition HasPrefix :: "string \<Rightarrow> string \<Rightarrow> bool" where
  "HasPrefix s pre \<longleftrightarrow> take (length pre) s = pre"

definition normalizeRelativePath :: "string \<Rightarrow> path_error + string" where
  "normalizeRelativePath p =
     (let cleaned = Clean p in
      if p = '''' \<or> IsAbs p \<or> cleaned = ''.'' \<or> cleaned \<noteq> p then Inl (PathNotNormalized p)
      else if cleaned = ''..'' \<or> HasPrefix cleaned ''../'' then Inl (PathEscapes p)
      else Inr cleaned)"

definition validateBaseName :: "string \<Rightarrow> path_error + unit" where
  "validateBaseName b =
     (if b = '''' \<or> Base b \<noteq> b \<or> b = ''.'' \<or> b = ''..'' then Inl (BaseNameInvalid b)
      else Inr ())"

text \<open>On Unix \<open>filepath.VolumeName\<close> is empty, so the volume root is \<open>/\<close>.\<close>

definition validateRootPath :: "string \<Rightarrow> path_error + string" where
  "validateRootPath root =
     (if \<not> IsAbs root \<or> Clean root \<noteq> root then Inl (RootNotNormalized root)
      else if root = ''/'' then Inl (RootIsFilesystemRoot root)
      else bind_r (validateBaseName (Base root)) (\<lambda>_. Inr (Base root)))"

definition cleanAbsolute :: "string \<Rightarrow> bool" where
  "cleanAbsolute p \<longleftrightarrow> p \<noteq> '''' \<and> IsAbs p \<and> Clean p = p \<and> \<not> has_nul p"

lemma parts_no_slash: "p \<in> set (parts s) \<Longrightarrow> slash \<notin> set p"
  by (simp add: parts_def split_on_no_sep)

lemma proper_not_abs: "list_all proper_part (parts p) \<Longrightarrow> p \<noteq> '''' \<and> \<not> IsAbs p"
  by (cases p) (auto simp: parts_def IsAbs_def proper_part_def)

lemma Clean_proper: "list_all proper_part (parts p) \<Longrightarrow> Clean p = p"
  using proper_not_abs [of p] foldl_clean_proper [of "parts p" False "[]"]
  by (simp add: Clean_def parts_def)

lemma hd_split_on_dotdot:
  assumes "hd (split_on slash p) = ''..''"
  shows "p = ''..'' \<or> HasPrefix p ''../''"
proof -
  obtain ps where ps: "split_on slash p = ''..'' # ps"
    using assms by (cases "split_on slash p") auto
  then have "p = join_with slash (''..'' # ps)" by (metis join_split)
  then show ?thesis by (cases ps) (auto simp: HasPrefix_def)
qed

lemma relative_clean_parts:
  assumes "p \<noteq> ''''" "\<not> IsAbs p" "Clean p = p" "p \<noteq> ''.''"
    "p \<noteq> ''..''" "\<not> HasPrefix p ''../''"
  shows "list_all proper_part (parts p)"
proof -
  define out where "out = foldl (clean_step False) [] (split_on slash p)"
  have ok: "stack_ok False out"
    unfolding out_def by (rule foldl_clean_stack_ok) (auto dest: split_on_no_sep)
  have join: "out \<noteq> [] \<and> join_with slash (rev out) = p"
    using assms(1-4) by (auto simp: Clean_def out_def Let_def split: if_splits)
  then have parts: "parts p = rev out"
    unfolding parts_def using ok by (metis rev_is_Nil_conv set_rev split_join stack_ok_parts(3))
  have "''..'' \<notin> set out"
  proof
    assume "''..'' \<in> set out"
    with ok have "last out = ''..''" by (rule stack_ok_dotdot_last)
    then have "hd (split_on slash p) = ''..''"
      using parts join by (simp add: parts_def hd_rev)
    with assms(5,6) show False by (blast dest: hd_split_on_dotdot)
  qed
  then show ?thesis
    using stack_ok_parts [OF ok] unfolding parts by (auto simp: list_all_iff proper_part_def)
qed

lemma proper_not_dotdot:
  assumes "list_all proper_part (parts p)"
  shows "p \<noteq> ''.''" "p \<noteq> ''..''" "\<not> HasPrefix p ''../''"
proof -
  show "p \<noteq> ''.''" "p \<noteq> ''..''"
    using assms by (auto simp: parts_def proper_part_def)
  have "''..'' \<in> set (parts (''../'' @ q))" for q
    using split_on_append [of slash "''..''" q] by (simp add: parts_def)
  moreover have "p = ''../'' @ drop (length ''../'') p" if "HasPrefix p ''../''"
    using that append_take_drop_id [of "length ''../''" p] unfolding HasPrefix_def by metis
  ultimately show "\<not> HasPrefix p ''../''"
    using assms by (metis list_all_iff proper_part_def)
qed

lemma normalizeRelativePath_Inr_iff [result_simps]:
  "normalizeRelativePath p = Inr q \<longleftrightarrow> q = p \<and> list_all proper_part (parts p)"
  using relative_clean_parts [of p] Clean_proper [of p] proper_not_abs [of p] proper_not_dotdot [of p]
  by (auto simp: normalizeRelativePath_def Let_def)

text \<open>The components of a clean absolute path other than \<open>/\<close>.\<close>

lemma absolute_clean_parts:
  assumes "IsAbs p" "Clean p = p" "p \<noteq> ''/''"
  shows "\<exists>ps. ps \<noteq> [] \<and> list_all proper_part ps \<and> p = slash # join_with slash ps"
proof -
  define out where "out = foldl (clean_step True) [] (split_on slash p)"
  have ok: "stack_ok True out"
    unfolding out_def by (rule foldl_clean_stack_ok) (auto dest: split_on_no_sep)
  have p: "p = slash # join_with slash (rev out)"
    using assms by (auto simp: Clean_def out_def Let_def IsAbs_def split: if_splits)
  with assms(3) have "out \<noteq> []" by auto
  moreover have "list_all proper_part (rev out)"
    using stack_ok_parts [OF ok] by (auto simp: list_all_iff proper_part_def)
  ultimately show ?thesis using p by (intro exI [of _ "rev out"]) simp
qed

end
