(* ===== verification/Source_Tree.thy ===== *)
theory Source_Tree
  imports Go_Path
begin

text \<open>
  The frozen logical source tree (\<open>internal/sourcefiles/tree.go\<close>): files, directories and
  entries as the scanner captures them, the constructors with their checks, the flattening
  into sorted file and empty-directory lists with their path indexes, and the snapshot that
  every later stage reads.  A nil pointer is \<open>None\<close>.  The lemmas show that flattening
  keeps exactly the members of the tree, without repetition, and that the index maps and
  the kind map agree with the lists.
\<close>

section \<open>Data\<close>

datatype source_object_kind =
  sourceNoObject | sourceDirectoryObject | sourceRegularObject | sourceSymlinkObject | sourceSpecialObject

record source_identity =
  si_device :: u64
  si_inode :: u64
  si_kind :: source_object_kind

record backing_reference =
  anchor :: u32
  br_path :: string

text \<open>\<open>EntryKind\<close>; \<open>NoEntry\<close> is the zero value (and any other unused value).\<close>

datatype entry_kind = NoEntry | DirectoryEntry | RegularFileEntry

record source_file =
  sf_path :: string
  sf_size :: u64
  sf_backing :: backing_reference

datatype source_directory =
    SourceDirectory (sd_path: string) (sd_backing: backing_reference) (sd_children: "source_entry list")
and source_entry =
    SourceEntry (se_kind: entry_kind) (se_directory: "source_directory option")
      (se_file: "source_file option")

record source_summary =
  followedSymlinks :: u64
  ignoredSymlinks :: u64
  emptyDirectories :: u64
  ignoredSpecialFiles :: u64

datatype tree_error =
    TreePath path_error
  | MultipleBackingReferences
  | ChildInvalidType nat
  | ChildRepeated string
  | SnapshotRootInvalid
  | TreeRootInvalid
  | TreeRepeatsPath string
  | TreeInvalidFile
  | TreeInvalidDirectory
  | TreeInvalidEntryType

definition lift_path :: "path_error + 'a \<Rightarrow> tree_error + 'a" where
  "lift_path r = (case r of Inl e \<Rightarrow> Inl (TreePath e) | Inr x \<Rightarrow> Inr x)"

lemma lift_path_Inr_iff [result_simps]: "lift_path r = Inr x \<longleftrightarrow> r = Inr x"
  by (cases r) (auto simp: lift_path_def)

section \<open>Constructors and accessors\<close>

definition newSourceFile ::
  "string \<Rightarrow> u64 \<Rightarrow> backing_reference list \<Rightarrow> tree_error + source_file" where
  "newSourceFile relativePath sz backing =
     bind_r (lift_path (normalizeRelativePath relativePath)) (\<lambda>normalized.
       if length backing > 1 then Inl MultipleBackingReferences
       else let reference = (case backing of [] \<Rightarrow> \<lparr>anchor = 0, br_path = normalized\<rparr> | b # _ \<Rightarrow> b)
            in Inr \<lparr>sf_path = normalized, sf_size = sz, sf_backing = reference\<rparr>)"

definition entry_path :: "source_entry \<Rightarrow> string" where
  "entry_path e =
     (case se_directory e of
        Some d \<Rightarrow> sd_path d
      | None \<Rightarrow> (case se_file e of Some f \<Rightarrow> sf_path f | None \<Rightarrow> ''''))"

definition entry_name :: "source_entry \<Rightarrow> string" where
  "entry_name e = Base (entry_path e)"

definition entry_Directory :: "source_entry \<Rightarrow> source_directory option" where
  "entry_Directory e = (if se_kind e \<noteq> DirectoryEntry then None else se_directory e)"

definition entry_File :: "source_entry \<Rightarrow> source_file option" where
  "entry_File e = (if se_kind e \<noteq> RegularFileEntry then None else se_file e)"

text \<open>The loop over the sorted children: \<open>previous\<close> is the name of the child before.\<close>

fun check_children :: "nat \<Rightarrow> string option \<Rightarrow> source_entry list \<Rightarrow> tree_error + unit" where
  "check_children index previous [] = Inr ()"
| "check_children index previous (child # rest) =
     (if se_kind child \<noteq> DirectoryEntry \<and> se_kind child \<noteq> RegularFileEntry
      then Inl (ChildInvalidType index)
      else if previous = Some (entry_name child) then Inl (ChildRepeated (entry_name child))
      else check_children (Suc index) (Some (entry_name child)) rest)"

definition newSourceDirectory ::
  "string \<Rightarrow> backing_reference \<Rightarrow> source_entry list \<Rightarrow> tree_error + source_directory" where
  "newSourceDirectory relativePath backing children =
     bind_r (if relativePath \<noteq> ''''
             then bind_r (lift_path (normalizeRelativePath relativePath)) (\<lambda>_. Inr ()) else Inr ())
       (\<lambda>_. let copied = sort_key entry_name children
            in bind_r (check_children 0 None copied)
                 (\<lambda>_. Inr (SourceDirectory relativePath backing copied)))"

definition directoryEntry :: "source_directory \<Rightarrow> source_entry" where
  "directoryEntry d = SourceEntry DirectoryEntry (Some d) None"

definition fileEntry :: "source_file \<Rightarrow> source_entry" where
  "fileEntry f = SourceEntry RegularFileEntry None (Some f)"

definition backing_valid :: "backing_reference \<Rightarrow> nat \<Rightarrow> bool" where
  "backing_valid r anchorCount =
     (if unat (anchor r) \<ge> anchorCount then False
      else if br_path r = ''.'' then True
      else is_ok (normalizeRelativePath (br_path r)))"

definition sd_empty :: "source_directory \<Rightarrow> bool" where
  "sd_empty d \<longleftrightarrow> sd_children d = []"

section \<open>Flattening\<close>

record flattened_source_tree =
  ft_files :: "source_file list"
  ft_emptyDirs :: "source_directory list"
  ft_fileIndex :: "string \<rightharpoonup> nat"
  ft_emptyDirIndex :: "string \<rightharpoonup> nat"
  ft_entryKinds :: "string \<rightharpoonup> entry_kind"

text \<open>The variables the recursive closure \<open>walk\<close> captures.\<close>

record walk_state =
  ws_files :: "source_file list"
  ws_emptyDirs :: "source_directory list"
  ws_seen :: "string \<rightharpoonup> entry_kind"

definition mark_seen :: "string \<Rightarrow> entry_kind \<Rightarrow> walk_state \<Rightarrow> walk_state" where
  "mark_seen path kind st = st\<lparr>ws_seen := (ws_seen st)(path \<mapsto> kind)\<rparr>"

definition note_file :: "source_file \<Rightarrow> walk_state \<Rightarrow> walk_state" where
  "note_file f st = st\<lparr>ws_files := ws_files st @ [f]\<rparr>"

definition note_directory :: "source_directory \<Rightarrow> walk_state \<Rightarrow> walk_state" where
  "note_directory d st =
     (if sd_empty d then st\<lparr>ws_emptyDirs := ws_emptyDirs st @ [d]\<rparr> else st)"

fun walk :: "source_entry list \<Rightarrow> walk_state \<Rightarrow> tree_error + walk_state" where
  "walk [] st = Inr st"
| "walk (SourceEntry kind dir file # rest) st =
     (let path = entry_path (SourceEntry kind dir file) in
      if ws_seen st path \<noteq> None then Inl (TreeRepeatsPath path)
      else case kind of
          RegularFileEntry \<Rightarrow>
            (case file of
               None \<Rightarrow> Inl TreeInvalidFile
             | Some f \<Rightarrow> walk rest (note_file f (mark_seen path kind st)))
        | DirectoryEntry \<Rightarrow>
            (case dir of
               None \<Rightarrow> Inl TreeInvalidDirectory
             | Some (SourceDirectory p b children) \<Rightarrow>
                 bind_r
                   (walk children
                     (note_directory (SourceDirectory p b children) (mark_seen path kind st)))
                   (walk rest))
        | NoEntry \<Rightarrow> Inl TreeInvalidEntryType)"

definition flattenTree :: "source_directory \<Rightarrow> tree_error + flattened_source_tree" where
  "flattenTree root =
     (if sd_path root \<noteq> '''' then Inl TreeRootInvalid
      else bind_r (walk (sd_children root) \<lparr>ws_files = [], ws_emptyDirs = [], ws_seen = Map.empty\<rparr>)
        (\<lambda>st. let files = sort_key sf_path (ws_files st);
                  emptyDirs = sort_key sd_path (ws_emptyDirs st)
              in Inr \<lparr>ft_files = files, ft_emptyDirs = emptyDirs,
                      ft_fileIndex = index_of sf_path files,
                      ft_emptyDirIndex = index_of sd_path emptyDirs,
                      ft_entryKinds = ws_seen st\<rparr>))"

section \<open>Snapshots\<close>

text \<open>
  The capability is a pointer compared for identity; it is an address (\<open>nat\<close>), \<open>None\<close>
  when nil.  A snapshot is a pointer to its contents.
\<close>

record source_snapshot_contents =
  sc_baseName :: string
  sc_sourceIdentity :: source_identity
  sc_source :: "nat option"
  sc_tree :: source_directory
  sc_files :: "source_file list"
  sc_emptyDirs :: "source_directory list"
  sc_fileIndex :: "string \<rightharpoonup> nat"
  sc_emptyDirIndex :: "string \<rightharpoonup> nat"
  sc_entryKinds :: "string \<rightharpoonup> entry_kind"
  sc_summary :: source_summary

type_synonym source_snapshot = "source_snapshot_contents option"

definition newSourceSnapshot ::
  "string \<Rightarrow> source_identity \<Rightarrow> nat option \<Rightarrow> source_directory \<Rightarrow> source_summary \<Rightarrow>
     tree_error + source_snapshot" where
  "newSourceSnapshot baseName identity source tree summary =
     bind_r (lift_path (validateBaseName baseName)) (\<lambda>_.
       if si_kind identity \<noteq> sourceDirectoryObject \<or> source = None then Inl SnapshotRootInvalid
       else bind_r (flattenTree tree) (\<lambda>entries.
         Inr (Some \<lparr>sc_baseName = baseName, sc_sourceIdentity = identity, sc_source = source,
                sc_tree = tree, sc_files = ft_files entries, sc_emptyDirs = ft_emptyDirs entries,
                sc_fileIndex = ft_fileIndex entries, sc_emptyDirIndex = ft_emptyDirIndex entries,
                sc_entryKinds = ft_entryKinds entries, sc_summary = summary\<rparr>)))"

definition snapshot_BaseName :: "source_snapshot \<Rightarrow> string" where
  "snapshot_BaseName s = (case s of None \<Rightarrow> '''' | Some c \<Rightarrow> sc_baseName c)"

definition snapshot_RootDirectory :: "source_snapshot \<Rightarrow> source_directory" where
  "snapshot_RootDirectory s =
     (case s of None \<Rightarrow> SourceDirectory '''' \<lparr>anchor = 0, br_path = ''''\<rparr> [] | Some c \<Rightarrow> sc_tree c)"

definition snapshot_Files :: "source_snapshot \<Rightarrow> source_file list" where
  "snapshot_Files s = (case s of None \<Rightarrow> [] | Some c \<Rightarrow> sc_files c)"

definition snapshot_EmptyDirectories :: "source_snapshot \<Rightarrow> source_directory list" where
  "snapshot_EmptyDirectories s = (case s of None \<Rightarrow> [] | Some c \<Rightarrow> sc_emptyDirs c)"

section \<open>What flattening keeps\<close>

text \<open>
  The members of a list of entries in preorder: its files, its empty directories, and every
  path with its kind.
\<close>

fun entries_files :: "source_entry list \<Rightarrow> source_file list" where
  "entries_files [] = []"
| "entries_files (SourceEntry kind dir file # rest) =
     (case kind of
        RegularFileEntry \<Rightarrow> (case file of None \<Rightarrow> [] | Some f \<Rightarrow> [f])
      | DirectoryEntry \<Rightarrow>
          (case dir of None \<Rightarrow> [] | Some (SourceDirectory p b cs) \<Rightarrow> entries_files cs)
      | NoEntry \<Rightarrow> []) @ entries_files rest"

fun entries_empty :: "source_entry list \<Rightarrow> source_directory list" where
  "entries_empty [] = []"
| "entries_empty (SourceEntry kind dir file # rest) =
     (case kind of
        DirectoryEntry \<Rightarrow>
          (case dir of
             None \<Rightarrow> []
           | Some (SourceDirectory p b cs) \<Rightarrow>
               (if cs = [] then [SourceDirectory p b cs] else []) @ entries_empty cs)
      | _ \<Rightarrow> []) @ entries_empty rest"

fun entries_kinds :: "source_entry list \<Rightarrow> (string \<times> entry_kind) list" where
  "entries_kinds [] = []"
| "entries_kinds (SourceEntry kind dir file # rest) =
     (entry_path (SourceEntry kind dir file), kind) #
     (case kind of
        DirectoryEntry \<Rightarrow>
          (case dir of None \<Rightarrow> [] | Some (SourceDirectory p b cs) \<Rightarrow> entries_kinds cs)
      | _ \<Rightarrow> []) @ entries_kinds rest"

text \<open>Every entry was made by \<open>directoryEntry\<close> or \<open>fileEntry\<close>, at every depth.\<close>

fun entries_wf :: "source_entry list \<Rightarrow> bool" where
  "entries_wf [] = True"
| "entries_wf (SourceEntry kind dir file # rest) =
     ((case kind of
         RegularFileEntry \<Rightarrow> dir = None \<and> file \<noteq> None
       | DirectoryEntry \<Rightarrow>
           file = None \<and> (case dir of None \<Rightarrow> False | Some (SourceDirectory p b cs) \<Rightarrow> entries_wf cs)
       | NoEntry \<Rightarrow> False) \<and> entries_wf rest)"

text \<open>The effect of walking over members with the given files, empty directories and kinds.\<close>

definition walked ::
  "source_file list \<Rightarrow> source_directory list \<Rightarrow> (string \<times> entry_kind) list \<Rightarrow> walk_state \<Rightarrow>
     walk_state \<Rightarrow> bool" where
  "walked fs es ks st st' \<longleftrightarrow>
     ws_files st' = ws_files st @ fs \<and> ws_emptyDirs st' = ws_emptyDirs st @ es \<and>
     ws_seen st' = ws_seen st ++ map_of (rev ks) \<and>
     distinct (map fst ks) \<and> set (map fst ks) \<inter> dom (ws_seen st) = {}"

lemma walked_refl: "walked [] [] [] st st"
  by (simp add: walked_def)

lemma walked_trans:
  "walked fs es ks st st' \<Longrightarrow> walked fs' es' ks' st' st'' \<Longrightarrow>
     walked (fs @ fs') (es @ es') (ks @ ks') st st''"
  by (auto simp: walked_def dom_map_of_conv_image_fst)

lemma walked_file:
  "ws_seen st path = None \<Longrightarrow> walked [f] [] [(path, kind)] st (note_file f (mark_seen path kind st))"
  by (auto simp: walked_def note_file_def mark_seen_def)

lemma walked_directory:
  "ws_seen st path = None \<Longrightarrow>
     walked [] (if sd_empty d then [d] else []) [(path, kind)] st
       (note_directory d (mark_seen path kind st))"
  by (auto simp: walked_def note_directory_def mark_seen_def)

lemma walk_Inr:
  "walk es st = Inr st' \<Longrightarrow> walked (entries_files es) (entries_empty es) (entries_kinds es) st st'"
proof (induction es st arbitrary: st' rule: walk.induct)
  case (2 kind dir fl rest st)
  let ?path = "entry_path (SourceEntry kind dir fl)"
  have fresh: "ws_seen st ?path = None"
    using "2.prems" by (auto simp: Let_def split: if_splits)
  show ?case
  proof (cases kind)
    case NoEntry
    with "2.prems" show ?thesis by (simp add: Let_def split: if_splits)
  next
    case RegularFileEntry
    with "2.prems" fresh obtain f where f: "fl = Some f"
      and rest: "walk rest (note_file f (mark_seen ?path kind st)) = Inr st'"
      by (auto simp: Let_def split: option.splits)
    from walked_trans [OF walked_file [OF fresh] "2.IH"(3)] show ?thesis
      using RegularFileEntry f rest fresh by simp
  next
    case DirectoryEntry
    with "2.prems" fresh obtain d st3 where dir: "dir = Some d"
      and cs: "walk (sd_children d) (note_directory d (mark_seen ?path kind st)) = Inr st3"
      and rest: "walk rest st3 = Inr st'"
      by (auto simp: Let_def result_simps split: option.splits source_directory.splits)
    obtain p b c where d: "d = SourceDirectory p b c" by (cases d)
    have B: "walked (entries_files c) (entries_empty c) (entries_kinds c)
        (note_directory d (mark_seen ?path kind st)) st3"
      using "2.IH"(1) DirectoryEntry dir cs fresh d by simp
    have C: "walked (entries_files rest) (entries_empty rest) (entries_kinds rest) st3 st'"
      using "2.IH"(2) DirectoryEntry dir cs fresh rest d by simp
    from walked_trans [OF walked_trans [OF walked_directory [OF fresh] B] C] show ?thesis
      using DirectoryEntry dir d by (cases c) (simp_all add: sd_empty_def)
  qed
qed (simp add: walked_refl)

lemma ws_seen_simps:
  "ws_seen (mark_seen path kind st) = (ws_seen st)(path \<mapsto> kind)"
  "ws_seen (note_file f st) = ws_seen st"
  "ws_seen (note_directory d st) = ws_seen st"
  by (simp_all add: mark_seen_def note_file_def note_directory_def)

lemma dom_seen:
  "dom (ws_seen (note_file f (mark_seen path kind st))) = insert path (dom (ws_seen st))"
  "dom (ws_seen (note_directory d (mark_seen path kind st))) = insert path (dom (ws_seen st))"
  by (simp_all add: ws_seen_simps)

text \<open>On well-formed entries with pairwise different paths the walk never fails.\<close>

lemma walk_total:
  "entries_wf es \<Longrightarrow> distinct (map fst (entries_kinds es)) \<Longrightarrow>
     set (map fst (entries_kinds es)) \<inter> dom (ws_seen st) = {} \<Longrightarrow> is_ok (walk es st)"
proof (induction es st rule: walk.induct)
  case (2 kind dir fl rest st)
  let ?path = "entry_path (SourceEntry kind dir fl)"
  have fresh: "ws_seen st ?path = None" using "2.prems"(3) by auto
  show ?case
  proof (cases kind)
    case NoEntry
    with "2.prems" show ?thesis by simp
  next
    case RegularFileEntry
    with "2.prems" obtain f where f: "fl = Some f" by auto
    have "is_ok (walk rest (note_file f (mark_seen ?path kind st)))"
      by (rule "2.IH"(3) [OF refl])
        (use "2.prems" RegularFileEntry f fresh in \<open>auto simp: dom_seen\<close>)
    then show ?thesis using RegularFileEntry f fresh by simp
  next
    case DirectoryEntry
    with "2.prems" obtain p b c where dir: "dir = Some (SourceDirectory p b c)"
      by (auto split: option.splits source_directory.splits)
    let ?st2 = "note_directory (SourceDirectory p b c) (mark_seen ?path kind st)"
    have "is_ok (walk c ?st2)"
      by (rule "2.IH"(1) [OF refl])
        (use "2.prems" DirectoryEntry dir fresh in \<open>auto simp: dom_seen\<close>)
    then obtain st3 where st3: "walk c ?st2 = Inr st3" by (auto simp: is_ok_iff)
    then have "dom (ws_seen st3) = dom (ws_seen ?st2) \<union> set (map fst (entries_kinds c))"
      using walk_Inr [OF st3] by (simp add: walked_def dom_map_of_conv_image_fst Un_commute)
    then have "set (map fst (entries_kinds rest)) \<inter> dom (ws_seen st3) = {}"
      using "2.prems" DirectoryEntry dir by (auto simp: dom_seen)
    then have "is_ok (walk rest st3)"
      using "2.IH"(2) "2.prems" DirectoryEntry dir fresh st3 by simp
    then show ?thesis using DirectoryEntry dir fresh st3 by simp
  qed
qed simp

lemma entries_files_kinds:
  "entries_wf es \<Longrightarrow>
     map (\<lambda>f. (sf_path f, RegularFileEntry)) (entries_files es) =
       filter (\<lambda>pk. snd pk = RegularFileEntry) (entries_kinds es)"
  by (induction es rule: entries_wf.induct)
    (auto simp: entry_path_def split: entry_kind.splits option.splits source_directory.splits)

lemma entries_empty_kinds:
  "entries_wf es \<Longrightarrow> d \<in> set (entries_empty es) \<Longrightarrow> (sd_path d, DirectoryEntry) \<in> set (entries_kinds es)"
  by (induction es rule: entries_wf.induct)
    (auto simp: entry_path_def split: entry_kind.splits option.splits source_directory.splits if_splits)

lemma distinct_entries_empty:
  "entries_wf es \<Longrightarrow> distinct (map fst (entries_kinds es)) \<Longrightarrow> distinct (map sd_path (entries_empty es))"
proof (induction es rule: entries_wf.induct)
  case (2 kind dir fl rest)
  show ?case
  proof (cases kind)
    case DirectoryEntry
    with "2.prems" obtain p b c where dir: "dir = Some (SourceDirectory p b c)" "entries_wf c"
      by (auto split: option.splits source_directory.splits)
    have sub: "sd_path ` set (entries_empty es) \<subseteq> fst ` set (entries_kinds es)" if "entries_wf es" for es
      using entries_empty_kinds [OF that] by force
    have "fst ` set (entries_kinds c) \<inter> fst ` set (entries_kinds rest) = {}"
      "p \<notin> fst ` set (entries_kinds rest)" "entries_wf rest"
      using "2.prems" DirectoryEntry dir by (auto simp: entry_path_def)
    with sub [OF dir(2)] sub [of rest]
    have "sd_path ` set (entries_empty c) \<inter> sd_path ` set (entries_empty rest) = {}"
      "p \<notin> sd_path ` set (entries_empty rest)"
      by blast+
    then show ?thesis
      using 2 DirectoryEntry dir by (cases "c = []") auto
  qed (use 2 in \<open>auto split: option.splits\<close>)
qed simp

text \<open>
  The contract of a snapshot: its lists hold exactly the members of its tree, sorted and
  without repetition, and its maps are consistent with the lists.
\<close>

definition snapshot_ok :: "source_snapshot_contents \<Rightarrow> bool" where
  "snapshot_ok c \<longleftrightarrow>
     entries_wf (sd_children (sc_tree c)) \<and> sd_path (sc_tree c) = '''' \<and>
     mset (sc_files c) = mset (entries_files (sd_children (sc_tree c))) \<and>
     mset (sc_emptyDirs c) = mset (entries_empty (sd_children (sc_tree c))) \<and>
     sorted (map sf_path (sc_files c)) \<and> distinct (map sf_path (sc_files c)) \<and>
     sorted (map sd_path (sc_emptyDirs c)) \<and> distinct (map sd_path (sc_emptyDirs c)) \<and>
     sc_fileIndex c = index_of sf_path (sc_files c) \<and>
     sc_emptyDirIndex c = index_of sd_path (sc_emptyDirs c) \<and>
     sc_entryKinds c = map_of (entries_kinds (sd_children (sc_tree c))) \<and>
     distinct (map fst (entries_kinds (sd_children (sc_tree c))))"

lemma distinct_entries_files:
  assumes "entries_wf es" "distinct (map fst (entries_kinds es))"
  shows "distinct (map sf_path (entries_files es))"
proof -
  have "map sf_path (entries_files es) = map fst (map (\<lambda>f. (sf_path f, RegularFileEntry)) (entries_files es))"
    by simp
  also have "\<dots> = map fst (filter (\<lambda>pk. snd pk = RegularFileEntry) (entries_kinds es))"
    using assms(1) by (simp only: entries_files_kinds)
  finally show ?thesis using assms(2) by (simp add: distinct_map_filter)
qed

lemma newSourceSnapshot_ok:
  assumes "newSourceSnapshot baseName ident source tree summary = Inr s"
    and wf: "entries_wf (sd_children tree)"
  obtains c where "s = Some c" "snapshot_ok c" "sc_tree c = tree" "sc_baseName c = baseName"
    "validateBaseName baseName = Inr ()"
proof -
  from assms(1) obtain ft where ft: "flattenTree tree = Inr ft"
    and s: "s = Some \<lparr>sc_baseName = baseName, sc_sourceIdentity = ident, sc_source = source,
                sc_tree = tree, sc_files = ft_files ft, sc_emptyDirs = ft_emptyDirs ft,
                sc_fileIndex = ft_fileIndex ft, sc_emptyDirIndex = ft_emptyDirIndex ft,
                sc_entryKinds = ft_entryKinds ft, sc_summary = summary\<rparr>"
      (is "_ = Some ?c")
    and base: "validateBaseName baseName = Inr ()"
    by (auto simp: newSourceSnapshot_def result_simps split: if_splits)
  from ft obtain st where st: "walk (sd_children tree)
      \<lparr>ws_files = [], ws_emptyDirs = [], ws_seen = Map.empty\<rparr> = Inr st"
    and root: "sd_path tree = ''''"
    and ft_eq: "ft = \<lparr>ft_files = sort_key sf_path (ws_files st),
        ft_emptyDirs = sort_key sd_path (ws_emptyDirs st),
        ft_fileIndex = index_of sf_path (sort_key sf_path (ws_files st)),
        ft_emptyDirIndex = index_of sd_path (sort_key sd_path (ws_emptyDirs st)),
        ft_entryKinds = ws_seen st\<rparr>"
    by (auto simp: flattenTree_def result_simps Let_def split: if_splits)
  have walked: "ws_files st = entries_files (sd_children tree)"
    "ws_emptyDirs st = entries_empty (sd_children tree)"
    "ws_seen st = map_of (rev (entries_kinds (sd_children tree)))"
    "distinct (map fst (entries_kinds (sd_children tree)))"
    using walk_Inr [OF st] by (simp_all add: walked_def)
  have "snapshot_ok ?c"
    using wf root walked distinct_entries_files [OF wf] distinct_entries_empty [OF wf]
    by (simp add: snapshot_ok_def ft_eq map_of_rev_distinct distinct_map)
  with s base that show ?thesis by simp
qed

end
