(* ===== verification/Identity.thy ===== *)
theory Identity
  imports Prelude
begin

text \<open>
  The two identities of a run: the one-based transfer number
  (\<open>internal/transfernumber/number.go\<close>) and the random run identifier with its canonical
  lowercase hexadecimal spelling (\<open>internal/runid/id.go\<close>).  The theory instantiates
  \<open>linorder\<close> for transfer numbers (the order of \<open>Value()\<close>, by which every result set is
  sorted) and proves that \<open>Parse\<close> and \<open>String\<close> are inverse on usable identifiers.
\<close>

section \<open>Transfer numbers\<close>

definition transfer_maximum :: nat where
  "transfer_maximum = 35"

datatype transfer_number = Number (num_value: byte)

datatype number_error = NumberOutsideRange int

definition number_new :: "int \<Rightarrow> number_error + transfer_number" where
  "number_new v =
     (if v < 1 \<or> v > int transfer_maximum then Inl (NumberOutsideRange v)
      else Inr (Number (word_of_int v)))"

text \<open>The zero value \<open>Number{}\<close> stands for "no transfer".\<close>

abbreviation no_number :: transfer_number where
  "no_number \<equiv> Number 0"

definition num :: "transfer_number \<Rightarrow> nat" where
  "num n = unat (num_value n)"

instantiation transfer_number :: linorder
begin
definition less_eq_transfer_number :: "transfer_number \<Rightarrow> transfer_number \<Rightarrow> bool" where
  "less_eq_transfer_number a b \<longleftrightarrow> num_value a \<le> num_value b"
definition less_transfer_number :: "transfer_number \<Rightarrow> transfer_number \<Rightarrow> bool" where
  "less_transfer_number a b \<longleftrightarrow> num_value a < num_value b"
instance
  by standard
    (auto simp: less_eq_transfer_number_def less_transfer_number_def transfer_number.expand)
end

lemma num_inject [simp]: "num a = num b \<longleftrightarrow> a = b"
  by (cases a; cases b) (simp add: num_def word_eq_iff_unsigned [where 'a = nat])

lemma inj_num: "inj num"
  by (simp add: inj_def)

lemma num_zero_iff: "num a = 0 \<longleftrightarrow> a = no_number"
  by (cases a) (simp add: num_def unsigned_eq_0_iff)

lemma num_value_zero_iff: "num_value a = 0 \<longleftrightarrow> num a = 0"
  by (simp add: num_def unsigned_eq_0_iff)

lemma num_less_iff: "a < b \<longleftrightarrow> num a < num b"
  by (simp add: less_transfer_number_def num_def word_less_nat_alt)

lemma num_less_eq_iff: "a \<le> b \<longleftrightarrow> num a \<le> num b"
  by (simp add: less_eq_transfer_number_def num_def word_le_nat_alt)

lemma num_le_255: "num a \<le> 255"
  using unat_byte_less [of "num_value a"] by (simp add: num_def)

lemma number_new_Inr_iff [result_simps]:
  "number_new v = Inr n \<longleftrightarrow> 1 \<le> v \<and> v \<le> 35 \<and> int (num n) = v"
proof -
  have "Number (word_of_int v) = n \<longleftrightarrow> int (num n) = v" if "1 \<le> v" "v \<le> 35"
  proof -
    have "int (num (Number (word_of_int v))) = v"
      using that by (simp add: num_def unat_eq_nat_uint uint_word_of_int)
    then show ?thesis by (metis num_inject of_nat_eq_iff)
  qed
  then show ?thesis
    by (auto simp: number_new_def transfer_maximum_def)
qed

text \<open>A number produced by \<open>New\<close>: the only way code outside the package obtains one.\<close>

definition number_ok :: "transfer_number \<Rightarrow> bool" where
  "number_ok n \<longleftrightarrow> 1 \<le> num n \<and> num n \<le> transfer_maximum"

lemma number_new_uint [result_simps]:
  "number_new (uint b) = Inr n \<longleftrightarrow> n = Number b \<and> number_ok n"
proof -
  have "int (num n) = uint b \<longleftrightarrow> n = Number b"
    by (metis num_def num_inject of_nat_eq_iff transfer_number.sel uint_nat)
  moreover have "1 \<le> uint b \<and> uint b \<le> 35 \<longleftrightarrow> 1 \<le> num (Number b) \<and> num (Number b) \<le> 35"
    unfolding num_def transfer_number.sel uint_nat by linarith
  ultimately show ?thesis
    by (auto simp: number_new_Inr_iff number_ok_def transfer_maximum_def)
qed

lemma number_new_ok: "number_new v = Inr n \<Longrightarrow> number_ok n"
  by (auto simp: number_new_Inr_iff number_ok_def transfer_maximum_def)

section \<open>Complete numbered sets\<close>

text \<open>
  \<open>for expected := 1; expected <= len(xs); expected++ { if New(expected) not in seen {...} }\<close>:
  the first missing number, if any.  Beyond 35 \<open>New\<close> fails and the code looks up the zero
  value it returns.
\<close>

definition number_or_zero :: "nat \<Rightarrow> transfer_number" where
  "number_or_zero k = (case number_new (int k) of Inl _ \<Rightarrow> no_number | Inr n \<Rightarrow> n)"

definition first_missing :: "nat \<Rightarrow> transfer_number list \<Rightarrow> nat option" where
  "first_missing n seen = find (\<lambda>k. number_or_zero k \<notin> set seen) [1..<Suc n]"

lemma num_number_or_zero: "1 \<le> k \<Longrightarrow> k \<le> 35 \<Longrightarrow> num (number_or_zero k) = k"
  by (auto simp: number_or_zero_def number_new_Inr_iff split: sum.splits)
    (auto simp: number_new_def transfer_maximum_def split: if_splits)

lemma first_missing_None_iff:
  assumes "n \<le> transfer_maximum"
  shows "first_missing n seen = None \<longleftrightarrow> {1..n} \<subseteq> num ` set seen"
proof -
  have "number_or_zero k \<in> set seen \<longleftrightarrow> k \<in> num ` set seen" if "1 \<le> k" "k \<le> n" for k
    using num_number_or_zero [of k] that assms unfolding transfer_maximum_def
    by (metis (no_types, lifting) imageE image_eqI num_inject le_trans)
  then show ?thesis
    by (fastforce simp: first_missing_def find_None_iff subset_iff)
qed

lemma first_missing_case:
  "n \<le> transfer_maximum \<Longrightarrow>
     (case first_missing n seen of None \<Rightarrow> r | Some k \<Rightarrow> Inl (e k)) = Inr u \<longleftrightarrow>
     {1..n} \<subseteq> num ` set seen \<and> r = Inr u"
  using first_missing_None_iff [of n seen] by (cases "first_missing n seen") auto

text \<open>
  Numbers that are pairwise different and cover \<open>1..n\<close> are, once sorted, exactly the
  sequence \<open>1, 2, \<dots>, n\<close>.
\<close>

lemma complete_sorted_numbers:
  assumes "distinct (map f xs)" "{1..length xs} \<subseteq> num ` set (map f xs)"
  shows "map (num \<circ> f) (sort_key f xs) = [1..<Suc (length xs)]"
proof -
  let ?ns = "map (num \<circ> f) (sort_key f xs)"
  have "sorted (map f (sort_key f xs))" by simp
  then have "sorted ?ns"
    by (simp add: sorted_map num_less_eq_iff)
  moreover have d: "distinct ?ns"
    using assms(1) by (simp add: distinct_map inj_on_def)
  moreover have "set ?ns = {1..length ?ns}"
    using d assms(2) by (intro subset_card_complete) (auto simp: image_image)
  ultimately have "?ns = [1..<Suc (length ?ns)]"
    by (rule sorted_distinct_upt)
  then show ?thesis by simp
qed

text \<open>
  The contract of every operation that accepts a complete numbered group (commands, final
  results, selected networks): the numbers are pairwise different, exactly \<open>1..n\<close>, and \<open>n\<close>
  is at most the maximum.  Its clients sort by number or look a number up.
\<close>

locale numbered_group =
  fixes key :: "'a \<Rightarrow> transfer_number" and accepted :: "'a list \<Rightarrow> bool"
  assumes accepted_distinct: "accepted xs \<Longrightarrow> distinct (map key xs)"
    and accepted_complete: "accepted xs \<Longrightarrow> {1..length xs} \<subseteq> num ` set (map key xs)"
    and accepted_bound: "accepted xs \<Longrightarrow> length xs \<le> transfer_maximum"
begin

lemma numbers: "accepted xs \<Longrightarrow> num ` set (map key xs) = {1..length xs}"
  using subset_card_complete [of "map (num \<circ> key) xs"] accepted_distinct [of xs] accepted_complete [of xs]
  by (auto simp: distinct_map inj_on_def image_image)

lemma sorted_numbers: "accepted xs \<Longrightarrow> map (num \<circ> key) (sort_key key xs) = [1..<Suc (length xs)]"
  by (rule complete_sorted_numbers [OF accepted_distinct accepted_complete])

lemma nth_sorted: "accepted xs \<Longrightarrow> i < length xs \<Longrightarrow> num (key (sort_key key xs ! i)) = Suc i"
  using arg_cong [OF sorted_numbers, of xs "\<lambda>ns. ns ! i"] by (simp del: upt_Suc)

lemma keys_ok: "accepted xs \<Longrightarrow> x \<in> set xs \<Longrightarrow> number_ok (key x)"
  using numbers [of xs] accepted_bound [of xs] by (fastforce simp: number_ok_def)

lemma exactly_one: "accepted xs \<Longrightarrow> 1 \<le> k \<Longrightarrow> k \<le> length xs \<Longrightarrow> \<exists>!x. x \<in> set xs \<and> num (key x) = k"
proof -
  assume a: "accepted xs" and k: "1 \<le> k" "k \<le> length xs"
  then have "k \<in> num ` set (map key xs)" using numbers by simp
  then obtain x where x: "x \<in> set xs" "num (key x) = k" by auto
  have "inj_on key (set xs)" using accepted_distinct [OF a] by (simp add: distinct_map)
  then have "y = x" if "y \<in> set xs" "num (key y) = k" for y
    using x that by (auto dest: inj_onD)
  with x show ?thesis by blast
qed

end

section \<open>Run identifiers\<close>

definition encoded_length :: nat where
  "encoded_length = 32"

datatype run_id = RunId (id_bytes: "byte list")

datatype id_error = GenerateRunID string | ErrInvalid

definition zero_id :: run_id where
  "zero_id = RunId (replicate (encoded_length div 2) 0)"

definition id_ok :: "run_id \<Rightarrow> bool" where
  "id_ok i \<longleftrightarrow> length (id_bytes i) = encoded_length div 2 \<and> i \<noteq> zero_id"

text \<open>
  \<open>New\<close> reads 16 random bytes until they are not all zero.  The random source is the
  list of its successive answers; \<open>None\<close> is "still looping when the list ends".
\<close>

fun id_new :: "(string + byte list) list \<Rightarrow> (id_error + run_id) option" where
  "id_new [] = None"
| "id_new (Inl e # rs) = Some (Inl (GenerateRunID e))"
| "id_new (Inr bs # rs) = (if RunId bs \<noteq> zero_id then Some (Inr (RunId bs)) else id_new rs)"

definition isLowerHex :: "char \<Rightarrow> bool" where
  "isLowerHex c \<longleftrightarrow> CHR ''0'' \<le> c \<and> c \<le> CHR ''9'' \<or> CHR ''a'' \<le> c \<and> c \<le> CHR ''f''"

text \<open>\<open>encoding/hex\<close>.\<close>

definition hex_table :: string where
  "hex_table = ''0123456789abcdef''"

definition from_hex_char :: "char \<Rightarrow> byte option" where
  "from_hex_char c =
     (let n = of_char c in
      if CHR ''0'' \<le> c \<and> c \<le> CHR ''9'' then Some (word_of_nat (n - 48))
      else if CHR ''a'' \<le> c \<and> c \<le> CHR ''f'' then Some (word_of_nat (n - 97 + 10))
      else if CHR ''A'' \<le> c \<and> c \<le> CHR ''F'' then Some (word_of_nat (n - 65 + 10))
      else None)"

fun hex_decode :: "string \<Rightarrow> byte list option" where
  "hex_decode [] = Some []"
| "hex_decode [c] = None"
| "hex_decode (c # d # s) =
     (case (from_hex_char c, from_hex_char d) of
        (Some hi, Some lo) \<Rightarrow> map_option ((#) (push_bit 4 hi OR lo)) (hex_decode s)
      | _ \<Rightarrow> None)"

fun hex_encode :: "byte list \<Rightarrow> string" where
  "hex_encode [] = []"
| "hex_encode (b # bs) =
     hex_table ! unat (drop_bit 4 b) # hex_table ! unat (b AND 0x0f) # hex_encode bs"

text \<open>
  \<open>Parse\<close> ranges over the runes of its argument.  A byte of 128 or more belongs to a rune
  of at least 128 (or decodes as U+FFFD), which \<open>isLowerHex\<close> refuses as it refuses the
  byte, so the loop over bytes below accepts the same strings.
\<close>

definition id_parse :: "string \<Rightarrow> id_error + run_id" where
  "id_parse s =
     (if length s \<noteq> encoded_length then Inl ErrInvalid
      else if \<not> list_all isLowerHex s then Inl ErrInvalid
      else (case hex_decode s of
              None \<Rightarrow> Inl ErrInvalid
            | Some bs \<Rightarrow> if RunId bs = zero_id then Inl ErrInvalid else Inr (RunId bs)))"

definition id_string :: "run_id \<Rightarrow> string" where
  "id_string i = hex_encode (id_bytes i)"

lemma hex_nibble:
  "n < 16 \<Longrightarrow> isLowerHex (hex_table ! n) \<and> from_hex_char (hex_table ! n) = Some (word_of_nat n)"
proof -
  assume "n < 16"
  have "list_all (\<lambda>n. isLowerHex (hex_table ! n) \<and>
      from_hex_char (hex_table ! n) = Some (word_of_nat n)) [0..<16]"
    by code_simp
  with \<open>n < 16\<close> show ?thesis by (simp add: list_all_iff)
qed

lemma lower_hex_nibble:
  assumes "isLowerHex c"
  obtains n where "n < 16" "hex_table ! n = c"
proof -
  have "\<forall>c. isLowerHex c \<longrightarrow> c \<in> set hex_table" by code_simp
  with assms obtain n where "n < length hex_table" "hex_table ! n = c"
    by (metis in_set_conv_nth)
  then show ?thesis by (intro that) (simp_all add: hex_table_def)
qed

lemma nibbles_of_byte:
  "unat (drop_bit 4 b) < 16" "unat (b AND 0x0f) < 16"
  "push_bit 4 (drop_bit 4 b) OR (b AND 0x0f) = (b :: byte)"
proof -
  show "unat (drop_bit 4 b) < 16"
    using unat_byte_less [of b] by (simp add: drop_bit_eq_div unat_div_distrib)
  have mask: "(0x0f :: byte) = mask 4" by (simp add: mask_eq_exp_minus_1)
  show "unat (b AND 0x0f) < 16"
    unfolding mask take_bit_eq_mask [symmetric] unsigned_take_bit_eq
    by (simp add: take_bit_eq_mod)
  show "push_bit 4 (drop_bit 4 b) OR (b AND 0x0f) = b"
    unfolding mask by (rule bit_word_eqI) (auto simp: bit_simps)
qed

lemma byte_of_nibbles:
  assumes "m < 16" "n < 16"
  shows "unat (drop_bit 4 (push_bit 4 (word_of_nat m) OR word_of_nat n) :: byte) = m"
    and "unat ((push_bit 4 (word_of_nat m) OR word_of_nat n) AND 0x0f :: byte) = n"
proof -
  have "list_all (\<lambda>m. list_all (\<lambda>n.
      unat (drop_bit 4 (push_bit 4 (word_of_nat m) OR word_of_nat n) :: byte) = m \<and>
      unat ((push_bit 4 (word_of_nat m) OR word_of_nat n) AND 0x0f :: byte) = n) [0..<16]) [0..<16]"
    by code_simp
  with assms show "unat (drop_bit 4 (push_bit 4 (word_of_nat m) OR word_of_nat n) :: byte) = m"
    and "unat ((push_bit 4 (word_of_nat m) OR word_of_nat n) AND 0x0f :: byte) = n"
    by (auto simp: list_all_iff)
qed

lemma hex_decode_encode [wire_simps]: "hex_decode (hex_encode bs) = Some bs"
  by (induction bs) (simp_all add: hex_nibble nibbles_of_byte)

lemma hex_encode_props: "length (hex_encode bs) = 2 * length bs" "list_all isLowerHex (hex_encode bs)"
  by (induction bs) (simp_all add: hex_nibble nibbles_of_byte)

lemma hex_encode_decode:
  "list_all isLowerHex s \<Longrightarrow> hex_decode s = Some bs \<Longrightarrow> hex_encode bs = s"
proof (induction s arbitrary: bs rule: hex_decode.induct)
  case (3 c d s)
  from "3.prems" have "isLowerHex c" "isLowerHex d" by simp_all
  then obtain m n where mn: "m < 16" "hex_table ! m = c" "n < 16" "hex_table ! n = d"
    by (metis lower_hex_nibble)
  then have hex: "from_hex_char c = Some (word_of_nat m)" "from_hex_char d = Some (word_of_nat n)"
    using hex_nibble by auto
  with "3.prems"(2) obtain bs' where bs': "hex_decode s = Some bs'"
    and bs: "bs = (push_bit 4 (word_of_nat m) OR word_of_nat n) # bs'"
    by auto
  have "hex_encode bs' = s"
    using "3.IH" "3.prems"(1) bs' hex by fastforce
  then show ?case
    using mn by (simp only: bs hex_encode.simps byte_of_nibbles)
qed simp_all

lemma hex_decode_length: "hex_decode s = Some bs \<Longrightarrow> length s = 2 * length bs"
  by (induction s arbitrary: bs rule: hex_decode.induct) (auto split: option.splits)

lemma id_parse_string: "id_ok i \<Longrightarrow> id_parse (id_string i) = Inr i"
  by (cases i) (auto simp: id_parse_def id_string_def id_ok_def hex_encode_props
      hex_decode_encode encoded_length_def)

lemma id_string_parse: "id_parse s = Inr i \<Longrightarrow> id_string i = s \<and> id_ok i"
  using hex_decode_length [of s]
  by (auto simp: id_parse_def id_string_def id_ok_def hex_encode_decode encoded_length_def
      split: if_splits option.splits)

end
