(* ===== verification/Source_Allocation.thy ===== *)
theory Source_Allocation
  imports Source_Tree Identity "HOL-Library.AList" "HOL-Library.Product_Lexorder"
begin

text \<open>
  The allocation of source files to transfers (\<open>internal/sourcefiles/allocation.go\<close>):
  weights, the greedy weighted assignment in order of decreasing size, the round-robin
  assignment of empty directories, the final self-check and the queries on the result.
  Byte counts are 64-bit words and the overflow test of the code is kept; \<open>bits.Mul64\<close> is
  the 128-bit product.
\<close>

section \<open>Weights\<close>

record transfer_weight =
  tw_transfer :: transfer_number
  tw_weight :: u64

datatype allocation_error =
    WeightNotPositive
  | WeightCountInvalid
  | WeightInvalid nat
  | TransferRepeated transfer_number
  | ErrNoTransferItems
  | WeightsRequired
  | ByteTotalOverflows transfer_number
  | AllocationIncomplete
  | AllocationTransfersInvalid
  | AllocationOwnerInvalid
  | AllocationEmptyOwnerInvalid
  | AllocationTotalsInconsistent

definition NewTransferWeight :: "transfer_number \<Rightarrow> u64 \<Rightarrow> allocation_error + transfer_weight" where
  "NewTransferWeight transfer weight =
     (if num_value transfer = 0 \<or> weight = 0 then Inl WeightNotPositive
      else Inr \<lparr>tw_transfer = transfer, tw_weight = weight\<rparr>)"

fun check_weights ::
  "nat \<Rightarrow> transfer_number option \<Rightarrow> transfer_weight list \<Rightarrow> allocation_error + unit" where
  "check_weights index previous [] = Inr ()"
| "check_weights index previous (w # ws) =
     (if num_value (tw_transfer w) = 0 \<or> tw_weight w = 0 then Inl (WeightInvalid index)
      else if previous = Some (tw_transfer w) then Inl (TransferRepeated (tw_transfer w))
      else check_weights (Suc index) (Some (tw_transfer w)) ws)"

definition NewTransferWeights ::
  "transfer_weight list \<Rightarrow> allocation_error + transfer_weight list" where
  "NewTransferWeights values =
     (if length values = 0 \<or> length values > transfer_maximum then Inl WeightCountInvalid
      else let copied = sort_key tw_transfer values
           in bind_r (check_weights 0 None copied) (\<lambda>_. Inr copied))"

section \<open>Loads\<close>

record transfer_load =
  tl_weight :: transfer_weight
  tl_bytes :: u64

text \<open>\<open>bits.Mul64\<close>: the high and the low half of the full product.\<close>

definition Mul64 :: "u64 \<Rightarrow> u64 \<Rightarrow> u64 \<times> u64" where
  "Mul64 x y = (ucast (drop_bit 64 (ucast x * ucast y :: 128 word)), x * y)"

definition compareLoad :: "transfer_load \<Rightarrow> transfer_load \<Rightarrow> int" where
  "compareLoad left right =
     (case Mul64 (tl_bytes left) (tw_weight (tl_weight right)) of (leftHigh, leftLow) \<Rightarrow>
      case Mul64 (tl_bytes right) (tw_weight (tl_weight left)) of (rightHigh, rightLow) \<Rightarrow>
        if leftHigh < rightHigh \<or> leftHigh = rightHigh \<and> leftLow < rightLow then -1
        else if leftHigh = rightHigh \<and> leftLow = rightLow then 0
        else 1)"

definition minimumLoad :: "transfer_load list \<Rightarrow> nat" where
  "minimumLoad loads =
     foldl (\<lambda>minimum index. if compareLoad (loads ! index) (loads ! minimum) < 0 then index else minimum)
       0 [1..<length loads]"

section \<open>Assignment\<close>

text \<open>The order of assignment: larger files first, then by path.\<close>

definition file_order :: "source_file list \<Rightarrow> nat list" where
  "file_order files =
     sort_key (\<lambda>i. (- int (unat (sf_size (files ! i))), sf_path (files ! i))) [0..<length files]"

fun assign_files ::
  "source_file list \<Rightarrow> nat list \<Rightarrow> transfer_load list \<Rightarrow> transfer_number list \<Rightarrow>
     allocation_error + transfer_load list \<times> transfer_number list" where
  "assign_files files [] loads owners = Inr (loads, owners)"
| "assign_files files (fileIndex # order) loads owners =
     (let chosen = minimumLoad loads; load = loads ! chosen; sz = sf_size (files ! fileIndex) in
      if tl_bytes load > (- 1) - sz then Inl (ByteTotalOverflows (tw_transfer (tl_weight load)))
      else assign_files files order
             (loads[chosen := load\<lparr>tl_bytes := tl_bytes load + sz\<rparr>])
             (owners[fileIndex := tw_transfer (tl_weight load)]))"

definition allocateFiles ::
  "source_file list \<Rightarrow> transfer_load list \<Rightarrow>
     allocation_error + transfer_load list \<times> transfer_number list" where
  "allocateFiles files loads =
     assign_files files (file_order files) loads (replicate (length files) no_number)"

definition allocateEmptyDirectories :: "nat \<Rightarrow> transfer_number list \<Rightarrow> transfer_number list" where
  "allocateEmptyDirectories cnt transfers =
     map (\<lambda>index. transfers ! (index mod length transfers)) [0..<cnt]"

text \<open>The Go map \<open>transferIndex\<close> keeps its length, so it is an association list.\<close>

record transfer_allocation =
  al_snapshot :: source_snapshot
  al_transfers :: "transfer_number list"
  al_transferIndex :: "(transfer_number \<times> nat) list"
  al_fileOwners :: "transfer_number list"
  al_emptyDirOwners :: "transfer_number list"
  al_totalBytes :: "u64 list"

fun init_loads ::
  "nat \<Rightarrow> transfer_weight list \<Rightarrow> (transfer_number \<times> nat) list \<Rightarrow>
     allocation_error + transfer_load list \<times> (transfer_number \<times> nat) list" where
  "init_loads index [] transferIndex = Inr ([], transferIndex)"
| "init_loads index (w # ws) transferIndex =
     (if num_value (tw_transfer w) = 0 \<or> tw_weight w = 0 then Inl (WeightInvalid index)
      else bind_r (init_loads (Suc index) ws (AList.update (tw_transfer w) index transferIndex))
        (\<lambda>(loads, idx). Inr (\<lparr>tl_weight = w, tl_bytes = 0\<rparr> # loads, idx)))"

fun sum_owned ::
  "(transfer_number \<times> nat) list \<Rightarrow> (transfer_number \<times> u64) list \<Rightarrow> u64 list \<Rightarrow>
     allocation_error + u64 list" where
  "sum_owned transferIndex [] calculated = Inr calculated"
| "sum_owned transferIndex ((owner, sz) # rest) calculated =
     (case map_of transferIndex owner of
        None \<Rightarrow> Inl AllocationOwnerInvalid
      | Some i \<Rightarrow>
          if calculated ! i > (- 1) - sz then Inl AllocationOwnerInvalid
          else sum_owned transferIndex rest (calculated[i := calculated ! i + sz]))"

text \<open>A missing key of a Go map of integers reads as zero.\<close>

definition index_or_zero :: "(transfer_number \<times> nat) list \<Rightarrow> transfer_number \<Rightarrow> nat" where
  "index_or_zero m k = (case map_of m k of None \<Rightarrow> 0 | Some i \<Rightarrow> i)"

definition validateTransferAllocation :: "transfer_allocation \<Rightarrow> allocation_error + unit" where
  "validateTransferAllocation a =
     (case al_snapshot a of
        None \<Rightarrow> Inl AllocationIncomplete
      | Some contents \<Rightarrow>
          if al_transfers a = [] \<or>
             length (al_fileOwners a) \<noteq> length (sc_files contents) \<or>
             length (al_emptyDirOwners a) \<noteq> length (sc_emptyDirs contents) \<or>
             length (al_totalBytes a) \<noteq> length (al_transfers a) \<or>
             length (al_transferIndex a) \<noteq> length (al_transfers a)
          then Inl AllocationIncomplete
          else if list_ex (\<lambda>(i, t). num_value t = 0 \<or> index_or_zero (al_transferIndex a) t \<noteq> i)
                    (enumerate 0 (al_transfers a))
          then Inl AllocationTransfersInvalid
          else bind_r (sum_owned (al_transferIndex a)
                         (zip (al_fileOwners a) (map sf_size (sc_files contents)))
                         (replicate (length (al_transfers a)) 0))
            (\<lambda>calculated.
               if list_ex (\<lambda>owner. map_of (al_transferIndex a) owner = None) (al_emptyDirOwners a)
               then Inl AllocationEmptyOwnerInvalid
               else if calculated \<noteq> al_totalBytes a then Inl AllocationTotalsInconsistent
               else Inr ()))"

definition AllocateTransferItems ::
  "source_snapshot \<Rightarrow> transfer_weight list \<Rightarrow> allocation_error + transfer_allocation" where
  "AllocateTransferItems snapshot weights =
     (case snapshot of
        None \<Rightarrow> Inl ErrNoTransferItems
      | Some contents \<Rightarrow>
          if length (sc_files contents) + length (sc_emptyDirs contents) = 0 then Inl ErrNoTransferItems
          else if weights = [] then Inl WeightsRequired
          else bind_r (init_loads 0 weights []) (\<lambda>(loads, transferIndex).
            let transfers = map tw_transfer weights in
            bind_r (allocateFiles (sc_files contents) loads) (\<lambda>(loads', fileOwners).
              let allocation =
                    \<lparr>al_snapshot = snapshot, al_transfers = transfers,
                     al_transferIndex = transferIndex, al_fileOwners = fileOwners,
                     al_emptyDirOwners =
                       allocateEmptyDirectories (length (sc_emptyDirs contents)) transfers,
                     al_totalBytes = map tl_bytes loads'\<rparr>
              in bind_r (validateTransferAllocation allocation) (\<lambda>_. Inr allocation))))"

section \<open>Queries\<close>

definition OwnerOf :: "transfer_allocation \<Rightarrow> string \<Rightarrow> transfer_number option" where
  "OwnerOf a relativePath =
     (case al_snapshot a of
        None \<Rightarrow> None
      | Some contents \<Rightarrow>
          (case sc_entryKinds contents relativePath of
             Some RegularFileEntry \<Rightarrow>
               Some (al_fileOwners a !
                 (case sc_fileIndex contents relativePath of None \<Rightarrow> 0 | Some i \<Rightarrow> i))
           | Some DirectoryEntry \<Rightarrow>
               map_option (\<lambda>i. al_emptyDirOwners a ! i) (sc_emptyDirIndex contents relativePath)
           | _ \<Rightarrow> None))"

definition TotalBytes :: "transfer_allocation \<Rightarrow> transfer_number \<Rightarrow> u64 option" where
  "TotalBytes a transfer = map_option (\<lambda>i. al_totalBytes a ! i) (map_of (al_transferIndex a) transfer)"

definition owned :: "'a list \<Rightarrow> transfer_number list \<Rightarrow> transfer_number \<Rightarrow> 'a list" where
  "owned xs owners t = map fst (filter (\<lambda>(x, owner). owner = t) (zip xs owners))"

definition alloc_Files :: "transfer_allocation \<Rightarrow> transfer_number \<Rightarrow> source_file list" where
  "alloc_Files a transfer =
     (case al_snapshot a of
        None \<Rightarrow> [] | Some contents \<Rightarrow> owned (sc_files contents) (al_fileOwners a) transfer)"

definition alloc_EmptyDirectories ::
  "transfer_allocation \<Rightarrow> transfer_number \<Rightarrow> source_directory list" where
  "alloc_EmptyDirectories a transfer =
     (case al_snapshot a of
        None \<Rightarrow> [] | Some contents \<Rightarrow> owned (sc_emptyDirs contents) (al_emptyDirOwners a) transfer)"

section \<open>Comparison of loads\<close>

lemma unat_mult_ucast_128:
  "unat (ucast x * ucast y :: 128 word) = unat (x :: u64) * unat (y :: u64)"
proof -
  have "unat x * unat y < 2 ^ 64 * 2 ^ 64"
    by (intro mult_strict_mono unat_u64_less) simp_all
  then have "unat x * unat y < 2 ^ LENGTH(128)" by simp
  moreover have "unat (ucast x :: 128 word) = unat x" "unat (ucast y :: 128 word) = unat y"
    using unat_u64_less [of x] unat_u64_less [of y] by (simp_all add: unsigned_ucast_eq take_bit_nat_eq_self)
  ultimately show ?thesis by (simp add: unat_word_ariths)
qed

lemma Mul64_exact:
  assumes "Mul64 x y = (hi, lo)"
  shows "unat x * unat y = unat hi * 2 ^ 64 + unat lo"
proof -
  let ?p = "unat x * unat y"
  have "?p < 2 ^ 64 * 2 ^ 64"
    by (intro mult_strict_mono unat_u64_less) simp_all
  then have "?p div 2 ^ 64 < 2 ^ 64" by (rule less_mult_imp_div_less)
  moreover have "unat (drop_bit 64 (ucast x * ucast y :: 128 word)) = ?p div 2 ^ 64"
    unfolding unat_drop_bit_eq unat_mult_ucast_128 by (rule drop_bit_eq_div)
  ultimately have "unat hi = ?p div 2 ^ 64"
    using assms by (auto simp: Mul64_def unsigned_ucast_eq take_bit_nat_eq_self)
  moreover have "unat lo = ?p mod 2 ^ 64"
    using assms by (auto simp: Mul64_def unat_word_ariths)
  ultimately show ?thesis by simp
qed

definition load_bytes :: "transfer_load \<Rightarrow> nat" where
  "load_bytes l = unat (tl_bytes l)"

definition load_weight :: "transfer_load \<Rightarrow> nat" where
  "load_weight l = unat (tw_weight (tl_weight l))"

lemma two_digit_less:
  fixes a :: nat
  assumes "b < B" "d < B"
  shows "a * B + b < c * B + d \<longleftrightarrow> a < c \<or> a = c \<and> b < d"
proof -
  have "a * B + b < c * B + d" if "a < c"
  proof -
    have "a * B + b < a * B + B" using assms by simp
    also have "\<dots> \<le> c * B" using that by (metis Suc_leI add.commute mult_Suc mult_le_mono1)
    finally show ?thesis by simp
  qed
  moreover have "c * B + d < a * B + b" if "c < a"
  proof -
    have "c * B + d < c * B + B" using assms by simp
    also have "\<dots> \<le> a * B" using that by (metis Suc_leI add.commute mult_Suc mult_le_mono1)
    finally show ?thesis by simp
  qed
  ultimately show ?thesis by (cases a c rule: linorder_cases) auto
qed

text \<open>The comparison is exact: no product is truncated to 64 bits.\<close>

lemma compareLoad_less_iff:
  "compareLoad l r < 0 \<longleftrightarrow> load_bytes l * load_weight r < load_bytes r * load_weight l"
proof -
  obtain lh ll where L: "Mul64 (tl_bytes l) (tw_weight (tl_weight r)) = (lh, ll)" by fastforce
  obtain rh rl where R: "Mul64 (tl_bytes r) (tw_weight (tl_weight l)) = (rh, rl)" by fastforce
  have "load_bytes l * load_weight r < load_bytes r * load_weight l \<longleftrightarrow>
      unat lh < unat rh \<or> unat lh = unat rh \<and> unat ll < unat rl"
    using two_digit_less [OF unat_u64_less unat_u64_less, of "unat lh" ll "unat rh" rl]
    by (simp add: load_bytes_def load_weight_def Mul64_exact [OF L] Mul64_exact [OF R])
  then show ?thesis
    using L R by (auto simp: compareLoad_def word_less_nat_alt word_eq_iff_unsigned [where 'a = nat])
qed

definition load_le :: "transfer_load \<Rightarrow> transfer_load \<Rightarrow> bool" where
  "load_le l r \<longleftrightarrow> load_bytes l * load_weight r \<le> load_bytes r * load_weight l"

lemma load_le_trans:
  assumes "load_le a b" "load_le b c" "0 < load_weight b"
  shows "load_le a c"
proof -
  have "load_bytes a * load_weight b * load_weight c \<le> load_bytes b * load_weight a * load_weight c"
    using assms(1) by (simp add: load_le_def)
  also have "\<dots> = load_bytes b * load_weight c * load_weight a" by simp
  also have "\<dots> \<le> load_bytes c * load_weight b * load_weight a"
    using assms(2) by (simp add: load_le_def)
  finally have "load_bytes a * load_weight c * load_weight b \<le> load_bytes c * load_weight a * load_weight b"
    by (simp add: mult.assoc mult.commute mult.left_commute)
  then show ?thesis using assms(3) by (simp add: load_le_def)
qed

lemma load_le_refl [simp]: "load_le l l"
  by (simp add: load_le_def)

lemma minimumLoad_prefix:
  assumes pos: "\<forall>l \<in> set loads. 0 < load_weight l" and "0 < n" "n \<le> length loads"
  shows "let m = foldl (\<lambda>m i. if compareLoad (loads ! i) (loads ! m) < 0 then i else m) 0 [1..<n] in
     m < n \<and> (\<forall>j < n. load_le (loads ! m) (loads ! j))"
  using assms(2,3)
proof (induction n)
  case (Suc n)
  show ?case
  proof (cases "n = 0")
    case False
    define m where "m = foldl (\<lambda>m i. if compareLoad (loads ! i) (loads ! m) < 0 then i else m) 0 [Suc 0..<n]"
    have IH: "m < n" "\<forall>j < n. load_le (loads ! m) (loads ! j)"
      using Suc False by (auto simp: m_def Let_def)
    have "load_le (loads ! n) (loads ! j)"
      if "compareLoad (loads ! n) (loads ! m) < 0" "j < n" for j
    proof (rule load_le_trans)
      show "load_le (loads ! n) (loads ! m)"
        using that(1) by (simp add: compareLoad_less_iff load_le_def)
      show "load_le (loads ! m) (loads ! j)" using IH that by simp
      show "0 < load_weight (loads ! m)" using pos IH(1) Suc.prems by simp
    qed
    moreover have "load_le (loads ! m) (loads ! n)" if "\<not> compareLoad (loads ! n) (loads ! m) < 0"
      using that by (simp add: compareLoad_less_iff load_le_def)
    ultimately show ?thesis
      using IH False by (auto simp: Let_def less_Suc_eq simp flip: m_def)
  qed simp
qed simp

lemma minimumLoad_minimal:
  assumes "\<forall>l \<in> set loads. 0 < load_weight l" "loads \<noteq> []"
  shows "minimumLoad loads < length loads"
    and "j < length loads \<Longrightarrow> load_le (loads ! minimumLoad loads) (loads ! j)"
  using minimumLoad_prefix [OF assms(1), of "length loads"] assms(2)
  by (auto simp: minimumLoad_def Let_def)

section \<open>The greedy assignment\<close>

definition load_transfer :: "transfer_load \<Rightarrow> transfer_number" where
  "load_transfer l = tw_transfer (tl_weight l)"

definition file_bytes :: "source_file list \<Rightarrow> nat \<Rightarrow> nat" where
  "file_bytes files i = unat (sf_size (files ! i))"

definition loads_ok :: "transfer_load list \<Rightarrow> bool" where
  "loads_ok loads \<longleftrightarrow>
     loads \<noteq> [] \<and> (\<forall>l \<in> set loads. 0 < load_weight l) \<and> distinct (map load_transfer loads)"

definition add_bytes :: "nat \<Rightarrow> u64 \<Rightarrow> transfer_load list \<Rightarrow> transfer_load list" where
  "add_bytes k sz loads = loads[k := (loads ! k)\<lparr>tl_bytes := tl_bytes (loads ! k) + sz\<rparr>]"

lemma u64_add_overflow_iff: "(- 1) - s < a \<longleftrightarrow> 2 ^ 64 \<le> unat a + unat (s :: u64)"
proof -
  have "unat ((- 1) - s) = 2 ^ 64 - 1 - unat s"
    using unat_u64_less [of s]
    by (simp add: unat_sub_if' unsigned_minus_1_eq_mask mask_eq_exp_minus_1)
  then show ?thesis
    using unat_u64_less [of s] by (simp add: word_less_nat_alt) linarith
qed

lemma u64_add_exact: "\<not> (- 1) - s < a \<Longrightarrow> unat (a + s) = unat a + unat (s :: u64)"
  using unat_u64_less [of s] by (simp add: u64_add_overflow_iff unat_word_ariths)

lemma add_bytes_weights [simp]: "map tl_weight (add_bytes k sz loads) = map tl_weight loads"
  using list_update_id [of "map tl_weight loads" k]
  by (cases "k < length loads") (simp_all add: add_bytes_def map_update list_update_beyond)

lemma length_add_bytes [simp]: "length (add_bytes k sz loads) = length loads"
  by (simp add: add_bytes_def)

lemma weights_loads_ok:
  assumes "map tl_weight loads' = map tl_weight loads"
  shows "loads_ok loads' \<longleftrightarrow> loads_ok loads"
    and "k < length loads \<Longrightarrow> load_transfer (loads' ! k) = load_transfer (loads ! k)"
    and "k < length loads \<Longrightarrow> load_weight (loads' ! k) = load_weight (loads ! k)"
    and "map load_transfer loads' = map load_transfer loads"
proof -
  have len: "length loads' = length loads" using assms by (rule map_eq_imp_length_eq)
  have nth: "tl_weight (loads' ! k) = tl_weight (loads ! k)" if "k < length loads" for k
    using assms that len by (metis nth_map)
  then show tr: "k < length loads \<Longrightarrow> load_transfer (loads' ! k) = load_transfer (loads ! k)"
    and we: "k < length loads \<Longrightarrow> load_weight (loads' ! k) = load_weight (loads ! k)" for k
    by (simp_all add: load_transfer_def load_weight_def)
  show m: "map load_transfer loads' = map load_transfer loads"
    using len tr by (simp add: list_eq_iff_nth_eq)
  show "loads_ok loads' \<longleftrightarrow> loads_ok loads"
    using len we m by (auto simp: loads_ok_def all_set_conv_all_nth)
qed

lemma assign_files_Cons:
  "assign_files files (i # order) loads owners =
     (let k = minimumLoad loads; load = loads ! k; sz = sf_size (files ! i) in
      if tl_bytes load > (- 1) - sz then Inl (ByteTotalOverflows (load_transfer load))
      else assign_files files order (add_bytes k sz loads) (owners[i := load_transfer load]))"
  by (simp add: Let_def add_bytes_def load_transfer_def)

declare assign_files.simps(2) [simp del]

definition assigned_sum :: "source_file list \<Rightarrow> nat list \<Rightarrow> transfer_number list \<Rightarrow> transfer_number \<Rightarrow> nat" where
  "assigned_sum files order owners t =
     sum_list (map (file_bytes files) (filter (\<lambda>i. owners ! i = t) order))"

lemma assign_files_frame:
  assumes "assign_files files order loads owners = Inr (loads', owners')"
  shows "map tl_weight loads' = map tl_weight loads" "length owners' = length owners"
    "i \<notin> set order \<Longrightarrow> owners' ! i = owners ! i"
proof -
  have "map tl_weight loads' = map tl_weight loads \<and> length owners' = length owners \<and>
      (i \<notin> set order \<longrightarrow> owners' ! i = owners ! i)"
    using assms
  proof (induction order arbitrary: loads owners)
    case (Cons j order)
    then show ?case
      by (fastforce simp: assign_files_Cons Let_def split: if_splits)
  qed simp
  then show "map tl_weight loads' = map tl_weight loads" "length owners' = length owners"
    "i \<notin> set order \<Longrightarrow> owners' ! i = owners ! i"
    by auto
qed

lemma assign_files_totals:
  assumes "assign_files files order loads owners = Inr (loads', owners')" "loads_ok loads"
    and "distinct order" "set order \<subseteq> {..<length owners}"
  shows "\<forall>i \<in> set order. owners' ! i \<in> set (map load_transfer loads)"
    and "k < length loads \<Longrightarrow> load_bytes (loads' ! k) =
      load_bytes (loads ! k) + assigned_sum files order owners' (load_transfer (loads ! k))"
proof -
  have "(\<forall>i \<in> set order. owners' ! i \<in> set (map load_transfer loads)) \<and>
      (\<forall>k < length loads. load_bytes (loads' ! k) =
         load_bytes (loads ! k) + assigned_sum files order owners' (load_transfer (loads ! k)))"
    using assms
  proof (induction order arbitrary: loads owners)
    case Nil
    then show ?case by (simp add: assigned_sum_def)
  next
    case (Cons i order)
    define m where "m = minimumLoad loads"
    define sz where "sz = sf_size (files ! i)"
    have m: "m < length loads"
      using Cons.prems(2) minimumLoad_minimal(1) by (simp add: m_def loads_ok_def)
    from Cons.prems(1) have no: "\<not> (- 1) - sz < tl_bytes (loads ! m)"
      and rest: "assign_files files order (add_bytes m sz loads)
        (owners[i := load_transfer (loads ! m)]) = Inr (loads', owners')"
      by (auto simp: assign_files_Cons Let_def m_def sz_def split: if_splits)
    have W: "map tl_weight (add_bytes m sz loads) = map tl_weight loads" by simp
    have IH: "\<forall>i \<in> set order. owners' ! i \<in> set (map load_transfer loads)"
      "\<forall>k < length loads. load_bytes (loads' ! k) = load_bytes (add_bytes m sz loads ! k) +
         assigned_sum files order owners' (load_transfer (loads ! k))"
      using Cons.IH [OF rest] Cons.prems(2-4) weights_loads_ok [OF W] by auto
    have own: "owners' ! i = load_transfer (loads ! m)"
      using assign_files_frame(3) [OF rest, of i] Cons.prems(3,4) by simp
    have same: "load_transfer (loads ! m) = load_transfer (loads ! k) \<longleftrightarrow> m = k" if "k < length loads" for k
      using Cons.prems(2) that m by (auto simp: loads_ok_def distinct_conv_nth)
    have bytes: "load_bytes (add_bytes m sz loads ! k) =
        load_bytes (loads ! k) + (if m = k then unat sz else 0)" if "k < length loads" for k
      using that u64_add_exact [OF no] by (auto simp: add_bytes_def load_bytes_def)
    have "load_bytes (loads' ! k) =
        load_bytes (loads ! k) + assigned_sum files (i # order) owners' (load_transfer (loads ! k))"
      if "k < length loads" for k
      using IH(2) that bytes [OF that] same [OF that] own
      by (simp add: assigned_sum_def file_bytes_def sz_def)
    then show ?case
      using IH(1) own m by simp
  qed
  then show "\<forall>i \<in> set order. owners' ! i \<in> set (map load_transfer loads)"
    and "k < length loads \<Longrightarrow> load_bytes (loads' ! k) =
      load_bytes (loads ! k) + assigned_sum files order owners' (load_transfer (loads ! k))"
    by auto
qed

text \<open>
  The balance that greedy assignment in decreasing order of size guarantees: take away the
  smallest file a transfer received, and its weighted load is no larger than that of any
  other transfer.
\<close>

definition balanced_at ::
  "source_file list \<Rightarrow> nat list \<Rightarrow> transfer_number list \<Rightarrow> transfer_load list \<Rightarrow> nat \<Rightarrow> bool" where
  "balanced_at files order owners loads k \<longleftrightarrow>
     (\<forall>i \<in> set order. owners ! i \<noteq> load_transfer (loads ! k)) \<or>
     (\<exists>i \<in> set order. owners ! i = load_transfer (loads ! k) \<and>
        (\<forall>i' \<in> set order. owners ! i' = load_transfer (loads ! k) \<longrightarrow> file_bytes files i \<le> file_bytes files i') \<and>
        (\<forall>j < length loads. (load_bytes (loads ! k) - file_bytes files i) * load_weight (loads ! j) \<le>
           load_bytes (loads ! j) * load_weight (loads ! k)))"

lemma balanced_at_Cons:
  assumes "balanced_at files order owners loads k"
    and some: "\<exists>i' \<in> set order. owners ! i' = load_transfer (loads ! k)"
    and le: "\<forall>i' \<in> set order. file_bytes files i' \<le> file_bytes files i"
  shows "balanced_at files (i # order) owners loads k"
proof -
  obtain a where "a \<in> set order" "owners ! a = load_transfer (loads ! k)"
    "\<forall>i' \<in> set order. owners ! i' = load_transfer (loads ! k) \<longrightarrow> file_bytes files a \<le> file_bytes files i'"
    "\<forall>j < length loads. (load_bytes (loads ! k) - file_bytes files a) * load_weight (loads ! j) \<le>
       load_bytes (loads ! j) * load_weight (loads ! k)"
    using assms(1) some unfolding balanced_at_def by blast
  with le show ?thesis
    unfolding balanced_at_def by (intro disjI2 bexI [of _ a]) auto
qed

lemma assign_files_balanced:
  assumes "assign_files files order loads owners = Inr (loads', owners')" "loads_ok loads"
    and "distinct order" "set order \<subseteq> {..<length owners}"
    and "sorted_wrt (\<lambda>a b. file_bytes files b \<le> file_bytes files a) order"
    and "k < length loads"
  shows "balanced_at files order owners' loads' k"
  using assms
proof (induction order arbitrary: loads owners)
  case Nil
  then show ?case by (simp add: balanced_at_def)
next
  case (Cons i order)
  define m where "m = minimumLoad loads"
  define sz where "sz = sf_size (files ! i)"
  have pos: "\<forall>l \<in> set loads. 0 < load_weight l" "loads \<noteq> []"
    using Cons.prems(2) by (auto simp: loads_ok_def)
  note min = minimumLoad_minimal [OF pos, folded m_def]
  from Cons.prems(1) have rest: "assign_files files order (add_bytes m sz loads)
      (owners[i := load_transfer (loads ! m)]) = Inr (loads', owners')"
    by (auto simp: assign_files_Cons Let_def m_def sz_def split: if_splits)
  have W: "map tl_weight (add_bytes m sz loads) = map tl_weight loads" by simp
  have W': "map tl_weight loads' = map tl_weight loads"
    using assign_files_frame(1) [OF Cons.prems(1)] .
  note same = weights_loads_ok [OF W']
  have len: "length loads' = length loads" using W' by (rule map_eq_imp_length_eq)
  have own: "owners' ! i = load_transfer (loads ! m)"
    using assign_files_frame(3) [OF rest, of i] Cons.prems(3,4) by simp
  have IH: "balanced_at files order owners' loads' k"
    using Cons.IH [OF rest] Cons.prems weights_loads_ok(1) [OF W] by simp
  note total = assign_files_totals(2) [OF Cons.prems(1-4)]
  show ?case
  proof (cases "\<exists>i' \<in> set order. owners' ! i' = load_transfer (loads' ! k)")
    case True
    then show ?thesis
      using IH Cons.prems(5) by (intro balanced_at_Cons) auto
  next
    case none: False
    show ?thesis
    proof (cases "k = m")
      case False
      then have "load_transfer (loads ! m) \<noteq> load_transfer (loads ! k)"
        using Cons.prems(2,6) min(1) by (auto simp: loads_ok_def distinct_conv_nth)
      with none show ?thesis
        using own same(2) [OF Cons.prems(6)] unfolding balanced_at_def by auto
    next
      case True
      have none': "\<forall>i' \<in> set order. owners' ! i' \<noteq> load_transfer (loads ! m)"
        using none same(2) [OF Cons.prems(6)] True by simp
      then have "filter (\<lambda>i. owners' ! i = load_transfer (loads ! m)) order = []"
        by (simp add: filter_empty_conv)
      then have bytes: "load_bytes (loads' ! m) = load_bytes (loads ! m) + file_bytes files i"
        using total [OF min(1)] own by (simp add: assigned_sum_def)
      have "(load_bytes (loads' ! m) - file_bytes files i) * load_weight (loads' ! j) \<le>
          load_bytes (loads' ! j) * load_weight (loads' ! m)" if "j < length loads" for j
      proof -
        have "load_bytes (loads ! m) * load_weight (loads ! j) \<le> load_bytes (loads ! j) * load_weight (loads ! m)"
          using min(2) [OF that] by (simp add: load_le_def)
        also have "\<dots> \<le> load_bytes (loads' ! j) * load_weight (loads ! m)"
          using total [OF that] by simp
        finally show ?thesis using bytes same(3) [OF that] same(3) [OF min(1)] by simp
      qed
      then show ?thesis
        using own True same(2) [OF Cons.prems(6)] len none'
        unfolding balanced_at_def by (intro disjI2 bexI [of _ i]) auto
    qed
  qed
qed

section \<open>Weight sets\<close>

definition weights_ok :: "transfer_weight list \<Rightarrow> bool" where
  "weights_ok ws \<longleftrightarrow>
     ws \<noteq> [] \<and> length ws \<le> transfer_maximum \<and>
     (\<forall>w \<in> set ws. num_value (tw_transfer w) \<noteq> 0 \<and> tw_weight w \<noteq> 0) \<and>
     sorted (map tw_transfer ws) \<and> distinct (map tw_transfer ws)"

lemma check_weights_Inr_iff:
  "sorted (map tw_transfer ws) \<Longrightarrow>
   (case previous of None \<Rightarrow> True | Some p \<Rightarrow> \<forall>w \<in> set ws. p \<le> tw_transfer w) \<Longrightarrow>
     check_weights index previous ws = Inr () \<longleftrightarrow>
       (\<forall>w \<in> set ws. num_value (tw_transfer w) \<noteq> 0 \<and> tw_weight w \<noteq> 0) \<and>
       distinct (map tw_transfer ws) \<and>
       (case previous of None \<Rightarrow> True | Some p \<Rightarrow> p \<notin> set (map tw_transfer ws))"
proof (induction index previous ws rule: check_weights.induct)
  case (2 index previous w ws)
  then show ?case by (auto split: option.splits dest: antisym)
qed (simp split: option.splits)

lemma NewTransferWeights_Inr_iff [result_simps]:
  "NewTransferWeights values = Inr ws \<longleftrightarrow>
     ws = sort_key tw_transfer values \<and> values \<noteq> [] \<and> length values \<le> transfer_maximum \<and>
     (\<forall>w \<in> set values. num_value (tw_transfer w) \<noteq> 0 \<and> tw_weight w \<noteq> 0) \<and>
     distinct (map tw_transfer values)"
  by (auto simp: NewTransferWeights_def Let_def result_simps check_weights_Inr_iff distinct_map)

lemma NewTransferWeights_ok: "NewTransferWeights values = Inr ws \<Longrightarrow> weights_ok ws"
  by (auto simp: result_simps weights_ok_def distinct_map) (metis length_0_conv length_sort)

lemma alist_update_fresh: "k \<notin> fst ` set m \<Longrightarrow> AList.update k v m = m @ [(k, v)]"
  by (induction m) auto

lemma init_loads_ok:
  "(\<forall>w \<in> set ws. num_value (tw_transfer w) \<noteq> 0 \<and> tw_weight w \<noteq> 0) \<Longrightarrow>
   distinct (map tw_transfer ws) \<Longrightarrow> set (map tw_transfer ws) \<inter> fst ` set m = {} \<Longrightarrow>
     init_loads index ws m =
       Inr (map (\<lambda>w. \<lparr>tl_weight = w, tl_bytes = 0\<rparr>) ws,
            m @ zip (map tw_transfer ws) [index..<index + length ws])"
proof (induction index ws m rule: init_loads.induct)
  case (2 index w ws m)
  have fresh: "AList.update (tw_transfer w) index m = m @ [(tw_transfer w, index)]"
    using "2.prems"(3) by (intro alist_update_fresh) auto
  have "init_loads (Suc index) ws (m @ [(tw_transfer w, index)]) =
      Inr (map (\<lambda>w. \<lparr>tl_weight = w, tl_bytes = 0\<rparr>) ws,
        (m @ [(tw_transfer w, index)]) @ zip (map tw_transfer ws) [Suc index..<Suc index + length ws])"
    using "2.IH" "2.prems" fresh by auto
  then show ?case
    using "2.prems"(1) fresh by (simp add: upt_conv_Cons del: upt_Suc)
qed simp

section \<open>Totals\<close>

text \<open>The bytes of the entries of a list of (owner, size) pairs that belong to one transfer.\<close>

definition owned_bytes :: "(transfer_number \<times> u64) list \<Rightarrow> transfer_number \<Rightarrow> nat" where
  "owned_bytes ps t = sum_list (map (\<lambda>p. unat (snd p)) (filter (\<lambda>p. fst p = t) ps))"

lemma owned_bytes_Cons:
  "owned_bytes ((o', s) # ps) t = (if o' = t then unat s else 0) + owned_bytes ps t"
  by (simp add: owned_bytes_def)

lemma sum_owned_ok:
  assumes "distinct ts" "m = zip ts [0..<length ts]" "length calc = length ts"
    and "\<forall>p \<in> set ps. fst p \<in> set ts"
    and "\<forall>k < length ts. unat (calc ! k) + owned_bytes ps (ts ! k) < 2 ^ 64"
  shows "\<exists>calc'. sum_owned m ps calc = Inr calc' \<and> length calc' = length ts \<and>
    (\<forall>k < length ts. unat (calc' ! k) = unat (calc ! k) + owned_bytes ps (ts ! k))"
  using assms(3-5)
proof (induction ps arbitrary: calc)
  case Nil
  then show ?case by (simp add: owned_bytes_def)
next
  case (Cons p ps)
  obtain own s where p: "p = (own, s)" by fastforce
  with Cons.prems(2) obtain i where i: "i < length ts" "ts ! i = own"
    by (auto simp: in_set_conv_nth)
  have look: "map_of m own = Some i"
    using map_of_zip_nth [of ts "[0..<length ts]" i] i assms(1,2) by simp
  have no: "\<not> (- 1) - s < calc ! i"
    using Cons.prems(3) i p by (auto simp: u64_add_overflow_iff owned_bytes_Cons)
  have upd: "unat (calc[i := calc ! i + s] ! k) = unat (calc ! k) + (if ts ! i = ts ! k then unat s else 0)"
    if "k < length ts" for k
    using that i assms(1) Cons.prems(1) u64_add_exact [OF no] by (auto simp: nth_eq_iff_index_eq nth_list_update)
  obtain calc' where "sum_owned m ps (calc[i := calc ! i + s]) = Inr calc'" "length calc' = length ts"
    "\<forall>k < length ts. unat (calc' ! k) = unat (calc[i := calc ! i + s] ! k) + owned_bytes ps (ts ! k)"
    using Cons.IH [of "calc[i := calc ! i + s]"] Cons.prems upd p i
    by (auto simp: owned_bytes_Cons add.assoc)
  then show ?case
    using look no upd p i by (auto simp: owned_bytes_Cons)
qed

lemma file_order_perm: "mset (file_order files) = mset [0..<length files]"
  by (simp add: file_order_def)

lemma file_order_props:
  "distinct (file_order files)" "set (file_order files) = {..<length files}"
  using file_order_perm [of files]
  by (metis distinct_upt mset_eq_imp_distinct_iff, metis atLeast_upt mset_eq_setD)

lemma file_order_decreasing:
  "sorted_wrt (\<lambda>a b. file_bytes files b \<le> file_bytes files a) (file_order files)"
proof -
  let ?key = "\<lambda>i. (- int (unat (sf_size (files ! i))), sf_path (files ! i))"
  have "sorted (map ?key (file_order files))" by (simp add: file_order_def)
  then have "sorted_wrt (\<lambda>a b. ?key a \<le> ?key b) (file_order files)" by (simp add: sorted_map)
  moreover have "uint a \<le> uint b \<longleftrightarrow> unat a \<le> unat b" for a b :: u64
    using word_le_def [of a b] word_le_nat_alt [of a b] by simp
  ultimately show ?thesis
    by (elim sorted_wrt_mono_rel [rotated]) (auto simp: less_eq_prod_def file_bytes_def dest: less_imp_le)
qed

lemma assigned_sum_file_order:
  assumes "length owners = length files"
  shows "assigned_sum files (file_order files) owners t = owned_bytes (zip owners (map sf_size files)) t"
proof -
  have "assigned_sum files (file_order files) owners t = assigned_sum files [0..<length files] owners t"
    unfolding assigned_sum_def
    by (metis (no_types, lifting) file_order_perm mset_filter mset_map sum_mset_sum_list)
  also have "\<dots> = sum_list (map (\<lambda>p. unat (snd p)) (filter (\<lambda>p. fst p = t)
      (map (\<lambda>i. (owners ! i, sf_size (files ! i))) [0..<length files])))"
    by (simp add: assigned_sum_def file_bytes_def [abs_def] filter_map o_def)
  also have "map (\<lambda>i. (owners ! i, sf_size (files ! i))) [0..<length files] = zip owners (map sf_size files)"
    using assms by (intro nth_equalityI) simp_all
  finally show ?thesis by (simp add: owned_bytes_def)
qed

lemma assign_files_total:
  assumes "loads_ok loads"
    and "\<forall>k < length loads. load_bytes (loads ! k) + sum_list (map (file_bytes files) order) < 2 ^ 64"
  shows "is_ok (assign_files files order loads owners)"
  using assms
proof (induction order arbitrary: loads owners)
  case (Cons i order)
  define m where "m = minimumLoad loads"
  have m: "m < length loads"
    using Cons.prems(1) minimumLoad_minimal(1) by (simp add: m_def loads_ok_def)
  have no: "\<not> (- 1) - sf_size (files ! i) < tl_bytes (loads ! m)"
    using Cons.prems(2) m by (auto simp: u64_add_overflow_iff load_bytes_def file_bytes_def)
  have "load_bytes (add_bytes m (sf_size (files ! i)) loads ! k) \<le> load_bytes (loads ! k) + file_bytes files i"
    if "k < length loads" for k
    using that m u64_add_exact [OF no]
    by (auto simp: add_bytes_def load_bytes_def file_bytes_def nth_list_update)
  then have "is_ok (assign_files files order (add_bytes m (sf_size (files ! i)) loads)
      (owners[i := load_transfer (loads ! m)]))"
    using Cons.prems weights_loads_ok(1) [OF add_bytes_weights]
    by (intro Cons.IH) (fastforce simp: add.assoc)+
  then show ?case
    using no by (simp add: assign_files_Cons Let_def m_def)
qed simp

section \<open>The allocation as a whole\<close>

definition start_loads :: "transfer_weight list \<Rightarrow> transfer_load list" where
  "start_loads ws = map (\<lambda>w. \<lparr>tl_weight = w, tl_bytes = 0\<rparr>) ws"

lemma start_loads_ok: "weights_ok ws \<Longrightarrow> loads_ok (start_loads ws)"
  by (auto simp: weights_ok_def loads_ok_def start_loads_def load_weight_def load_transfer_def
      o_def unat_gt_0)

lemma allocation_valid:
  assumes ws: "weights_ok ws"
    and alloc: "allocateFiles (sc_files c) (start_loads ws) = Inr (loads, owners)"
  shows "validateTransferAllocation
     \<lparr>al_snapshot = Some c, al_transfers = map tw_transfer ws,
      al_transferIndex = zip (map tw_transfer ws) [0..<length ws], al_fileOwners = owners,
      al_emptyDirOwners = allocateEmptyDirectories (length (sc_emptyDirs c)) (map tw_transfer ws),
      al_totalBytes = map tl_bytes loads\<rparr> = Inr ()"
proof -
  let ?files = "sc_files c" and ?ts = "map tw_transfer ws"
  let ?m = "zip ?ts [0..<length ws]"
  let ?ps = "zip owners (map sf_size ?files)"
  note A = alloc [unfolded allocateFiles_def]
  note props = file_order_props [of ?files]
  have len: "length owners = length ?files" "length loads = length ws"
    using assign_files_frame(1,2) [OF A] map_eq_imp_length_eq [of tl_weight loads tl_weight]
    by (auto simp: start_loads_def dest: map_eq_imp_length_eq)
  have owner: "own \<in> set ?ts" if "own \<in> set owners" for own
    using that assign_files_totals(1) [OF A start_loads_ok [OF ws]] props len
    by (auto simp: in_set_conv_nth start_loads_def load_transfer_def o_def)
  have bytes: "unat (tl_bytes (loads ! k)) = owned_bytes ?ps (?ts ! k)" if "k < length ws" for k
    using assign_files_totals(2) [OF A start_loads_ok [OF ws], of k] that props
      assigned_sum_file_order [OF len(1)]
    by (simp add: start_loads_def load_transfer_def load_bytes_def)
  have bound: "owned_bytes ?ps (?ts ! k) < 2 ^ 64" if "k < length ws" for k
    using bytes [OF that] unat_u64_less [of "tl_bytes (loads ! k)"] by simp
  have "\<exists>calc'. sum_owned ?m ?ps (replicate (length ws) 0) = Inr calc' \<and> length calc' = length ?ts \<and>
      (\<forall>k < length ?ts. unat (calc' ! k) = unat (replicate (length ws) (0 :: u64) ! k) + owned_bytes ?ps (?ts ! k))"
    using ws owner bound by (intro sum_owned_ok) (auto simp: weights_ok_def dest: set_zip_leftD)
  then obtain calc where calc: "sum_owned ?m ?ps (replicate (length ws) 0) = Inr calc"
    "length calc = length ws" "\<forall>k < length ws. unat (calc ! k) = owned_bytes ?ps (?ts ! k)"
    by auto
  then have "calc = map tl_bytes loads"
    using len bytes by (intro nth_equalityI) (auto simp: word_eq_iff_unsigned [where 'a = nat])
  moreover have idx: "map_of ?m (?ts ! k) = Some k" if "k < length ws" for k
    using map_of_zip_nth [of ?ts "[0..<length ws]" k] ws that by (simp add: weights_ok_def)
  have "\<not> list_ex (\<lambda>(i, t). num_value t = 0 \<or> index_or_zero ?m t \<noteq> i) (enumerate 0 ?ts)"
    using idx ws unfolding list_ex_iff index_or_zero_def weights_ok_def
    by (fastforce simp: in_set_enumerate_eq)
  moreover have "\<not> list_ex (\<lambda>own. map_of ?m own = None) (allocateEmptyDirectories n ?ts)" for n
    using idx [of "k mod length ws" for k] ws
    unfolding list_ex_iff allocateEmptyDirectories_def weights_ok_def by fastforce
  ultimately show ?thesis
    using calc ws len
    by (simp add: validateTransferAllocation_def weights_ok_def allocateEmptyDirectories_def)
qed

definition allocation_of ::
  "source_snapshot_contents \<Rightarrow> transfer_weight list \<Rightarrow> transfer_load list \<Rightarrow> transfer_number list \<Rightarrow>
     transfer_allocation" where
  "allocation_of c ws loads owners =
     \<lparr>al_snapshot = Some c, al_transfers = map tw_transfer ws,
      al_transferIndex = zip (map tw_transfer ws) [0..<length ws], al_fileOwners = owners,
      al_emptyDirOwners = allocateEmptyDirectories (length (sc_emptyDirs c)) (map tw_transfer ws),
      al_totalBytes = map tl_bytes loads\<rparr>"

lemma AllocateTransferItems_eq:
  assumes "weights_ok ws"
  shows "AllocateTransferItems (Some c) ws =
     (if sc_files c = [] \<and> sc_emptyDirs c = [] then Inl ErrNoTransferItems
      else bind_r (allocateFiles (sc_files c) (start_loads ws))
        (\<lambda>(loads, owners). Inr (allocation_of c ws loads owners)))"
proof -
  have "init_loads 0 ws [] = Inr (start_loads ws, zip (map tw_transfer ws) [0..<length ws])"
    using assms init_loads_ok [of ws "[]" 0] by (simp add: weights_ok_def start_loads_def)
  moreover have "ws \<noteq> []" using assms by (simp add: weights_ok_def)
  ultimately show ?thesis
    using allocation_valid [OF assms, of c]
    by (cases "allocateFiles (sc_files c) (start_loads ws)")
      (auto simp: AllocateTransferItems_def Let_def allocation_of_def)
qed

lemma AllocateTransferItems_Inr:
  assumes "weights_ok ws" "AllocateTransferItems (Some c) ws = Inr a"
  obtains loads owners where
    "assign_files (sc_files c) (file_order (sc_files c)) (start_loads ws)
       (replicate (length (sc_files c)) no_number) = Inr (loads, owners)"
    "a = allocation_of c ws loads owners" "length owners = length (sc_files c)"
    "length loads = length ws" "set owners \<subseteq> tw_transfer ` set ws"
    "\<And>k. k < length ws \<Longrightarrow> load_bytes (loads ! k) =
       owned_bytes (zip owners (map sf_size (sc_files c))) (tw_transfer (ws ! k))"
proof -
  from assms(2) obtain loads owners where
    A: "assign_files (sc_files c) (file_order (sc_files c)) (start_loads ws)
       (replicate (length (sc_files c)) no_number) = Inr (loads, owners)"
    and a: "a = allocation_of c ws loads owners"
    by (auto simp: AllocateTransferItems_eq [OF assms(1)] allocateFiles_def result_simps split: if_splits)
  note props = file_order_props [of "sc_files c"]
  have len: "length owners = length (sc_files c)" "length loads = length ws"
    using assign_files_frame(1,2) [OF A] by (auto simp: start_loads_def dest: map_eq_imp_length_eq)
  moreover have "set owners \<subseteq> tw_transfer ` set ws"
    using assign_files_totals(1) [OF A start_loads_ok [OF assms(1)]] props len
    by (auto simp: in_set_conv_nth start_loads_def load_transfer_def image_image)
  moreover have "load_bytes (loads ! k) =
      owned_bytes (zip owners (map sf_size (sc_files c))) (tw_transfer (ws ! k))" if "k < length ws" for k
    using assign_files_totals(2) [OF A start_loads_ok [OF assms(1)], of k] that props
      assigned_sum_file_order [OF len(1)]
    by (simp add: start_loads_def load_transfer_def load_bytes_def)
  ultimately show ?thesis using A a that by blast
qed

lemma owned_partition:
  "length xs = length owners \<Longrightarrow> distinct ts \<Longrightarrow> set owners \<subseteq> set ts \<Longrightarrow>
     mset xs = sum_list (map (\<lambda>t. mset (owned xs owners t)) ts)"
proof (induction xs owners rule: list_induct2)
  case (Cons x xs own owners)
  have "sum_list (map (\<lambda>t. mset (owned (x # xs) (own # owners) t)) us) =
      (if own \<in> set us then {#x#} else {#}) + sum_list (map (\<lambda>t. mset (owned xs owners t)) us)"
    if "distinct us" for us
    using that by (induction us) (auto simp: owned_def)
  with Cons show ?case by simp
qed (simp add: owned_def)

lemma owned_bytes_owned:
  "length xs = length owners \<Longrightarrow>
     owned_bytes (zip owners (map f xs)) t = sum_list (map (\<lambda>x. unat (f x)) (owned xs owners t))"
  by (induction xs owners rule: list_induct2) (auto simp: owned_def owned_bytes_def)

lemma set_owned:
  "length xs = length owners \<Longrightarrow> x \<in> set (owned xs owners t) \<longleftrightarrow> (\<exists>i < length xs. xs ! i = x \<and> owners ! i = t)"
  by (auto simp: owned_def set_zip image_iff)

lemma empty_owners_subset:
  "ws \<noteq> [] \<Longrightarrow> set (allocateEmptyDirectories n (map tw_transfer ws)) \<subseteq> tw_transfer ` set ws"
  by (auto simp: allocateEmptyDirectories_def)

text \<open>The interface by which later stages use an allocation: every item has exactly one owner.\<close>

lemma allocation_partition:
  assumes "weights_ok ws" "AllocateTransferItems (Some c) ws = Inr a"
  shows "mset (sc_files c) = sum_list (map (\<lambda>t. mset (alloc_Files a t)) (al_transfers a))"
    and "mset (sc_emptyDirs c) = sum_list (map (\<lambda>t. mset (alloc_EmptyDirectories a t)) (al_transfers a))"
proof -
  obtain loads owners where a: "a = allocation_of c ws loads owners"
    and len: "length owners = length (sc_files c)" and sub: "set owners \<subseteq> tw_transfer ` set ws"
    using AllocateTransferItems_Inr [OF assms] by metis
  have ws: "distinct (map tw_transfer ws)" "ws \<noteq> []" using assms(1) by (simp_all add: weights_ok_def)
  from ws len sub show "mset (sc_files c) = sum_list (map (\<lambda>t. mset (alloc_Files a t)) (al_transfers a))"
    using owned_partition [of "sc_files c" owners "map tw_transfer ws"]
    by (simp add: a allocation_of_def alloc_Files_def)
  have "length (allocateEmptyDirectories n (map tw_transfer ws)) = n" for n
    by (simp add: allocateEmptyDirectories_def)
  with ws show "mset (sc_emptyDirs c) =
      sum_list (map (\<lambda>t. mset (alloc_EmptyDirectories a t)) (al_transfers a))"
    using empty_owners_subset [OF ws(2)] owned_partition [of "sc_emptyDirs c"
      "allocateEmptyDirectories (length (sc_emptyDirs c)) (map tw_transfer ws)" "map tw_transfer ws"]
    by (simp add: a allocation_of_def alloc_EmptyDirectories_def)
qed

lemma allocation_totals:
  assumes "weights_ok ws" "AllocateTransferItems (Some c) ws = Inr a" "k < length ws"
  shows "\<exists>b. TotalBytes a (tw_transfer (ws ! k)) = Some b \<and>
     unat b = sum_list (map (\<lambda>f. unat (sf_size f)) (alloc_Files a (tw_transfer (ws ! k))))"
proof -
  obtain loads owners where a: "a = allocation_of c ws loads owners"
    and len: "length owners = length (sc_files c)" "length loads = length ws"
    and bytes: "load_bytes (loads ! k) = owned_bytes (zip owners (map sf_size (sc_files c))) (tw_transfer (ws ! k))"
    using AllocateTransferItems_Inr [OF assms(1,2)] assms(3) by metis
  have "map_of (zip (map tw_transfer ws) [0..<length ws]) (tw_transfer (ws ! k)) = Some k"
    using map_of_zip_nth [of "map tw_transfer ws" "[0..<length ws]" k] assms(1,3)
    by (simp add: weights_ok_def)
  then show ?thesis
    using bytes len assms(3) owned_bytes_owned [of "sc_files c" owners sf_size]
    by (simp add: a allocation_of_def TotalBytes_def alloc_Files_def load_bytes_def)
qed

text \<open>Balance, stated on the files a transfer receives.\<close>

lemma allocation_balance:
  assumes "weights_ok ws" "AllocateTransferItems (Some c) ws = Inr a" "k < length ws" "j < length ws"
    and some: "alloc_Files a (tw_transfer (ws ! k)) \<noteq> []"
  shows "\<exists>f \<in> set (alloc_Files a (tw_transfer (ws ! k))).
     (\<forall>g \<in> set (alloc_Files a (tw_transfer (ws ! k))). sf_size f \<le> sf_size g) \<and>
     (sum_list (map (\<lambda>f. unat (sf_size f)) (alloc_Files a (tw_transfer (ws ! k)))) - unat (sf_size f)) *
       unat (tw_weight (ws ! j)) \<le>
     sum_list (map (\<lambda>f. unat (sf_size f)) (alloc_Files a (tw_transfer (ws ! j)))) *
       unat (tw_weight (ws ! k))"
proof -
  let ?files = "sc_files c"
  obtain loads owners where
    A: "assign_files ?files (file_order ?files) (start_loads ws) (replicate (length ?files) no_number) = Inr (loads, owners)"
    and a: "a = allocation_of c ws loads owners"
    and len: "length owners = length ?files" "length loads = length ws"
    and bytes: "\<And>k. k < length ws \<Longrightarrow>
      load_bytes (loads ! k) = owned_bytes (zip owners (map sf_size ?files)) (tw_transfer (ws ! k))"
    using AllocateTransferItems_Inr [OF assms(1,2)] by metis
  have W: "map tl_weight loads = map tl_weight (start_loads ws)"
    using assign_files_frame(1) [OF A] .
  have tr: "load_transfer (loads ! i) = tw_transfer (ws ! i)" "load_weight (loads ! i) = unat (tw_weight (ws ! i))"
    if "i < length ws" for i
    using weights_loads_ok(2,3) [OF W, of i] that
    by (simp_all add: start_loads_def load_transfer_def load_weight_def)
  have sum: "sum_list (map (\<lambda>f. unat (sf_size f)) (alloc_Files a (tw_transfer (ws ! i)))) = load_bytes (loads ! i)"
    if "i < length ws" for i
    using bytes [OF that] owned_bytes_owned [of ?files owners sf_size] len
    by (simp add: a allocation_of_def alloc_Files_def)
  have files: "f \<in> set (alloc_Files a t) \<longleftrightarrow> (\<exists>i < length ?files. ?files ! i = f \<and> owners ! i = t)" for f t
    using len by (simp add: a allocation_of_def alloc_Files_def set_owned)
  have "balanced_at ?files (file_order ?files) owners loads k"
    using A start_loads_ok [OF assms(1)] file_order_props [of ?files] file_order_decreasing assms(3)
    by (intro assign_files_balanced [OF A]) (simp_all add: start_loads_def)
  moreover obtain f0 where "f0 \<in> set (alloc_Files a (tw_transfer (ws ! k)))" using some by fastforce
  ultimately obtain i where i: "i < length ?files" "owners ! i = tw_transfer (ws ! k)"
    "\<forall>i' < length ?files. owners ! i' = tw_transfer (ws ! k) \<longrightarrow> file_bytes ?files i \<le> file_bytes ?files i'"
    "(load_bytes (loads ! k) - file_bytes ?files i) * load_weight (loads ! j) \<le> load_bytes (loads ! j) * load_weight (loads ! k)"
    using files tr(1) [OF assms(3)] assms(4) len(2)
    unfolding balanced_at_def file_order_props(2) by auto
  show ?thesis
    using i files tr assms(3,4)
    by (intro bexI [of _ "?files ! i"]) (auto simp: sum file_bytes_def word_le_nat_alt)
qed

text \<open>The assignment always succeeds when the sizes of all files together fit in 64 bits.\<close>

lemma allocation_succeeds:
  assumes "weights_ok ws" "sc_files c \<noteq> [] \<or> sc_emptyDirs c \<noteq> []"
    and fits: "sum_list (map (\<lambda>f. unat (sf_size f)) (sc_files c)) < 2 ^ 64"
  shows "is_ok (AllocateTransferItems (Some c) ws)"
proof -
  let ?files = "sc_files c"
  have "sum_list (map (file_bytes ?files) (file_order ?files)) = sum_list (map (file_bytes ?files) [0..<length ?files])"
    by (metis file_order_perm mset_map sum_mset_sum_list)
  also have "map (file_bytes ?files) [0..<length ?files] = map (\<lambda>f. unat (sf_size f)) ?files"
    by (intro nth_equalityI) (simp_all add: file_bytes_def)
  finally have "is_ok (allocateFiles ?files (start_loads ws))"
    unfolding allocateFiles_def using fits
    by (intro assign_files_total start_loads_ok assms(1)) (simp add: start_loads_def load_bytes_def)
  then show ?thesis
    using assms(2) by (auto simp: AllocateTransferItems_eq [OF assms(1)] is_ok_iff)
qed

section \<open>Properties\<close>

text \<open>
  C1: every source file and every empty directory is assigned to exactly one transfer.  The
  files (and the empty directories) handed to the transfers of an allocation are, together
  and with multiplicity, exactly those of the snapshot.
\<close>

theorem allocation_assigns_every_item_once:
  assumes "NewTransferWeights values = Inr ws" "AllocateTransferItems (Some c) ws = Inr a"
  shows "sum_list (map (\<lambda>t. mset (alloc_Files a t)) (al_transfers a)) = mset (sc_files c) \<and>
    sum_list (map (\<lambda>t. mset (alloc_EmptyDirectories a t)) (al_transfers a)) = mset (sc_emptyDirs c)"
  using allocation_partition [OF NewTransferWeights_ok [OF assms(1)] assms(2)] by simp

text \<open>
  C2: the weighted balance of the greedy assignment.  For any two transfers of an
  allocation, if the first one received a file, then without the smallest file it received
  its bytes per unit of weight do not exceed those of the second one (compared exactly, by
  cross multiplication).
\<close>

theorem allocation_is_balanced:
  assumes "NewTransferWeights values = Inr ws" "AllocateTransferItems (Some c) ws = Inr a"
    and "v \<in> set ws" "w \<in> set ws" "alloc_Files a (tw_transfer v) \<noteq> []"
  shows "\<exists>f \<in> set (alloc_Files a (tw_transfer v)).
    (\<forall>g \<in> set (alloc_Files a (tw_transfer v)). sf_size f \<le> sf_size g) \<and>
    (sum_list (map (\<lambda>f. unat (sf_size f)) (alloc_Files a (tw_transfer v))) - unat (sf_size f)) *
      unat (tw_weight w) \<le>
    sum_list (map (\<lambda>f. unat (sf_size f)) (alloc_Files a (tw_transfer w))) * unat (tw_weight v)"
proof -
  obtain k j where "k < length ws" "ws ! k = v" "j < length ws" "ws ! j = w"
    using assms(3,4) by (metis in_set_conv_nth)
  with allocation_balance [OF NewTransferWeights_ok [OF assms(1)] assms(2), of k j] assms(5)
  show ?thesis by simp
qed

text \<open>
  C3: an allocation never fails for valid weights and a source with at least one item whose
  sizes together fit in 64 bits, and the recorded total of each transfer is the exact,
  unwrapped sum of the sizes of its files.
\<close>

theorem allocation_succeeds_with_exact_totals:
  assumes "NewTransferWeights values = Inr ws" "sc_files c \<noteq> [] \<or> sc_emptyDirs c \<noteq> []"
    and "sum_list (map (\<lambda>f. unat (sf_size f)) (sc_files c)) < 2 ^ 64"
  shows "\<exists>a. AllocateTransferItems (Some c) ws = Inr a \<and>
    (\<forall>w \<in> set ws. \<exists>b. TotalBytes a (tw_transfer w) = Some b \<and>
       unat b = sum_list (map (\<lambda>f. unat (sf_size f)) (alloc_Files a (tw_transfer w))))"
proof -
  note ok = NewTransferWeights_ok [OF assms(1)]
  obtain a where a: "AllocateTransferItems (Some c) ws = Inr a"
    using allocation_succeeds [OF ok assms(2,3)] by (auto simp: is_ok_iff)
  with allocation_totals [OF ok a] show ?thesis
    by (intro exI [of _ a]) (metis in_set_conv_nth)
qed

text \<open>Concrete inputs.\<close>

definition demo_file :: "string \<Rightarrow> u64 \<Rightarrow> source_entry" where
  "demo_file p n = fileEntry \<lparr>sf_path = p, sf_size = n, sf_backing = \<lparr>anchor = 0, br_path = p\<rparr>\<rparr>"

definition demo_tree :: source_directory where
  "demo_tree = SourceDirectory '''' \<lparr>anchor = 0, br_path = ''.''\<rparr>
     [demo_file ''a'' 7,
      directoryEntry (SourceDirectory ''d'' \<lparr>anchor = 0, br_path = ''d''\<rparr>
        [demo_file ''d/x'' 5, demo_file ''d/y'' 4]),
      directoryEntry (SourceDirectory ''e'' \<lparr>anchor = 0, br_path = ''e''\<rparr> [])]"

definition demo_weights :: "transfer_weight list" where
  "demo_weights =
     [\<lparr>tw_transfer = Number 2, tw_weight = 1\<rparr>, \<lparr>tw_transfer = Number 1, tw_weight = 2\<rparr>]"

definition demo_snapshot :: source_snapshot_contents where
  "demo_snapshot =
     (case newSourceSnapshot ''src''
        \<lparr>si_device = 1, si_inode = 2, si_kind = sourceDirectoryObject\<rparr> (Some 0) demo_tree
        \<lparr>followedSymlinks = 0, ignoredSymlinks = 0, emptyDirectories = 1, ignoredSpecialFiles = 0\<rparr>
      of Inr (Some c) \<Rightarrow> c)"

definition demo_sorted :: "transfer_weight list" where
  "demo_sorted = rev demo_weights"

lemma demo_sorted_eq: "NewTransferWeights demo_weights = Inr demo_sorted"
  by code_simp

lemma demo_allocation_ok: "is_ok (AllocateTransferItems (Some demo_snapshot) demo_sorted)"
  by code_simp

theorem allocation_assigns_every_item_once_witness:
  "\<exists>a. AllocateTransferItems (Some demo_snapshot) demo_sorted = Inr a \<and>
     sum_list (map (\<lambda>t. mset (alloc_Files a t)) (al_transfers a)) = mset (sc_files demo_snapshot)"
  using allocation_assigns_every_item_once [OF demo_sorted_eq] demo_allocation_ok
  by (auto simp: is_ok_iff)

theorem allocation_is_balanced_witness:
  "\<exists>a f. AllocateTransferItems (Some demo_snapshot) demo_sorted = Inr a \<and>
     f \<in> set (alloc_Files a (Number 1)) \<and>
     (sum_list (map (\<lambda>f. unat (sf_size f)) (alloc_Files a (Number 1))) - unat (sf_size f)) * 1 \<le>
     sum_list (map (\<lambda>f. unat (sf_size f)) (alloc_Files a (Number 2))) * 2"
proof -
  obtain a where a: "AllocateTransferItems (Some demo_snapshot) demo_sorted = Inr a"
    using demo_allocation_ok by (auto simp: is_ok_iff)
  have "(case AllocateTransferItems (Some demo_snapshot) demo_sorted of
      Inl _ \<Rightarrow> False | Inr a \<Rightarrow> alloc_Files a (Number 1) \<noteq> [])"
    by code_simp
  with a have "alloc_Files a (Number 1) \<noteq> []" by simp
  with allocation_is_balanced [OF demo_sorted_eq a, of "demo_sorted ! 0" "demo_sorted ! 1"] a
  show ?thesis by (auto simp: demo_sorted_def demo_weights_def)
qed

theorem allocation_succeeds_with_exact_totals_witness:
  "\<exists>a. AllocateTransferItems (Some demo_snapshot) demo_sorted = Inr a \<and>
     (\<forall>w \<in> set demo_sorted. \<exists>b. TotalBytes a (tw_transfer w) = Some b \<and>
       unat b = sum_list (map (\<lambda>f. unat (sf_size f)) (alloc_Files a (tw_transfer w))))"
proof (rule allocation_succeeds_with_exact_totals [OF demo_sorted_eq])
  show "sc_files demo_snapshot \<noteq> [] \<or> sc_emptyDirs demo_snapshot \<noteq> []" by code_simp
  have "sum_list (map (\<lambda>f. unat (sf_size f)) (sc_files demo_snapshot)) = 16" by code_simp
  then show "sum_list (map (\<lambda>f. unat (sf_size f)) (sc_files demo_snapshot)) < 2 ^ 64" by simp
qed

end
