(* ===== verification/View_Tree.thy ===== *)
theory View_Tree
  imports Source_Allocation
begin

text \<open>
  The read-only views derived from an allocation (\<open>internal/fileviews/view_tree.go\<close>): one
  tree of entries shared by all transfers, each entry carrying a 64-bit set of the
  transfers it is visible to.  The view builder relies on the allocation only through
  \<open>OwnerOf\<close>; that contract is the locale \<open>item_owners\<close>, interpreted on the allocations
  that \<open>AllocateTransferItems\<close> returns.  The main fact is that the files one transfer can
  reach in its view are exactly the files it owns.
\<close>

section \<open>Data and operations\<close>

datatype view_entry =
  ViewEntry (ve_name: string) (ve_kind: entry_kind) (ve_backing: backing_reference)
    (ve_children: "view_entry list") (ve_fileOwner: transfer_number)
    (ve_emptyOwner: transfer_number) (ve_members: u64)

record view_tree =
  vt_baseName :: string
  vt_root :: view_entry
  vt_transfers :: "transfer_number list"

datatype view_error =
    AllocationNotComplete
  | EmptyDirectoryHasNoTransfer string
  | FileHasNoTransfer string
  | InvalidDirectory
  | InvalidFile
  | InvalidEntryType

text \<open>\<open>uint64(1) << (value - 1)\<close>; a shift by 64 or more yields zero, as in Go.\<close>

definition transferBit :: "transfer_number \<Rightarrow> u64" where
  "transferBit t = (if num_value t = 0 then 0 else push_bit (unat (num_value t - 1)) 1)"

definition entryName :: "string \<Rightarrow> string" where
  "entryName relative = rev (takeWhile (\<lambda>c. c \<noteq> slash) (rev relative))"

text \<open>
  The builder, over the owner query it is given.  \<open>build_children\<close> is the loop over the
  children of one directory with \<open>buildViewEntry\<close> as its body; \<open>view_directory\<close> makes the
  node of a directory from its children.
\<close>

definition empty_owner ::
  "(string \<Rightarrow> transfer_number option) \<Rightarrow> string \<Rightarrow> bool \<Rightarrow> view_error + transfer_number" where
  "empty_owner owner path isEmpty =
     (if path \<noteq> '''' \<and> isEmpty then
        (case owner path of
           None \<Rightarrow> Inl (EmptyDirectoryHasNoTransfer path)
         | Some t \<Rightarrow> if num_value t = 0 then Inl (EmptyDirectoryHasNoTransfer path) else Inr t)
      else Inr no_number)"

definition view_directory ::
  "string \<Rightarrow> backing_reference \<Rightarrow> transfer_number \<Rightarrow> view_entry list \<Rightarrow> view_entry" where
  "view_directory path backing emptyOwner children =
     ViewEntry (entryName path) DirectoryEntry backing children no_number emptyOwner
       (foldl (OR) (transferBit emptyOwner) (map ve_members children))"

definition view_file :: "source_file \<Rightarrow> transfer_number \<Rightarrow> view_entry" where
  "view_file f t =
     ViewEntry (entryName (sf_path f)) RegularFileEntry (sf_backing f) [] t no_number (transferBit t)"

fun build_children ::
  "(string \<Rightarrow> transfer_number option) \<Rightarrow> source_entry list \<Rightarrow> view_error + view_entry list" where
  "build_children owner [] = Inr []"
| "build_children owner (SourceEntry kind dir file # rest) =
     bind_r
       (case kind of
          DirectoryEntry \<Rightarrow>
            (case dir of
               None \<Rightarrow> Inl InvalidDirectory
             | Some (SourceDirectory path backing children) \<Rightarrow>
                 bind_r (empty_owner owner path (children = [])) (\<lambda>t.
                   bind_r (build_children owner children) (\<lambda>nodes.
                     Inr (view_directory path backing t nodes))))
        | RegularFileEntry \<Rightarrow>
            (case file of
               None \<Rightarrow> Inl InvalidFile
             | Some f \<Rightarrow>
                 (case owner (sf_path f) of
                    None \<Rightarrow> Inl (FileHasNoTransfer (sf_path f))
                  | Some t \<Rightarrow> if num_value t = 0 then Inl (FileHasNoTransfer (sf_path f))
                              else Inr (view_file f t)))
        | NoEntry \<Rightarrow> Inl InvalidEntryType)
       (\<lambda>node. bind_r (build_children owner rest) (\<lambda>nodes. Inr (node # nodes)))"

definition buildViewDirectory ::
  "(string \<Rightarrow> transfer_number option) \<Rightarrow> source_directory \<Rightarrow> view_error + view_entry" where
  "buildViewDirectory owner d =
     bind_r (empty_owner owner (sd_path d) (sd_empty d)) (\<lambda>t.
       bind_r (build_children owner (sd_children d)) (\<lambda>nodes.
         Inr (view_directory (sd_path d) (sd_backing d) t nodes)))"

definition newViewTree :: "transfer_allocation \<Rightarrow> view_error + view_tree" where
  "newViewTree a =
     (if snapshot_BaseName (al_snapshot a) = '''' \<or> length (al_transfers a) = 0
      then Inl AllocationNotComplete
      else bind_r (buildViewDirectory (OwnerOf a) (snapshot_RootDirectory (al_snapshot a)))
        (\<lambda>root. Inr \<lparr>vt_baseName = snapshot_BaseName (al_snapshot a), vt_root = root,
                      vt_transfers = al_transfers a\<rparr>))"

definition visibleTo :: "view_entry \<Rightarrow> transfer_number \<Rightarrow> bool" where
  "visibleTo node transfer \<longleftrightarrow> ve_members node AND transferBit transfer \<noteq> 0"

definition view_child :: "view_entry \<Rightarrow> string \<Rightarrow> transfer_number \<Rightarrow> view_entry option" where
  "view_child node name transfer =
     find (\<lambda>c. ve_name c = name \<and> visibleTo c transfer) (ve_children node)"

definition visibleChildren :: "view_entry \<Rightarrow> transfer_number \<Rightarrow> view_entry list" where
  "visibleChildren node transfer = filter (\<lambda>c. visibleTo c transfer) (ve_children node)"

section \<open>Transfer bits\<close>

lemma bit_transferBit_iff:
  "bit (transferBit t) k \<longleftrightarrow> num t = Suc k \<and> k < 64"
proof (cases "num_value t = 0")
  case False
  then have "unat (num_value t - 1) = num t - 1" "0 < num t"
    by (simp_all add: num_def unat_minus_one unat_gt_0)
  then show ?thesis
    using False by (auto simp: transferBit_def bit_simps bit_1_iff)
qed (simp add: transferBit_def num_def)

lemma bit_members_visible:
  assumes "num t = Suc k" "k < 64"
  shows "visibleTo v t \<longleftrightarrow> bit (ve_members v) k"
  unfolding visibleTo_def using assms
  by (auto simp: bit_eq_iff [of _ 0] bit_and_iff bit_transferBit_iff)

lemma foldl_or_bit: "bit (foldl (OR) m ms) k \<longleftrightarrow> bit m k \<or> (\<exists>x \<in> set ms. bit (x :: u64) k)"
  by (induction ms arbitrary: m) (auto simp: bit_or_iff)

lemma visible_file: "number_ok t \<Longrightarrow> visibleTo (view_file f own) t \<longleftrightarrow> own = t"
proof -
  assume "number_ok t"
  then obtain k where k: "num t = Suc k" "k < 64"
    by (cases "num t") (auto simp: number_ok_def transfer_maximum_def)
  show ?thesis
    unfolding bit_members_visible [OF k] view_file_def
    using k num_inject [of own t] by (auto simp: bit_transferBit_iff)
qed

lemma visible_directory:
  "number_ok t \<Longrightarrow>
     visibleTo (view_directory path b own nodes) t \<longleftrightarrow> own = t \<or> (\<exists>v \<in> set nodes. visibleTo v t)"
proof -
  assume "number_ok t"
  then obtain k where k: "num t = Suc k" "k < 64"
    by (cases "num t") (auto simp: number_ok_def transfer_maximum_def)
  show ?thesis
    unfolding bit_members_visible [OF k] view_directory_def
    using k num_inject [of own t] by (auto simp: bit_transferBit_iff foldl_or_bit)
qed

section \<open>What one transfer can reach\<close>

definition child_path :: "string \<Rightarrow> string \<Rightarrow> string" where
  "child_path parent name = (if parent = '''' then name else parent @ slash # name)"

text \<open>
  Every entry lies in the directory that lists it: its path is the directory's path
  followed by a proper name, at every depth.
\<close>

fun entries_located :: "string \<Rightarrow> source_entry list \<Rightarrow> bool" where
  "entries_located parent [] = True"
| "entries_located parent (SourceEntry kind dir file # rest) =
     ((let path = entry_path (SourceEntry kind dir file) in
         proper_part (entryName path) \<and> path = child_path parent (entryName path) \<and>
         (case dir of
            None \<Rightarrow> True | Some (SourceDirectory p b cs) \<Rightarrow> entries_located path cs))
      \<and> entries_located parent rest)"

text \<open>Walk the visible children from a list of nodes in the directory \<open>parent\<close>.\<close>

fun view_files :: "transfer_number \<Rightarrow> string \<Rightarrow> view_entry list \<Rightarrow> (string \<times> backing_reference) list" where
  "view_files t parent [] = []"
| "view_files t parent (ViewEntry name kind backing children fo eo m # rest) =
     (if visibleTo (ViewEntry name kind backing children fo eo m) t then
        (if kind = DirectoryEntry then view_files t (child_path parent name) children
         else [(child_path parent name, backing)])
      else []) @ view_files t parent rest"

fun view_empty_dirs :: "transfer_number \<Rightarrow> string \<Rightarrow> view_entry list \<Rightarrow> string list" where
  "view_empty_dirs t parent [] = []"
| "view_empty_dirs t parent (ViewEntry name kind backing children fo eo m # rest) =
     (if visibleTo (ViewEntry name kind backing children fo eo m) t \<and> kind = DirectoryEntry then
        (if children = [] then [child_path parent name] else []) @
        view_empty_dirs t (child_path parent name) children
      else []) @ view_empty_dirs t parent rest"

lemma empty_owner_Inr:
  "empty_owner owner path isEmpty = Inr t \<longleftrightarrow>
     (if path \<noteq> '''' \<and> isEmpty then owner path = Some t \<and> t \<noteq> no_number else t = no_number)"
  by (cases t) (auto simp: empty_owner_def split: option.splits)

text \<open>One step of the loop, by kind of entry.\<close>

lemma build_children_file:
  "build_children owner (SourceEntry RegularFileEntry d (Some f) # rest) = Inr vs \<longleftrightarrow>
     (\<exists>t nodes. owner (sf_path f) = Some t \<and> t \<noteq> no_number \<and>
        build_children owner rest = Inr nodes \<and> vs = view_file f t # nodes)"
  by (auto simp: result_simps split: option.splits) (metis transfer_number.exhaust_sel)+

lemma build_children_directory:
  "build_children owner (SourceEntry DirectoryEntry (Some (SourceDirectory p b cs)) fl # rest) = Inr vs \<longleftrightarrow>
     (\<exists>t inner nodes. empty_owner owner p (cs = []) = Inr t \<and> build_children owner cs = Inr inner \<and>
        build_children owner rest = Inr nodes \<and> vs = view_directory p b t inner # nodes)"
  by (auto simp: result_simps)

lemma entries_wf_cases:
  assumes "entries_wf (e # rest)"
  obtains (reg) f where "e = SourceEntry RegularFileEntry None (Some f)"
  | (dir) p b cs where "e = SourceEntry DirectoryEntry (Some (SourceDirectory p b cs)) None" "entries_wf cs"
proof (cases e)
  case (SourceEntry kind dir fl)
  with assms that show ?thesis
    by (cases kind) (auto split: option.splits source_directory.splits)
qed

lemma build_children_induct [consumes 1, case_names Nil reg dir]:
  assumes "entries_wf es"
    and "P []"
    and "\<And>f rest. entries_wf rest \<Longrightarrow> P rest \<Longrightarrow> P (SourceEntry RegularFileEntry None (Some f) # rest)"
    and "\<And>p b cs rest. entries_wf cs \<Longrightarrow> entries_wf rest \<Longrightarrow> P cs \<Longrightarrow> P rest \<Longrightarrow>
      P (SourceEntry DirectoryEntry (Some (SourceDirectory p b cs)) None # rest)"
  shows "P es"
  using assms(1)
proof (induction es rule: entries_wf.induct)
  case (2 kind dir fl rest)
  from "2.prems" show ?case
  proof (cases rule: entries_wf_cases)
    case (reg f)
    with 2 assms(3) show ?thesis by simp
  next
    case (dir p b cs)
    with 2 assms(4) show ?thesis by simp
  qed
qed (rule assms(2))

lemma build_children_visible:
  assumes "entries_wf es" "build_children owner es = Inr vs" "number_ok t"
    and "\<forall>d \<in> set (entries_empty es). sd_path d \<noteq> ''''"
  shows "(\<exists>v \<in> set vs. visibleTo v t) \<longleftrightarrow>
     (\<exists>f \<in> set (entries_files es). owner (sf_path f) = Some t) \<or>
     (\<exists>d \<in> set (entries_empty es). owner (sd_path d) = Some t)"
  using assms(1,2,4)
proof (induction es arbitrary: vs rule: build_children_induct)
  case (reg f rest)
  then show ?case
    using visible_file [OF assms(3)] by (auto simp: build_children_file simp del: build_children.simps)
next
  case (dir p b cs rest)
  from dir.prems(1) obtain own inner nodes where
    parts: "empty_owner owner p (cs = []) = Inr own" "build_children owner cs = Inr inner"
      "build_children owner rest = Inr nodes" "vs = view_directory p b own inner # nodes"
    unfolding build_children_directory by blast
  have "own \<noteq> t" if "cs \<noteq> []"
    using parts(1) that assms(3) by (auto simp: empty_owner_Inr number_ok_def num_def)
  moreover have "own = t \<longleftrightarrow> owner p = Some t" if "cs = []"
    using parts(1) that dir.prems(2) by (auto simp: empty_owner_Inr)
  ultimately show ?case
    using dir.IH(1) [OF parts(2)] dir.IH(2) [OF parts(3)] dir.prems(2) parts(4)
    by (cases "cs = []") (auto simp: visible_directory [OF assms(3)])
qed simp

lemma view_walk_simps:
  "view_files t parent (view_file f own # vs) =
     (if visibleTo (view_file f own) t then [(child_path parent (entryName (sf_path f)), sf_backing f)] else [])
       @ view_files t parent vs"
  "view_files t parent (view_directory p b own inner # vs) =
     (if visibleTo (view_directory p b own inner) t
      then view_files t (child_path parent (entryName p)) inner else []) @ view_files t parent vs"
  "view_empty_dirs t parent (view_file f own # vs) = view_empty_dirs t parent vs"
  "view_empty_dirs t parent (view_directory p b own inner # vs) =
     (if visibleTo (view_directory p b own inner) t
      then (if inner = [] then [child_path parent (entryName p)] else []) @
        view_empty_dirs t (child_path parent (entryName p)) inner
      else []) @ view_empty_dirs t parent vs"
  by (simp_all add: view_file_def view_directory_def)

lemma located_empty_paths:
  "entries_wf es \<Longrightarrow> entries_located parent es \<Longrightarrow> d \<in> set (entries_empty es) \<Longrightarrow> sd_path d \<noteq> ''''"
proof (induction es arbitrary: parent rule: build_children_induct)
  case (dir p b cs rest)
  then show ?case
    by (auto simp: Let_def entry_path_def entryName_def proper_part_def split: if_splits)
qed auto

lemma build_children_Nil_iff: "build_children owner es = Inr vs \<Longrightarrow> vs = [] \<longleftrightarrow> es = []"
  by (cases es rule: entries_wf.cases) (auto simp: result_simps)

text \<open>The files reachable for a transfer are the files it owns, in the order of the tree.\<close>

lemma build_children_files:
  assumes "entries_wf es" "build_children owner es = Inr vs" "number_ok t" "entries_located parent es"
  shows "view_files t parent vs =
     map (\<lambda>f. (sf_path f, sf_backing f)) (filter (\<lambda>f. owner (sf_path f) = Some t) (entries_files es))"
  using assms(1,2,4)
proof (induction es arbitrary: vs parent rule: build_children_induct)
  case (reg f rest)
  then obtain own nodes where "owner (sf_path f) = Some own" "build_children owner rest = Inr nodes"
    "vs = view_file f own # nodes"
    by (auto simp: build_children_file simp del: build_children.simps)
  with reg show ?case
    by (auto simp: view_walk_simps visible_file [OF assms(3)] Let_def entry_path_def)
next
  case (dir p b cs rest)
  from dir.prems(1) obtain own inner nodes where
    parts: "build_children owner cs = Inr inner" "build_children owner rest = Inr nodes"
      "vs = view_directory p b own inner # nodes"
    unfolding build_children_directory by blast
  have loc: "entries_located p cs" "entries_located parent rest" "p = child_path parent (entryName p)"
    using dir.prems(2) by (auto simp: Let_def entry_path_def)
  have "filter (\<lambda>f. owner (sf_path f) = Some t) (entries_files cs) = []"
    if "\<not> visibleTo (view_directory p b own inner) t"
    using that build_children_visible [OF dir.hyps(1) parts(1) assms(3)] located_empty_paths [OF dir.hyps(1) loc(1)]
    by (auto simp: visible_directory [OF assms(3)] filter_empty_conv)
  then show ?case
    using dir.IH(1) [OF parts(1) loc(1)] dir.IH(2) [OF parts(2) loc(2)] loc(3)
    by (auto simp: view_walk_simps parts(3))
qed simp

lemma build_children_empty_dirs:
  assumes "entries_wf es" "build_children owner es = Inr vs" "number_ok t" "entries_located parent es"
  shows "view_empty_dirs t parent vs =
     map sd_path (filter (\<lambda>d. owner (sd_path d) = Some t) (entries_empty es))"
  using assms(1,2,4)
proof (induction es arbitrary: vs parent rule: build_children_induct)
  case (reg f rest)
  then obtain own nodes where "build_children owner rest = Inr nodes" "vs = view_file f own # nodes"
    by (auto simp: build_children_file simp del: build_children.simps)
  with reg show ?case by (simp add: view_walk_simps)
next
  case (dir p b cs rest)
  from dir.prems(1) obtain own inner nodes where
    parts: "build_children owner cs = Inr inner" "build_children owner rest = Inr nodes"
      "vs = view_directory p b own inner # nodes" "empty_owner owner p (cs = []) = Inr own"
    unfolding build_children_directory by blast
  have loc: "entries_located p cs" "entries_located parent rest" "p = child_path parent (entryName p)"
    and "p \<noteq> ''''"
    using dir.prems(2) by (auto simp: Let_def entry_path_def entryName_def proper_part_def)
  then have own: "own = t \<longleftrightarrow> cs = [] \<and> owner p = Some t"
    using parts(4) assms(3) by (auto simp: empty_owner_Inr number_ok_def num_def split: if_splits)
  have "filter (\<lambda>d. owner (sd_path d) = Some t) (entries_empty cs) = []"
    if "\<not> visibleTo (view_directory p b own inner) t"
    using that build_children_visible [OF dir.hyps(1) parts(1) assms(3)] located_empty_paths [OF dir.hyps(1) loc(1)]
    by (auto simp: visible_directory [OF assms(3)] filter_empty_conv)
  then show ?case
    using dir.IH(1) [OF parts(1) loc(1)] dir.IH(2) [OF parts(2) loc(2)] loc(3) own
      build_children_Nil_iff [OF parts(1)]
    by (cases "cs = []") (auto simp: view_walk_simps parts(3) visible_directory [OF assms(3)])
qed simp

lemma build_children_total:
  assumes "entries_wf es"
    and "\<forall>f \<in> set (entries_files es). \<exists>t. owner (sf_path f) = Some t \<and> t \<noteq> no_number"
    and "\<forall>d \<in> set (entries_empty es). \<exists>t. owner (sd_path d) = Some t \<and> t \<noteq> no_number"
  shows "\<exists>vs. build_children owner es = Inr vs"
  using assms
proof (induction es rule: build_children_induct)
  case (reg f rest)
  then show ?case by (auto simp: build_children_file simp del: build_children.simps)
next
  case (dir p b cs rest)
  then have "\<exists>own. empty_owner owner p (cs = []) = Inr own"
    by (cases "cs = []") (auto simp: empty_owner_Inr)
  with dir show ?case by (auto simp: build_children_directory simp del: build_children.simps)
qed simp

lemma no_number_not_ok: "number_ok t \<Longrightarrow> t \<noteq> no_number"
  by (auto simp: number_ok_def num_def)

section \<open>The interface between allocation and views\<close>

text \<open>
  What the view builder needs of an allocation \<open>a\<close>: a well-formed tree whose entries lie
  where their paths say, and a usable owner for every file and every empty directory.
\<close>

locale item_owners =
  fixes owner :: "'a \<Rightarrow> string \<Rightarrow> transfer_number option"
    and tree :: "'a \<Rightarrow> source_directory"
    and ok :: "'a \<Rightarrow> bool"
  assumes tree_wf: "ok a \<Longrightarrow> entries_wf (sd_children (tree a))"
    and tree_located: "ok a \<Longrightarrow> entries_located '''' (sd_children (tree a))"
    and tree_root: "ok a \<Longrightarrow> sd_path (tree a) = ''''"
    and file_has_owner: "ok a \<Longrightarrow> f \<in> set (entries_files (sd_children (tree a))) \<Longrightarrow>
      \<exists>t. owner a (sf_path f) = Some t \<and> number_ok t"
    and empty_has_owner: "ok a \<Longrightarrow> d \<in> set (entries_empty (sd_children (tree a))) \<Longrightarrow>
      \<exists>t. owner a (sd_path d) = Some t \<and> number_ok t"
begin

lemma view_root:
  assumes "ok a"
  shows "buildViewDirectory (owner a) (tree a) = Inr root \<longleftrightarrow>
    (\<exists>nodes. build_children (owner a) (sd_children (tree a)) = Inr nodes \<and>
       root = view_directory '''' (sd_backing (tree a)) no_number nodes)"
  using tree_root [OF assms] by (auto simp: buildViewDirectory_def empty_owner_def result_simps)

lemma view_total: "ok a \<Longrightarrow> \<exists>root. buildViewDirectory (owner a) (tree a) = Inr root"
  using build_children_total [of "sd_children (tree a)" "owner a"] tree_wf file_has_owner empty_has_owner
  unfolding view_root by (metis no_number_not_ok)

lemma view_files_owned:
  assumes "ok a" "number_ok t" "buildViewDirectory (owner a) (tree a) = Inr root"
  shows "view_files t '''' (ve_children root) =
      map (\<lambda>f. (sf_path f, sf_backing f))
        (filter (\<lambda>f. owner a (sf_path f) = Some t) (entries_files (sd_children (tree a))))"
    and "view_empty_dirs t '''' (ve_children root) =
      map sd_path (filter (\<lambda>d. owner a (sd_path d) = Some t) (entries_empty (sd_children (tree a))))"
  using assms(3) build_children_files [OF tree_wf [OF assms(1)] _ assms(2) tree_located [OF assms(1)]]
    build_children_empty_dirs [OF tree_wf [OF assms(1)] _ assms(2) tree_located [OF assms(1)]]
  unfolding view_root [OF assms(1)] by (auto simp: view_directory_def)

lemma view_exactly_one:
  assumes "ok a" "buildViewDirectory (owner a) (tree a) = Inr root"
    and "f \<in> set (entries_files (sd_children (tree a)))"
  shows "\<exists>!t. number_ok t \<and> sf_path f \<in> fst ` set (view_files t '''' (ve_children root))"
proof -
  obtain own where own: "owner a (sf_path f) = Some own" "number_ok own"
    using file_has_owner [OF assms(1,3)] by blast
  have "sf_path f \<in> fst ` set (view_files t '''' (ve_children root)) \<longleftrightarrow> t = own" if "number_ok t" for t
    using view_files_owned(1) [OF assms(1) that assms(2)] own(1) assms(3) by force
  with own(2) show ?thesis by metis
qed

end

text \<open>The allocations the program makes: a scanned snapshot and validated weights.\<close>

definition allocation_ok :: "transfer_allocation \<Rightarrow> bool" where
  "allocation_ok a \<longleftrightarrow>
     (\<exists>c ws. snapshot_ok c \<and> entries_located '''' (sd_children (sc_tree c)) \<and> weights_ok ws \<and>
        (\<forall>w \<in> set ws. number_ok (tw_transfer w)) \<and> AllocateTransferItems (Some c) ws = Inr a)"

lemma OwnerOf_file:
  assumes "snapshot_ok c" "al_snapshot a = Some c" "i < length (sc_files c)"
  shows "OwnerOf a (sf_path (sc_files c ! i)) = Some (al_fileOwners a ! i)"
proof -
  have "set (sc_files c) = set (entries_files (sd_children (sc_tree c)))"
    using assms(1) unfolding snapshot_ok_def by (metis set_mset_mset)
  then have "sc_files c ! i \<in> set (entries_files (sd_children (sc_tree c)))"
    using assms(3) nth_mem by blast
  then have "(sf_path (sc_files c ! i), RegularFileEntry) \<in> set (entries_kinds (sd_children (sc_tree c)))"
    using entries_files_kinds [of "sd_children (sc_tree c)"] assms(1)
    by (metis (no_types, lifting) filter_is_subset image_eqI list.set_map snapshot_ok_def subsetD)
  then have "sc_entryKinds c (sf_path (sc_files c ! i)) = Some RegularFileEntry"
    using assms(1) by (simp add: snapshot_ok_def)
  moreover have "sc_fileIndex c (sf_path (sc_files c ! i)) = Some i"
    using assms(1,3) by (simp add: snapshot_ok_def index_of_Some_iff)
  ultimately show ?thesis using assms(2) by (simp add: OwnerOf_def)
qed

lemma OwnerOf_empty:
  assumes "snapshot_ok c" "al_snapshot a = Some c" "i < length (sc_emptyDirs c)"
  shows "OwnerOf a (sd_path (sc_emptyDirs c ! i)) = Some (al_emptyDirOwners a ! i)"
proof -
  have "set (sc_emptyDirs c) = set (entries_empty (sd_children (sc_tree c)))"
    using assms(1) unfolding snapshot_ok_def by (metis set_mset_mset)
  then have "sc_emptyDirs c ! i \<in> set (entries_empty (sd_children (sc_tree c)))"
    using assms(3) nth_mem by blast
  then have "(sd_path (sc_emptyDirs c ! i), DirectoryEntry) \<in> set (entries_kinds (sd_children (sc_tree c)))"
    using assms(1) by (auto simp: snapshot_ok_def intro: entries_empty_kinds)
  then have "sc_entryKinds c (sd_path (sc_emptyDirs c ! i)) = Some DirectoryEntry"
    using assms(1) by (simp add: snapshot_ok_def)
  moreover have "sc_emptyDirIndex c (sd_path (sc_emptyDirs c ! i)) = Some i"
    using assms(1,3) by (simp add: snapshot_ok_def index_of_Some_iff)
  ultimately show ?thesis using assms(2) by (simp add: OwnerOf_def)
qed

lemma allocation_owner:
  assumes "allocation_ok a"
  obtains c ws where "snapshot_ok c" "al_snapshot a = Some c" "weights_ok ws"
    "entries_located '''' (sd_children (sc_tree c))" "AllocateTransferItems (Some c) ws = Inr a"
    "length (al_fileOwners a) = length (sc_files c)"
    "length (al_emptyDirOwners a) = length (sc_emptyDirs c)"
    "\<forall>t \<in> set (al_fileOwners a) \<union> set (al_emptyDirOwners a) \<union> set (al_transfers a). number_ok t"
proof -
  obtain c ws where c: "snapshot_ok c" "weights_ok ws" "AllocateTransferItems (Some c) ws = Inr a"
    "entries_located '''' (sd_children (sc_tree c))"
    and ok: "\<forall>w \<in> set ws. number_ok (tw_transfer w)"
    using assms unfolding allocation_ok_def by blast
  obtain loads owners where a: "a = allocation_of c ws loads owners"
    and len: "length owners = length (sc_files c)" and sub: "set owners \<subseteq> tw_transfer ` set ws"
    using AllocateTransferItems_Inr [OF c(2,3)] by metis
  have "ws \<noteq> []" using c(2) by (simp add: weights_ok_def)
  note empty = empty_owners_subset [OF this, of "length (sc_emptyDirs c)"]
  show ?thesis
    using sub empty ok len
    by (intro that [OF c(1) _ c(2,4,3)])
      (auto simp: a allocation_of_def allocateEmptyDirectories_def)
qed

interpretation views: item_owners OwnerOf "\<lambda>a. snapshot_RootDirectory (al_snapshot a)" allocation_ok
proof
  fix a assume "allocation_ok a"
  then obtain c where c: "snapshot_ok c" "al_snapshot a = Some c"
    "entries_located '''' (sd_children (sc_tree c))"
    "length (al_fileOwners a) = length (sc_files c)" "length (al_emptyDirOwners a) = length (sc_emptyDirs c)"
    "\<forall>t \<in> set (al_fileOwners a) \<union> set (al_emptyDirOwners a) \<union> set (al_transfers a). number_ok t"
    by (rule allocation_owner)
  have root: "snapshot_RootDirectory (al_snapshot a) = sc_tree c"
    using c(2) by (simp add: snapshot_RootDirectory_def)
  show "entries_wf (sd_children (snapshot_RootDirectory (al_snapshot a)))"
    "entries_located '''' (sd_children (snapshot_RootDirectory (al_snapshot a)))"
    "sd_path (snapshot_RootDirectory (al_snapshot a)) = ''''"
    using c root by (simp_all add: snapshot_ok_def)
  have sets: "set (sc_files c) = set (entries_files (sd_children (sc_tree c)))"
    "set (sc_emptyDirs c) = set (entries_empty (sd_children (sc_tree c)))"
    using c(1) unfolding snapshot_ok_def by (metis set_mset_mset)+
  show "\<exists>t. OwnerOf a (sf_path f) = Some t \<and> number_ok t"
    if "f \<in> set (entries_files (sd_children (snapshot_RootDirectory (al_snapshot a))))" for f
    using that OwnerOf_file [OF c(1,2)] c(4,6) sets(1) root by (metis UnCI in_set_conv_nth nth_mem)
  show "\<exists>t. OwnerOf a (sd_path d) = Some t \<and> number_ok t"
    if "d \<in> set (entries_empty (sd_children (snapshot_RootDirectory (al_snapshot a))))" for d
    using that OwnerOf_empty [OF c(1,2)] c(5,6) sets(2) root by (metis UnCI in_set_conv_nth nth_mem)
qed

section \<open>Properties\<close>

text \<open>
  C4: the views partition the source.  From a captured tree, validated weights and the
  allocation made from them, building the views succeeds, and every file of the tree is
  reachable, at its own path, in the view of exactly one transfer.
\<close>

theorem views_partition_the_source:
  assumes "newSourceSnapshot baseName ident source tree summary = Inr s"
    and "entries_wf (sd_children tree)" "entries_located '''' (sd_children tree)"
    and "NewTransferWeights values = Inr ws" "\<forall>w \<in> set values. number_ok (tw_transfer w)"
    and "AllocateTransferItems s ws = Inr a"
  shows "\<exists>vt. newViewTree a = Inr vt \<and>
    (\<forall>f \<in> set (entries_files (sd_children tree)). \<exists>!t. number_ok t \<and>
       sf_path f \<in> fst ` set (view_files t '''' (ve_children (vt_root vt))))"
proof -
  obtain c where c: "s = Some c" "snapshot_ok c" "sc_tree c = tree" "sc_baseName c = baseName"
    "validateBaseName baseName = Inr ()"
    using newSourceSnapshot_ok [OF assms(1,2)] by metis
  have ws: "weights_ok ws" using assms(4) by (rule NewTransferWeights_ok)
  have "\<forall>w \<in> set ws. number_ok (tw_transfer w)" using assms(4,5) by (simp add: result_simps)
  with c ws assms(3,6) have ok: "allocation_ok a" unfolding allocation_ok_def by metis
  obtain loads owners where a: "a = allocation_of c ws loads owners"
    using AllocateTransferItems_Inr [OF ws] assms(6) c(1) by metis
  have root: "snapshot_RootDirectory (al_snapshot a) = tree"
    by (simp add: a allocation_of_def snapshot_RootDirectory_def c(3))
  obtain r where r: "buildViewDirectory (OwnerOf a) tree = Inr r"
    using views.view_total [OF ok] root by auto
  have "newViewTree a = Inr \<lparr>vt_baseName = baseName, vt_root = r, vt_transfers = al_transfers a\<rparr>"
    using r c(3-5) ws
    by (simp add: newViewTree_def a allocation_of_def snapshot_BaseName_def snapshot_RootDirectory_def
        weights_ok_def validateBaseName_def split: if_splits)
  then show ?thesis
    using views.view_exactly_one [OF ok] r root by simp
qed

text \<open>
  C5: a view shows neither more nor less than the allocation granted: walking the visible
  entries of one transfer's view yields exactly the files that \<open>Files\<close> reports for it
  (path and backing object) and exactly its empty directories.
\<close>

theorem view_shows_exactly_the_owned_files:
  assumes "allocation_ok a" "number_ok t" "newViewTree a = Inr vt"
  shows "set (view_files t '''' (ve_children (vt_root vt))) =
      (\<lambda>f. (sf_path f, sf_backing f)) ` set (alloc_Files a t) \<and>
    set (view_empty_dirs t '''' (ve_children (vt_root vt))) = sd_path ` set (alloc_EmptyDirectories a t)"
proof -
  obtain c where c: "snapshot_ok c" "al_snapshot a = Some c"
    "length (al_fileOwners a) = length (sc_files c)" "length (al_emptyDirOwners a) = length (sc_emptyDirs c)"
    using assms(1) by (rule allocation_owner)
  have built: "buildViewDirectory (OwnerOf a) (snapshot_RootDirectory (al_snapshot a)) = Inr (vt_root vt)"
    using assms(3) by (auto simp: newViewTree_def result_simps split: if_splits)
  have root: "snapshot_RootDirectory (al_snapshot a) = sc_tree c"
    using c(2) by (simp add: snapshot_RootDirectory_def)
  have sets: "set (entries_files (sd_children (sc_tree c))) = set (sc_files c)"
    "set (entries_empty (sd_children (sc_tree c))) = set (sc_emptyDirs c)"
    using c(1) unfolding snapshot_ok_def by (metis set_mset_mset)+
  have files: "set (alloc_Files a t) = {f. \<exists>i < length (sc_files c). sc_files c ! i = f \<and> al_fileOwners a ! i = t}"
    using c(2,3) by (auto simp: alloc_Files_def set_owned)
  have dirs: "set (alloc_EmptyDirectories a t) =
      {d. \<exists>i < length (sc_emptyDirs c). sc_emptyDirs c ! i = d \<and> al_emptyDirOwners a ! i = t}"
    using c(2,4) by (auto simp: alloc_EmptyDirectories_def set_owned)
  have "{f \<in> set (sc_files c). OwnerOf a (sf_path f) = Some t} = set (alloc_Files a t)"
    unfolding files using OwnerOf_file [OF c(1,2)] c(3) by (fastforce simp: in_set_conv_nth)
  moreover have "{d \<in> set (sc_emptyDirs c). OwnerOf a (sd_path d) = Some t} = set (alloc_EmptyDirectories a t)"
    unfolding dirs using OwnerOf_empty [OF c(1,2)] c(4) by (fastforce simp: in_set_conv_nth)
  ultimately show ?thesis
    using views.view_files_owned [OF assms(1,2) built] by (simp add: root sets)
qed

lemma demo_snapshot_eq:
  "is_ok (newSourceSnapshot ''src''
     \<lparr>si_device = 1, si_inode = 2, si_kind = sourceDirectoryObject\<rparr> (Some 0) demo_tree
     \<lparr>followedSymlinks = 0, ignoredSymlinks = 0, emptyDirectories = 1, ignoredSpecialFiles = 0\<rparr>)"
  by code_simp

lemma demo_numbers: "\<forall>w \<in> set demo_weights. number_ok (tw_transfer w)"
  by code_simp

lemma demo_entries: "entries_wf (sd_children demo_tree)" "entries_located '''' (sd_children demo_tree)"
  by code_simp+

theorem views_partition_the_source_witness:
  "\<exists>s a vt. AllocateTransferItems s demo_sorted = Inr a \<and> newViewTree a = Inr vt \<and>
    (\<forall>f \<in> set (entries_files (sd_children demo_tree)). \<exists>!t. number_ok t \<and>
       sf_path f \<in> fst ` set (view_files t '''' (ve_children (vt_root vt))))"
proof -
  obtain s where s: "newSourceSnapshot ''src''
     \<lparr>si_device = 1, si_inode = 2, si_kind = sourceDirectoryObject\<rparr> (Some 0) demo_tree
     \<lparr>followedSymlinks = 0, ignoredSymlinks = 0, emptyDirectories = 1, ignoredSpecialFiles = 0\<rparr> = Inr s"
    using demo_snapshot_eq by (auto simp: is_ok_iff)
  then obtain c where c: "s = Some c"
    using newSourceSnapshot_ok [OF s demo_entries(1)] by metis
  have "c = demo_snapshot" using s c by (simp add: demo_snapshot_def)
  with c obtain a where a: "AllocateTransferItems s demo_sorted = Inr a"
    using demo_allocation_ok by (auto simp: is_ok_iff)
  show ?thesis
    using views_partition_the_source [OF s demo_entries demo_sorted_eq demo_numbers a] a by blast
qed

theorem view_shows_exactly_the_owned_files_witness:
  "\<exists>a vt. allocation_ok a \<and> newViewTree a = Inr vt \<and>
     set (view_files (Number 1) '''' (ve_children (vt_root vt))) =
       (\<lambda>f. (sf_path f, sf_backing f)) ` set (alloc_Files a (Number 1))"
proof -
  obtain s where s: "newSourceSnapshot ''src''
     \<lparr>si_device = 1, si_inode = 2, si_kind = sourceDirectoryObject\<rparr> (Some 0) demo_tree
     \<lparr>followedSymlinks = 0, ignoredSymlinks = 0, emptyDirectories = 1, ignoredSpecialFiles = 0\<rparr> = Inr s"
    using demo_snapshot_eq by (auto simp: is_ok_iff)
  then obtain c where c: "s = Some c" "snapshot_ok c" "sc_tree c = demo_tree"
    using newSourceSnapshot_ok [OF s demo_entries(1)] by metis
  have "c = demo_snapshot" using s c(1) by (simp add: demo_snapshot_def)
  then obtain a where a: "AllocateTransferItems (Some c) demo_sorted = Inr a"
    using demo_allocation_ok by (auto simp: is_ok_iff)
  have ok: "allocation_ok a"
    unfolding allocation_ok_def
    using a c demo_entries(2) NewTransferWeights_ok [OF demo_sorted_eq] demo_numbers
    by (intro exI [of _ c] exI [of _ demo_sorted]) (simp add: demo_sorted_def)
  have "is_ok (bind_r (map_sum (\<lambda>_. AllocationNotComplete) id
      (AllocateTransferItems (Some demo_snapshot) demo_sorted)) newViewTree)"
    by code_simp
  then obtain vt where vt: "newViewTree a = Inr vt"
    using a \<open>c = demo_snapshot\<close> by (auto simp: is_ok_iff)
  have "number_ok (Number 1)" by code_simp
  then show ?thesis
    using view_shows_exactly_the_owned_files [OF ok _ vt] ok vt by blast
qed

end
