(* ===== verification/Netip.thy ===== *)
theory Netip
  imports Identity Go_Path
begin

text \<open>
  The parts of \<open>net/netip\<close> and \<open>strconv\<close> the program uses: addresses, their canonical
  text, the parser \<open>ParseAddr\<close> and the address classes.  An IPv6 address is kept as its
  eight 16-bit fields and its zone.  The main fact is that \<open>ParseAddr\<close> reads back the
  text of every valid address (\<open>ParseAddr_String\<close>).
\<close>

section \<open>Digits\<close>

fun digits :: "nat \<Rightarrow> nat \<Rightarrow> string" where
  "digits b n =
     (if b < 2 \<or> n < b then [hex_table ! n] else digits b (n div b) @ [hex_table ! (n mod b)])"

declare digits.simps [simp del]

definition decimal :: "nat \<Rightarrow> string" where
  "decimal n = digits 10 n"

text \<open>The verb \<open>%d\<close> on an \<open>int\<close>.\<close>

definition int_text :: "int \<Rightarrow> string" where
  "int_text i = (if i < 0 then ''-'' @ decimal (nat (- i)) else decimal (nat i))"

definition digit_value :: "char \<Rightarrow> nat option" where
  "digit_value c = (if CHR ''0'' \<le> c \<and> c \<le> CHR ''9'' then Some (of_char c - 48) else None)"

definition hex_value :: "char \<Rightarrow> nat option" where
  "hex_value c = map_option unat (from_hex_char c)"

lemma digit_value_nth [simp]: "n < 10 \<Longrightarrow> digit_value (hex_table ! n) = Some n"
proof -
  assume "n < 10"
  have "list_all (\<lambda>n. digit_value (hex_table ! n) = Some n) [0..<10]" by code_simp
  with \<open>n < 10\<close> show ?thesis by (simp add: list_all_iff)
qed

lemma hex_value_nth [simp]: "n < 16 \<Longrightarrow> hex_value (hex_table ! n) = Some n"
  by (simp add: hex_value_def hex_nibble unat_of_nat)

lemma digits_small: "n < b \<Longrightarrow> digits b n = [hex_table ! n]"
  by (simp add: digits.simps)

lemma digits_step:
  "2 \<le> b \<Longrightarrow> b \<le> n \<Longrightarrow> digits b n = digits b (n div b) @ [hex_table ! (n mod b)]"
  by (subst digits.simps) simp

lemma digits_not_Nil [simp]: "digits b n \<noteq> []"
  by (subst digits.simps) simp

lemma set_digits: "2 \<le> b \<Longrightarrow> c \<in> set (digits b n) \<Longrightarrow> \<exists>k < b. c = hex_table ! k"
proof (induction b n rule: digits.induct)
  case (1 b n)
  show ?case
  proof (cases "n < b")
    case True then show ?thesis using "1.prems" by (auto simp: digits_small)
  next
    case False
    then have "c \<in> set (digits b (n div b)) \<or> c = hex_table ! (n mod b)"
      using "1.prems" by (auto simp: digits_step)
    then show ?thesis
    proof
      assume "c \<in> set (digits b (n div b))"
      then show ?thesis using "1.IH" "1.prems"(1) False by simp
    next
      assume "c = hex_table ! (n mod b)"
      then show ?thesis using "1.prems"(1) by (intro exI [of _ "n mod b"]) simp
    qed
  qed
qed

section \<open>Addresses\<close>

datatype addr =
    NoAddr
  | V4 byte byte byte byte
  | V6 u16 u16 u16 u16 u16 u16 u16 u16 (addr_zone: string)

definition Is4 :: "addr \<Rightarrow> bool" where
  "Is4 ip = (case ip of V4 _ _ _ _ \<Rightarrow> True | _ \<Rightarrow> False)"

definition IsValid :: "addr \<Rightarrow> bool" where
  "IsValid ip \<longleftrightarrow> ip \<noteq> NoAddr"

definition Is4In6 :: "addr \<Rightarrow> bool" where
  "Is4In6 ip =
     (case ip of V6 a b c d e f _ _ _ \<Rightarrow> a = 0 \<and> b = 0 \<and> c = 0 \<and> d = 0 \<and> e = 0 \<and> f = 0xffff | _ \<Rightarrow> False)"

definition octets :: "u16 \<Rightarrow> u16 \<Rightarrow> addr" where
  "octets g h = V4 (ucast (drop_bit 8 g)) (ucast g) (ucast (drop_bit 8 h)) (ucast h)"

definition Unmap :: "addr \<Rightarrow> addr" where
  "Unmap ip = (if Is4In6 ip then (case ip of V6 _ _ _ _ _ _ g h _ \<Rightarrow> octets g h | _ \<Rightarrow> ip) else ip)"

definition IsUnspecified :: "addr \<Rightarrow> bool" where
  "IsUnspecified ip \<longleftrightarrow> ip = V4 0 0 0 0 \<or> ip = V6 0 0 0 0 0 0 0 0 []"

definition IsLoopback :: "addr \<Rightarrow> bool" where
  "IsLoopback ip =
     (case Unmap ip of
        NoAddr \<Rightarrow> False
      | V4 a _ _ _ \<Rightarrow> a = 127
      | V6 a b c d e f g h _ \<Rightarrow> a = 0 \<and> b = 0 \<and> c = 0 \<and> d = 0 \<and> e = 0 \<and> f = 0 \<and> g = 0 \<and> h = 1)"

definition IsMulticast :: "addr \<Rightarrow> bool" where
  "IsMulticast ip =
     (case Unmap ip of
        NoAddr \<Rightarrow> False
      | V4 a _ _ _ \<Rightarrow> a AND 0xf0 = 0xe0
      | V6 a _ _ _ _ _ _ _ _ \<Rightarrow> drop_bit 8 a = 0xff)"

section \<open>Text of an address\<close>

fun string4 :: "byte \<Rightarrow> byte \<Rightarrow> byte \<Rightarrow> byte \<Rightarrow> string" where
  "string4 a b c d =
     decimal (unat a) @ ''.'' @ decimal (unat b) @ ''.'' @ decimal (unat c) @ ''.'' @ decimal (unat d)"

definition hex16 :: "u16 \<Rightarrow> string" where
  "hex16 g = digits 16 (unat g)"

text \<open>The first longest run of at least two zero fields; \<open>(255, 255)\<close> when there is none.\<close>

definition zero_end :: "u16 list \<Rightarrow> nat \<Rightarrow> nat" where
  "zero_end gs i = i + length (takeWhile (\<lambda>g. g = 0) (drop i gs))"

definition zero_run :: "u16 list \<Rightarrow> nat \<times> nat" where
  "zero_run gs =
     foldl (\<lambda>(zeroStart, zeroEnd) i.
        let j = zero_end gs i in
        if j - i \<ge> 2 \<and> j - i > zeroEnd - zeroStart then (i, j) else (zeroStart, zeroEnd))
      (255, 255) [0..<length gs]"

definition join_groups :: "u16 list \<Rightarrow> string" where
  "join_groups gs = join_with (CHR '':'') (map hex16 gs)"

definition string6 :: "u16 list \<Rightarrow> string" where
  "string6 gs =
     (case zero_run gs of (zs, ze) \<Rightarrow>
        if zs = 255 then join_groups gs
        else join_groups (take zs gs) @ ''::'' @ join_groups (drop ze gs))"

definition zone_suffix :: "string \<Rightarrow> string" where
  "zone_suffix z = (if z = [] then [] else CHR ''%'' # z)"

definition addr_string :: "addr \<Rightarrow> string" where
  "addr_string ip =
     (case ip of
        NoAddr \<Rightarrow> ''invalid IP''
      | V4 a b c d \<Rightarrow> string4 a b c d
      | V6 a b c d e f g h z \<Rightarrow>
          if Is4In6 ip then
            (case octets g h of V4 p q r s \<Rightarrow> ''::ffff:'' @ string4 p q r s @ zone_suffix z | _ \<Rightarrow> [])
          else string6 [a, b, c, d, e, f, g, h] @ zone_suffix z)"

section \<open>Parsing\<close>

datatype addr_error =
    LeadingZero | OctetTooLarge | MissingDigit | TooLong | TooShort | UnexpectedCharacter
  | EmptyZone | GroupTooLong | FieldTooLarge | NoDigits | EmbeddedMisplaced | EmbeddedNoRoom
  | WantColon | ColonAtEnd | MultipleEllipsis | TrailingGarbage | AddressTooShort | EllipsisExpandsNothing
  | MissingIPv6 | UnableToParse

text \<open>
  \<open>parseIPv4Fields\<close>.  The test \<open>i == 0 || s[i-1] == '.'\<close> is \<open>digLen == 0\<close>, the number of
  digits read since the last dot.
\<close>

fun parseIPv4Fields :: "nat list \<Rightarrow> nat \<Rightarrow> nat \<Rightarrow> string \<Rightarrow> addr_error + nat list" where
  "parseIPv4Fields fields val digLen [] =
     (if length fields < 3 then Inl TooShort else Inr (fields @ [val]))"
| "parseIPv4Fields fields val digLen (c # s) =
     (case digit_value c of
        Some d \<Rightarrow>
          if digLen = 1 \<and> val = 0 then Inl LeadingZero
          else if val * 10 + d > 255 then Inl OctetTooLarge
          else parseIPv4Fields fields (val * 10 + d) (digLen + 1) s
      | None \<Rightarrow>
          if c = CHR ''.'' then
            if digLen = 0 \<or> s = [] then Inl MissingDigit
            else if length fields = 3 then Inl TooLong
            else parseIPv4Fields (fields @ [val]) 0 0 s
          else Inl UnexpectedCharacter)"

definition parseIPv4 :: "string \<Rightarrow> addr_error + addr" where
  "parseIPv4 s =
     bind_r (parseIPv4Fields [] 0 0 s) (\<lambda>fs.
       Inr (V4 (word_of_nat (fs ! 0)) (word_of_nat (fs ! 1)) (word_of_nat (fs ! 2)) (word_of_nat (fs ! 3))))"

fun scan_hex :: "nat \<Rightarrow> nat \<Rightarrow> string \<Rightarrow> addr_error + nat \<times> nat \<times> string" where
  "scan_hex off acc [] = Inr (off, acc, [])"
| "scan_hex off acc (c # s) =
     (case hex_value c of
        None \<Rightarrow> Inr (off, acc, c # s)
      | Some d \<Rightarrow>
          if off > 3 then Inl GroupTooLong
          else if acc * 16 + d > 65535 then Inl FieldTooLarge
          else scan_hex (off + 1) (acc * 16 + d) s)"

text \<open>The loop of \<open>parseIPv6\<close>: the fields read so far, the position of the ellipsis, the rest.\<close>

function parse6_loop ::
  "u16 list \<Rightarrow> nat option \<Rightarrow> string \<Rightarrow> addr_error + u16 list \<times> nat option \<times> string" where
  "parse6_loop fields ellipsis s =
     (if length fields \<ge> 8 then Inr (fields, ellipsis, s)
      else bind_r (scan_hex 0 0 s) (\<lambda>(off, acc, rest).
        if off = 0 then Inl NoDigits
        else if rest \<noteq> [] \<and> hd rest = CHR ''.'' then
          if ellipsis = None \<and> length fields \<noteq> 6 then Inl EmbeddedMisplaced
          else if length fields + 2 > 8 then Inl EmbeddedNoRoom
          else bind_r (parseIPv4Fields [] 0 0 s) (\<lambda>o4.
            Inr (fields @ [word_of_nat (o4 ! 0 * 256 + o4 ! 1), word_of_nat (o4 ! 2 * 256 + o4 ! 3)],
                 ellipsis, []))
        else
          let fields' = fields @ [word_of_nat acc] in
          if rest = [] then Inr (fields', ellipsis, [])
          else if hd rest \<noteq> CHR '':'' then Inl WantColon
          else if length rest = 1 then Inl ColonAtEnd
          else
            let s' = tl rest in
            if hd s' = CHR '':'' then
              if ellipsis \<noteq> None then Inl MultipleEllipsis
              else if tl s' = [] then Inr (fields', Some (length fields'), [])
              else parse6_loop fields' (Some (length fields')) (tl s')
            else parse6_loop fields' ellipsis s'))"
  by pat_completeness auto
termination
  by (relation "measure (\<lambda>(fields, _, _). 8 - length fields)") auto

declare parse6_loop.simps [simp del]

definition v6_of :: "u16 list \<Rightarrow> string \<Rightarrow> addr" where
  "v6_of gs zone = V6 (gs ! 0) (gs ! 1) (gs ! 2) (gs ! 3) (gs ! 4) (gs ! 5) (gs ! 6) (gs ! 7) zone"

definition finish6 :: "string \<Rightarrow> u16 list \<times> nat option \<times> string \<Rightarrow> addr_error + addr" where
  "finish6 zone r =
     (case r of (fields, ellipsis, s) \<Rightarrow>
        if s \<noteq> [] then Inl TrailingGarbage
        else if length fields < 8 then
          (case ellipsis of
             None \<Rightarrow> Inl AddressTooShort
           | Some k \<Rightarrow> Inr (v6_of (take k fields @ replicate (8 - length fields) 0 @ drop k fields) zone))
        else if ellipsis \<noteq> None then Inl EllipsisExpandsNothing
        else Inr (v6_of fields zone))"

definition parseIPv6 :: "string \<Rightarrow> addr_error + addr" where
  "parseIPv6 text =
     (case str_cut (CHR ''%'') text of (s, zone, found) \<Rightarrow>
        if found \<and> zone = [] then Inl EmptyZone
        else if length s \<ge> 2 \<and> s ! 0 = CHR '':'' \<and> s ! 1 = CHR '':'' then
          if drop 2 s = [] then Inr (V6 0 0 0 0 0 0 0 0 zone)
          else bind_r (parse6_loop [] (Some 0) (drop 2 s)) (finish6 zone)
        else bind_r (parse6_loop [] None s) (finish6 zone))"

definition ParseAddr :: "string \<Rightarrow> addr_error + addr" where
  "ParseAddr s =
     (case find (\<lambda>c. c = CHR ''.'' \<or> c = CHR '':'' \<or> c = CHR ''%'') s of
        None \<Rightarrow> Inl UnableToParse
      | Some c \<Rightarrow>
          if c = CHR ''.'' then parseIPv4 s
          else if c = CHR '':'' then parseIPv6 s
          else Inl MissingIPv6)"

section \<open>Round trip for IPv4\<close>

text \<open>Where a number may end: at the end of the text or before a character that is no digit.\<close>

definition number_end :: "(char \<Rightarrow> nat option) \<Rightarrow> string \<Rightarrow> bool" where
  "number_end v s \<longleftrightarrow> s = [] \<or> v (hd s) = None"

lemma number_end_simps [simp]:
  "number_end v []" "number_end v (c # s) \<longleftrightarrow> v c = None"
  by (simp_all add: number_end_def)

lemma separators [simp]:
  "digit_value (CHR ''.'') = None" "hex_value (CHR '':'') = None" "hex_value (CHR ''.'') = None"
  "hex_value (CHR ''%'') = None"
  by code_simp+

lemma decimal_cases:
  assumes "n < 256"
  obtains "n < 10" "decimal n = [hex_table ! n]"
  | "10 \<le> n" "n < 100" "decimal n = [hex_table ! (n div 10), hex_table ! (n mod 10)]"
  | "100 \<le> n" "decimal n = [hex_table ! (n div 100), hex_table ! (n div 10 mod 10), hex_table ! (n mod 10)]"
proof (cases "n < 10")
  case False
  show ?thesis
  proof (cases "n < 100")
    case True
    with False that(2) show ?thesis by (simp add: decimal_def digits_step digits_small)
  next
    case big: False
    have "n div 10 div 10 = n div 100" by (simp add: div_mult2_eq [symmetric])
    with big assms that(3) show ?thesis by (simp add: decimal_def digits_step digits_small)
  qed
qed (use that(1) in \<open>simp add: decimal_def digits_small\<close>)

lemma parseIPv4Fields_decimal:
  assumes "n < 256"
  shows "parseIPv4Fields fs 0 0 (decimal n @ s) = parseIPv4Fields fs n (length (decimal n)) s"
  using assms
proof (cases n rule: decimal_cases)
  case 2
  then have "n div 10 < 10" "n div 10 \<noteq> 0" "n div 10 * 10 + n mod 10 = n" "n div 10 \<le> 255" by auto
  with 2 assms show ?thesis by simp
next
  case 3
  have "n div 10 div 10 = n div 100" by (simp add: div_mult2_eq [symmetric])
  then have "n div 100 * 10 + n div 10 mod 10 = n div 10"
    using div_mult_mod_eq [of "n div 10" 10] by simp
  moreover have "n div 100 < 10" "n div 100 \<noteq> 0" "n div 10 * 10 + n mod 10 = n" "n div 10 \<le> 255"
    "n div 100 \<le> 255"
    using 3(1) assms by auto
  ultimately have "n div 100 < 10" "n div 100 \<noteq> 0" "n div 10 * 10 + n mod 10 = n" "n div 10 \<le> 255"
    "n div 100 \<le> 255" "n div 100 * 10 + n div 10 mod 10 = n div 10" by auto
  with 3 assms show ?thesis by simp
qed auto

lemma decimal_not_Nil [simp]: "decimal n \<noteq> []"
  by (simp add: decimal_def)

lemma parseIPv4Fields_string4:
  "parseIPv4Fields [] 0 0 (string4 a b c d) = Inr [unat a, unat b, unat c, unat d]"
  using parseIPv4Fields_decimal [of "unat d" "[unat a, unat b, unat c]" "[]"]
  by (simp add: parseIPv4Fields_decimal unat_byte_less)

lemma find_skip: "\<forall>x \<in> set xs. \<not> P x \<Longrightarrow> find P (xs @ ys) = find P ys"
  by (induction xs) auto

lemma ParseAddr_string4: "ParseAddr (string4 a b c d) = Inr (V4 a b c d)"
proof -
  let ?p = "\<lambda>c. c = CHR ''.'' \<or> c = CHR '':'' \<or> c = CHR ''%''"
  have "\<not> ?p (hex_table ! k)" if "k < 10" for k
  proof -
    have "list_all (\<lambda>k. \<not> ?p (hex_table ! k)) [0..<10]" by code_simp
    with that show ?thesis by (simp add: list_all_iff)
  qed
  then have "\<forall>x \<in> set (decimal (unat a)). \<not> ?p x"
    using set_digits [of 10 _ "unat a"] by (fastforce simp: decimal_def)
  then have "find ?p (string4 a b c d) = Some (CHR ''.'')"
    by (simp add: find_skip)
  then show ?thesis
    by (simp add: ParseAddr_def parseIPv4_def parseIPv4Fields_string4 numeral_eq_Suc del: string4.simps)
qed

section \<open>Round trip for IPv6\<close>

lemma length_digits: "n < 16 ^ k \<Longrightarrow> 0 < k \<Longrightarrow> length (digits 16 n) \<le> k"
proof (induction k arbitrary: n)
  case (Suc k)
  show ?case
  proof (cases "n < 16")
    case False
    then have "0 < k" using Suc.prems(1) by (cases k) auto
    moreover have "n div 16 < 16 ^ k" using Suc.prems(1) by (simp add: less_mult_imp_div_less)
    ultimately show ?thesis using Suc.IH [of "n div 16"] False by (simp add: digits_step)
  qed (simp add: digits_small)
qed simp

lemma scan_hex_digits:
  "n < 65536 \<Longrightarrow> scan_hex 0 0 (digits 16 n @ s) = scan_hex (length (digits 16 n)) n s"
proof (induction "16 :: nat" n arbitrary: s rule: digits.induct)
  case (1 n)
  show ?case
  proof (cases "n < 16")
    case True then show ?thesis by (simp add: digits_small)
  next
    case False
    have "length (digits 16 (n div 16)) \<le> 3"
      using "1.prems" by (intro length_digits) auto
    moreover have "n div 16 * 16 + n mod 16 = n" by simp
    ultimately show ?thesis
      using False "1.prems" "1.hyps" [of "hex_table ! (n mod 16) # s"]
      by (simp add: digits_step)
  qed
qed

lemma scan_hex_end: "number_end hex_value s \<Longrightarrow> scan_hex off acc s = Inr (off, acc, s)"
  by (cases s) auto

lemma scan_hex_hex16:
  "number_end hex_value s \<Longrightarrow> scan_hex 0 0 (hex16 g @ s) = Inr (length (hex16 g), unat g, s)"
  by (simp add: hex16_def scan_hex_digits unat_u16_less scan_hex_end)

lemma hex16_not_Nil [simp]: "hex16 g \<noteq> []"
  by (simp add: hex16_def)

lemma hex_separators: "k < 16 \<Longrightarrow> hex_table ! k \<notin> {CHR ''.'', CHR '':'', CHR ''%''}"
proof -
  assume "k < 16"
  have "list_all (\<lambda>k. hex_table ! k \<notin> {CHR ''.'', CHR '':'', CHR ''%''}) [0..<16]" by code_simp
  with \<open>k < 16\<close> show ?thesis by (simp add: list_all_iff)
qed

lemma hex16_chars: "c \<in> set (hex16 g) \<Longrightarrow> c \<notin> {CHR ''.'', CHR '':'', CHR ''%''}"
  using set_digits [of 16 c "unat g"] hex_separators unfolding hex16_def by auto

lemma hd_hex16: "hd (hex16 g @ s) \<noteq> CHR '':''"
  using hex16_chars [of "hd (hex16 g)" g] by simp

lemma join_groups_simps [simp]:
  "join_groups [] = []" "join_groups [g] = hex16 g"
  "gs \<noteq> [] \<Longrightarrow> join_groups (g # gs) = hex16 g @ CHR '':'' # join_groups gs"
  by (simp_all add: join_groups_def) (cases gs; simp)

lemma join_groups_eq_Nil [simp]: "join_groups gs = [] \<longleftrightarrow> gs = []"
  by (cases gs rule: list.exhaust; cases "tl gs") auto

lemma hd_join_groups: "gs \<noteq> [] \<Longrightarrow> hd (join_groups gs @ s) \<noteq> CHR '':''"
  using hd_hex16 by (cases gs; cases "tl gs") auto

lemma parse6_group_end: "length fs < 8 \<Longrightarrow> parse6_loop fs e (hex16 g) = Inr (fs @ [g], e, [])"
  using scan_hex_hex16 [of "[]" g] by (subst parse6_loop.simps) simp

lemma parse6_group_colon:
  "length fs < 8 \<Longrightarrow> s \<noteq> [] \<Longrightarrow> hd s \<noteq> CHR '':'' \<Longrightarrow>
     parse6_loop fs e (hex16 g @ CHR '':'' # s) = parse6_loop (fs @ [g]) e s"
  using scan_hex_hex16 [of "CHR '':'' # s" g] by (subst parse6_loop.simps) simp

lemma parse6_group_ellipsis:
  "length fs < 8 \<Longrightarrow>
     parse6_loop fs None (hex16 g @ ''::'' @ s) =
       (if s = [] then Inr (fs @ [g], Some (Suc (length fs)), [])
        else parse6_loop (fs @ [g]) (Some (Suc (length fs))) s)"
  using scan_hex_hex16 [of "''::'' @ s" g] by (subst parse6_loop.simps) simp

lemma parse6_groups:
  "gs \<noteq> [] \<Longrightarrow> length fs + length gs \<le> 8 \<Longrightarrow>
     parse6_loop fs e (join_groups gs) = Inr (fs @ gs, e, [])"
proof (induction gs arbitrary: fs)
  case (Cons g gs)
  show ?case
  proof (cases "gs = []")
    case True then show ?thesis using Cons.prems by (simp add: parse6_group_end)
  next
    case False
    then show ?thesis
      using Cons hd_join_groups [of gs "[]"] by (simp add: parse6_group_colon)
  qed
qed simp

lemma parse6_groups_ellipsis:
  "gs \<noteq> [] \<Longrightarrow> length fs + length gs \<le> 8 \<Longrightarrow>
     parse6_loop fs None (join_groups gs @ ''::'' @ s) =
       (if s = [] then Inr (fs @ gs, Some (length fs + length gs), [])
        else parse6_loop (fs @ gs) (Some (length fs + length gs)) s)"
proof (induction gs arbitrary: fs)
  case (Cons g gs)
  show ?case
  proof (cases "gs = []")
    case True then show ?thesis using Cons.prems parse6_group_ellipsis by simp
  next
    case False
    then have "parse6_loop fs None (join_groups (g # gs) @ ''::'' @ s) =
        parse6_loop (fs @ [g]) None (join_groups gs @ ''::'' @ s)"
      using Cons.prems hd_join_groups [of gs] parse6_group_colon by simp
    with False show ?thesis using Cons by simp
  qed
qed simp

definition run_ok :: "u16 list \<Rightarrow> nat \<times> nat \<Rightarrow> bool" where
  "run_ok gs r \<longleftrightarrow> r = (255, 255) \<or>
     (fst r + 2 \<le> snd r \<and> snd r \<le> length gs \<and> (\<forall>k. fst r \<le> k \<and> k < snd r \<longrightarrow> gs ! k = 0))"

lemma zero_end_props:
  assumes "i \<le> length gs"
  shows "i \<le> zero_end gs i" "zero_end gs i \<le> length gs"
    "i \<le> k \<Longrightarrow> k < zero_end gs i \<Longrightarrow> gs ! k = 0"
proof -
  show "i \<le> zero_end gs i" by (simp add: zero_end_def)
  show "zero_end gs i \<le> length gs"
    using assms length_takeWhile_le [of "\<lambda>g. g = 0" "drop i gs"] by (simp add: zero_end_def)
  assume k: "i \<le> k" "k < zero_end gs i"
  let ?t = "takeWhile (\<lambda>g. g = 0) (drop i gs)"
  have len: "k - i < length ?t" using k by (simp add: zero_end_def)
  then have "?t ! (k - i) = 0" using set_takeWhileD [OF nth_mem [OF len]] by simp
  moreover have "?t ! (k - i) = drop i gs ! (k - i)" using len by (simp add: takeWhile_nth)
  ultimately show "gs ! k = 0" using k assms by simp
qed

lemma zero_run_ok: "run_ok gs (zero_run gs)"
proof -
  have step: "run_ok gs (foldl (\<lambda>(zs, ze) i. let j = zero_end gs i in
      if j - i \<ge> 2 \<and> j - i > ze - zs then (i, j) else (zs, ze)) r is)"
    if "run_ok gs r" "\<forall>i \<in> set is. i < length gs" for r "is"
    using that
  proof (induction "is" arbitrary: r)
    case (Cons i "is")
    obtain zs ze where r: "r = (zs, ze)" by fastforce
    have "run_ok gs (let j = zero_end gs i in
        if j - i \<ge> 2 \<and> j - i > ze - zs then (i, j) else (zs, ze))"
      using Cons.prems zero_end_props [of i gs] by (auto simp: r run_ok_def Let_def)
    then show ?case using Cons.IH Cons.prems(2) by (simp add: r)
  qed simp
  show ?thesis unfolding zero_run_def by (rule step) (auto simp: run_ok_def)
qed

text \<open>A compressed run is restored by as many zero fields as are missing.\<close>

lemma zero_run_restore:
  assumes "run_ok gs (zs, ze)" "zs \<noteq> 255" "length gs \<le> 254"
  shows "take zs gs @ replicate (ze - zs) 0 @ drop ze gs = gs" "zs + 2 \<le> ze" "ze \<le> length gs"
proof -
  from assms show b: "zs + 2 \<le> ze" "ze \<le> length gs" by (auto simp: run_ok_def)
  have z: "\<forall>k. zs \<le> k \<and> k < ze \<longrightarrow> gs ! k = 0" using assms by (auto simp: run_ok_def)
  show "take zs gs @ replicate (ze - zs) 0 @ drop ze gs = gs"
  proof (rule nth_equalityI)
    fix i assume "i < length (take zs gs @ replicate (ze - zs) 0 @ drop ze gs)"
    then have "i < length gs" using b by simp
    then show "(take zs gs @ replicate (ze - zs) 0 @ drop ze gs) ! i = gs ! i"
      using b z by (auto simp: nth_append)
  qed (use b in simp)
qed


lemma string6_no_percent: "c \<in> set (string6 gs) \<Longrightarrow> c \<noteq> CHR ''%''"
proof -
  have j: "c \<in> set (join_groups hs) \<Longrightarrow> c \<noteq> CHR ''%''" for hs
  proof (induction hs)
    case (Cons h hs)
    then show ?case using hex16_chars [of c h] by (cases "hs = []") auto
  qed simp
  show "c \<in> set (string6 gs) \<Longrightarrow> c \<noteq> CHR ''%''"
    using j by (auto simp: string6_def split: prod.splits if_splits)
qed

lemma cut_zone:
  assumes "CHR ''%'' \<notin> set s"
  shows "str_cut (CHR ''%'') (s @ zone_suffix z) = (s, z, z \<noteq> [])"
  using assms by (simp add: zone_suffix_def str_cut_append str_cut_none)

text \<open>What \<open>parseIPv6\<close> does once the zone is cut off.\<close>

definition parse6_text :: "string \<Rightarrow> string \<Rightarrow> addr_error + addr" where
  "parse6_text zone s =
     (if length s \<ge> 2 \<and> s ! 0 = CHR '':'' \<and> s ! 1 = CHR '':'' then
        if drop 2 s = [] then Inr (V6 0 0 0 0 0 0 0 0 zone)
        else bind_r (parse6_loop [] (Some 0) (drop 2 s)) (finish6 zone)
      else bind_r (parse6_loop [] None s) (finish6 zone))"

lemma parseIPv6_zone:
  "CHR ''%'' \<notin> set s \<Longrightarrow> parseIPv6 (s @ zone_suffix z) = parse6_text z s"
  by (simp add: parseIPv6_def cut_zone parse6_text_def)

lemma parse6_text_not_ellipsis:
  "hd s \<noteq> CHR '':'' \<Longrightarrow> parse6_text z s = bind_r (parse6_loop [] None s) (finish6 z)"
  by (cases s) (auto simp: parse6_text_def)

lemma parse6_string6:
  assumes "length gs = 8"
  shows "parse6_text z (string6 gs) = Inr (v6_of gs z)"
proof (cases "zero_run gs")
  case (Pair zs ze)
  show ?thesis
  proof (cases "zs = 255")
    case True
    have "gs \<noteq> []" using assms by auto
    then have "parse6_loop [] None (join_groups gs) = Inr (gs, None, [])"
      using parse6_groups [of gs "[]" None] assms by simp
    with \<open>gs \<noteq> []\<close> show ?thesis
      using True Pair assms hd_join_groups [of gs "[]"]
      by (simp add: string6_def parse6_text_not_ellipsis finish6_def)
  next
    case False
    have r: "take zs gs @ replicate (ze - zs) 0 @ drop ze gs = gs" "zs + 2 \<le> ze" "ze \<le> 8"
      using zero_run_restore [of gs zs ze] zero_run_ok [of gs] Pair False assms by simp_all
    have s: "string6 gs = join_groups (take zs gs) @ ''::'' @ join_groups (drop ze gs)"
      using Pair False by (simp add: string6_def)
    have tail: "parse6_loop (take zs gs) (Some zs) (join_groups (drop ze gs)) =
        Inr (take zs gs @ drop ze gs, Some zs, [])" if "ze \<noteq> 8"
      using that assms r by (intro parse6_groups) auto
    have fin: "finish6 z (take zs gs @ drop ze gs, Some zs, []) = Inr (v6_of gs z)"
      using r assms by (simp add: finish6_def)
    show ?thesis
    proof (cases "zs = 0")
      case True
      show ?thesis
      proof (cases "ze = 8")
        case True
        with r assms \<open>zs = 0\<close> have "gs = replicate 8 0" by simp
        then show ?thesis
          using s True \<open>zs = 0\<close> by (simp add: parse6_text_def v6_of_def numeral_eq_Suc)
      next
        case False
        then show ?thesis
          using s \<open>zs = 0\<close> tail fin r assms by (simp add: parse6_text_def)
      qed
    next
      case pos: False
      have ne: "take zs gs \<noteq> []" using pos assms by auto
      have "parse6_loop [] None (string6 gs) = Inr (take zs gs @ drop ze gs, Some zs, [])"
        using parse6_groups_ellipsis [of "take zs gs" "[]" "join_groups (drop ze gs)"]
          ne assms r tail unfolding s by (cases "ze = 8") (auto simp: min_def)
      moreover have "hd (string6 gs) \<noteq> CHR '':''"
        using hd_join_groups [OF ne] unfolding s by simp
      ultimately show ?thesis using fin by (simp add: parse6_text_not_ellipsis)
    qed
  qed
qed

lemma field_octets: "(word_of_nat (unat (ucast (drop_bit 8 g) :: byte) * 256 + unat (ucast g :: byte)) :: u16) = g"
proof -
  have "unat g < 65536" by (rule unat_u16_less)
  then have "unat (ucast (drop_bit 8 g) :: byte) = unat g div 256"
    by (simp add: unsigned_ucast_eq take_bit_eq_mod drop_bit_eq_div unat_div_distrib)
  moreover have "unat (ucast g :: byte) = unat g mod 256"
    by (simp add: unsigned_ucast_eq take_bit_eq_mod)
  ultimately show ?thesis by (simp only: div_mult_mod_eq) simp
qed

lemma scan_hex_decimal:
  assumes "n < 256"
  shows "\<exists>off acc. scan_hex 0 0 (decimal n @ CHR ''.'' # s) = Inr (Suc off, acc, CHR ''.'' # s)"
  using assms
proof (cases n rule: decimal_cases)
  case 2
  then have "n div 10 < 10" by simp
  with 2 show ?thesis by (simp add: less_trans [of _ 10 16])
next
  case 3
  have "n div 100 < 3" using assms by auto
  moreover have "n div 10 mod 10 < 10" "n mod 10 < 10" by auto
  ultimately show ?thesis using 3
    by (simp add: less_trans [of _ 3 16] less_trans [of _ 10 16])
qed simp

lemma parse6_embedded:
  "parse6_loop [0xffff] (Some 0) (string4 p q r s) =
     Inr ([0xffff, word_of_nat (unat p * 256 + unat q), word_of_nat (unat r * 256 + unat s)], Some 0, [])"
proof -
  obtain off acc where "scan_hex 0 0 (string4 p q r s) =
      Inr (Suc off, acc, CHR ''.'' # decimal (unat q) @ ''.'' @ decimal (unat r) @ ''.'' @ decimal (unat s))"
    using scan_hex_decimal [OF unat_byte_less [of p]] by fastforce
  then show ?thesis
    by (subst parse6_loop.simps) (simp add: parseIPv4Fields_string4 numeral_eq_Suc del: string4.simps)
qed

lemma decimal_chars: "c \<in> set (decimal n) \<Longrightarrow> c \<notin> {CHR ''.'', CHR '':'', CHR ''%''}"
  using set_digits [of 10 c n] hex_separators unfolding decimal_def by auto

lemma string4_chars: "c \<in> set (string4 p q r s) \<Longrightarrow> c \<noteq> CHR ''%'' \<and> c \<noteq> CHR '':''"
  using decimal_chars [of c] by auto

lemma string4_hd: "string4 p q r s \<noteq> []" "hd (string4 p q r s) \<noteq> CHR '':''"
proof -
  show ne: "string4 p q r s \<noteq> []" by simp
  show "hd (string4 p q r s) \<noteq> CHR '':''"
    using string4_chars [OF hd_in_set [OF ne]] by blast
qed

lemma parse6_4in6:
  "parse6_text z (''::ffff:'' @ string4 p q r s) =
     Inr (v6_of [0, 0, 0, 0, 0, 0xffff, word_of_nat (unat p * 256 + unat q), word_of_nat (unat r * 256 + unat s)] z)"
proof -
  have "hex16 0xffff = ''ffff''" by (simp add: hex16_def digits_step digits_small hex_table_def)
  then have "parse6_loop [] (Some 0) (''ffff:'' @ string4 p q r s) = parse6_loop [0xffff] (Some 0) (string4 p q r s)"
    using parse6_group_colon [of "[]" "string4 p q r s" "Some 0" "0xffff"] string4_hd by simp
  moreover have "replicate 5 (0 :: u16) = [0, 0, 0, 0, 0]" by (simp add: numeral_eq_Suc)
  ultimately show ?thesis
    by (simp add: parse6_text_def parse6_embedded finish6_def del: string4.simps)
qed

lemma ParseAddr_colon:
  "\<forall>c \<in> set s. c \<notin> {CHR ''.'', CHR '':'', CHR ''%''} \<Longrightarrow>
     ParseAddr (s @ CHR '':'' # t) = parseIPv6 (s @ CHR '':'' # t)"
  using find_skip [of s "\<lambda>c. c = CHR ''.'' \<or> c = CHR '':'' \<or> c = CHR ''%''" "CHR '':'' # t"]
  by (auto simp: ParseAddr_def)

lemma join_groups_two:
  "2 \<le> length gs \<Longrightarrow> join_groups gs = hex16 (hd gs) @ CHR '':'' # join_groups (tl gs)"
  by (cases gs; cases "tl gs") auto

lemma string6_colon:
  assumes "length gs = 8"
  obtains s t where "string6 gs = s @ CHR '':'' # t" "\<forall>c \<in> set s. c \<notin> {CHR ''.'', CHR '':'', CHR ''%''}"
proof (cases "zero_run gs")
  case (Pair zs ze)
  consider "zs = 255" | "zs \<noteq> 255" "zs = 0" | "zs \<noteq> 255" "zs = 1" | "zs \<noteq> 255" "2 \<le> zs" by linarith
  then show ?thesis
  proof cases
    case 1
    then show ?thesis using that [of "hex16 (hd gs)"] Pair assms hex16_chars
      by (simp add: string6_def join_groups_two)
  next
    case 2
    then show ?thesis using that [of "[]"] Pair by (simp add: string6_def)
  next
    case 3
    have "take 1 gs = [hd gs]" using assms by (cases gs) auto
    with 3 show ?thesis using that [of "hex16 (hd gs)"] Pair hex16_chars by (simp add: string6_def)
  next
    case 4
    have "hd (take zs gs) = hd gs" "2 \<le> length (take zs gs)" using 4 assms by (auto simp: hd_take)
    with 4 show ?thesis using that [of "hex16 (hd gs)"] Pair hex16_chars
      by (simp add: string6_def join_groups_two)
  qed
qed

theorem ParseAddr_String:
  assumes "IsValid ip"
  shows "ParseAddr (addr_string ip) = Inr ip"
proof (cases ip)
  case (V6 a b c d e f g h z)
  show ?thesis
  proof (cases "Is4In6 ip")
    case True
    obtain p q r s where o: "octets g h = V4 p q r s"
      "word_of_nat (unat p * 256 + unat q) = g" "word_of_nat (unat r * 256 + unat s) = h"
      using field_octets [of g] field_octets [of h] unfolding octets_def by blast
    have str: "addr_string ip = (''::ffff:'' @ string4 p q r s) @ zone_suffix z"
      using True V6 o by (simp add: addr_string_def del: string4.simps)
    have "CHR ''%'' \<notin> set (''::ffff:'' @ string4 p q r s)" using string4_chars by fastforce
    then have "parseIPv6 (addr_string ip) = Inr (v6_of [0, 0, 0, 0, 0, 0xffff, g, h] z)"
      unfolding str parseIPv6_zone [OF \<open>CHR ''%'' \<notin> set (''::ffff:'' @ string4 p q r s)\<close>] parse6_4in6
      by (simp only: o(2,3))
    moreover have "v6_of [0, 0, 0, 0, 0, 0xffff, g, h] z = ip"
      using True V6 by (simp add: v6_of_def Is4In6_def)
    ultimately show ?thesis using ParseAddr_colon [of "[]"] str by simp
  next
    case False
    let ?gs = "[a, b, c, d, e, f, g, h]"
    have str: "addr_string ip = string6 ?gs @ zone_suffix z"
      using False V6 by (simp add: addr_string_def)
    have "CHR ''%'' \<notin> set (string6 ?gs)" using string6_no_percent by blast
    then have "parseIPv6 (addr_string ip) = Inr ip"
      unfolding str by (simp add: parseIPv6_zone parse6_string6 V6 v6_of_def)
    moreover obtain s t where st: "string6 ?gs = s @ CHR '':'' # t"
      "\<forall>c \<in> set s. c \<notin> {CHR ''.'', CHR '':'', CHR ''%''}"
      by (rule string6_colon [of ?gs]) simp_all
    ultimately show ?thesis
      using ParseAddr_colon [OF st(2), of "t @ zone_suffix z"] unfolding str by simp
  qed
qed (use assms in \<open>simp_all add: IsValid_def addr_string_def ParseAddr_string4 del: string4.simps\<close>)

section \<open>IPv4 texts are canonical\<close>

lemma digit_value_char: "digit_value c = Some d \<Longrightarrow> d < 10 \<and> c = hex_table ! d"
proof -
  assume d: "digit_value c = Some d"
  have "\<forall>c. CHR ''0'' \<le> c \<and> c \<le> CHR ''9'' \<longrightarrow> c \<in> set (take 10 hex_table)" by code_simp
  with d have "c \<in> set (take 10 hex_table)" by (simp add: digit_value_def split: if_splits)
  then obtain k where "k < 10" "c = hex_table ! k" by (auto simp: in_set_conv_nth)
  with d show ?thesis by simp
qed

lemma decimal_small: "d < 10 \<Longrightarrow> decimal d = [hex_table ! d]"
  by (simp add: decimal_def digits_small)

text \<open>The digits of the current octet that have been read.\<close>

definition octet_read :: "nat \<Rightarrow> nat \<Rightarrow> string" where
  "octet_read val digLen = (if digLen = 0 then [] else decimal val)"

definition octet_inv :: "nat list \<Rightarrow> nat \<Rightarrow> nat \<Rightarrow> string \<Rightarrow> bool" where
  "octet_inv fields val digLen s \<longleftrightarrow> val \<le> 255 \<and> length fields \<le> 3 \<and>
     (if digLen = 0 then val = 0 \<and> (fields = [] \<or> s \<noteq> []) else digLen = length (decimal val))"

lemma decimal_step: "0 < v \<Longrightarrow> d < 10 \<Longrightarrow> decimal (v * 10 + d) = decimal v @ [hex_table ! d]"
  by (simp add: decimal_def digits_step [of 10 "v * 10 + d"])

lemma parseIPv4Fields_canonical:
  "parseIPv4Fields fields val digLen s = Inr gs \<Longrightarrow> octet_inv fields val digLen s \<Longrightarrow>
     \<exists>hs. gs = fields @ hs \<and> length gs = 4 \<and> list_all (\<lambda>h. h \<le> 255) hs \<and>
       octet_read val digLen @ s = join_with (CHR ''.'') (map decimal hs)"
proof (induction fields val digLen s rule: parseIPv4Fields.induct)
  case (1 fields val digLen)
  then have "length fields = 3" "digLen \<noteq> 0" by (auto simp: octet_inv_def split: if_splits)
  then show ?case
    using 1 by (intro exI [of _ "[val]"]) (auto simp: octet_inv_def octet_read_def)
next
  case (2 fields val digLen c s)
  show ?case
  proof (cases "digit_value c")
    case (Some d)
    have d: "d < 10" "c = hex_table ! d" using digit_value_char [OF Some] by auto
    have g: "\<not> (digLen = 1 \<and> val = 0)" "val * 10 + d \<le> 255"
      "parseIPv4Fields fields (val * 10 + d) (digLen + 1) s = Inr gs"
      using "2.prems"(1) Some by (auto split: if_splits)
    have read: "octet_read (val * 10 + d) (digLen + 1) = octet_read val digLen @ [c]"
      "digLen + 1 = length (decimal (val * 10 + d))"
    proof -
      have "decimal 0 = [hex_table ! 0]" by (simp add: decimal_def digits_small)
      then have "digLen \<noteq> 0 \<Longrightarrow> 0 < val" using g(1) "2.prems"(2) by (cases "val = 0") (auto simp: octet_inv_def)
      then show "octet_read (val * 10 + d) (digLen + 1) = octet_read val digLen @ [c]"
        "digLen + 1 = length (decimal (val * 10 + d))"
        using "2.prems"(2) d
        by (auto simp: octet_read_def octet_inv_def decimal_step decimal_small split: if_splits)
    qed
    then have "octet_inv fields (val * 10 + d) (digLen + 1) s"
      using "2.prems"(2) g(2) by (simp add: octet_inv_def)
    with "2.IH"(2) [OF Some g(1)] g read show ?thesis by (simp add: linorder_not_less)
  next
    case None
    have g: "c = CHR ''.''" "digLen \<noteq> 0" "s \<noteq> []" "length fields \<noteq> 3"
      "parseIPv4Fields (fields @ [val]) 0 0 s = Inr gs"
      using "2.prems"(1) None by (auto split: if_splits)
    then have "octet_inv (fields @ [val]) 0 0 s" using "2.prems"(2) by (auto simp: octet_inv_def)
    then obtain hs where hs: "gs = (fields @ [val]) @ hs" "length gs = 4" "list_all (\<lambda>h. h \<le> 255) hs"
      "s = join_with (CHR ''.'') (map decimal hs)"
      using "2.IH"(1) [OF None] g by (auto simp: octet_read_def)
    with g(3) have "hs \<noteq> []" by auto
    with hs g "2.prems"(2) show ?thesis
      by (intro exI [of _ "val # hs"]) (cases hs; auto simp: octet_read_def octet_inv_def)
  qed
qed

lemma unat_of_octet: "h \<le> 255 \<Longrightarrow> unat (word_of_nat h :: byte) = h"
  by (simp add: unat_of_nat)

lemma parseIPv4_canonical:
  assumes "parseIPv4 s = Inr ip"
  shows "addr_string ip = s"
proof -
  obtain gs where gs: "parseIPv4Fields [] 0 0 s = Inr gs"
    and ip: "ip = V4 (word_of_nat (gs ! 0)) (word_of_nat (gs ! 1)) (word_of_nat (gs ! 2)) (word_of_nat (gs ! 3))"
    using assms by (auto simp: parseIPv4_def bind_r_Inr_iff)
  have "octet_inv [] 0 0 s" by (simp add: octet_inv_def)
  from parseIPv4Fields_canonical [OF gs this]
  have g: "length gs = 4" "list_all (\<lambda>h. h \<le> 255) gs" "s = join_with (CHR ''.'') (map decimal gs)"
    by (auto simp: octet_read_def)
  then obtain a b c d where "gs = [a, b, c, d]"
    by (auto simp: numeral_eq_Suc length_Suc_conv)
  with g ip show ?thesis by (simp add: addr_string_def unat_of_octet)
qed

lemma parseIPv6_not_Is4: "parseIPv6 s = Inr ip \<Longrightarrow> \<not> Is4 ip"
  by (auto simp: parseIPv6_def finish6_def v6_of_def bind_r_Inr_iff Is4_def
      split: prod.splits if_splits option.splits)

lemma ParseAddr_Is4_canonical: "ParseAddr s = Inr ip \<Longrightarrow> Is4 ip \<Longrightarrow> addr_string ip = s"
  by (auto simp: ParseAddr_def parseIPv4_canonical dest: parseIPv6_not_Is4 split: option.splits if_splits)

end
