(* ===== verification/Utf8.thy ===== *)
theory Utf8
  imports Prelude
begin

text \<open>
  The parts of \<open>unicode/utf8\<close> and \<open>strings\<close> the program uses on UTF-8: the length of the
  rune at the head of a byte slice, \<open>Valid\<close>, \<open>DecodeRune\<close> and \<open>ToValidUTF8\<close>.  The facts
  are that valid texts are closed under concatenation, that \<open>ToValidUTF8\<close> always yields a
  valid text and leaves a valid one alone, and that every prefix bound of a valid text has
  a valid cut at most three bytes below it.
\<close>

section \<open>Runes\<close>

text \<open>The tables \<open>first\<close> and \<open>acceptRanges\<close>: size and bounds of the second byte.\<close>

definition rune_lead :: "byte \<Rightarrow> (nat \<times> byte \<times> byte) option" where
  "rune_lead b =
     (if 0xc2 \<le> b \<and> b \<le> 0xdf then Some (2, 0x80, 0xbf)
      else if b = 0xe0 then Some (3, 0xa0, 0xbf)
      else if b = 0xed then Some (3, 0x80, 0x9f)
      else if 0xe1 \<le> b \<and> b \<le> 0xef then Some (3, 0x80, 0xbf)
      else if b = 0xf0 then Some (4, 0x90, 0xbf)
      else if 0xf1 \<le> b \<and> b \<le> 0xf3 then Some (4, 0x80, 0xbf)
      else if b = 0xf4 then Some (4, 0x80, 0x8f)
      else None)"

definition continuation :: "byte \<Rightarrow> bool" where
  "continuation b \<longleftrightarrow> 0x80 \<le> b \<and> b \<le> 0xbf"

text \<open>The size of the well-formed rune at the head of a slice, 0 when there is none.\<close>

definition rune_len :: "byte list \<Rightarrow> nat" where
  "rune_len bs =
     (case bs of
        [] \<Rightarrow> 0
      | b # rest \<Rightarrow>
          if b < 0x80 then 1
          else (case rune_lead b of
                  None \<Rightarrow> 0
                | Some (n, lo, hi) \<Rightarrow>
                    if length bs < n then 0
                    else if rest ! 0 < lo \<or> hi < rest ! 0 then 0
                    else if list_all continuation (take (n - 2) (drop 1 rest)) then n
                    else 0))"

lemma rune_lead_size: "rune_lead b = Some (n, lo, hi) \<Longrightarrow> n \<in> {2, 3, 4}"
  by (auto simp: rune_lead_def split: if_splits)

lemma rune_len_bounds: "rune_len bs \<le> 4" "rune_len bs \<le> length bs"
  by (auto simp: rune_len_def dest: rune_lead_size split: list.splits option.splits if_splits)

lemma rune_len_append: "rune_len bs \<noteq> 0 \<Longrightarrow> rune_len (bs @ cs) = rune_len bs"
proof (cases bs)
  case (Cons b rest)
  assume nz: "rune_len bs \<noteq> 0"
  show ?thesis
  proof (cases "b < 0x80")
    case True then show ?thesis by (simp add: Cons rune_len_def)
  next
    case False
    then obtain n lo hi where l: "rune_lead b = Some (n, lo, hi)"
      using nz Cons by (auto simp: rune_len_def split: option.splits)
    then have n: "n \<in> {2, 3, 4}" by (rule rune_lead_size)
    have "n \<le> length bs" using nz False l Cons by (auto simp: rune_len_def split: if_splits)
    then have "(rest @ cs) ! 0 = rest ! 0" "take (n - 2) (drop 1 (rest @ cs)) = take (n - 2) (drop 1 rest)"
      using n Cons by (auto simp: nth_append)
    moreover have "\<not> length (bs @ cs) < n" "\<not> length bs < n" using \<open>n \<le> length bs\<close> by auto
    ultimately show ?thesis using False l by (simp add: Cons rune_len_def)
  qed
qed (simp add: rune_len_def)

lemma rune_len_take: "rune_len (take (rune_len bs) bs) = rune_len bs"
proof (cases bs)
  case (Cons b rest)
  show ?thesis
  proof (cases "b < 0x80 \<or> rune_len bs = 0")
    case True then show ?thesis by (auto simp: Cons rune_len_def)
  next
    case False
    then obtain n lo hi where l: "rune_lead b = Some (n, lo, hi)" "rune_len bs = n"
      using Cons by (auto simp: rune_len_def split: option.splits if_splits)
    then have n: "n \<in> {2, 3, 4}" by (auto dest: rune_lead_size)
    have "n \<le> length bs" using rune_len_bounds(2) [of bs] l by simp
    have "take n bs = b # take (n - 1) rest" using n Cons by (auto simp: take_Cons')
    moreover have "take (n - 1) rest ! 0 = rest ! 0"
      "take (n - 2) (drop 1 (take (n - 1) rest)) = take (n - 2) (drop 1 rest)"
      using n by (auto simp: drop_take)
    ultimately show ?thesis
      using l False \<open>n \<le> length bs\<close> n by (auto simp: Cons rune_len_def split: if_splits)
  qed
qed (simp add: rune_len_def)

section \<open>Valid texts\<close>

function utf8_valid :: "byte list \<Rightarrow> bool" where
  "utf8_valid bs =
     (if bs = [] then True
      else if rune_len bs = 0 then False
      else utf8_valid (drop (rune_len bs) bs))"
  by pat_completeness auto
termination
  by (relation "measure length") auto

declare utf8_valid.simps [simp del]

lemma utf8_valid_Nil [simp]: "utf8_valid []"
  by (simp add: utf8_valid.simps)

lemma utf8_valid_step:
  "bs \<noteq> [] \<Longrightarrow> utf8_valid bs \<longleftrightarrow> rune_len bs \<noteq> 0 \<and> utf8_valid (drop (rune_len bs) bs)"
  by (subst utf8_valid.simps) simp

lemma utf8_valid_ascii: "b < 0x80 \<Longrightarrow> utf8_valid (b # bs) \<longleftrightarrow> utf8_valid bs"
proof -
  assume "b < 0x80"
  then have "rune_len (b # bs) = 1" by (simp add: rune_len_def)
  then show ?thesis by (simp add: utf8_valid_step)
qed

lemma utf8_valid_append: "utf8_valid a \<Longrightarrow> utf8_valid b \<Longrightarrow> utf8_valid (a @ b)"
proof (induction a rule: utf8_valid.induct)
  case (1 bs)
  show ?case
  proof (cases "bs = []")
    case False
    with "1.prems" have r: "rune_len bs \<noteq> 0" "utf8_valid (drop (rune_len bs) bs)"
      by (simp_all add: utf8_valid_step)
    with "1.IH" False "1.prems" have "utf8_valid (drop (rune_len bs) bs @ b)" by blast
    then show ?thesis
      using False r rune_len_append [OF r(1), of b] rune_len_bounds(2) [of bs] by (simp add: utf8_valid_step)
  qed (use 1 in simp)
qed

lemma utf8_valid_rune: "rune_len bs \<noteq> 0 \<Longrightarrow> utf8_valid (take (rune_len bs) bs)"
proof -
  assume r: "rune_len bs \<noteq> 0"
  then have "bs \<noteq> []" by (auto simp: rune_len_def)
  with r have "take (rune_len bs) bs \<noteq> []" by simp
  with r show ?thesis
    by (subst utf8_valid_step) (simp_all add: rune_len_take rune_len_bounds)
qed

lemma utf8_cut:
  "utf8_valid bs \<Longrightarrow> l \<le> length bs \<Longrightarrow> \<exists>k. l - 3 \<le> k \<and> k \<le> l \<and> utf8_valid (take k bs)"
proof (induction bs arbitrary: l rule: utf8_valid.induct)
  case (1 bs)
  show ?case
  proof (cases "l < rune_len bs \<or> bs = []")
    case True
    then show ?thesis using rune_len_bounds(1) [of bs] "1.prems" by (intro exI [of _ 0]) auto
  next
    case False
    let ?n = "rune_len bs"
    have r: "?n \<noteq> 0" "utf8_valid (drop ?n bs)"
      using False "1.prems" by (simp_all add: utf8_valid_step)
    have "l - ?n \<le> length (drop ?n bs)" using "1.prems" by simp
    then obtain k where k: "l - ?n - 3 \<le> k" "k \<le> l - ?n" "utf8_valid (take k (drop ?n bs))"
      using "1.IH" [of "l - ?n"] False r by blast
    have "utf8_valid (take (?n + k) bs)"
      using utf8_valid_append [OF utf8_valid_rune [OF r(1)] k(3)] by (simp add: take_add)
    then show ?thesis using k False by (intro exI [of _ "?n + k"]) auto
  qed
qed

definition ValidString :: "string \<Rightarrow> bool" where
  "ValidString s \<longleftrightarrow> utf8_valid (to_bytes s)"

lemma ValidString_append: "ValidString s \<Longrightarrow> ValidString t \<Longrightarrow> ValidString (s @ t)"
  by (simp add: ValidString_def utf8_valid_append)

section \<open>strings.ToValidUTF8 with the replacement U+FFFD\<close>

definition replacement :: "byte list" where
  "replacement = [0xef, 0xbf, 0xbd]"

function to_valid :: "bool \<Rightarrow> byte list \<Rightarrow> byte list" where
  "to_valid invalid bs =
     (if bs = [] then []
      else if rune_len bs = 0 then (if invalid then [] else replacement) @ to_valid True (drop 1 bs)
      else take (rune_len bs) bs @ to_valid False (drop (rune_len bs) bs))"
  by pat_completeness auto
termination
  by (relation "measure (\<lambda>(_, bs). length bs)") (auto simp: neq_Nil_conv)

declare to_valid.simps [simp del]

definition ToValidUTF8 :: "string \<Rightarrow> string" where
  "ToValidUTF8 s = to_string (to_valid False (to_bytes s))"

lemma replacement_valid: "utf8_valid replacement"
  by code_simp

lemma to_valid_valid: "utf8_valid (to_valid invalid bs)"
proof (induction invalid bs rule: to_valid.induct)
  case (1 invalid bs)
  then show ?case
    by (subst to_valid.simps) (auto intro!: utf8_valid_append utf8_valid_rune replacement_valid)
qed

lemma to_valid_id: "utf8_valid bs \<Longrightarrow> to_valid invalid bs = bs"
proof (induction bs arbitrary: invalid rule: utf8_valid.induct)
  case (1 bs)
  then show ?case
    by (subst to_valid.simps) (cases "bs = []"; simp add: utf8_valid_step)
qed

lemma ToValidUTF8_valid [simp]: "ValidString (ToValidUTF8 s)"
  by (simp add: ValidString_def ToValidUTF8_def to_valid_valid)

lemma ToValidUTF8_id: "ValidString s \<Longrightarrow> ToValidUTF8 s = s"
  by (simp add: ValidString_def ToValidUTF8_def to_valid_id)

section \<open>DecodeRune\<close>

definition bits_of :: "nat \<Rightarrow> byte \<Rightarrow> nat" where
  "bits_of k b = unat b mod 2 ^ k"

text \<open>The rune at the head of a slice, U+FFFD when it is malformed.\<close>

definition DecodeRune :: "byte list \<Rightarrow> nat" where
  "DecodeRune bs =
     (let n = rune_len bs in
      if n = 1 then unat (bs ! 0)
      else if n = 2 then bits_of 5 (bs ! 0) * 64 + bits_of 6 (bs ! 1)
      else if n = 3 then (bits_of 4 (bs ! 0) * 64 + bits_of 6 (bs ! 1)) * 64 + bits_of 6 (bs ! 2)
      else if n = 4 then
        ((bits_of 3 (bs ! 0) * 64 + bits_of 6 (bs ! 1)) * 64 + bits_of 6 (bs ! 2)) * 64 + bits_of 6 (bs ! 3)
      else 0xfffd)"

end
