(* ===== verification/Throughput.thy ===== *)
theory Throughput
  imports Netip Utf8
begin

text \<open>
  Upload measurement (\<open>internal/throughput/types.go\<close> and \<open>weights.go\<close>): the settings of
  one measurement, the target identities, and \<open>RelativeWeights\<close>, which turns comparable
  observations into coprime integer ratios.  \<open>net/url\<close> enters as the parameter
  \<open>url_parse\<close> (\<open>url.Parse\<close>); a parsed URL keeps the components the code inspects and one
  field for everything else.  A \<open>time.Duration\<close> is an \<open>int\<close> of nanoseconds: every value
  the code computes with is between 0 and one minute.
\<close>

section \<open>Settings\<close>

definition minimumDuration :: int where
  "minimumDuration = 100000000"

definition maximumDuration :: int where
  "maximumDuration = 60000000000"

definition defaultPreparationTimeout :: int where
  "defaultPreparationTimeout = 10000000000"

definition maximumEndpointBytes :: nat where
  "maximumEndpointBytes = 2048"

record url =
  url_scheme :: string
  url_user :: bool
  url_host :: string
  url_fragment :: string
  url_rawFragment :: string
  url_rest :: string

record settings =
  set_endpoint :: url
  set_duration :: int
  set_preparationTimeout :: int

definition no_url :: url where
  "no_url = \<lparr>url_scheme = [], url_user = False, url_host = [], url_fragment = [],
     url_rawFragment = [], url_rest = []\<rparr>"

definition no_settings :: settings where
  "no_settings = \<lparr>set_endpoint = no_url, set_duration = 0, set_preparationTimeout = 0\<rparr>"

datatype settings_error =
    EndpointLengthOrEncoding
  | EndpointParse string
  | EndpointShape
  | DurationOutside int

definition NewSettings :: "(string \<Rightarrow> string + url) \<Rightarrow> string \<Rightarrow> int \<Rightarrow> settings_error + settings" where
  "NewSettings url_parse rawURL duration =
     (if length rawURL = 0 \<or> length rawURL > maximumEndpointBytes \<or> \<not> ValidString rawURL \<or> has_nul rawURL
      then Inl EndpointLengthOrEncoding
      else case url_parse rawURL of
        Inl err \<Rightarrow> Inl (EndpointParse err)
      | Inr endpoint \<Rightarrow>
          if url_scheme endpoint \<noteq> ''http'' \<and> url_scheme endpoint \<noteq> ''https'' \<or> url_host endpoint = [] \<or>
             url_user endpoint \<or> url_fragment endpoint \<noteq> [] \<or> url_rawFragment endpoint \<noteq> []
          then Inl EndpointShape
          else if duration < minimumDuration \<or> duration > maximumDuration
          then Inl (DurationOutside duration)
          else Inr \<lparr>set_endpoint = endpoint, set_duration = duration,
                 set_preparationTimeout = defaultPreparationTimeout\<rparr>)"

definition settings_Valid :: "settings \<Rightarrow> bool" where
  "settings_Valid s \<longleftrightarrow> url_host (set_endpoint s) \<noteq> [] \<and> set_duration s \<ge> minimumDuration \<and>
     set_duration s \<le> maximumDuration \<and> set_preparationTimeout s > 0"

lemma NewSettings_Valid: "NewSettings url_parse raw d = Inr s \<Longrightarrow> settings_Valid s \<and> set_duration s = d"
  by (auto simp: NewSettings_def settings_Valid_def defaultPreparationTimeout_def
      split: if_splits sum.splits)

lemma no_settings_not_Valid [simp]: "\<not> settings_Valid no_settings"
  by (simp add: no_settings_def settings_Valid_def no_url_def)

section \<open>Targets and observations\<close>

record target =
  tg_localIP :: addr
  tg_transfer :: transfer_number

datatype target_error = SourceBoundInvalid | NamespaceInvalid

definition NewSourceBoundTarget :: "addr \<Rightarrow> target_error + target" where
  "NewSourceBoundTarget localIP =
     (if \<not> Is4 localIP then Inl SourceBoundInvalid
      else Inr \<lparr>tg_localIP = localIP, tg_transfer = no_number\<rparr>)"

definition NewCurrentNamespaceTarget :: "transfer_number \<Rightarrow> target_error + target" where
  "NewCurrentNamespaceTarget n =
     (if num_value n = 0 then Inl NamespaceInvalid
      else Inr \<lparr>tg_localIP = NoAddr, tg_transfer = n\<rparr>)"

definition HasTransfer :: "target \<Rightarrow> bool" where
  "HasTransfer t \<longleftrightarrow> num_value (tg_transfer t) \<noteq> 0"

definition target_valid :: "target \<Rightarrow> bool" where
  "target_valid t \<longleftrightarrow> Is4 (tg_localIP t) \<noteq> (num_value (tg_transfer t) \<noteq> 0)"

lemma new_targets_valid:
  "NewSourceBoundTarget ip = Inr t \<Longrightarrow> target_valid t \<and> \<not> HasTransfer t"
  "NewCurrentNamespaceTarget n = Inr t \<Longrightarrow> target_valid t \<and> HasTransfer t"
  by (auto simp: NewSourceBoundTarget_def NewCurrentNamespaceTarget_def target_valid_def
      HasTransfer_def Is4_def split: if_splits)

datatype FailureStage = ResolveEndpoint | ConnectEndpoint | NegotiateTLS | ValidateEndpoint | SampleUpload

fun stage_String :: "FailureStage \<Rightarrow> string" where
  "stage_String ResolveEndpoint = ''resolve endpoint''"
| "stage_String ConnectEndpoint = ''connect endpoint''"
| "stage_String NegotiateTLS = ''negotiate TLS''"
| "stage_String ValidateEndpoint = ''validate endpoint''"
| "stage_String SampleUpload = ''sample upload''"

record failure =
  fl_Stage :: FailureStage
  fl_Cause :: string

definition failure_Error :: "failure \<Rightarrow> string" where
  "failure_Error f = stage_String (fl_Stage f) @ '': '' @ fl_Cause f"

record observation =
  ob_target :: target
  ob_bytes :: u64
  ob_duration :: int
  ob_err :: "failure option"

definition failed :: "target \<Rightarrow> int \<Rightarrow> FailureStage \<Rightarrow> string \<Rightarrow> observation" where
  "failed target duration stage err =
     \<lparr>ob_target = target, ob_bytes = 0, ob_duration = duration,
      ob_err = Some \<lparr>fl_Stage = stage, fl_Cause = err\<rparr>\<rparr>"

record weight =
  wt_target :: target
  wt_value :: u64

section \<open>Relative weights\<close>

definition normalizedScale :: nat where
  "normalizedScale = 1000000"

datatype weights_error =
    IdentityInvalid
  | IdentityRepeated
  | ObservationFailed failure
  | TooFewObservations
  | NotComparable
  | WeightOutsideRange nat

text \<open>The first loop: identities are checked before failures.\<close>

fun successful ::
  "bool \<Rightarrow> target list \<Rightarrow> observation list \<Rightarrow> weights_error + observation list" where
  "successful successfulOnly seen [] = Inr []"
| "successful successfulOnly seen (r # rs) =
     (if \<not> target_valid (ob_target r) then Inl IdentityInvalid
      else if ob_target r \<in> set seen then Inl IdentityRepeated
      else case ob_err r of
        Some err \<Rightarrow>
          if successfulOnly then successful successfulOnly (ob_target r # seen) rs
          else Inl (ObservationFailed err)
      | None \<Rightarrow>
          bind_r (successful successfulOnly (ob_target r # seen) rs) (\<lambda>valid. Inr (r # valid)))"

definition slowest :: "u64 list \<Rightarrow> u64" where
  "slowest bs = foldl (\<lambda>s b. if b < s then b else s) (hd bs) (tl bs)"

definition scale :: "nat \<Rightarrow> nat \<Rightarrow> nat" where
  "scale slow bytes =
     (let numerator = bytes * normalizedScale; q = numerator div slow; remainder = numerator mod slow in
      if 2 * remainder \<ge> slow then q + 1 else q)"

fun scale_all :: "nat \<Rightarrow> nat \<Rightarrow> nat list \<Rightarrow> weights_error + nat list" where
  "scale_all slow index [] = Inr []"
| "scale_all slow index (b # bs) =
     (let v = scale slow b in
      if \<not> v < 2 ^ 64 \<or> v = 0 then Inl (WeightOutsideRange index)
      else bind_r (scale_all slow (Suc index) bs) (\<lambda>vs. Inr (v # vs)))"

definition divisor :: "nat list \<Rightarrow> nat" where
  "divisor vs = foldl gcd (hd vs) (tl vs)"

text \<open>\<open>Inr None\<close> is the result \<open>nil, nil\<close> for too few successful observations.\<close>

definition RelativeWeights ::
  "observation list \<Rightarrow> bool \<Rightarrow> weights_error + weight list option" where
  "RelativeWeights results successfulOnly =
     bind_r (successful successfulOnly [] results) (\<lambda>valid.
       if length valid < 2 then (if successfulOnly then Inr None else Inl TooFewObservations)
       else
         let duration = ob_duration (hd valid) in
         if list_ex (\<lambda>r. ob_bytes r = 0 \<or> ob_duration r \<noteq> duration \<or> duration \<le> 0) valid
         then Inl NotComparable
         else
           let slow = unat (slowest (map ob_bytes valid)) in
           bind_r (scale_all slow 0 (map (\<lambda>r. unat (ob_bytes r)) valid)) (\<lambda>scaled.
             Inr (Some (map (\<lambda>(r, v). \<lparr>wt_target = ob_target r, wt_value = word_of_nat (v div divisor scaled)\<rparr>)
                         (zip valid scaled)))))"

subsection \<open>Facts\<close>

lemma successful_Inr:
  "successful only seen rs = Inr valid \<Longrightarrow>
     valid = filter (\<lambda>r. ob_err r = None) rs \<and> distinct (map ob_target rs) \<and>
     set (map ob_target rs) \<inter> set seen = {} \<and> (\<forall>r \<in> set rs. target_valid (ob_target r)) \<and>
     (\<not> only \<longrightarrow> valid = rs)"
  by (induction rs arbitrary: seen valid) (fastforce simp: result_simps split: if_splits option.splits)+

lemma slowest_le_aux:
  "foldl (\<lambda>s b. if b < s then b else s) s bs \<in> set (s # bs) \<and>
     (\<forall>b \<in> set (s # bs). foldl (\<lambda>s b. if b < s then b else s) s bs \<le> b)"
  for s :: u64
proof (induction bs arbitrary: s)
  case (Cons b bs)
  show ?case using Cons.IH [of "if b < s then b else s"] by (fastforce split: if_splits)
qed simp

lemma slowest_in: "bs \<noteq> [] \<Longrightarrow> slowest bs \<in> set bs"
  using slowest_le_aux [of "hd bs" "tl bs"] by (cases bs) (auto simp: slowest_def)

lemma slowest_le: "b \<in> set bs \<Longrightarrow> slowest bs \<le> b"
  using slowest_le_aux [of "hd bs" "tl bs"] by (cases bs) (auto simp: slowest_def)

lemma scale_all_Inr:
  "scale_all slow i bs = Inr vs \<Longrightarrow> vs = map (scale slow) bs \<and> (\<forall>v \<in> set vs. 0 < v \<and> v < 2 ^ 64)"
  by (induction bs arbitrary: i vs) (auto simp: Let_def result_simps split: if_splits)

text \<open>\<open>scale\<close> rounds \<open>bytes * 10\<^sup>6 / slow\<close> to the nearest integer, halves upwards.\<close>

lemma scale_rounds:
  assumes "0 < slow"
  shows "2 * bytes * normalizedScale < (2 * scale slow bytes + 1) * slow"
    and "2 * scale slow bytes * slow \<le> 2 * bytes * normalizedScale + slow"
proof -
  define q r where "q = bytes * normalizedScale div slow" and "r = bytes * normalizedScale mod slow"
  have n: "bytes * normalizedScale = slow * q + r" by (simp add: q_def r_def)
  have m: "r < slow" using assms by (simp add: r_def)
  have s: "scale slow bytes = (if 2 * r \<ge> slow then q + 1 else q)"
    by (simp add: scale_def Let_def q_def r_def)
  have b: "2 * bytes * normalizedScale = 2 * (slow * q) + 2 * r" using n by simp
  show "2 * bytes * normalizedScale < (2 * scale slow bytes + 1) * slow"
    unfolding b s using m by (auto simp: algebra_simps)
  show "2 * scale slow bytes * slow \<le> 2 * bytes * normalizedScale + slow"
    unfolding b s using m by (auto simp: algebra_simps)
qed

lemma scale_error:
  assumes "0 < slow"
  shows "\<bar>2 * int (scale slow bytes * slow) - 2 * int (bytes * normalizedScale)\<bar> \<le> int slow"
proof -
  have "2 * (scale slow bytes * slow) \<le> 2 * (bytes * normalizedScale) + slow"
    "2 * (bytes * normalizedScale) \<le> 2 * (scale slow bytes * slow) + slow"
    using scale_rounds [OF assms, of bytes] by (simp_all add: algebra_simps)
  then show ?thesis by linarith
qed

lemma scale_mono: "a \<le> b \<Longrightarrow> scale slow a \<le> scale slow b"
proof (cases "slow = 0")
  case False
  assume "a \<le> b"
  then have "2 * a * normalizedScale \<le> 2 * b * normalizedScale" by simp
  then have "2 * scale slow a * slow < (2 * scale slow b + 1) * slow + slow"
    using scale_rounds [of slow a] scale_rounds [of slow b] False by linarith
  then have "2 * scale slow a * slow < (2 * scale slow b + 2) * slow"
    by (simp add: algebra_simps)
  then show ?thesis unfolding mult_less_cancel2 by simp
qed (simp add: scale_def Let_def)

lemma foldl_gcd: "foldl gcd d vs = Gcd (set (d # vs))" for d :: nat
  by (induction vs arbitrary: d) (simp_all add: gcd.assoc)

lemma divisor_Gcd: "vs \<noteq> [] \<Longrightarrow> divisor vs = Gcd (set vs)"
  by (cases vs) (simp_all add: divisor_def foldl_gcd)

lemma Gcd_div_Gcd:
  assumes "vs \<noteq> []" "\<forall>v \<in> set vs. 0 < v"
  shows "Gcd ((\<lambda>v. v div Gcd (set vs)) ` set vs) = (1 :: nat)"
proof -
  let ?d = "Gcd (set vs)"
  have d: "?d \<noteq> 0" using assms by (cases vs) auto
  have "(*) ?d ` (\<lambda>v. v div ?d) ` set vs = set vs"
    by (force simp: image_image)
  then have "?d = ?d * Gcd ((\<lambda>v. v div ?d) ` set vs)"
    by (metis Gcd_mult normalize_nat_def id_apply mult.commute normalize_mult)
  with d show ?thesis by simp
qed

section \<open>Properties\<close>

text \<open>The measured rates of the successful observations, and the integer the code scales them to.\<close>

definition scaled_values :: "observation list \<Rightarrow> nat list" where
  "scaled_values valid =
     map (\<lambda>r. scale (unat (slowest (map ob_bytes valid))) (unat (ob_bytes r))) valid"

lemma RelativeWeights_Inr:
  assumes "RelativeWeights results only = Inr (Some ws)"
  obtains valid where
    "valid = filter (\<lambda>r. ob_err r = None) results" "\<not> only \<longrightarrow> valid = results"
    "distinct (map ob_target results)" "\<forall>r \<in> set results. target_valid (ob_target r)"
    "2 \<le> length valid" "\<forall>r \<in> set valid. ob_bytes r \<noteq> 0"
    "\<forall>v \<in> set (scaled_values valid). 0 < v \<and> v < 2 ^ 64"
    "ws = map (\<lambda>(r, v). \<lparr>wt_target = ob_target r,
        wt_value = word_of_nat (v div Gcd (set (scaled_values valid)))\<rparr>) (zip valid (scaled_values valid))"
proof -
  obtain valid where v: "successful only [] results = Inr valid" "2 \<le> length valid"
    and b: "\<forall>r \<in> set valid. ob_bytes r \<noteq> 0"
    and s: "bind_r (scale_all (unat (slowest (map ob_bytes valid))) 0 (map (\<lambda>r. unat (ob_bytes r)) valid))
      (\<lambda>scaled. Inr (Some (map (\<lambda>(r, v). \<lparr>wt_target = ob_target r, wt_value = word_of_nat (v div divisor scaled)\<rparr>)
         (zip valid scaled)))) = (Inr (Some ws) :: weights_error + weight list option)"
    using assms by (auto simp: RelativeWeights_def Let_def bind_r_Inr_iff list_ex_iff split: if_splits)
  obtain scaled where sc: "scale_all (unat (slowest (map ob_bytes valid))) 0
      (map (\<lambda>r. unat (ob_bytes r)) valid) = Inr scaled"
    and ws: "ws = map (\<lambda>(r, v). \<lparr>wt_target = ob_target r, wt_value = word_of_nat (v div divisor scaled)\<rparr>)
         (zip valid scaled)"
    using s by (auto simp: bind_r_Inr_iff)
  have "scaled = scaled_values valid" "\<forall>v \<in> set scaled. 0 < v \<and> v < 2 ^ 64"
    using scale_all_Inr [OF sc] by (simp_all add: scaled_values_def o_def)
  moreover from this v(2) have "divisor scaled = Gcd (set (scaled_values valid))"
    by (intro trans [OF divisor_Gcd]) (auto simp: scaled_values_def)
  ultimately show ?thesis
    using that successful_Inr [OF v(1)] v(2) b ws by metis
qed

lemma weight_values_unat:
  assumes "\<forall>v \<in> set vs. 0 < v \<and> v < (2 :: nat) ^ 64" "v \<in> set vs"
  shows "unat (word_of_nat (v div Gcd (set vs)) :: u64) = v div Gcd (set vs)" "0 < v div Gcd (set vs)"
proof -
  have v: "0 < v" "v < 2 ^ 64" using assms by auto
  have "Gcd (set vs) dvd v" using assms(2) by simp
  with v(1) show pos: "0 < v div Gcd (set vs)"
    by (metis dvd_div_eq_0_iff gr0I less_numeral_extra(3))
  have "v div Gcd (set vs) \<le> v" by (rule div_le_dividend)
  also have "v < 2 ^ LENGTH(64)" using v by simp
  finally have "v div Gcd (set vs) < 2 ^ LENGTH(64)" .
  then show "unat (word_of_nat (v div Gcd (set vs)) :: u64) = v div Gcd (set vs)"
    by (simp add: unat_of_nat)
qed

text \<open>
  C11: measured weights are the measured rates.  When \<open>RelativeWeights\<close> returns weights,
  there is one per successful observation, in the order of the observations and with their
  targets; every weight is positive and the weights have no common factor; and for a
  common scale \<open>d\<close> each weight is the rate, in millionths of the slowest rate, to the
  nearest integer.
\<close>

theorem relative_weights_are_the_measured_ratios:
  assumes "RelativeWeights results only = Inr (Some ws)"
  defines "valid \<equiv> filter (\<lambda>r. ob_err r = None) results"
  defines "slow \<equiv> unat (slowest (map ob_bytes valid))"
  shows "map wt_target ws = map ob_target valid \<and>
    Gcd ((\<lambda>w. unat (wt_value w)) ` set ws) = 1 \<and>
    (\<exists>d > 0. \<forall>i < length valid.
       0 < unat (wt_value (ws ! i)) \<and>
       unat (wt_value (ws ! i)) * d = scale slow (unat (ob_bytes (valid ! i))) \<and>
       \<bar>2 * int (unat (wt_value (ws ! i)) * d * slow) - 2 * int (unat (ob_bytes (valid ! i)) * normalizedScale)\<bar>
         \<le> int slow)"
proof -
  let ?vs = "scaled_values valid"
  let ?d = "Gcd (set ?vs)"
  obtain valid' where valid': "valid' = valid" "2 \<le> length valid'" "\<forall>r \<in> set valid'. ob_bytes r \<noteq> 0"
    "\<forall>v \<in> set (scaled_values valid'). 0 < v \<and> v < 2 ^ 64"
    "ws = map (\<lambda>(r, v). \<lparr>wt_target = ob_target r, wt_value = word_of_nat (v div Gcd (set (scaled_values valid')))\<rparr>)
      (zip valid' (scaled_values valid'))"
    using RelativeWeights_Inr [OF assms(1)] unfolding valid_def by metis
  then have v: "2 \<le> length valid" "\<forall>r \<in> set valid. ob_bytes r \<noteq> 0" "\<forall>v \<in> set ?vs. 0 < v \<and> v < 2 ^ 64"
    "ws = map (\<lambda>(r, v). \<lparr>wt_target = ob_target r, wt_value = word_of_nat (v div ?d)\<rparr>) (zip valid ?vs)"
    by simp_all
  have len: "length ?vs = length valid" by (simp add: scaled_values_def)
  have vals: "map (\<lambda>w. unat (wt_value w)) ws = map (\<lambda>v. v div ?d) ?vs"
    using len weight_values_unat [OF v(3)] by (intro nth_equalityI) (auto simp: v(4))
  have ne: "?vs \<noteq> []" using len v(1) by auto
  have "Gcd ((\<lambda>v. v div ?d) ` set ?vs) = 1" using Gcd_div_Gcd [OF ne] v(3) by blast
  then have "Gcd ((\<lambda>w. unat (wt_value w)) ` set ws) = 1"
    using vals by (metis (no_types, lifting) list.set_map)
  moreover have "map wt_target ws = map ob_target valid"
    using len by (intro nth_equalityI) (auto simp: v(4))
  moreover have "0 < ?d" using ne v(3) by (cases ?vs) auto
  moreover have pos: "0 < slow"
  proof -
    have "slowest (map ob_bytes valid) \<in> set (map ob_bytes valid)" using v(1) by (intro slowest_in) auto
    then have "slowest (map ob_bytes valid) \<noteq> 0" using v(2) by auto
    then show ?thesis by (simp add: slow_def unat_gt_0)
  qed
  moreover have "0 < unat (wt_value (ws ! i)) \<and> unat (wt_value (ws ! i)) * ?d = scale slow (unat (ob_bytes (valid ! i))) \<and>
      \<bar>2 * int (unat (wt_value (ws ! i)) * ?d * slow) - 2 * int (unat (ob_bytes (valid ! i)) * normalizedScale)\<bar> \<le> int slow"
    if "i < length valid" for i
  proof -
    have "?vs ! i \<in> set ?vs" using that len by simp
    moreover have "?vs ! i = scale slow (unat (ob_bytes (valid ! i)))"
      using that by (simp add: scaled_values_def slow_def)
    ultimately have "0 < unat (wt_value (ws ! i))"
      and e: "unat (wt_value (ws ! i)) * ?d = scale slow (unat (ob_bytes (valid ! i)))"
      using weight_values_unat [OF v(3), of "?vs ! i"] that len by (simp_all add: v(4))
    then show ?thesis
      using scale_error [OF pos, of "unat (ob_bytes (valid ! i))"] unfolding e [symmetric] by blast
  qed
  ultimately show ?thesis
    by (intro conjI exI [of _ ?d] allI impI) blast+
qed

definition demo_observation :: "byte \<Rightarrow> u64 \<Rightarrow> failure option \<Rightarrow> observation" where
  "demo_observation n b e =
     \<lparr>ob_target = \<lparr>tg_localIP = NoAddr, tg_transfer = Number n\<rparr>, ob_bytes = b, ob_duration = 1000, ob_err = e\<rparr>"

theorem relative_weights_are_the_measured_ratios_witness:
  "\<exists>ws. RelativeWeights [demo_observation 1 300 None, demo_observation 2 100 None] False = Inr (Some ws) \<and>
     map (\<lambda>w. unat (wt_value w)) ws = [3, 1] \<and> Gcd ((\<lambda>w. unat (wt_value w)) ` set ws) = 1"
proof -
  let ?rs = "[demo_observation 1 300 None, demo_observation 2 100 None]"
  have sl: "slowest [300, 100] = 100" by (simp add: slowest_def)
  have g: "gcd 3000000 (1000000 :: nat) = 1000000"
    by (subst gcd_red_nat) simp
  have "RelativeWeights ?rs False = Inr (Some
      [\<lparr>wt_target = ob_target (demo_observation 1 300 None), wt_value = 3\<rparr>,
       \<lparr>wt_target = ob_target (demo_observation 2 100 None), wt_value = 1\<rparr>])"
    by (simp add: RelativeWeights_def demo_observation_def target_valid_def Is4_def sl scale_def
        normalizedScale_def divisor_def g)
  then show ?thesis
    using relative_weights_are_the_measured_ratios [of ?rs False] by fastforce
qed

end
