(* ===== verification/Child_Types.thy ===== *)
theory Child_Types
  imports Netip
begin

text \<open>
  The values of the child-process group (\<open>internal/childprocesses/types.go\<close>): terminal
  sizes, the descriptor-bound path of a transfer's view, the validation of one command and
  of the complete group, and the validated group results.  A resolver capability is either
  absent or answers \<open>Open\<close> with success or an error; a view is the identity its capability
  reports.  Descriptors are opaque numbers.
\<close>

section \<open>Terminal sizes\<close>

record terminal_size =
  ts_cols :: u16
  ts_rows :: u16

definition no_terminal :: terminal_size where
  "no_terminal = \<lparr>ts_cols = 0, ts_rows = 0\<rparr>"

definition maximumTerminalSize :: int where
  "maximumTerminalSize = 65535"

datatype child_error =
    TerminalSizeInvalid
  | ExecChannelAbsent
  | ViewUnavailable
  | ViewTransferInvalid
  | ViewBaseNameInvalid
  | ViewRunInvalid
  | ViewArgumentCount
  | ResolverUnavailable
  | ResolverInvalid string
  | IdentityOrPathsInvalid
  | ConflictingCapabilities
  | ArgvContainsNUL
  | EnvironmentInvalid
  | EnvironmentRepeats string
  | GroupSizeInvalid
  | GroupDuplicate transfer_number
  | GroupMissing nat
  | TransferResultInvalid
  | ResultDuplicate
  | ResultMissing nat
  | HelperResultIncomplete
  | HelperOutputAbsent transfer_number

definition NewTerminalSize :: "int \<Rightarrow> int \<Rightarrow> child_error + terminal_size" where
  "NewTerminalSize cols rows =
     (if cols < 1 \<or> rows < 1 \<or> cols > maximumTerminalSize \<or> rows > maximumTerminalSize
      then Inl TerminalSizeInvalid
      else Inr \<lparr>ts_cols = word_of_int cols, ts_rows = word_of_int rows\<rparr>)"

lemma uint_u16_bounds: "0 \<le> uint (w :: u16)" "uint w \<le> 65535"
  using uint_lt2p [of w] by simp_all

lemma NewTerminalSize_uint [result_simps]:
  "NewTerminalSize (uint c) (uint r) = Inr s \<longleftrightarrow> c \<noteq> 0 \<and> r \<noteq> 0 \<and> s = \<lparr>ts_cols = c, ts_rows = r\<rparr>"
proof -
  have "uint w < 1 \<longleftrightarrow> w = 0" for w :: u16
  proof -
    have "uint w < 1 \<longleftrightarrow> uint w = 0" using uint_u16_bounds [of w] by linarith
    then show ?thesis by (simp add: uint_0_iff)
  qed
  then show ?thesis
    using uint_u16_bounds [of c] uint_u16_bounds [of r]
    by (auto simp: NewTerminalSize_def maximumTerminalSize_def)
qed

section \<open>The path a view is bound to\<close>

definition pad3 :: "nat \<Rightarrow> string" where
  "pad3 n = replicate (3 - length (decimal n)) (CHR ''0'') @ decimal n"

definition DescriptorBoundViewPath ::
  "run_id \<Rightarrow> transfer_number \<Rightarrow> string \<Rightarrow> child_error + string" where
  "DescriptorBoundViewPath run t baseName =
     (if baseName = [] \<or> baseName = ''.'' \<or> baseName = ''..'' \<or> Base baseName \<noteq> baseName \<or>
         has_nul baseName \<or> num_value t = 0 then Inl ViewBaseNameInvalid
      else if id_parse (id_string run) \<noteq> Inr run then Inl ViewRunInvalid
      else Inr (Join [''/run/transferlanes'', ''view-'' @ id_string run,
                      ''transfer-'' @ pad3 (num t), baseName]))"

section \<open>Commands\<close>

datatype resolver_access = NoResolver | Resolver (open_error: "string option")

record view_access =
  va_RunID :: run_id
  va_TransferNumber :: transfer_number
  va_BaseName :: string

record command =
  cmd_transfer :: transfer_number
  cmd_cwd :: string
  cmd_resolver :: resolver_access
  cmd_argv :: "string list"
  cmd_environment :: "string list"
  cmd_execChannel :: "nat option"
  cmd_view :: "view_access option"

text \<open>The loop over the environment: every entry is \<open>NAME=value\<close> and no name repeats.\<close>

definition entry_name_of :: "string \<Rightarrow> string" where
  "entry_name_of entry = fst (str_cut (CHR ''='') entry)"

definition environment_entry_bad :: "string \<Rightarrow> bool" where
  "environment_entry_bad entry \<longleftrightarrow>
     (case str_cut (CHR ''='') entry of (name, _, found) \<Rightarrow>
        \<not> found \<or> name = [] \<or> has_nul entry \<or> CHR ''='' \<in> set name)"

definition validateCommandFields :: "command \<Rightarrow> string \<Rightarrow> child_error + unit" where
  "validateCommandFields command descriptorViewPath =
     (let validWorkingDirectory =
            cleanAbsolute (cmd_cwd command) \<or>
            descriptorViewPath \<noteq> [] \<and> cmd_cwd command = descriptorViewPath in
      if num_value (cmd_transfer command) = 0 \<or> \<not> validWorkingDirectory \<or> length (cmd_argv command) = 0
      then Inl IdentityOrPathsInvalid
      else if cmd_execChannel command \<noteq> None \<and> cmd_view command \<noteq> None then Inl ConflictingCapabilities
      else if list_ex has_nul (cmd_argv command) then Inl ArgvContainsNUL
      else bind_r
        (scan_seen (\<lambda>e. if environment_entry_bad e then Some EnvironmentInvalid else None)
           entry_name_of (\<lambda>e. EnvironmentRepeats (entry_name_of e)) [] (cmd_environment command))
        (\<lambda>_. Inr ()))"

definition validateCommand :: "command \<Rightarrow> child_error + unit" where
  "validateCommand command =
     (let viewPath =
            (case cmd_view command of
               None \<Rightarrow> []
             | Some v \<Rightarrow>
                 (case DescriptorBoundViewPath (va_RunID v) (va_TransferNumber v) (va_BaseName v) of
                    Inl _ \<Rightarrow> [] | Inr p \<Rightarrow> p)) in
      case cmd_resolver command of
        NoResolver \<Rightarrow> Inl ResolverUnavailable
      | Resolver (Some err) \<Rightarrow> Inl (ResolverInvalid err)
      | Resolver None \<Rightarrow> validateCommandFields command viewPath)"

definition NewCommand ::
  "transfer_number \<Rightarrow> string \<Rightarrow> resolver_access \<Rightarrow> string list \<Rightarrow> string list \<Rightarrow> child_error + command" where
  "NewCommand t workingDirectory resolver argv environment =
     (let command = \<lparr>cmd_transfer = t, cmd_cwd = workingDirectory, cmd_resolver = resolver,
            cmd_argv = argv, cmd_environment = environment, cmd_execChannel = None, cmd_view = None\<rparr> in
      bind_r (validateCommand command) (\<lambda>_. Inr command))"

definition NewCommandWithExecChannel ::
  "transfer_number \<Rightarrow> string \<Rightarrow> resolver_access \<Rightarrow> string list \<Rightarrow> string list \<Rightarrow> nat option \<Rightarrow>
     child_error + command" where
  "NewCommandWithExecChannel t workingDirectory resolver argv environment channel =
     (if channel = None then Inl ExecChannelAbsent
      else bind_r (NewCommand t workingDirectory resolver argv environment)
        (\<lambda>command. Inr (command\<lparr>cmd_execChannel := channel\<rparr>)))"

definition NewViewCommand ::
  "transfer_number \<Rightarrow> resolver_access \<Rightarrow> string list \<Rightarrow> string list \<Rightarrow> view_access option \<Rightarrow>
     child_error + command" where
  "NewViewCommand t resolver argv environment view =
     (case view of
        None \<Rightarrow> Inl ViewUnavailable
      | Some v \<Rightarrow>
          if va_TransferNumber v \<noteq> t then Inl ViewTransferInvalid
          else bind_r (DescriptorBoundViewPath (va_RunID v) (va_TransferNumber v) (va_BaseName v)) (\<lambda>viewPath.
            let command = \<lparr>cmd_transfer = t, cmd_cwd = viewPath, cmd_resolver = resolver,
                  cmd_argv = argv, cmd_environment = environment, cmd_execChannel = None, cmd_view = view\<rparr> in
            bind_r (validateCommand command) (\<lambda>_.
              if length (filter (\<lambda>a. a = viewPath) argv) \<noteq> 1 then Inl ViewArgumentCount
              else Inr command)))"

definition validateCommands :: "command list \<Rightarrow> child_error + unit" where
  "validateCommands commands =
     (if length commands = 0 \<or> length commands > transfer_maximum then Inl GroupSizeInvalid
      else bind_r
        (scan_seen (\<lambda>c. case validateCommand c of Inl e \<Rightarrow> Some e | Inr _ \<Rightarrow> None)
           cmd_transfer (\<lambda>c. GroupDuplicate (cmd_transfer c)) [] commands)
        (\<lambda>seen. case first_missing (length commands) seen of
            Some k \<Rightarrow> Inl (GroupMissing k)
          | None \<Rightarrow> Inr ()))"

section \<open>Results\<close>

record child_transfer_result =
  ctr_Transfer :: transfer_number
  ctr_ExitCode :: int
  ctr_Signal :: int

record child_result =
  cr_Transfers :: "child_transfer_result list"
  cr_Cancelled :: bool

definition child_result_bad :: "child_transfer_result \<Rightarrow> bool" where
  "child_result_bad r \<longleftrightarrow>
     num_value (ctr_Transfer r) = 0 \<or> ctr_Signal r < 0 \<or> ctr_Signal r > 255 \<or>
     ctr_Signal r = 0 \<and> (ctr_ExitCode r < 0 \<or> ctr_ExitCode r > 255) \<or>
     ctr_Signal r \<noteq> 0 \<and> ctr_ExitCode r \<noteq> -1"

text \<open>The final loop compares a \<open>uint8\<close> with \<open>uint8(index+1)\<close>.\<close>

fun check_order :: "nat \<Rightarrow> child_transfer_result list \<Rightarrow> child_error + unit" where
  "check_order index [] = Inr ()"
| "check_order index (r # rs) =
     (if num_value (ctr_Transfer r) \<noteq> word_of_nat (index + 1) then Inl (ResultMissing (index + 1))
      else check_order (index + 1) rs)"

definition newResult :: "child_transfer_result list \<Rightarrow> bool \<Rightarrow> child_error + child_result" where
  "newResult transfers cancelled =
     bind_r (scan_seen (\<lambda>r. if child_result_bad r then Some TransferResultInvalid else None)
               ctr_Transfer (\<lambda>_. ResultDuplicate) [] transfers) (\<lambda>_.
       let ordered = sort_key ctr_Transfer transfers in
       bind_r (check_order 0 ordered) (\<lambda>_.
         Inr \<lparr>cr_Transfers = ordered, cr_Cancelled = cancelled\<rparr>))"

record helper_transfer =
  ht_Transfer :: transfer_number
  ht_Output :: "byte list"
  ht_ExitCode :: int
  ht_Signal :: int

text \<open>The map of outputs is an association list with pairwise different keys.\<close>

definition newHelperResult ::
  "child_result \<Rightarrow> (transfer_number \<times> byte list) list \<Rightarrow> child_error + helper_transfer list" where
  "newHelperResult processes outputs =
     (if length (cr_Transfers processes) \<noteq> length outputs then Inl HelperResultIncomplete
      else map_r (\<lambda>p. case map_of outputs (ctr_Transfer p) of
              None \<Rightarrow> Inl (HelperOutputAbsent (ctr_Transfer p))
            | Some output \<Rightarrow> Inr \<lparr>ht_Transfer = ctr_Transfer p, ht_Output = output,
                ht_ExitCode = ctr_ExitCode p, ht_Signal = ctr_Signal p\<rparr>)
         (cr_Transfers processes))"

section \<open>Facts on the view path\<close>

lemma Base_proper: "proper_part b \<Longrightarrow> Base b = b"
proof -
  assume p: "proper_part b"
  then have "b \<noteq> []" "last b \<noteq> slash" by (simp add: proper_part_def, metis last_in_set proper_part_def)
  then have "drop_trailing_slashes b = b" by (rule drop_trailing_slashes_id)
  with p show ?thesis by (simp add: Base_def proper_part_def split_on_single)
qed

lemma Base_no_slash: "Base b = b \<Longrightarrow> b \<noteq> [] \<Longrightarrow> b \<noteq> ''/'' \<Longrightarrow> slash \<notin> set b"
  using split_on_no_sep [OF last_in_set [OF split_on_not_Nil], of slash "drop_trailing_slashes b"]
  by (auto simp: Base_def Let_def split: if_splits)

text \<open>\<open>/\<close> itself satisfies the base-name test, as \<open>filepath.Base\<close> of it is \<open>/\<close>.\<close>

lemma base_name_cases:
  assumes "b \<noteq> []" "b \<noteq> ''.''" "b \<noteq> ''..''" "Base b = b"
  shows "proper_part b \<or> b = ''/''"
  using assms Base_no_slash by (auto simp: proper_part_def)

lemma foldl_clean_rooted:
  "list_all proper_part ps \<Longrightarrow> Clean (slash # join_with slash ps) = slash # join_with slash ps"
proof (cases "ps = []")
  case False
  assume "list_all proper_part ps"
  moreover from this have "split_on slash (join_with slash ps) = ps"
    using False by (intro split_join) (auto simp: list_all_iff proper_part_def)
  ultimately show ?thesis
    by (simp add: Clean_def IsAbs_def clean_step_def [of _ _ "[]"] foldl_clean_proper)
qed (simp add: Clean_def IsAbs_def clean_step_def)

definition view_parts :: "run_id \<Rightarrow> transfer_number \<Rightarrow> string \<Rightarrow> string list" where
  "view_parts run t baseName =
     [''run'', ''transferlanes'', ''view-'' @ id_string run, ''transfer-'' @ pad3 (num t), baseName]"

lemma hex_encode_no_slash: "slash \<notin> set (hex_encode bs)"
proof -
  have "list_all isLowerHex (hex_encode bs)" by (rule hex_encode_props)
  moreover have "\<not> isLowerHex slash" by code_simp
  ultimately show ?thesis by (auto simp: list_all_iff)
qed

lemma decimal_digit_chars: "c \<in> set (decimal n) \<Longrightarrow> c \<in> set hex_table"
proof -
  assume "c \<in> set (decimal n)"
  then obtain k where "k < 10" "c = hex_table ! k"
    using set_digits [of 10 c n] by (auto simp: decimal_def)
  moreover from this have "k < length hex_table" by (simp add: hex_table_def)
  ultimately show ?thesis by simp
qed

lemma pad3_no_slash: "slash \<notin> set (pad3 n)"
proof
  assume "slash \<in> set (pad3 n)"
  then have "slash = CHR ''0'' \<or> slash \<in> set hex_table"
    using decimal_digit_chars [of slash n] by (auto simp: pad3_def)
  then show False by (simp add: hex_table_def)
qed

lemma view_parts_proper: "proper_part baseName \<Longrightarrow> list_all proper_part (view_parts run t baseName)"
  using hex_encode_no_slash pad3_no_slash by (auto simp: view_parts_def proper_part_def id_string_def)

lemma DescriptorBoundViewPath_Inr:
  assumes "DescriptorBoundViewPath run t baseName = Inr p" "baseName \<noteq> ''/''"
  shows "proper_part baseName" "id_ok run" "num_value t \<noteq> 0"
    "p = slash # join_with slash (view_parts run t baseName)"
proof -
  show b: "proper_part baseName"
    using assms base_name_cases [of baseName] by (auto simp: DescriptorBoundViewPath_def split: if_splits)
  show "id_ok run" "num_value t \<noteq> 0"
    using assms id_string_parse [of "id_string run" run]
    by (auto simp: DescriptorBoundViewPath_def split: if_splits)
  have "join_with slash [''/run/transferlanes'', ''view-'' @ id_string run, ''transfer-'' @ pad3 (num t), baseName] =
      slash # join_with slash (view_parts run t baseName)"
    by (simp add: view_parts_def)
  then have "Join [''/run/transferlanes'', ''view-'' @ id_string run, ''transfer-'' @ pad3 (num t), baseName] =
      slash # join_with slash (view_parts run t baseName)"
    using b foldl_clean_rooted [OF view_parts_proper [OF b]]
    by (simp add: Join_def proper_part_def del: join_with.simps)
  then show "p = slash # join_with slash (view_parts run t baseName)"
    using assms(1) by (simp add: DescriptorBoundViewPath_def split: if_splits)
qed

lemma view_parts_split:
  assumes "proper_part baseName"
  shows "split_on slash (join_with slash (view_parts run t baseName)) = view_parts run t baseName"
proof (rule split_join)
  show "view_parts run t baseName \<noteq> []" by (simp add: view_parts_def)
  show "slash \<notin> set p" if "p \<in> set (view_parts run t baseName)" for p
    using view_parts_proper [OF assms] that by (auto simp: list_all_iff proper_part_def)
qed

text \<open>Reading a decimal text back.\<close>

definition decimal_value :: "string \<Rightarrow> nat" where
  "decimal_value s = foldl (\<lambda>a c. 10 * a + (case digit_value c of None \<Rightarrow> 0 | Some d \<Rightarrow> d)) 0 s"

lemma decimal_value_zeros: "decimal_value (replicate k (CHR ''0'') @ s) = decimal_value s"
proof -
  have "digit_value (CHR ''0'') = Some 0" by code_simp
  then show ?thesis by (induction k) (simp_all add: decimal_value_def)
qed

lemma decimal_value_decimal: "decimal_value (decimal n) = n"
proof (induction "10 :: nat" n rule: digits.induct)
  case (1 n)
  show ?case
  proof (cases "n < 10")
    case False
    with 1 show ?thesis by (simp add: decimal_def decimal_value_def digits_step)
  qed (simp add: decimal_def decimal_value_def digits_small)
qed

lemma pad3_inject: "pad3 m = pad3 n \<Longrightarrow> m = n"
  by (metis decimal_value_decimal decimal_value_zeros pad3_def)

lemma id_string_inject: "id_ok i \<Longrightarrow> id_ok j \<Longrightarrow> id_string i = id_string j \<Longrightarrow> i = j"
  by (metis id_parse_string sum.inject(2))

section \<open>Facts on groups and results\<close>

lemma numbers_bounded:
  assumes "distinct (map f xs)" "\<forall>x \<in> set xs. number_ok (f x)"
  shows "length xs \<le> transfer_maximum"
proof -
  have d: "distinct (map (num \<circ> f) xs)" using assms(1) by (auto simp: distinct_map inj_on_def)
  have "set (map (num \<circ> f) xs) \<subseteq> {1..transfer_maximum}"
    using assms(2) by (auto simp: number_ok_def)
  then have "card (set (map (num \<circ> f) xs)) \<le> card {1..transfer_maximum}"
    by (intro card_mono) auto
  then show ?thesis using distinct_card [OF d] by simp
qed

lemma validateCommands_Inr_iff:
  "validateCommands cs = Inr () \<longleftrightarrow>
     cs \<noteq> [] \<and> length cs \<le> transfer_maximum \<and> (\<forall>c \<in> set cs. validateCommand c = Inr ()) \<and>
     distinct (map cmd_transfer cs) \<and> {1..length cs} \<subseteq> num ` set (map cmd_transfer cs)"
proof (cases "cs = [] \<or> transfer_maximum < length cs")
  case False
  have "(case validateCommand c of Inl e \<Rightarrow> Some e | Inr _ \<Rightarrow> None) = None \<longleftrightarrow> validateCommand c = Inr ()" for c
    by (cases "validateCommand c") auto
  with False show ?thesis
    by (auto simp: validateCommands_def result_simps first_missing_case)
qed (auto simp: validateCommands_def)

interpretation command_group: numbered_group cmd_transfer "\<lambda>cs. validateCommands cs = Inr ()"
  by unfold_locales (auto simp: validateCommands_Inr_iff)

lemma check_order_iff:
  "i + length rs \<le> 255 \<Longrightarrow>
     check_order i rs = Inr () \<longleftrightarrow> map (num \<circ> ctr_Transfer) rs = [Suc i..<Suc (i + length rs)]"
proof (induction rs arbitrary: i)
  case (Cons r rs)
  have "num_value (ctr_Transfer r) = word_of_nat (Suc i) \<longleftrightarrow> num (ctr_Transfer r) = Suc i"
  proof -
    have "unat (word_of_nat (Suc i) :: byte) = Suc i"
      using Cons.prems by (simp add: unat_of_nat del: of_nat_Suc)
    then show ?thesis
      unfolding num_def by (metis word_eq_iff_unsigned [where 'a = nat])
  qed
  then show ?case using Cons by (auto simp: upt_conv_Cons simp del: upt_Suc of_nat_Suc)
qed simp

lemma newResult_Inr_iff:
  assumes "\<forall>r \<in> set rs. number_ok (ctr_Transfer r)"
  shows "newResult rs cancelled = Inr res \<longleftrightarrow>
     (\<forall>r \<in> set rs. \<not> child_result_bad r) \<and> distinct (map ctr_Transfer rs) \<and>
     {1..length rs} \<subseteq> num ` set (map ctr_Transfer rs) \<and>
     res = \<lparr>cr_Transfers = sort_key ctr_Transfer rs, cr_Cancelled = cancelled\<rparr>"
proof -
  let ?s = "sort_key ctr_Transfer rs"
  have "check_order 0 ?s = Inr () \<longleftrightarrow> {1..length rs} \<subseteq> num ` set (map ctr_Transfer rs)"
    if d: "distinct (map ctr_Transfer rs)"
  proof -
    have "length rs \<le> 35" using numbers_bounded [OF d assms] by (simp add: transfer_maximum_def)
    then have "check_order 0 ?s = Inr () \<longleftrightarrow> map (num \<circ> ctr_Transfer) ?s = [1..<Suc (length rs)]"
      using check_order_iff [of 0 ?s] by simp
    also have "\<dots> \<longleftrightarrow> {1..length rs} \<subseteq> num ` set (map ctr_Transfer rs)"
    proof
      assume "map (num \<circ> ctr_Transfer) ?s = [1..<Suc (length rs)]"
      then have "set (map (num \<circ> ctr_Transfer) ?s) = {1..length rs}" by (metis atLeastLessThanSuc_atLeastAtMost set_upt)
      then show "{1..length rs} \<subseteq> num ` set (map ctr_Transfer rs)" by (auto simp: image_image)
    qed (rule complete_sorted_numbers [OF d])
    finally show ?thesis .
  qed
  then show ?thesis
    by (auto simp: newResult_def result_simps Let_def split: if_splits)
qed

interpretation child_results: numbered_group ctr_Transfer
  "\<lambda>rs. (\<forall>r \<in> set rs. number_ok (ctr_Transfer r)) \<and> is_ok (newResult rs cancelled)" for cancelled
  by unfold_locales (metis is_ok_iff newResult_Inr_iff numbers_bounded)+

section \<open>Properties\<close>

text \<open>
  the path a child sees its view at is a clean absolute path below the private mount
  authority, and it identifies the run, the transfer and the base name: two views never
  share a path.
\<close>

theorem view_paths_are_clean_and_unique:
  assumes "DescriptorBoundViewPath run t baseName = Inr p"
    and "DescriptorBoundViewPath run' t' baseName' = Inr p'"
    and "baseName \<noteq> ''/''" "baseName' \<noteq> ''/''"
  shows "IsAbs p \<and> Clean p = p \<and> HasPrefix p ''/run/transferlanes/view-'' \<and>
    (p = p' \<longleftrightarrow> run = run' \<and> t = t' \<and> baseName = baseName')"
proof -
  note v = DescriptorBoundViewPath_Inr [OF assms(1,3)]
  note v' = DescriptorBoundViewPath_Inr [OF assms(2,4)]
  have "IsAbs p" unfolding v(4) by (simp add: IsAbs_def)
  moreover have "Clean p = p"
    unfolding v(4) by (rule foldl_clean_rooted [OF view_parts_proper [OF v(1)]])
  moreover have "HasPrefix p ''/run/transferlanes/view-''"
    unfolding v(4) by (simp add: view_parts_def HasPrefix_def)
  moreover have "run = run' \<and> t = t' \<and> baseName = baseName'" if "p = p'"
  proof -
    have "view_parts run t baseName = view_parts run' t' baseName'"
      using that view_parts_split [OF v(1), of run t] view_parts_split [OF v'(1), of run' t']
      unfolding v(4) v'(4) by (metis list.inject)
    then show ?thesis
      using id_string_inject [OF v(2) v'(2)] pad3_inject [of "num t" "num t'"]
      by (simp add: view_parts_def)
  qed
  moreover have "p = p'" if "run = run' \<and> t = t' \<and> baseName = baseName'"
    using that assms(1,2) by simp
  ultimately show ?thesis by blast
qed

definition demo_run :: run_id where
  "demo_run = RunId (1 # replicate 15 0)"

theorem view_paths_are_clean_and_unique_witness:
  "\<exists>p p'. DescriptorBoundViewPath demo_run (Number 1) ''src'' = Inr p \<and>
     DescriptorBoundViewPath demo_run (Number 2) ''src'' = Inr p' \<and> Clean p = p \<and> p \<noteq> p'"
proof -
  have "is_ok (DescriptorBoundViewPath demo_run (Number 1) ''src'')"
    "is_ok (DescriptorBoundViewPath demo_run (Number 2) ''src'')"
    by code_simp+
  then obtain p p' where p: "DescriptorBoundViewPath demo_run (Number 1) ''src'' = Inr p"
    "DescriptorBoundViewPath demo_run (Number 2) ''src'' = Inr p'"
    by (auto simp: is_ok_iff)
  then show ?thesis using view_paths_are_clean_and_unique [OF p] by auto
qed

lemma environment_entry_good: "\<not> environment_entry_bad e \<Longrightarrow> CHR ''='' \<in> set e \<and> entry_name_of e \<noteq> []"
  using str_cut_found_iff [of "CHR ''=''" e]
  by (auto simp: environment_entry_bad_def entry_name_of_def split: prod.splits)

text \<open>
  an accepted command group is complete.  It has one command for each of the transfers
  \<open>1..n\<close>, \<open>n \<le> 35\<close>, and no other; every command has a non-empty argument vector without
  NUL bytes and an environment of \<open>NAME=value\<close> entries with pairwise different names.
\<close>

theorem accepted_commands_are_a_complete_group:
  assumes "validateCommands cs = Inr ()"
  shows "cs \<noteq> [] \<and> length cs \<le> 35 \<and>
    (\<forall>k. 1 \<le> k \<and> k \<le> length cs \<longrightarrow> (\<exists>!c. c \<in> set cs \<and> num (cmd_transfer c) = k)) \<and>
    (\<forall>c \<in> set cs. num (cmd_transfer c) \<le> length cs \<and> cmd_argv c \<noteq> [] \<and> \<not> list_ex has_nul (cmd_argv c) \<and>
       distinct (map entry_name_of (cmd_environment c)) \<and>
       (\<forall>e \<in> set (cmd_environment c). CHR ''='' \<in> set e \<and> entry_name_of e \<noteq> []))"
proof -
  have "cs \<noteq> []" "length cs \<le> 35"
    using assms by (auto simp: validateCommands_Inr_iff transfer_maximum_def)
  moreover have "num (cmd_transfer c) \<le> length cs" if "c \<in> set cs" for c
    using command_group.numbers [OF assms] that by auto
  moreover have "cmd_argv c \<noteq> [] \<and> \<not> list_ex has_nul (cmd_argv c) \<and>
      distinct (map entry_name_of (cmd_environment c)) \<and>
      (\<forall>e \<in> set (cmd_environment c). CHR ''='' \<in> set e \<and> entry_name_of e \<noteq> [])" if "c \<in> set cs" for c
  proof -
    have "validateCommand c = Inr ()" using assms that by (simp add: validateCommands_Inr_iff)
    then obtain vp where "validateCommandFields c vp = Inr ()"
      by (auto simp: validateCommand_def Let_def split: resolver_access.splits option.splits)
    then show ?thesis
      by (auto simp: validateCommandFields_def Let_def result_simps
          dest!: environment_entry_good split: if_splits)
  qed
  ultimately show ?thesis using command_group.exactly_one [OF assms] by blast
qed

definition demo_command :: "byte \<Rightarrow> command" where
  "demo_command n = \<lparr>cmd_transfer = Number n, cmd_cwd = ''/tmp'', cmd_resolver = Resolver None,
     cmd_argv = [''rclone'', ''copy''], cmd_environment = [''HOME=/root'', ''TERM=xterm''],
     cmd_execChannel = None, cmd_view = None\<rparr>"

theorem accepted_commands_are_a_complete_group_witness:
  "validateCommands [demo_command 2, demo_command 1] = Inr () \<and>
   (\<exists>!c. c \<in> set [demo_command 2, demo_command 1] \<and> num (cmd_transfer c) = 1)"
proof -
  have ok: "validateCommands [demo_command 2, demo_command 1] = Inr ()" by code_simp
  have "(1 :: nat) \<le> 1 \<and> 1 \<le> length [demo_command 2, demo_command 1]" by simp
  then show ?thesis using accepted_commands_are_a_complete_group [OF ok] ok by blast
qed

text \<open>
  \<open>newResult\<close> accepts a set of outcomes exactly when they are valid, pairwise different
  and complete, and then returns them in transfer order: the entry at position \<open>i\<close> is the
  outcome of transfer \<open>i + 1\<close>, whatever the order the children exited in.
\<close>

theorem child_results_are_ordered_and_complete:
  assumes "\<forall>r \<in> set rs. number_ok (ctr_Transfer r)"
  shows "(is_ok (newResult rs cancelled) \<longleftrightarrow>
      (\<forall>r \<in> set rs. \<not> child_result_bad r) \<and> distinct (map ctr_Transfer rs) \<and>
      num ` ctr_Transfer ` set rs = {1..length rs}) \<and>
    (\<forall>res. newResult rs cancelled = Inr res \<longrightarrow>
      mset (cr_Transfers res) = mset rs \<and>
      (\<forall>i < length rs. num (ctr_Transfer (cr_Transfers res ! i)) = Suc i))"
proof -
  have "num ` ctr_Transfer ` set rs = {1..length rs}" if "is_ok (newResult rs cancelled)"
    using child_results.numbers [of rs cancelled] assms that by simp
  then have "is_ok (newResult rs cancelled) \<longleftrightarrow> (\<forall>r \<in> set rs. \<not> child_result_bad r) \<and>
      distinct (map ctr_Transfer rs) \<and> num ` ctr_Transfer ` set rs = {1..length rs}"
    using newResult_Inr_iff [OF assms] by (auto simp: is_ok_iff)
  moreover have "mset (cr_Transfers res) = mset rs \<and>
      (\<forall>i < length rs. num (ctr_Transfer (cr_Transfers res ! i)) = Suc i)" if "newResult rs cancelled = Inr res" for res
  proof -
    have "cr_Transfers res = sort_key ctr_Transfer rs"
      using that newResult_Inr_iff [OF assms] by auto
    then show ?thesis using child_results.nth_sorted [of rs cancelled] assms that by simp
  qed
  ultimately show ?thesis by blast
qed

definition demo_child_results :: "child_transfer_result list" where
  "demo_child_results =
     [\<lparr>ctr_Transfer = Number 2, ctr_ExitCode = -1, ctr_Signal = 9\<rparr>,
      \<lparr>ctr_Transfer = Number 1, ctr_ExitCode = 0, ctr_Signal = 0\<rparr>]"

theorem child_results_are_ordered_and_complete_witness:
  "is_ok (newResult demo_child_results False) \<and> num ` ctr_Transfer ` set demo_child_results = {1..2}"
proof -
  have "\<forall>r \<in> set demo_child_results. number_ok (ctr_Transfer r)" by code_simp
  moreover have "is_ok (newResult demo_child_results False)" by code_simp
  moreover have "length demo_child_results = 2" by (simp add: demo_child_results_def)
  ultimately show ?thesis
    using child_results_are_ordered_and_complete [of demo_child_results False] by simp
qed

end
