(* ===== verification/Transfer_Start.thy ===== *)
theory Transfer_Start
  imports Throughput Child_Types
begin

text \<open>
  The private parent-to-worker start message (\<open>internal/transferstart\<close>): the immutable
  request, its validation, and the version 5 wire form.  The reader of \<open>codec.go\<close> (a slice
  and an offset) is the list of the bytes not yet read.  Several read errors joined by
  \<open>errors.Join\<close> are represented by the first of them.  \<open>url_parse\<close> and \<open>url_string\<close> stand
  for \<open>url.Parse\<close> and \<open>URL.String\<close>.
\<close>

section \<open>Requests\<close>

definition maximumDNSResolvers :: nat where
  "maximumDNSResolvers = 255"

datatype commandIOMode = noMode | pipesMode | ptyMode

record command_io =
  io_mode :: commandIOMode
  io_terminal :: terminal_size

record manual_network =
  mn_localIP :: addr
  mn_weight :: u64

record start_request =
  sr_sourceLabel :: string
  sr_manual :: "manual_network list"
  sr_automatic :: "addr list"
  sr_settings :: settings
  sr_dns :: "addr list"
  sr_childArgv :: "string list"
  sr_commandIO :: command_io
  sr_followSymlinks :: bool

datatype start_error =
    StartPTYSize child_error
  | ManualNetworkInvalid
  | ShapeInvalid
  | ManualModeInvalid
  | RepeatsSource
  | AutomaticModeInvalid
  | AutomaticNetworkInvalid
  | DNSInvalid
  | ArgvInvalid
  | PlaceholderCount
  | EncodedSizeMismatch
  | Truncated
  | TextLengthInvalid
  | TextEncodingInvalid
  | MagicInvalid
  | VersionInvalid
  | FlagsInvalid
  | CountsOrDurationInvalid
  | PipesWithTerminal
  | AddressInvalid addr_error
  | TrailingBytes
  | SettingsInvalid settings_error
  | ManualWithSettings

definition Pipes :: command_io where
  "Pipes = \<lparr>io_mode = pipesMode, io_terminal = no_terminal\<rparr>"

definition NewPTY :: "int \<Rightarrow> int \<Rightarrow> child_error + command_io" where
  "NewPTY columns rows =
     bind_r (NewTerminalSize columns rows) (\<lambda>sz. Inr \<lparr>io_mode = ptyMode, io_terminal = sz\<rparr>)"

definition IsPipes :: "command_io \<Rightarrow> bool" where
  "IsPipes io \<longleftrightarrow> io_mode io = pipesMode"

definition PTYSize :: "command_io \<Rightarrow> terminal_size \<times> bool" where
  "PTYSize io = (io_terminal io, io_mode io = ptyMode)"

definition io_valid :: "command_io \<Rightarrow> bool" where
  "io_valid io \<longleftrightarrow>
     (let columns = ts_cols (io_terminal io); rows = ts_rows (io_terminal io) in
      io_mode io = pipesMode \<and> columns = 0 \<and> rows = 0 \<or> io_mode io = ptyMode \<and> columns \<noteq> 0 \<and> rows \<noteq> 0)"

definition NewManualNetwork :: "addr \<Rightarrow> u64 \<Rightarrow> start_error + manual_network" where
  "NewManualNetwork localIP wt =
     (if \<not> Is4 localIP \<or> wt = 0 then Inl ManualNetworkInvalid
      else Inr \<lparr>mn_localIP = localIP, mn_weight = wt\<rparr>)"

definition validText :: "string \<Rightarrow> bool \<Rightarrow> bool" where
  "validText s required \<longleftrightarrow> (\<not> required \<or> s \<noteq> []) \<and> length s \<le> 65535 \<and> \<not> has_nul s"

definition dns_bad :: "addr \<Rightarrow> bool" where
  "dns_bad ip \<longleftrightarrow> \<not> IsValid ip \<or> IsUnspecified ip \<or> IsLoopback ip \<or> IsMulticast ip"

definition start_validate :: "start_request \<Rightarrow> start_error + unit" where
  "start_validate r =
     (if \<not> validText (sr_sourceLabel r) True \<or> \<not> IsAbs (sr_sourceLabel r) \<or>
         Clean (sr_sourceLabel r) \<noteq> sr_sourceLabel r \<or> sr_sourceLabel r = ''/'' \<or>
         \<not> io_valid (sr_commandIO r) \<or>
         (length (sr_manual r) = 0) = (length (sr_automatic r) = 0) \<or>
         length (sr_dns r) > maximumDNSResolvers \<or> length (sr_childArgv r) = 0 \<or>
         length (sr_childArgv r) > 65535 then Inl ShapeInvalid
      else bind_r
        (if length (sr_manual r) \<noteq> 0 then
           if length (sr_manual r) > transfer_maximum \<or> settings_Valid (sr_settings r) then Inl ManualModeInvalid
           else scan_seen (\<lambda>n. if \<not> Is4 (mn_localIP n) \<or> mn_weight n = 0 then Some ManualNetworkInvalid else None)
                  mn_localIP (\<lambda>_. RepeatsSource) [] (sr_manual r)
         else
           if length (sr_automatic r) < 2 \<or> length (sr_automatic r) > transfer_maximum \<or>
              \<not> settings_Valid (sr_settings r) then Inl AutomaticModeInvalid
           else scan_seen (\<lambda>ip. if \<not> Is4 ip then Some AutomaticNetworkInvalid else None)
                  (\<lambda>ip. ip) (\<lambda>_. RepeatsSource) [] (sr_automatic r))
        (\<lambda>_.
          if list_ex dns_bad (sr_dns r) then Inl DNSInvalid
          else if list_ex (\<lambda>a. \<not> validText a False) (sr_childArgv r) then Inl ArgvInvalid
          else if length (filter (\<lambda>a. a = ''{}'') (sr_childArgv r)) \<noteq> 1 then Inl PlaceholderCount
          else Inr ()))"

definition NewManualRequest ::
  "string \<Rightarrow> manual_network list \<Rightarrow> addr list \<Rightarrow> string list \<Rightarrow> command_io \<Rightarrow> bool \<Rightarrow>
     start_error + start_request" where
  "NewManualRequest sourceLabel networks dns childArgv commandIO followSymlinks =
     (let r = \<lparr>sr_sourceLabel = sourceLabel, sr_manual = networks, sr_automatic = [],
            sr_settings = no_settings, sr_dns = dns, sr_childArgv = childArgv,
            sr_commandIO = commandIO, sr_followSymlinks = followSymlinks\<rparr> in
      bind_r (start_validate r) (\<lambda>_. Inr r))"

definition NewAutomaticRequest ::
  "string \<Rightarrow> addr list \<Rightarrow> settings \<Rightarrow> addr list \<Rightarrow> string list \<Rightarrow> command_io \<Rightarrow> bool \<Rightarrow>
     start_error + start_request" where
  "NewAutomaticRequest sourceLabel networks settings dns childArgv commandIO followSymlinks =
     (let r = \<lparr>sr_sourceLabel = sourceLabel, sr_manual = [], sr_automatic = networks,
            sr_settings = settings, sr_dns = dns, sr_childArgv = childArgv,
            sr_commandIO = commandIO, sr_followSymlinks = followSymlinks\<rparr> in
      bind_r (start_validate r) (\<lambda>_. Inr r))"

definition AutomaticWeight :: "start_request \<Rightarrow> bool" where
  "AutomaticWeight r \<longleftrightarrow> length (sr_automatic r) \<noteq> 0"

definition networkCount :: "start_request \<Rightarrow> nat" where
  "networkCount r = length (sr_manual r) + length (sr_automatic r)"

section \<open>Encoding\<close>

definition start_wireVersion :: byte where
  "start_wireVersion = 5"

definition start_wireMagic :: "byte list" where
  "start_wireMagic = to_bytes ''WTRQ''"

definition automaticFlag :: byte where "automaticFlag = 1"
definition pipesFlag :: byte where "pipesFlag = 2"
definition symlinkFlag :: byte where "symlinkFlag = 4"

definition knownFlags :: byte where
  "knownFlags = automaticFlag OR pipesFlag OR symlinkFlag"

definition fixedBytes :: nat where
  "fixedBytes = 4 + 1 + 1 + 2 + 2 + 8 + 1 + 1 + 2"

definition appendText :: "byte list \<Rightarrow> string \<Rightarrow> byte list" where
  "appendText payload s = payload @ be16 (word_of_nat (length s)) @ to_bytes s"

definition endpoint_text :: "(url \<Rightarrow> string) \<Rightarrow> start_request \<Rightarrow> string" where
  "endpoint_text url_string r = (if AutomaticWeight r then url_string (set_endpoint (sr_settings r)) else [])"

definition checkedSize :: "(url \<Rightarrow> string) \<Rightarrow> start_request \<Rightarrow> start_error + nat" where
  "checkedSize url_string r =
     bind_r (start_validate r) (\<lambda>_.
       let sz = fixedBytes;
           sz = foldl (\<lambda>n t. n + (2 + length t)) sz [sr_sourceLabel r, endpoint_text url_string r];
           sz = foldl (\<lambda>n m. n + (2 + length (addr_string (mn_localIP m)) + 8)) sz (sr_manual r);
           sz = foldl (\<lambda>n ip. n + (2 + length (addr_string ip))) sz (sr_automatic r);
           sz = foldl (\<lambda>n ip. n + (2 + length (addr_string ip))) sz (sr_dns r);
           sz = foldl (\<lambda>n a. n + (2 + length a)) sz (sr_childArgv r)
       in Inr sz)"

definition start_EncodedSize :: "(url \<Rightarrow> string) \<Rightarrow> start_request \<Rightarrow> start_error + nat" where
  "start_EncodedSize url_string r = checkedSize url_string r"

definition start_flags :: "start_request \<Rightarrow> byte" where
  "start_flags r =
     (if AutomaticWeight r then automaticFlag else 0) OR
     (if IsPipes (sr_commandIO r) then pipesFlag else 0) OR
     (if sr_followSymlinks r then symlinkFlag else 0)"

definition start_payload :: "(url \<Rightarrow> string) \<Rightarrow> start_request \<Rightarrow> byte list" where
  "start_payload url_string r =
     (let payload = start_wireMagic @ [start_wireVersion, start_flags r];
          terminal = fst (PTYSize (sr_commandIO r));
          payload = payload @ be16 (ts_cols terminal);
          payload = payload @ be16 (ts_rows terminal);
          duration = (if AutomaticWeight r then set_duration (sr_settings r) else 0);
          payload = payload @ be64 (word_of_int duration);
          payload = payload @ [word_of_nat (networkCount r), word_of_nat (length (sr_dns r))];
          payload = payload @ be16 (word_of_nat (length (sr_childArgv r)));
          payload = appendText payload (sr_sourceLabel r);
          payload = appendText payload (endpoint_text url_string r);
          payload = foldl (\<lambda>p n. appendText p (addr_string (mn_localIP n)) @ be64 (mn_weight n)) payload (sr_manual r);
          payload = foldl (\<lambda>p ip. appendText p (addr_string ip)) payload (sr_automatic r);
          payload = foldl (\<lambda>p ip. appendText p (addr_string ip)) payload (sr_dns r)
      in foldl appendText payload (sr_childArgv r))"

definition start_Encode :: "(url \<Rightarrow> string) \<Rightarrow> start_request \<Rightarrow> start_error + byte list" where
  "start_Encode url_string r =
     bind_r (checkedSize url_string r) (\<lambda>sz.
       let payload = start_payload url_string r in
       if length payload \<noteq> sz then Inl EncodedSizeMismatch else Inr payload)"

section \<open>Decoding\<close>

definition rd_take :: "nat \<Rightarrow> byte list \<Rightarrow> start_error + byte list \<times> byte list" where
  "rd_take n rest = (if n > length rest then Inl Truncated else Inr (take n rest, drop n rest))"

definition rd_byte :: "byte list \<Rightarrow> start_error + byte \<times> byte list" where
  "rd_byte rest = bind_r (rd_take 1 rest) (\<lambda>(v, rest). Inr (v ! 0, rest))"

definition rd_uint16 :: "byte list \<Rightarrow> start_error + u16 \<times> byte list" where
  "rd_uint16 rest = bind_r (rd_take 2 rest) (\<lambda>(v, rest). Inr (unbe v, rest))"

definition rd_uint64 :: "byte list \<Rightarrow> start_error + u64 \<times> byte list" where
  "rd_uint64 rest = bind_r (rd_take 8 rest) (\<lambda>(v, rest). Inr (unbe v, rest))"

definition rd_text :: "byte list \<Rightarrow> start_error + string \<times> byte list" where
  "rd_text rest =
     (case rd_uint16 rest of
        Inl _ \<Rightarrow> Inl TextLengthInvalid
      | Inr (sz, rest) \<Rightarrow>
          (case rd_take (unat sz) rest of
             Inl _ \<Rightarrow> Inl TextEncodingInvalid
           | Inr (v, rest) \<Rightarrow>
               if \<not> validText (to_string v) False then Inl TextEncodingInvalid else Inr (to_string v, rest)))"

record decoded_header =
  dh_source :: string
  dh_endpoint :: string
  dh_duration :: int
  dh_networks :: nat
  dh_dns :: nat
  dh_argv :: nat
  dh_automatic :: bool
  dh_followSymlinks :: bool
  dh_commandIO :: command_io

definition decode_io :: "byte \<Rightarrow> u16 \<Rightarrow> u16 \<Rightarrow> start_error + command_io" where
  "decode_io flags columns rows =
     (if flags AND pipesFlag = 0 then
        (case NewPTY (uint columns) (uint rows) of Inl e \<Rightarrow> Inl (StartPTYSize e) | Inr io \<Rightarrow> Inr io)
      else if columns \<noteq> 0 \<or> rows \<noteq> 0 then Inl PipesWithTerminal
      else Inr Pipes)"

definition decodeHeader :: "byte list \<Rightarrow> start_error + decoded_header \<times> byte list" where
  "decodeHeader rest =
     (case rd_take (length start_wireMagic) rest of Inl _ \<Rightarrow> Inl MagicInvalid | Inr (magic, rest) \<Rightarrow>
      if magic \<noteq> start_wireMagic then Inl MagicInvalid else
      case rd_byte rest of Inl _ \<Rightarrow> Inl VersionInvalid | Inr (version, rest) \<Rightarrow>
      if version \<noteq> start_wireVersion then Inl VersionInvalid else
      case rd_byte rest of Inl _ \<Rightarrow> Inl FlagsInvalid | Inr (flags, rest) \<Rightarrow>
      if flags AND NOT knownFlags \<noteq> 0 then Inl FlagsInvalid else
      bind_r (rd_uint16 rest) (\<lambda>(columns, rest).
      bind_r (rd_uint16 rest) (\<lambda>(rows, rest).
      bind_r (rd_uint64 rest) (\<lambda>(durationValue, rest).
      bind_r (rd_byte rest) (\<lambda>(networks, rest).
      bind_r (rd_byte rest) (\<lambda>(dns, rest).
      bind_r (rd_uint16 rest) (\<lambda>(argv, rest).
      if durationValue > 60000000000 \<or> networks = 0 \<or> argv = 0 then Inl CountsOrDurationInvalid else
      bind_r (rd_text rest) (\<lambda>(source, rest).
      bind_r (rd_text rest) (\<lambda>(endpoint, rest).
      bind_r (decode_io flags columns rows) (\<lambda>io.
      Inr (\<lparr>dh_source = source, dh_endpoint = endpoint, dh_duration = uint durationValue,
            dh_networks = unat networks, dh_dns = unat dns, dh_argv = unat argv,
            dh_automatic = (flags AND automaticFlag \<noteq> 0),
            dh_followSymlinks = (flags AND symlinkFlag \<noteq> 0), dh_commandIO = io\<rparr>, rest)))))))))))"

definition parse_address :: "string \<Rightarrow> start_error + addr" where
  "parse_address s = (case ParseAddr s of Inl e \<Rightarrow> Inl (AddressInvalid e) | Inr ip \<Rightarrow> Inr ip)"

fun decodeManualNetworks :: "nat \<Rightarrow> byte list \<Rightarrow> start_error + manual_network list \<times> byte list" where
  "decodeManualNetworks 0 rest = Inr ([], rest)"
| "decodeManualNetworks (Suc n) rest =
     bind_r (rd_text rest) (\<lambda>(s, rest).
     bind_r (parse_address s) (\<lambda>address.
     bind_r (rd_uint64 rest) (\<lambda>(wt, rest).
     bind_r (NewManualNetwork address wt) (\<lambda>network.
     bind_r (decodeManualNetworks n rest) (\<lambda>(networks, rest). Inr (network # networks, rest))))))"

fun decodeAddresses :: "nat \<Rightarrow> byte list \<Rightarrow> start_error + addr list \<times> byte list" where
  "decodeAddresses 0 rest = Inr ([], rest)"
| "decodeAddresses (Suc n) rest =
     bind_r (rd_text rest) (\<lambda>(s, rest).
     bind_r (parse_address s) (\<lambda>address.
     bind_r (decodeAddresses n rest) (\<lambda>(addresses, rest). Inr (address # addresses, rest))))"

fun decodeTexts :: "nat \<Rightarrow> byte list \<Rightarrow> start_error + string list \<times> byte list" where
  "decodeTexts 0 rest = Inr ([], rest)"
| "decodeTexts (Suc n) rest =
     bind_r (rd_text rest) (\<lambda>(s, rest).
     bind_r (decodeTexts n rest) (\<lambda>(texts, rest). Inr (s # texts, rest)))"

definition start_Decode :: "(string \<Rightarrow> string + url) \<Rightarrow> byte list \<Rightarrow> start_error + start_request" where
  "start_Decode url_parse payload =
     bind_r (decodeHeader payload) (\<lambda>(header, rest).
     bind_r (if dh_automatic header
             then bind_r (decodeAddresses (dh_networks header) rest) (\<lambda>(as, rest). Inr ([], as, rest))
             else bind_r (decodeManualNetworks (dh_networks header) rest) (\<lambda>(ms, rest). Inr (ms, [], rest)))
       (\<lambda>(manual, automatic, rest).
     bind_r (decodeAddresses (dh_dns header) rest) (\<lambda>(dns, rest).
     bind_r (decodeTexts (dh_argv header) rest) (\<lambda>(argv, rest).
     if length rest \<noteq> 0 then Inl TrailingBytes
     else if dh_automatic header then
       (case NewSettings url_parse (dh_endpoint header) (dh_duration header) of
          Inl e \<Rightarrow> Inl (SettingsInvalid e)
        | Inr settings \<Rightarrow>
            NewAutomaticRequest (dh_source header) automatic settings dns argv
              (dh_commandIO header) (dh_followSymlinks header))
     else if dh_endpoint header \<noteq> [] \<or> dh_duration header \<noteq> 0 then Inl ManualWithSettings
     else NewManualRequest (dh_source header) manual dns argv
            (dh_commandIO header) (dh_followSymlinks header)))))"

section \<open>Readers and writers of one item\<close>

text \<open>
  The contract between a writer and the reader of the same item, and the loop that reads a
  counted sequence of them.  \<open>ok\<close> marks the items whose encoding can be read back;
  \<open>canon\<close> marks the items whose encoding is the only one the reader accepts.
\<close>

locale item_codec =
  fixes enc :: "'a \<Rightarrow> byte list" and dec :: "byte list \<Rightarrow> 'e + 'a \<times> byte list"
    and decs :: "nat \<Rightarrow> byte list \<Rightarrow> 'e + 'a list \<times> byte list"
    and ok :: "'a \<Rightarrow> bool" and canon :: "'a \<Rightarrow> bool"
  assumes dec_enc: "ok x \<Longrightarrow> dec (enc x @ rest) = Inr (x, rest)"
    and enc_dec: "dec bs = Inr (x, rest) \<Longrightarrow> canon x \<Longrightarrow> bs = enc x @ rest"
    and decs_0: "decs 0 bs = Inr ([], bs)"
    and decs_Suc: "decs (Suc n) bs =
      bind_r (dec bs) (\<lambda>(x, rest). bind_r (decs n rest) (\<lambda>(xs, rest). Inr (x # xs, rest)))"
begin

lemma decs_encs: "list_all ok xs \<Longrightarrow> decs (length xs) (concat (map enc xs) @ rest) = Inr (xs, rest)"
  by (induction xs) (simp_all add: decs_0 decs_Suc dec_enc)

lemma encs_decs:
  "decs n bs = Inr (xs, rest) \<Longrightarrow> list_all canon xs \<Longrightarrow> length xs = n \<and> bs = concat (map enc xs) @ rest"
proof (induction n arbitrary: bs xs)
  case (Suc n)
  from Suc.prems(1) obtain y ys bs' where y: "dec bs = Inr (y, bs')" "decs n bs' = Inr (ys, rest)" "xs = y # ys"
    by (auto simp: decs_Suc bind_r_Inr_iff)
  with Suc.prems(2) Suc.IH [OF y(2)] enc_dec [OF y(1)] show ?case by simp
qed (simp add: decs_0)

lemma decs_length: "decs n bs = Inr (xs, rest) \<Longrightarrow> length xs = n"
  by (induction n arbitrary: bs xs) (auto simp: decs_0 decs_Suc bind_r_Inr_iff)

end

lemma rd_take_append [simp]: "length a = n \<Longrightarrow> rd_take n (a @ rest) = Inr (a, rest)"
  by (simp add: rd_take_def)

lemma rd_take_Inr_iff [result_simps]:
  "rd_take n bs = Inr (a, rest) \<longleftrightarrow> length a = n \<and> bs = a @ rest"
  by (auto simp: rd_take_def)

lemma rd_byte_Cons [simp]: "rd_byte (b # rest) = Inr (b, rest)"
  by (simp add: rd_byte_def rd_take_def)

lemma rd_byte_Inr_iff [result_simps]: "rd_byte bs = Inr (b, rest) \<longleftrightarrow> bs = b # rest"
  by (auto simp: rd_byte_def result_simps length_Suc_conv)

lemma rd_uint16_be [simp]: "rd_uint16 (be16 w @ rest) = Inr (w, rest)"
  by (simp add: rd_uint16_def)

lemma rd_uint16_Inr_iff [result_simps]: "rd_uint16 bs = Inr (w, rest) \<longleftrightarrow> bs = be16 w @ rest"
  by (auto simp: rd_uint16_def result_simps be_unbe)

lemma rd_uint64_be [simp]: "rd_uint64 (be64 w @ rest) = Inr (w, rest)"
  by (simp add: rd_uint64_def)

lemma rd_uint64_Inr_iff [result_simps]: "rd_uint64 bs = Inr (w, rest) \<longleftrightarrow> bs = be64 w @ rest"
  by (auto simp: rd_uint64_def result_simps be_unbe)

definition text_bytes :: "string \<Rightarrow> byte list" where
  "text_bytes s = be16 (word_of_nat (length s)) @ to_bytes s"

lemma appendText_eq: "appendText payload s = payload @ text_bytes s"
  by (simp add: appendText_def text_bytes_def)

lemma length_text_bytes [simp]: "length (text_bytes s) = 2 + length s"
  by (simp add: text_bytes_def)

lemma unat_length_u16: "length s \<le> 65535 \<Longrightarrow> unat (word_of_nat (length s) :: u16) = length s"
  by (simp add: unat_of_nat)

lemma rd_text_bytes: "validText s False \<Longrightarrow> rd_text (text_bytes s @ rest) = Inr (s, rest)"
  by (simp add: rd_text_def text_bytes_def validText_def unat_length_u16)

lemma rd_text_Inr: "rd_text bs = Inr (s, rest) \<Longrightarrow> bs = text_bytes s @ rest \<and> validText s False"
proof -
  assume "rd_text bs = Inr (s, rest)"
  then obtain w mid v where w: "rd_uint16 bs = Inr (w, mid)" "rd_take (unat w) mid = Inr (v, rest)"
    "s = to_string v" "validText s False"
    by (auto simp: rd_text_def split: sum.splits prod.splits if_splits)
  then show ?thesis by (auto simp: result_simps text_bytes_def)
qed

definition rd_address :: "byte list \<Rightarrow> start_error + addr \<times> byte list" where
  "rd_address bs = bind_r (rd_text bs) (\<lambda>(s, rest). bind_r (parse_address s) (\<lambda>ip. Inr (ip, rest)))"

definition address_ok :: "addr \<Rightarrow> bool" where
  "address_ok ip \<longleftrightarrow> IsValid ip \<and> validText (addr_string ip) False"

definition rd_manual :: "byte list \<Rightarrow> start_error + manual_network \<times> byte list" where
  "rd_manual bs = bind_r (rd_address bs) (\<lambda>(ip, rest).
     bind_r (rd_uint64 rest) (\<lambda>(wt, rest). bind_r (NewManualNetwork ip wt) (\<lambda>n. Inr (n, rest))))"

definition manual_bytes :: "manual_network \<Rightarrow> byte list" where
  "manual_bytes n = text_bytes (addr_string (mn_localIP n)) @ be64 (mn_weight n)"

definition manual_ok :: "manual_network \<Rightarrow> bool" where
  "manual_ok n \<longleftrightarrow> Is4 (mn_localIP n) \<and> mn_weight n \<noteq> 0"

interpretation texts: item_codec text_bytes rd_text decodeTexts "\<lambda>s. validText s False" "\<lambda>_. True"
  by unfold_locales (simp_all add: rd_text_bytes rd_text_Inr)

lemma bind_r_assoc: "bind_r (bind_r m f) g = bind_r m (\<lambda>x. bind_r (f x) g)"
  by (cases m) auto

definition address_bytes :: "addr \<Rightarrow> byte list" where
  "address_bytes ip = text_bytes (addr_string ip)"

lemma parse_address_Inr_iff [result_simps]: "parse_address s = Inr ip \<longleftrightarrow> ParseAddr s = Inr ip"
  by (simp add: parse_address_def split: sum.splits)

lemma rd_address_bytes: "address_ok ip \<Longrightarrow> rd_address (address_bytes ip @ rest) = Inr (ip, rest)"
  by (simp add: rd_address_def address_bytes_def address_ok_def rd_text_bytes parse_address_def ParseAddr_String)

lemma rd_address_Inr: "rd_address bs = Inr (ip, rest) \<Longrightarrow> Is4 ip \<Longrightarrow> bs = address_bytes ip @ rest"
  using ParseAddr_Is4_canonical by (auto simp: rd_address_def address_bytes_def result_simps dest!: rd_text_Inr)

interpretation addresses: item_codec address_bytes rd_address decodeAddresses address_ok Is4
proof unfold_locales
  show "decodeAddresses (Suc n) bs =
      bind_r (rd_address bs) (\<lambda>(x, rest). bind_r (decodeAddresses n rest) (\<lambda>(xs, rest). Inr (x # xs, rest)))" for n bs
    by (simp add: rd_address_def bind_r_assoc case_prod_unfold)
qed (simp_all add: rd_address_bytes rd_address_Inr)

lemma string4_text:
  assumes "Is4 ip"
  shows "address_ok ip"
proof -
  obtain a b c d where ip: "ip = V4 a b c d" using assms by (cases ip) (auto simp: Is4_def)
  have l: "length (decimal (unat x)) \<le> 3" for x :: byte
    using unat_byte_less [of x] by (cases "unat x" rule: decimal_cases) auto
  have "CHR 0x00 \<notin> set (decimal n)" for n
  proof -
    have "CHR 0x00 \<notin> set hex_table" by code_simp
    then show ?thesis using decimal_digit_chars by blast
  qed
  with l [of a] l [of b] l [of c] l [of d] show ?thesis
    by (simp add: ip address_ok_def IsValid_def validText_def addr_string_def has_nul_def)
qed

interpretation manuals: item_codec manual_bytes rd_manual decodeManualNetworks manual_ok "\<lambda>_. True"
proof unfold_locales
  fix n :: manual_network and rest
  assume "manual_ok n"
  then show "rd_manual (manual_bytes n @ rest) = Inr (n, rest)"
    using rd_address_bytes [OF string4_text]
    by (simp add: rd_manual_def manual_bytes_def manual_ok_def NewManualNetwork_def address_bytes_def)
next
  fix bs n rest
  assume "rd_manual bs = Inr (n, rest)"
  then show "bs = manual_bytes n @ rest"
    by (auto simp: rd_manual_def NewManualNetwork_def result_simps manual_bytes_def address_bytes_def
        dest!: rd_address_Inr split: if_splits)
next
  show "decodeManualNetworks (Suc n) bs =
      bind_r (rd_manual bs) (\<lambda>(x, rest). bind_r (decodeManualNetworks n rest) (\<lambda>(xs, rest). Inr (x # xs, rest)))" for n bs
    by (simp add: rd_manual_def rd_address_def bind_r_assoc case_prod_unfold)
qed simp

section \<open>The layout of a payload\<close>

lemma foldl_appends: "foldl (\<lambda>p x. p @ f x) p xs = p @ concat (map f xs)"
  by (induction xs arbitrary: p) auto

lemma foldl_sums: "foldl (\<lambda>n x. n + f x) n xs = n + sum_list (map f xs)" for n :: nat
  by (induction xs arbitrary: n) auto

definition start_duration :: "start_request \<Rightarrow> u64" where
  "start_duration r = word_of_int (if AutomaticWeight r then set_duration (sr_settings r) else 0)"

lemma start_payload_eq:
  "start_payload url_string r =
     start_wireMagic @ [start_wireVersion, start_flags r] @
     be16 (ts_cols (io_terminal (sr_commandIO r))) @ be16 (ts_rows (io_terminal (sr_commandIO r))) @
     be64 (start_duration r) @ [word_of_nat (networkCount r), word_of_nat (length (sr_dns r))] @
     be16 (word_of_nat (length (sr_childArgv r))) @
     text_bytes (sr_sourceLabel r) @ text_bytes (endpoint_text url_string r) @
     concat (map manual_bytes (sr_manual r)) @ concat (map address_bytes (sr_automatic r)) @
     concat (map address_bytes (sr_dns r)) @ concat (map text_bytes (sr_childArgv r))"
  unfolding start_payload_def Let_def appendText_eq append_assoc foldl_appends
  by (simp add: manual_bytes_def [abs_def] address_bytes_def [abs_def] PTYSize_def start_duration_def)

lemma length_start_payload:
  assumes "start_validate r = Inr ()"
  shows "checkedSize url_string r = Inr (length (start_payload url_string r))"
  using assms unfolding checkedSize_def Let_def foldl_sums
  by (simp add: start_payload_eq fixedBytes_def start_wireMagic_def
      length_concat o_def manual_bytes_def address_bytes_def algebra_simps)

lemma start_Encode_eq:
  "start_validate r = Inr () \<Longrightarrow> start_Encode url_string r = Inr (start_payload url_string r)"
  by (simp add: start_Encode_def length_start_payload)

lemma start_Encode_Inr:
  "start_Encode url_string r = Inr p \<longleftrightarrow> start_validate r = Inr () \<and> p = start_payload url_string r"
  using start_Encode_eq [of r] by (cases "start_validate r") (auto simp: start_Encode_def checkedSize_def)

lemma rd_text_Inr_iff [result_simps]:
  "rd_text bs = Inr (s, rest) \<longleftrightarrow> bs = text_bytes s @ rest \<and> validText s False"
  using rd_text_Inr rd_text_bytes by blast

definition header_bytes ::
  "byte \<Rightarrow> u16 \<Rightarrow> u16 \<Rightarrow> u64 \<Rightarrow> byte \<Rightarrow> byte \<Rightarrow> u16 \<Rightarrow> string \<Rightarrow> string \<Rightarrow> byte list" where
  "header_bytes f c r dur n d a source endpoint =
     start_wireMagic @ [start_wireVersion, f] @ be16 c @ be16 r @ be64 dur @ [n, d] @ be16 a @
     text_bytes source @ text_bytes endpoint"

definition header_of ::
  "byte \<Rightarrow> u64 \<Rightarrow> byte \<Rightarrow> byte \<Rightarrow> u16 \<Rightarrow> string \<Rightarrow> string \<Rightarrow> command_io \<Rightarrow> decoded_header" where
  "header_of f dur n d a source endpoint io =
     \<lparr>dh_source = source, dh_endpoint = endpoint, dh_duration = uint dur, dh_networks = unat n,
      dh_dns = unat d, dh_argv = unat a, dh_automatic = (f AND automaticFlag \<noteq> 0),
      dh_followSymlinks = (f AND symlinkFlag \<noteq> 0), dh_commandIO = io\<rparr>"

definition header_ok :: "byte \<Rightarrow> u64 \<Rightarrow> byte \<Rightarrow> u16 \<Rightarrow> string \<Rightarrow> string \<Rightarrow> bool" where
  "header_ok f dur n a source endpoint \<longleftrightarrow>
     f AND NOT knownFlags = 0 \<and> dur \<le> 60000000000 \<and> n \<noteq> 0 \<and> a \<noteq> 0 \<and>
     validText source False \<and> validText endpoint False"

lemma sum_case_Inr_iff:
  "(case m of Inl z \<Rightarrow> Inl (e z) | Inr x \<Rightarrow> f x) = Inr y \<longleftrightarrow> (\<exists>x. m = Inr x \<and> f x = Inr y)"
  by (cases m) auto

lemma decodeHeader_bytes:
  assumes "header_ok f dur n a source endpoint" "decode_io f c r = Inr io"
  shows "decodeHeader (header_bytes f c r dur n d a source endpoint @ rest) =
    Inr (header_of f dur n d a source endpoint io, rest)"
  using assms
  by (simp add: decodeHeader_def header_bytes_def header_of_def header_ok_def rd_text_bytes linorder_not_less)

lemma decodeHeader_Inr:
  assumes "decodeHeader bs = Inr (h, rest)"
  obtains f c r dur n d a source endpoint io where
    "bs = header_bytes f c r dur n d a source endpoint @ rest"
    "header_ok f dur n a source endpoint" "decode_io f c r = Inr io"
    "h = header_of f dur n d a source endpoint io"
proof -
  have "\<exists>f c r dur n d a source endpoint io.
      bs = header_bytes f c r dur n d a source endpoint @ rest \<and>
      header_ok f dur n a source endpoint \<and> decode_io f c r = Inr io \<and>
      h = header_of f dur n d a source endpoint io"
    using assms unfolding decodeHeader_def
    by (clarsimp simp: sum_case_Inr_iff result_simps split: if_splits prod.splits)
      (auto simp: header_bytes_def header_of_def header_ok_def linorder_not_less)
  then show ?thesis using that by blast
qed

subsection \<open>Flags, terminal and duration\<close>

lemma start_flags_bits:
  "start_flags r AND NOT knownFlags = 0"
  "start_flags r AND automaticFlag \<noteq> 0 \<longleftrightarrow> AutomaticWeight r"
  "start_flags r AND pipesFlag \<noteq> 0 \<longleftrightarrow> IsPipes (sr_commandIO r)"
  "start_flags r AND symlinkFlag \<noteq> 0 \<longleftrightarrow> sr_followSymlinks r"
  by (auto simp: start_flags_def knownFlags_def automaticFlag_def pipesFlag_def symlinkFlag_def)

lemma and_single_bit: "(if f AND 2 ^ k \<noteq> 0 then 2 ^ k else 0) = f AND (2 :: 'a::len word) ^ k"
  by (rule bit_word_eqI) (auto simp: bit_simps and_exp_eq_0_iff_not_bit)

lemma flags_bits_eq:
  assumes "f AND NOT knownFlags = 0"
  shows "(if f AND automaticFlag \<noteq> 0 then automaticFlag else 0) OR
     (if f AND pipesFlag \<noteq> 0 then pipesFlag else 0) OR (if f AND symlinkFlag \<noteq> 0 then symlinkFlag else 0) = f"
proof -
  have "f = f AND knownFlags OR f AND NOT knownFlags"
    by (simp flip: bit.conj_disj_distrib)
  with assms have "f AND knownFlags = f" by simp
  then have or: "f AND automaticFlag OR f AND pipesFlag OR f AND symlinkFlag = f"
    by (simp add: knownFlags_def bit.conj_disj_distrib)
  have flags: "automaticFlag = 2 ^ 0" "pipesFlag = 2 ^ 1" "symlinkFlag = 2 ^ 2"
    by (simp_all add: automaticFlag_def pipesFlag_def symlinkFlag_def)
  show ?thesis using or unfolding flags and_single_bit .
qed

lemma decode_io_valid:
  assumes "io_valid io" "f AND pipesFlag \<noteq> 0 \<longleftrightarrow> IsPipes io"
  shows "decode_io f (ts_cols (io_terminal io)) (ts_rows (io_terminal io)) = Inr io"
proof (cases "IsPipes io")
  case True
  then show ?thesis
    using assms by (cases io) (auto simp: io_valid_def IsPipes_def decode_io_def Pipes_def no_terminal_def)
next
  case False
  then have "io_mode io = ptyMode" "ts_cols (io_terminal io) \<noteq> 0" "ts_rows (io_terminal io) \<noteq> 0"
    using assms(1) by (auto simp: io_valid_def IsPipes_def Let_def)
  then have "NewPTY (uint (ts_cols (io_terminal io))) (uint (ts_rows (io_terminal io))) = Inr io"
    by (cases io) (auto simp: NewPTY_def result_simps)
  then show ?thesis using False assms(2) by (simp add: decode_io_def)
qed

lemma decode_io_Inr:
  assumes "decode_io f c r = Inr io"
  shows "ts_cols (io_terminal io) = c" "ts_rows (io_terminal io) = r" "f AND pipesFlag \<noteq> 0 \<longleftrightarrow> IsPipes io"
proof -
  have "ts_cols (io_terminal io) = c \<and> ts_rows (io_terminal io) = r \<and> (f AND pipesFlag \<noteq> 0 \<longleftrightarrow> IsPipes io)"
  proof (cases "f AND pipesFlag = 0")
    case True
    then have "NewPTY (uint c) (uint r) = Inr io" using assms by (auto simp: decode_io_def split: sum.splits)
    then show ?thesis using True by (auto simp: NewPTY_def result_simps IsPipes_def)
  next
    case False
    then show ?thesis using assms by (auto simp: decode_io_def Pipes_def no_terminal_def IsPipes_def split: if_splits)
  qed
  then show "ts_cols (io_terminal io) = c" "ts_rows (io_terminal io) = r" "f AND pipesFlag \<noteq> 0 \<longleftrightarrow> IsPipes io"
    by blast+
qed

subsection \<open>Valid requests\<close>

definition manual_mode :: "start_request \<Rightarrow> bool" where
  "manual_mode r \<longleftrightarrow> sr_manual r \<noteq> [] \<and> sr_automatic r = [] \<and> length (sr_manual r) \<le> transfer_maximum \<and>
     \<not> settings_Valid (sr_settings r) \<and> list_all manual_ok (sr_manual r) \<and>
     distinct (map mn_localIP (sr_manual r))"

definition automatic_mode :: "start_request \<Rightarrow> bool" where
  "automatic_mode r \<longleftrightarrow> sr_manual r = [] \<and> 2 \<le> length (sr_automatic r) \<and>
     length (sr_automatic r) \<le> transfer_maximum \<and> settings_Valid (sr_settings r) \<and>
     list_all Is4 (sr_automatic r) \<and> distinct (sr_automatic r)"

definition common_valid :: "start_request \<Rightarrow> bool" where
  "common_valid r \<longleftrightarrow> validText (sr_sourceLabel r) True \<and> IsAbs (sr_sourceLabel r) \<and>
     Clean (sr_sourceLabel r) = sr_sourceLabel r \<and> sr_sourceLabel r \<noteq> ''/'' \<and> io_valid (sr_commandIO r) \<and>
     length (sr_dns r) \<le> maximumDNSResolvers \<and> sr_childArgv r \<noteq> [] \<and> length (sr_childArgv r) \<le> 65535 \<and>
     list_all (\<lambda>ip. \<not> dns_bad ip) (sr_dns r) \<and> list_all (\<lambda>a. validText a False) (sr_childArgv r) \<and>
     length (filter (\<lambda>a. a = ''{}'') (sr_childArgv r)) = 1"

lemma start_validate_iff:
  "start_validate r = Inr () \<longleftrightarrow> common_valid r \<and> (manual_mode r \<or> automatic_mode r)"
proof (cases "sr_manual r = []")
  case True
  then show ?thesis
    by (cases "sr_automatic r = []")
      (auto simp: start_validate_def common_valid_def manual_mode_def automatic_mode_def result_simps
        list_all_iff list_ex_iff linorder_not_less split: if_splits)
next
  case False
  then show ?thesis
    by (auto simp: start_validate_def common_valid_def manual_mode_def automatic_mode_def manual_ok_def
        result_simps list_all_iff list_ex_iff linorder_not_less split: if_splits)
qed

lemma mode_AutomaticWeight:
  "manual_mode r \<Longrightarrow> \<not> AutomaticWeight r" "automatic_mode r \<Longrightarrow> AutomaticWeight r"
  by (auto simp: manual_mode_def automatic_mode_def AutomaticWeight_def)

lemma validText_weaken: "validText s True \<Longrightarrow> validText s False"
  by (simp add: validText_def)

lemma network_count_byte:
  assumes "start_validate r = Inr ()"
  shows "unat (word_of_nat (networkCount r) :: byte) = networkCount r" "(word_of_nat (networkCount r) :: byte) \<noteq> 0"
proof -
  have b: "0 < networkCount r" "networkCount r \<le> 35"
    using assms by (auto simp: start_validate_iff manual_mode_def automatic_mode_def networkCount_def transfer_maximum_def)
  then show u: "unat (word_of_nat (networkCount r) :: byte) = networkCount r" by (simp add: unat_of_nat)
  then show "(word_of_nat (networkCount r) :: byte) \<noteq> 0" using b(1) by (metis less_numeral_extra(3) unat_0)
qed

lemma argv_count_u16:
  assumes "start_validate r = Inr ()"
  shows "unat (word_of_nat (length (sr_childArgv r)) :: u16) = length (sr_childArgv r)"
    "(word_of_nat (length (sr_childArgv r)) :: u16) \<noteq> 0"
proof -
  have b: "0 < length (sr_childArgv r)" "length (sr_childArgv r) \<le> 65535"
    using assms by (auto simp: start_validate_iff common_valid_def)
  then show u: "unat (word_of_nat (length (sr_childArgv r)) :: u16) = length (sr_childArgv r)"
    by (simp add: unat_length_u16)
  then show "(word_of_nat (length (sr_childArgv r)) :: u16) \<noteq> 0" using b(1) by (metis less_numeral_extra(3) unat_0)
qed

lemma duration_u64:
  assumes "0 \<le> d" "d \<le> 60000000000"
  shows "uint (word_of_int d :: u64) = d" "(word_of_int d :: u64) \<le> 60000000000"
proof -
  show u: "uint (word_of_int d :: u64) = d"
    using assms by (simp add: uint_word_of_int)
  then show "(word_of_int d :: u64) \<le> 60000000000"
    using assms by (simp add: word_le_def)
qed

lemma start_duration_ok:
  assumes "start_validate r = Inr ()"
  shows "start_duration r \<le> 60000000000"
    "uint (start_duration r) = (if AutomaticWeight r then set_duration (sr_settings r) else 0)"
  using assms duration_u64 [of "set_duration (sr_settings r)"] mode_AutomaticWeight [of r]
  by (auto simp: start_validate_iff automatic_mode_def settings_Valid_def minimumDuration_def
      maximumDuration_def start_duration_def)

subsection \<open>Decoding what was encoded\<close>

text \<open>
  An endpoint survives the wire when its text is short, well encoded and parses back to the
  same URL; \<open>NewSettings\<close> then rebuilds the same settings.
\<close>

definition endpoint_survives ::
  "(string \<Rightarrow> string + url) \<Rightarrow> (url \<Rightarrow> string) \<Rightarrow> url \<Rightarrow> bool" where
  "endpoint_survives url_parse url_string u \<longleftrightarrow>
     (let s = url_string u in s \<noteq> [] \<and> length s \<le> maximumEndpointBytes \<and> ValidString s \<and> \<not> has_nul s \<and>
        url_parse s = Inr u)"

lemma NewSettings_again:
  assumes "NewSettings url_parse raw d = Inr s" "endpoint_survives url_parse url_string (set_endpoint s)"
  shows "NewSettings url_parse (url_string (set_endpoint s)) (set_duration s) = Inr s"
    "validText (url_string (set_endpoint s)) False"
  using assms
  by (auto simp: NewSettings_def endpoint_survives_def Let_def validText_def maximumEndpointBytes_def
      split: if_splits sum.splits)

definition body_bytes :: "start_request \<Rightarrow> byte list" where
  "body_bytes r =
     concat (map manual_bytes (sr_manual r)) @ concat (map address_bytes (sr_automatic r)) @
     concat (map address_bytes (sr_dns r)) @ concat (map text_bytes (sr_childArgv r))"

lemma start_payload_header:
  "start_payload url_string r =
     header_bytes (start_flags r) (ts_cols (io_terminal (sr_commandIO r))) (ts_rows (io_terminal (sr_commandIO r)))
       (start_duration r) (word_of_nat (networkCount r)) (word_of_nat (length (sr_dns r)))
       (word_of_nat (length (sr_childArgv r))) (sr_sourceLabel r) (endpoint_text url_string r) @ body_bytes r"
  by (simp add: start_payload_eq header_bytes_def body_bytes_def)

lemma decodeHeader_payload:
  assumes v: "start_validate r = Inr ()" and e: "validText (endpoint_text url_string r) False"
  shows "decodeHeader (start_payload url_string r) =
    Inr (\<lparr>dh_source = sr_sourceLabel r, dh_endpoint = endpoint_text url_string r,
      dh_duration = (if AutomaticWeight r then set_duration (sr_settings r) else 0),
      dh_networks = networkCount r, dh_dns = length (sr_dns r), dh_argv = length (sr_childArgv r),
      dh_automatic = AutomaticWeight r, dh_followSymlinks = sr_followSymlinks r,
      dh_commandIO = sr_commandIO r\<rparr>, body_bytes r)"
proof -
  have c: "common_valid r" using v by (simp add: start_validate_iff)
  have dns: "unat (word_of_nat (length (sr_dns r)) :: byte) = length (sr_dns r)"
    using c by (simp add: common_valid_def maximumDNSResolvers_def unat_of_nat)
  have "header_ok (start_flags r) (start_duration r) (word_of_nat (networkCount r))
      (word_of_nat (length (sr_childArgv r))) (sr_sourceLabel r) (endpoint_text url_string r)"
    using c e by (simp add: header_ok_def start_flags_bits start_duration_ok [OF v] network_count_byte [OF v]
        argv_count_u16 [OF v] common_valid_def validText_weaken)
  moreover have "decode_io (start_flags r) (ts_cols (io_terminal (sr_commandIO r)))
      (ts_rows (io_terminal (sr_commandIO r))) = Inr (sr_commandIO r)"
    using c by (intro decode_io_valid start_flags_bits) (simp add: common_valid_def)
  ultimately show ?thesis
    unfolding start_payload_header
    by (simp add: decodeHeader_bytes header_of_def start_flags_bits network_count_byte [OF v] dns
        argv_count_u16 [OF v] start_duration_ok(2) [OF v])
qed

lemma decode_dns_argv:
  assumes "common_valid r" "list_all (\<lambda>ip. validText (addr_string ip) False) (sr_dns r)"
  shows "decodeAddresses (length (sr_dns r))
      (concat (map address_bytes (sr_dns r)) @ concat (map text_bytes (sr_childArgv r))) =
      Inr (sr_dns r, concat (map text_bytes (sr_childArgv r)))"
    "decodeTexts (length (sr_childArgv r)) (concat (map text_bytes (sr_childArgv r))) = Inr (sr_childArgv r, [])"
proof -
  have "list_all address_ok (sr_dns r)"
    using assms by (auto simp: common_valid_def list_all_iff address_ok_def dns_bad_def)
  then show "decodeAddresses (length (sr_dns r))
      (concat (map address_bytes (sr_dns r)) @ concat (map text_bytes (sr_childArgv r))) =
      Inr (sr_dns r, concat (map text_bytes (sr_childArgv r)))"
    by (rule addresses.decs_encs)
  show "decodeTexts (length (sr_childArgv r)) (concat (map text_bytes (sr_childArgv r))) = Inr (sr_childArgv r, [])"
    using texts.decs_encs [of "sr_childArgv r" "[]"] assms(1) by (simp add: common_valid_def)
qed

section \<open>Properties\<close>


text \<open>A minimal URL library for the witnesses: \<open>http://\<close> followed by a host.\<close>

definition demo_url_string :: "url \<Rightarrow> string" where
  "demo_url_string u = ''http://'' @ url_host u"

definition demo_url_parse :: "string \<Rightarrow> string + url" where
  "demo_url_parse s =
     (if HasPrefix s ''http://'' then Inr (no_url\<lparr>url_scheme := ''http'', url_host := drop 7 s\<rparr>)
      else Inl ''no scheme'')"

definition demo_settings :: settings where
  "demo_settings = \<lparr>set_endpoint = no_url\<lparr>url_scheme := ''http'', url_host := ''up.example''\<rparr>,
     set_duration = 2000000000, set_preparationTimeout = defaultPreparationTimeout\<rparr>"

definition demo_automatic :: start_request where
  "demo_automatic = \<lparr>sr_sourceLabel = ''/data/src'', sr_manual = [],
     sr_automatic = [V4 192 168 1 2, V4 10 0 0 2], sr_settings = demo_settings,
     sr_dns = [V6 0x2606 0x4700 0 0 0 0 0 0x1111 []], sr_childArgv = [''rclone'', ''copy'', ''{}'', ''r:''],
     sr_commandIO = \<lparr>io_mode = ptyMode, io_terminal = \<lparr>ts_cols = 80, ts_rows = 24\<rparr>\<rparr>,
     sr_followSymlinks = True\<rparr>"

definition demo_manual :: start_request where
  "demo_manual = \<lparr>sr_sourceLabel = ''/data/src'',
     sr_manual = [\<lparr>mn_localIP = V4 192 168 1 2, mn_weight = 3\<rparr>, \<lparr>mn_localIP = V4 10 0 0 2, mn_weight = 1\<rparr>],
     sr_automatic = [], sr_settings = no_settings, sr_dns = [V4 1 1 1 1],
     sr_childArgv = [''rclone'', ''copy'', ''{}'', ''r:''], sr_commandIO = Pipes, sr_followSymlinks = False\<rparr>"

lemma demo_url_example: "to_bytes ''http://up.example'' \<noteq> [] \<and> ValidString ''http://up.example'' \<and> \<not> has_nul ''http://up.example''"
  by code_simp

lemma demo_settings_new: "NewSettings demo_url_parse ''http://up.example'' 2000000000 = Inr demo_settings"
  using demo_url_example
  by (simp add: NewSettings_def demo_settings_def demo_url_parse_def HasPrefix_def maximumEndpointBytes_def
      minimumDuration_def maximumDuration_def no_url_def)

lemma demo_endpoint_survives:
  "endpoint_survives demo_url_parse demo_url_string (set_endpoint demo_settings)"
  using demo_url_example
  by (simp add: endpoint_survives_def demo_settings_def demo_url_parse_def demo_url_string_def HasPrefix_def
      maximumEndpointBytes_def no_url_def)

lemma demo_argv_texts: "list_all (\<lambda>a. validText a False) [''rclone'', ''copy'', ''{}'', ''r:'']"
  by (simp add: validText_def has_nul_def)

lemma demo_common: "common_valid demo_automatic" "common_valid demo_manual"
proof -
  have p: "IsAbs ''/data/src''" "Clean ''/data/src'' = ''/data/src''"
    by (simp_all add: IsAbs_def Clean_def clean_step_def)
  have t: "validText ''/data/src'' True" by (simp add: validText_def has_nul_def)
  have d: "\<not> dns_bad (V6 0x2606 0x4700 0 0 0 0 0 0x1111 [])" "\<not> dns_bad (V4 1 1 1 1)" by code_simp+
  show "common_valid demo_automatic"
    using p t d demo_argv_texts
    by (simp add: common_valid_def demo_automatic_def io_valid_def maximumDNSResolvers_def)
  show "common_valid demo_manual"
    using p t d demo_argv_texts
    by (simp add: common_valid_def demo_manual_def io_valid_def maximumDNSResolvers_def Pipes_def no_terminal_def)
qed

lemma demo_validate: "start_validate demo_automatic = Inr ()" "start_validate demo_manual = Inr ()"
proof -
  have "automatic_mode demo_automatic"
    using NewSettings_Valid [OF demo_settings_new]
    by (simp add: automatic_mode_def demo_automatic_def transfer_maximum_def Is4_def)
  moreover have "manual_mode demo_manual"
    by (simp add: manual_mode_def demo_manual_def transfer_maximum_def manual_ok_def Is4_def)
  ultimately show "start_validate demo_automatic = Inr ()" "start_validate demo_manual = Inr ()"
    using demo_common by (simp_all add: start_validate_iff)
qed


text \<open>
  \<open>EncodedSize\<close> is exact: it fails precisely when \<open>Encode\<close> fails, with the same error,
  and otherwise is the length of the payload \<open>Encode\<close> returns.  In particular the size
  mismatch \<open>Encode\<close> guards against never happens.
\<close>

theorem encoded_size_is_exact:
  "start_EncodedSize url_string r = map_sum id length (start_Encode url_string r) \<and>
   start_Encode url_string r \<noteq> Inl EncodedSizeMismatch"
proof (cases "start_validate r")
  case (Inl e)
  then have "e \<noteq> EncodedSizeMismatch"
    by (auto simp: start_validate_def result_simps dest!: scan_seen_Inl split: if_splits)
  with Inl show ?thesis by (simp add: start_EncodedSize_def start_Encode_def checkedSize_def)
next
  case (Inr u)
  then show ?thesis by (simp add: start_EncodedSize_def start_Encode_eq length_start_payload)
qed

subsection \<open>Which payloads are accepted\<close>

lemma start_Decode_Inr:
  assumes "start_Decode url_parse p = Inr r"
  obtains h body manual automatic mid dns mid' argv where
    "decodeHeader p = Inr (h, body)"
    "if dh_automatic h then decodeAddresses (dh_networks h) body = Inr (automatic, mid) \<and> manual = []
     else decodeManualNetworks (dh_networks h) body = Inr (manual, mid) \<and> automatic = []"
    "decodeAddresses (dh_dns h) mid = Inr (dns, mid')" "decodeTexts (dh_argv h) mid' = Inr (argv, [])"
    "if dh_automatic h then \<exists>s. NewSettings url_parse (dh_endpoint h) (dh_duration h) = Inr s \<and>
       NewAutomaticRequest (dh_source h) automatic s dns argv (dh_commandIO h) (dh_followSymlinks h) = Inr r
     else dh_endpoint h = [] \<and> dh_duration h = 0 \<and>
       NewManualRequest (dh_source h) manual dns argv (dh_commandIO h) (dh_followSymlinks h) = Inr r"
proof -
  obtain h body where h: "decodeHeader p = Inr (h, body)"
    using assms by (auto simp: start_Decode_def bind_r_Inr_iff)
  show ?thesis
  proof (cases "dh_automatic h")
    case True
    with assms h show ?thesis
      by (auto simp: start_Decode_def bind_r_Inr_iff sum_case_Inr_iff split: if_splits intro!: that)
  next
    case False
    with assms h show ?thesis
      by (auto simp: start_Decode_def bind_r_Inr_iff split: if_splits intro!: that)
  qed
qed

lemma NewManualRequest_Inr:
  "NewManualRequest l ms dns argv io fs = Inr r \<Longrightarrow>
     start_validate r = Inr () \<and> r = \<lparr>sr_sourceLabel = l, sr_manual = ms, sr_automatic = [],
       sr_settings = no_settings, sr_dns = dns, sr_childArgv = argv, sr_commandIO = io, sr_followSymlinks = fs\<rparr>"
  by (auto simp: NewManualRequest_def Let_def bind_r_Inr_iff)

lemma NewAutomaticRequest_Inr:
  "NewAutomaticRequest l as s dns argv io fs = Inr r \<Longrightarrow>
     start_validate r = Inr () \<and> r = \<lparr>sr_sourceLabel = l, sr_manual = [], sr_automatic = as,
       sr_settings = s, sr_dns = dns, sr_childArgv = argv, sr_commandIO = io, sr_followSymlinks = fs\<rparr>"
  by (auto simp: NewAutomaticRequest_def Let_def bind_r_Inr_iff)

lemma start_Decode_validate: "start_Decode url_parse p = Inr r \<Longrightarrow> start_validate r = Inr ()"
  by (elim start_Decode_Inr) (auto dest: NewManualRequest_Inr NewAutomaticRequest_Inr split: if_splits)

text \<open>
  with IPv4 resolvers and manual weights there is one encoding only: a payload that
  \<open>Decode\<close> accepts is, byte for byte, the payload \<open>Encode\<close> produces for the decoded request.
\<close>

theorem manual_payloads_are_canonical:
  assumes "start_Decode url_parse p = Inr r" "\<not> AutomaticWeight r" "list_all Is4 (sr_dns r)"
  shows "start_Encode url_string r = Inr p"
proof -
  obtain h body manual automatic mid dns mid' argv where d:
    "decodeHeader p = Inr (h, body)"
    "if dh_automatic h then decodeAddresses (dh_networks h) body = Inr (automatic, mid) \<and> manual = []
     else decodeManualNetworks (dh_networks h) body = Inr (manual, mid) \<and> automatic = []"
    "decodeAddresses (dh_dns h) mid = Inr (dns, mid')" "decodeTexts (dh_argv h) mid' = Inr (argv, [])"
    "if dh_automatic h then \<exists>s. NewSettings url_parse (dh_endpoint h) (dh_duration h) = Inr s \<and>
       NewAutomaticRequest (dh_source h) automatic s dns argv (dh_commandIO h) (dh_followSymlinks h) = Inr r
     else dh_endpoint h = [] \<and> dh_duration h = 0 \<and>
       NewManualRequest (dh_source h) manual dns argv (dh_commandIO h) (dh_followSymlinks h) = Inr r"
    using assms(1) by (rule start_Decode_Inr)
  obtain f c rw dur n dn a source endpoint io where hd:
    "p = header_bytes f c rw dur n dn a source endpoint @ body" "header_ok f dur n a source endpoint"
    "decode_io f c rw = Inr io" "h = header_of f dur n dn a source endpoint io"
    using d(1) by (rule decodeHeader_Inr)
  have man: "\<not> dh_automatic h"
  proof
    assume auto: "dh_automatic h"
    then have "length automatic = dh_networks h" using d(2) addresses.decs_length by auto
    moreover have "sr_automatic r = automatic" using d(5) auto by (auto dest: NewAutomaticRequest_Inr)
    ultimately show False
      using hd(2,4) assms(2) by (auto simp: header_of_def header_ok_def AutomaticWeight_def unat_eq_zero)
  qed
  then have r: "start_validate r = Inr ()" "r = \<lparr>sr_sourceLabel = source, sr_manual = manual, sr_automatic = [],
      sr_settings = no_settings, sr_dns = dns, sr_childArgv = argv, sr_commandIO = io,
      sr_followSymlinks = dh_followSymlinks h\<rparr>"
    and e: "endpoint = []" "dur = 0"
    using d(5) by (auto simp: hd(4) header_of_def uint_0_iff dest!: NewManualRequest_Inr)
  have lens: "length manual = unat n" "body = concat (map manual_bytes manual) @ mid"
    "length dns = unat dn" "mid = concat (map address_bytes dns) @ mid'"
    "length argv = unat a" "mid' = concat (map text_bytes argv)"
    using d(2-4) man manuals.encs_decs [of "unat n" body manual mid] addresses.encs_decs [of "unat dn" mid dns mid']
      texts.encs_decs [of "unat a" mid' argv "[]"] assms(3) r(2)
    by (auto simp: hd(4) header_of_def list_all_iff)
  have io: "ts_cols (io_terminal io) = c" "ts_rows (io_terminal io) = rw" "f AND pipesFlag \<noteq> 0 \<longleftrightarrow> IsPipes io"
    using decode_io_Inr [OF hd(3)] by blast+
  have "start_flags r = f"
    using flags_bits_eq [of f] hd(2,4) man io(3)
    by (simp add: start_flags_def r(2) AutomaticWeight_def header_ok_def header_of_def)
  then have "start_payload url_string r = p"
    unfolding start_payload_header hd(1)
    using lens by (simp add: r(2) io e body_bytes_def start_duration_def networkCount_def
        AutomaticWeight_def endpoint_text_def)
  then show ?thesis using start_Encode_eq [OF r(1)] by simp
qed

lemma demo_manual_facts:
  "\<not> AutomaticWeight demo_manual" "list_all Is4 (sr_dns demo_manual)" "sr_settings demo_manual = no_settings"
  by (simp_all add: demo_manual_def AutomaticWeight_def Is4_def)

lemma demo_manual_decodes:
  "start_Decode url_parse (start_payload url_string demo_manual) = Inr demo_manual"
proof -
  note m = demo_manual_facts
  have "list_all (\<lambda>ip. validText (addr_string ip) False) (sr_dns demo_manual)"
    using string4_text m(2) by (auto simp: list_all_iff address_ok_def)
  moreover have "decodeHeader (start_payload url_string demo_manual) = Inr
      (\<lparr>dh_source = sr_sourceLabel demo_manual, dh_endpoint = [], dh_duration = 0,
        dh_networks = networkCount demo_manual, dh_dns = length (sr_dns demo_manual),
        dh_argv = length (sr_childArgv demo_manual), dh_automatic = False,
        dh_followSymlinks = sr_followSymlinks demo_manual, dh_commandIO = sr_commandIO demo_manual\<rparr>,
       body_bytes demo_manual)"
    using decodeHeader_payload [OF demo_validate(2), of url_string] m
    by (simp add: endpoint_text_def validText_def has_nul_def)
  moreover have "decodeManualNetworks (networkCount demo_manual) (body_bytes demo_manual) =
      Inr (sr_manual demo_manual, concat (map address_bytes (sr_dns demo_manual)) @
        concat (map text_bytes (sr_childArgv demo_manual)))"
    using manuals.decs_encs [of "sr_manual demo_manual"] demo_validate(2) mode_AutomaticWeight m(1)
    by (auto simp: body_bytes_def start_validate_iff manual_mode_def networkCount_def)
  moreover have "NewManualRequest (sr_sourceLabel demo_manual) (sr_manual demo_manual) (sr_dns demo_manual)
      (sr_childArgv demo_manual) (sr_commandIO demo_manual) (sr_followSymlinks demo_manual) = Inr demo_manual"
    using demo_validate(2) by (simp add: NewManualRequest_def demo_manual_def)
  ultimately show ?thesis
    using decode_dns_argv [OF demo_common(2)] by (simp add: start_Decode_def)
qed

theorem manual_payloads_are_canonical_witness:
  "\<exists>p. start_Decode demo_url_parse p = Inr demo_manual \<and> start_Encode demo_url_string demo_manual = Inr p"
  using manual_payloads_are_canonical
    [OF demo_manual_decodes [of demo_url_parse demo_url_string] demo_manual_facts(1,2), of demo_url_string]
    demo_manual_decodes by blast

definition upper_dns :: start_request where
  "upper_dns = demo_manual\<lparr>sr_dns := [V6 0xfd00 0 0 0 0 0 0 1 []]\<rparr>"

definition upper_payload :: "byte list" where
  "upper_payload =
     header_bytes (start_flags upper_dns) 0 0 0 2 1 4 ''/data/src'' [] @
     concat (map manual_bytes (sr_manual upper_dns)) @ text_bytes ''FD00::1'' @
     concat (map text_bytes (sr_childArgv upper_dns))"

lemma parse_upper: "ParseAddr ''FD00::1'' = Inr (V6 0xfd00 0 0 0 0 0 0 1 [])"
proof -
  have h: "hex_value (CHR ''F'') = Some 15" "hex_value (CHR ''D'') = Some 13"
    "hex_value (CHR ''0'') = Some 0" "hex_value (CHR ''1'') = Some 1"
    by code_simp+
  have "parse6_loop [0xfd00] (Some 1) ''1'' = Inr ([0xfd00, 1], Some 1, [])"
    by (subst parse6_loop.simps) (simp add: h)
  then have "parse6_loop [] None ''FD00::1'' = Inr ([0xfd00, 1], Some 1, [])"
    by (subst parse6_loop.simps) (simp add: h)
  moreover have "replicate 6 (0 :: u16) = [0, 0, 0, 0, 0, 0]" by (simp add: numeral_eq_Suc)
  ultimately show ?thesis
    by (simp add: ParseAddr_def parseIPv6_def finish6_def v6_of_def)
qed

lemma upper_valid: "start_validate upper_dns = Inr ()" "common_valid upper_dns"
proof -
  have "\<not> dns_bad (V6 0xfd00 0 0 0 0 0 0 1 [])" by code_simp
  then show "common_valid upper_dns"
    using demo_common(2) by (simp add: common_valid_def upper_dns_def maximumDNSResolvers_def)
  moreover have "manual_mode upper_dns"
    using demo_validate(2) mode_AutomaticWeight [of demo_manual]
    by (auto simp: start_validate_iff manual_mode_def upper_dns_def AutomaticWeight_def demo_manual_def)
  ultimately show "start_validate upper_dns = Inr ()" by (simp add: start_validate_iff)
qed

lemma upper_decodes: "start_Decode url_parse upper_payload = Inr upper_dns"
proof -
  have t: "validText ''FD00::1'' False" "validText ''/data/src'' False" "validText [] False"
    by (simp_all add: validText_def has_nul_def)
  have a: "\<not> AutomaticWeight upper_dns" by (simp add: upper_dns_def demo_manual_def AutomaticWeight_def)
  have io: "decode_io (start_flags upper_dns) 0 0 = Inr Pipes"
    using start_flags_bits(3) [of upper_dns]
    by (simp add: decode_io_def upper_dns_def demo_manual_def IsPipes_def Pipes_def)
  have h: "decodeHeader upper_payload = Inr (header_of (start_flags upper_dns) 0 2 1 4 ''/data/src'' [] Pipes,
      concat (map manual_bytes (sr_manual upper_dns)) @ text_bytes ''FD00::1'' @
      concat (map text_bytes (sr_childArgv upper_dns)))"
    unfolding upper_payload_def
    by (rule decodeHeader_bytes [OF _ io]) (simp add: header_ok_def start_flags_bits t)
  have "list_all manual_ok (sr_manual upper_dns)" "length (sr_manual upper_dns) = 2"
    "length (sr_childArgv upper_dns) = 4"
    by (simp_all add: upper_dns_def demo_manual_def manual_ok_def Is4_def)
  then have "decodeManualNetworks 2 (concat (map manual_bytes (sr_manual upper_dns)) @ rest) =
      Inr (sr_manual upper_dns, rest)"
    and "decodeTexts 4 (concat (map text_bytes (sr_childArgv upper_dns))) = Inr (sr_childArgv upper_dns, [])" for rest
    using manuals.decs_encs [of "sr_manual upper_dns" rest] decode_dns_argv(2) [OF upper_valid(2)]
      texts.decs_encs [of "sr_childArgv upper_dns" "[]"] upper_valid(2)
    by (simp_all add: common_valid_def)
  moreover have "decodeAddresses 1 (text_bytes ''FD00::1'' @ rest) = Inr (sr_dns upper_dns, rest)" for rest
    using rd_text_bytes [OF t(1), of rest]
    by (simp add: parse_address_def parse_upper upper_dns_def)
  moreover have "NewManualRequest ''/data/src'' (sr_manual upper_dns) (sr_dns upper_dns)
      (sr_childArgv upper_dns) Pipes (sr_followSymlinks upper_dns) = Inr upper_dns"
    using upper_valid(1) by (simp add: NewManualRequest_def upper_dns_def demo_manual_def)
  ultimately show ?thesis
    using h a start_flags_bits(2,4) [of upper_dns] by (simp add: start_Decode_def header_of_def)
qed

text \<open>
  the restriction to IPv4 resolvers is necessary.  \<open>Decode\<close> reads resolvers with
  \<open>netip.ParseAddr\<close>, which accepts more than one text for an IPv6 address, so there is a
  payload it accepts although \<open>Encode\<close> would write the decoded request differently.
\<close>

theorem some_accepted_payloads_are_not_canonical:
  "\<exists>p r. start_Decode url_parse p = Inr r \<and> (\<exists>q. start_Encode url_string r = Inr q \<and> q \<noteq> p)"
proof -
  have e: "start_Encode url_string upper_dns = Inr (start_payload url_string upper_dns)"
    using upper_valid(1) by (rule start_Encode_eq)
  have "start_payload url_string upper_dns \<noteq> upper_payload"
  proof
    assume eq: "start_payload url_string upper_dns = upper_payload"
    have "sr_automatic upper_dns = []" "sr_dns upper_dns = [V6 0xfd00 0 0 0 0 0 0 1 []]"
      "sr_sourceLabel upper_dns = ''/data/src''" "\<not> AutomaticWeight upper_dns" "networkCount upper_dns = 2"
      "length (sr_childArgv upper_dns) = 4" "io_terminal (sr_commandIO upper_dns) = no_terminal"
      by (simp_all add: upper_dns_def demo_manual_def AutomaticWeight_def networkCount_def Pipes_def)
    then have "address_bytes (V6 0xfd00 0 0 0 0 0 0 1 []) = text_bytes ''FD00::1''"
      using eq by (simp add: start_payload_header upper_payload_def header_bytes_def body_bytes_def
          start_duration_def endpoint_text_def no_terminal_def)
    then have "addr_string (V6 0xfd00 0 0 0 0 0 0 1 []) = ''FD00::1''"
      by (simp add: address_bytes_def text_bytes_def)
    moreover have "hd (addr_string (V6 0xfd00 0 0 0 0 0 0 1 [])) = CHR ''f''"
    proof -
      have "digits 16 64768 = ''fd00''" by (simp add: digits_step digits_small hex_table_def)
      moreover have "zero_run [0xfd00, 0, 0, 0, 0, 0, 0, 1] = (1, 7)" by code_simp
      ultimately show ?thesis
        by (simp add: addr_string_def Is4In6_def string6_def zone_suffix_def hex16_def)
    qed
    ultimately show False by simp
  qed
  with e show ?thesis using upper_decodes by blast
qed

end
