(* ===== verification/Transfer_Request.thy ===== *)
theory Transfer_Request
  imports Transfer_Start Source_Allocation
begin

text \<open>
  The transfer runtime's request and its inputs to the allocation: \<open>internal/transfer\<close>
  (\<open>request.go\<close>, \<open>weights.go\<close>, \<open>result.go\<close>), the resolver choice of
  \<open>internal/namespaceresolvers/types.go\<close>, and the adapter of \<open>internal/transferworker\<close> that
  turns a decoded start message into a runtime request.  The measurement inside the
  network namespaces enters \<open>finalWeights\<close> as the observations it returned.
\<close>

section \<open>Resolver intent\<close>

datatype intent_error = DirectEmpty | DirectInvalid addr | DirectRepeated addr

record resolver_intent =
  ri_explicit :: "addr list"

definition DefaultIntent :: resolver_intent where
  "DefaultIntent = \<lparr>ri_explicit = []\<rparr>"

definition DirectIntent :: "addr list \<Rightarrow> intent_error + resolver_intent" where
  "DirectIntent addresses =
     (if length addresses = 0 then Inl DirectEmpty
      else bind_r
        (scan_seen (\<lambda>a. if \<not> IsValid a \<or> IsUnspecified a \<or> IsMulticast a \<or> IsLoopback a
                        then Some (DirectInvalid a) else None)
           (\<lambda>a. a) DirectRepeated [] addresses)
        (\<lambda>_. Inr \<lparr>ri_explicit = addresses\<rparr>))"

definition UsesHostResolver :: "resolver_intent \<Rightarrow> bool" where
  "UsesHostResolver i \<longleftrightarrow> length (ri_explicit i) = 0"

lemma DirectIntent_Inr_iff [result_simps]:
  "DirectIntent as = Inr i \<longleftrightarrow>
     as \<noteq> [] \<and> list_all (\<lambda>a. \<not> dns_bad a) as \<and> distinct as \<and> i = \<lparr>ri_explicit = as\<rparr>"
  by (auto simp: DirectIntent_def dns_bad_def list_all_iff result_simps split: if_splits)

section \<open>Requests\<close>

datatype transfer_io = InteractiveCommandIO | PlainCommandIO

record manual_selection =
  ms_transfer :: transfer_number
  ms_localIP :: addr
  ms_weight :: u64

record selected_network =
  sn_transfer :: transfer_number
  sn_localIP :: addr

record transfer_request =
  tr_sourceName :: string
  tr_manual :: "manual_selection list"
  tr_automatic :: "selected_network list"
  tr_argv :: "string list"
  tr_environment :: "string list"
  tr_resolver :: resolver_intent
  tr_terminal :: terminal_size
  tr_commandIO :: transfer_io
  tr_settings :: settings
  tr_followSymlinks :: bool

datatype request_error =
    ManualSelectionInvalid
  | AutomaticSelectionInvalid
  | AutomaticTooFew
  | SourceInvalid
  | TransferCountInvalid
  | SelectionInvalid
  | RepeatsTransfer transfer_number
  | RepeatsAddress addr
  | MissingTransfer nat
  | CommandInvalid
  | CommandContainsNUL
  | CommandPlaceholders
  | CommandEnvironment
  | CommandEnvironmentRepeats string
  | CommandTerminal
  | ResolverIntentError intent_error

definition NewManualNetworkSelection ::
  "transfer_number \<Rightarrow> addr \<Rightarrow> u64 \<Rightarrow> request_error + manual_selection" where
  "NewManualNetworkSelection number localIP wt =
     (if num_value number = 0 \<or> \<not> Is4 localIP \<or> wt = 0 then Inl ManualSelectionInvalid
      else Inr \<lparr>ms_transfer = number, ms_localIP = localIP, ms_weight = wt\<rparr>)"

definition NewAutomaticNetworkSelection :: "transfer_number \<Rightarrow> addr \<Rightarrow> request_error + selected_network" where
  "NewAutomaticNetworkSelection number localIP =
     (if num_value number = 0 \<or> \<not> Is4 localIP then Inl AutomaticSelectionInvalid
      else Inr \<lparr>sn_transfer = number, sn_localIP = localIP\<rparr>)"

definition manualSelectedNetworks :: "manual_selection list \<Rightarrow> selected_network list" where
  "manualSelectedNetworks xs = map (\<lambda>v. \<lparr>sn_transfer = ms_transfer v, sn_localIP = ms_localIP v\<rparr>) xs"

definition selectedNetworks :: "transfer_request \<Rightarrow> selected_network list" where
  "selectedNetworks r =
     (if length (tr_manual r) \<noteq> 0 then manualSelectedNetworks (tr_manual r) else tr_automatic r)"

text \<open>One loop with two sets of keys seen so far: transfer numbers and source addresses.\<close>

fun check_selected ::
  "transfer_number list \<Rightarrow> addr list \<Rightarrow> selected_network list \<Rightarrow> request_error + transfer_number list" where
  "check_selected seenIDs seenIPs [] = Inr seenIDs"
| "check_selected seenIDs seenIPs (s # ss) =
     (if num_value (sn_transfer s) = 0 \<or> \<not> Is4 (sn_localIP s) then Inl SelectionInvalid
      else if sn_transfer s \<in> set seenIDs then Inl (RepeatsTransfer (sn_transfer s))
      else if sn_localIP s \<in> set seenIPs then Inl (RepeatsAddress (sn_localIP s))
      else check_selected (sn_transfer s # seenIDs) (sn_localIP s # seenIPs) ss)"

definition validateSelectedNetworks :: "selected_network list \<Rightarrow> request_error + unit" where
  "validateSelectedNetworks selections =
     (if length selections = 0 \<or> length selections > transfer_maximum then Inl TransferCountInvalid
      else bind_r (check_selected [] [] selections) (\<lambda>seenIDs.
        case first_missing (length selections) seenIDs of
          None \<Rightarrow> Inr () | Some k \<Rightarrow> Inl (MissingTransfer k)))"

definition validateManualSelections :: "manual_selection list \<Rightarrow> request_error + unit" where
  "validateManualSelections selections =
     (if list_ex (\<lambda>s. ms_weight s = 0) selections then Inl ManualSelectionInvalid else Inr ())"

definition request_entry_bad :: "string \<Rightarrow> bool" where
  "request_entry_bad entry \<longleftrightarrow>
     (case str_cut (CHR ''='') entry of (name, _, found) \<Rightarrow> \<not> found \<or> name = [] \<or> has_nul entry)"

definition validateCommandIntent ::
  "string list \<Rightarrow> string list \<Rightarrow> terminal_size \<Rightarrow> transfer_io \<Rightarrow> request_error + unit" where
  "validateCommandIntent argv environment terminal commandIO =
     (if length argv = 0 then Inl CommandInvalid
      else if list_ex has_nul argv then Inl CommandContainsNUL
      else if length (filter (\<lambda>a. a = ''{}'') argv) \<noteq> 1 then Inl CommandPlaceholders
      else bind_r
        (scan_seen (\<lambda>e. if request_entry_bad e then Some CommandEnvironment else None)
           entry_name_of (\<lambda>e. CommandEnvironmentRepeats (entry_name_of e)) [] environment)
        (\<lambda>_.
          if commandIO = InteractiveCommandIO \<and> (ts_cols terminal = 0 \<or> ts_rows terminal = 0) \<or>
             commandIO = PlainCommandIO \<and> (ts_cols terminal \<noteq> 0 \<or> ts_rows terminal \<noteq> 0)
          then Inl CommandTerminal
          else Inr ()))"

definition newRequest ::
  "string \<Rightarrow> selected_network list \<Rightarrow> string list \<Rightarrow> string list \<Rightarrow> resolver_intent \<Rightarrow> terminal_size \<Rightarrow>
     transfer_io \<Rightarrow> bool \<Rightarrow> request_error + transfer_request" where
  "newRequest source networks argv environment resolver terminal commandIO followSymlinks =
     (let sourceName = Base (Clean source) in
      if source = [] \<or> has_nul source \<or> sourceName = ''.'' \<or> sourceName = ''..'' \<or> sourceName = ''/''
      then Inl SourceInvalid
      else bind_r (validateSelectedNetworks networks) (\<lambda>_.
        bind_r (validateCommandIntent argv environment terminal commandIO) (\<lambda>_.
          Inr \<lparr>tr_sourceName = sourceName, tr_manual = [], tr_automatic = [], tr_argv = argv,
               tr_environment = environment, tr_resolver = resolver, tr_terminal = terminal,
               tr_commandIO = commandIO, tr_settings = no_settings, tr_followSymlinks = followSymlinks\<rparr>)))"

definition tr_NewManualRequest ::
  "transfer_io \<Rightarrow> string \<Rightarrow> manual_selection list \<Rightarrow> string list \<Rightarrow> string list \<Rightarrow> resolver_intent \<Rightarrow>
     terminal_size \<Rightarrow> bool \<Rightarrow> request_error + transfer_request" where
  "tr_NewManualRequest commandIO source selected argv environment resolver terminal followSymlinks =
     bind_r (newRequest source (manualSelectedNetworks selected) argv environment resolver terminal
               commandIO followSymlinks) (\<lambda>request.
       bind_r (validateManualSelections selected) (\<lambda>_. Inr (request\<lparr>tr_manual := selected\<rparr>)))"

definition tr_NewAutomaticRequest ::
  "transfer_io \<Rightarrow> string \<Rightarrow> selected_network list \<Rightarrow> string list \<Rightarrow> string list \<Rightarrow> resolver_intent \<Rightarrow>
     terminal_size \<Rightarrow> settings \<Rightarrow> bool \<Rightarrow> request_error + transfer_request" where
  "tr_NewAutomaticRequest commandIO source selected argv environment resolver terminal settings followSymlinks =
     (if length selected < 2 \<or> \<not> settings_Valid settings then Inl AutomaticTooFew
      else bind_r (newRequest source selected argv environment resolver terminal commandIO followSymlinks)
        (\<lambda>request. Inr (request\<lparr>tr_automatic := selected, tr_settings := settings\<rparr>)))"

text \<open>The four exported constructors: the plain ones have no terminal.\<close>

definition InteractiveManualRequest where
  "InteractiveManualRequest = tr_NewManualRequest InteractiveCommandIO"

definition NewPlainManualRequest where
  "NewPlainManualRequest source selected argv environment resolver followSymlinks =
     tr_NewManualRequest PlainCommandIO source selected argv environment resolver no_terminal followSymlinks"

definition InteractiveAutomaticRequest where
  "InteractiveAutomaticRequest = tr_NewAutomaticRequest InteractiveCommandIO"

definition NewPlainAutomaticRequest where
  "NewPlainAutomaticRequest source selected argv environment resolver settings followSymlinks =
     tr_NewAutomaticRequest PlainCommandIO source selected argv environment resolver no_terminal settings
       followSymlinks"

section \<open>From the start message to the request (transferworker)\<close>

definition childEnvironment :: "string list \<Rightarrow> string list" where
  "childEnvironment environment = filter (\<lambda>e. \<not> HasPrefix e ''TERM='') environment @ [''TERM=xterm-256color'']"

fun number_manual :: "nat \<Rightarrow> manual_network list \<Rightarrow> request_error + manual_selection list" where
  "number_manual index [] = Inr []"
| "number_manual index (n # ns) =
     bind_r (NewManualNetworkSelection (number_or_zero (index + 1)) (mn_localIP n) (mn_weight n)) (\<lambda>s.
     bind_r (number_manual (index + 1) ns) (\<lambda>ss. Inr (s # ss)))"

fun number_automatic :: "nat \<Rightarrow> addr list \<Rightarrow> request_error + selected_network list" where
  "number_automatic index [] = Inr []"
| "number_automatic index (ip # ips) =
     bind_r (NewAutomaticNetworkSelection (number_or_zero (index + 1)) ip) (\<lambda>s.
     bind_r (number_automatic (index + 1) ips) (\<lambda>ss. Inr (s # ss)))"

definition transferRequest :: "start_request \<Rightarrow> string list \<Rightarrow> request_error + transfer_request" where
  "transferRequest request environment =
     bind_r (if length (sr_dns request) \<noteq> 0
             then (case DirectIntent (sr_dns request) of Inl e \<Rightarrow> Inl (ResolverIntentError e) | Inr i \<Rightarrow> Inr i)
             else Inr DefaultIntent) (\<lambda>resolver.
     let terminal = fst (PTYSize (sr_commandIO request)); pty = snd (PTYSize (sr_commandIO request)) in
     if AutomaticWeight request then
       bind_r (number_automatic 0 (sr_automatic request)) (\<lambda>selected.
         if \<not> pty then
           NewPlainAutomaticRequest (sr_sourceLabel request) selected (sr_childArgv request) environment
             resolver (sr_settings request) (sr_followSymlinks request)
         else
           InteractiveAutomaticRequest (sr_sourceLabel request) selected (sr_childArgv request) environment
             resolver terminal (sr_settings request) (sr_followSymlinks request))
     else
       bind_r (number_manual 0 (sr_manual request)) (\<lambda>selected.
         if \<not> pty then
           NewPlainManualRequest (sr_sourceLabel request) selected (sr_childArgv request) environment
             resolver (sr_followSymlinks request)
         else
           InteractiveManualRequest (sr_sourceLabel request) selected (sr_childArgv request) environment
             resolver terminal (sr_followSymlinks request)))"

section \<open>Weights\<close>

datatype final_weights_error =
    WeightSetIncomplete
  | WeightUnknown transfer_number
  | WeightRepeated transfer_number
  | MeasureFailed weights_error
  | WeightWithoutTransfer
  | WeightRejected allocation_error

definition validateWeightSet ::
  "selected_network list \<Rightarrow> transfer_weight list \<Rightarrow> final_weights_error + unit" where
  "validateWeightSet selected weights =
     (if length selected \<noteq> length weights then Inl WeightSetIncomplete
      else bind_r
        (scan_seen (\<lambda>w. if tw_transfer w \<notin> set (map sn_transfer selected)
                        then Some (WeightUnknown (tw_transfer w)) else None)
           tw_transfer (\<lambda>w. WeightRepeated (tw_transfer w)) [] weights)
        (\<lambda>_. Inr ()))"

text \<open>The conversion at the end of \<open>measure\<close>, from the observations the namespaces returned.\<close>

definition measured_weight :: "weight \<Rightarrow> final_weights_error + transfer_weight" where
  "measured_weight w =
     (if \<not> HasTransfer (wt_target w) then Inl WeightWithoutTransfer
      else case NewTransferWeight (tg_transfer (wt_target w)) (wt_value w) of
        Inl e \<Rightarrow> Inl (WeightRejected e) | Inr t \<Rightarrow> Inr t)"

definition measure_weights :: "observation list \<Rightarrow> final_weights_error + transfer_weight list" where
  "measure_weights results =
     (case RelativeWeights results False of
        Inl e \<Rightarrow> Inl (MeasureFailed e)
      | Inr None \<Rightarrow> Inr []
      | Inr (Some measured) \<Rightarrow> map_r measured_weight measured)"

definition lift_alloc :: "allocation_error + 'a \<Rightarrow> final_weights_error + 'a" where
  "lift_alloc r = (case r of Inl e \<Rightarrow> Inl (WeightRejected e) | Inr x \<Rightarrow> Inr x)"

definition finalWeights ::
  "transfer_request \<Rightarrow> observation list \<Rightarrow> final_weights_error + transfer_weight list" where
  "finalWeights request results =
     (if length (tr_automatic request) \<noteq> 0 then
        bind_r (measure_weights results) (\<lambda>weighted.
        bind_r (validateWeightSet (selectedNetworks request) weighted) (\<lambda>_.
          lift_alloc (NewTransferWeights weighted)))
      else
        bind_r (map_r (\<lambda>s. lift_alloc (NewTransferWeight (ms_transfer s) (ms_weight s))) (tr_manual request))
          (\<lambda>weighted. lift_alloc (NewTransferWeights weighted)))"

section \<open>Results in the order of the request\<close>

datatype evidence_error = ResultSetSize | ResultRepeats transfer_number | ResultOmits transfer_number

definition orderedTransferResults ::
  "selected_network list \<Rightarrow> child_transfer_result list \<Rightarrow> evidence_error + child_transfer_result list" where
  "orderedTransferResults selected results =
     (if length results \<noteq> length selected then Inl ResultSetSize
      else bind_r (scan_seen (\<lambda>_. None) ctr_Transfer (\<lambda>r. ResultRepeats (ctr_Transfer r)) [] results) (\<lambda>_.
        map_r (\<lambda>s. case find (\<lambda>r. ctr_Transfer r = sn_transfer s) results of
            None \<Rightarrow> Inl (ResultOmits (sn_transfer s)) | Some r \<Rightarrow> Inr r) selected))"

section \<open>Facts\<close>

lemma check_selected_Inr_iff:
  "check_selected ids ips ss = Inr seen \<longleftrightarrow>
     (\<forall>s \<in> set ss. num_value (sn_transfer s) \<noteq> 0 \<and> Is4 (sn_localIP s)) \<and>
     distinct (map sn_transfer ss) \<and> set (map sn_transfer ss) \<inter> set ids = {} \<and>
     distinct (map sn_localIP ss) \<and> set (map sn_localIP ss) \<inter> set ips = {} \<and>
     seen = rev (map sn_transfer ss) @ ids"
  by (induction ss arbitrary: ids ips) auto

lemma validateSelectedNetworks_iff:
  "validateSelectedNetworks ss = Inr () \<longleftrightarrow>
     ss \<noteq> [] \<and> length ss \<le> transfer_maximum \<and> list_all (\<lambda>s. Is4 (sn_localIP s)) ss \<and>
     (\<forall>s \<in> set ss. num_value (sn_transfer s) \<noteq> 0) \<and> distinct (map sn_transfer ss) \<and>
     distinct (map sn_localIP ss) \<and> {1..length ss} \<subseteq> num ` set (map sn_transfer ss)"
proof (cases "ss = [] \<or> transfer_maximum < length ss")
  case False
  then show ?thesis
    by (auto simp: validateSelectedNetworks_def bind_r_Inr_iff check_selected_Inr_iff first_missing_case
        list_all_iff)
qed (auto simp: validateSelectedNetworks_def)

interpretation selected_group: numbered_group sn_transfer "\<lambda>ss. validateSelectedNetworks ss = Inr ()"
  by unfold_locales (simp_all add: validateSelectedNetworks_iff)

text \<open>Networks numbered in order, as the worker numbers them.\<close>

definition numbered :: "nat \<Rightarrow> addr list \<Rightarrow> selected_network list" where
  "numbered k ips = map (\<lambda>(i, ip). \<lparr>sn_transfer = number_or_zero (Suc i), sn_localIP = ip\<rparr>) (enumerate k ips)"

lemma numbered_simps [simp]:
  "numbered k [] = []"
  "numbered k (ip # ips) = \<lparr>sn_transfer = number_or_zero (Suc k), sn_localIP = ip\<rparr> # numbered (Suc k) ips"
  by (simp_all add: numbered_def)

lemma length_numbered [simp]: "length (numbered k ips) = length ips" "numbered k ips = [] \<longleftrightarrow> ips = []"
  by (simp add: numbered_def) (cases ips; simp)

lemma map_sn_localIP_numbered [simp]: "map sn_localIP (numbered k ips) = ips"
  by (induction ips arbitrary: k) simp_all

lemma numbered_transfers: "k + length ips \<le> 35 \<Longrightarrow> map (num \<circ> sn_transfer) (numbered k ips) = [Suc k..<Suc (k + length ips)]"
  by (induction ips arbitrary: k) (simp_all add: num_number_or_zero upt_conv_Cons del: upt_Suc)

lemma numbered_zip:
  "k + length ips \<le> 35 \<Longrightarrow>
     map (\<lambda>s. (num (sn_transfer s), sn_localIP s)) (numbered k ips) = zip [Suc k..<Suc (k + length ips)] ips"
  by (induction ips arbitrary: k) (simp_all add: num_number_or_zero upt_conv_Cons del: upt_Suc)

lemma number_or_zero_nonzero: "1 \<le> k \<Longrightarrow> k \<le> 35 \<Longrightarrow> num_value (number_or_zero k) \<noteq> 0"
  using num_number_or_zero [of k] by (auto simp: num_def)

lemma number_automatic_eq:
  "list_all Is4 ips \<Longrightarrow> k + length ips \<le> 35 \<Longrightarrow> number_automatic k ips = Inr (numbered k ips)"
  by (induction ips arbitrary: k) (auto simp: NewAutomaticNetworkSelection_def number_or_zero_nonzero)

definition numbered_manual :: "nat \<Rightarrow> manual_network list \<Rightarrow> manual_selection list" where
  "numbered_manual k ns =
     map (\<lambda>(i, n). \<lparr>ms_transfer = number_or_zero (Suc i), ms_localIP = mn_localIP n, ms_weight = mn_weight n\<rparr>)
       (enumerate k ns)"

lemma number_manual_eq:
  "list_all manual_ok ns \<Longrightarrow> k + length ns \<le> 35 \<Longrightarrow> number_manual k ns = Inr (numbered_manual k ns)"
  by (induction ns arbitrary: k)
    (auto simp: NewManualNetworkSelection_def number_or_zero_nonzero manual_ok_def numbered_manual_def)

lemma numbered_manual_simps [simp]:
  "manualSelectedNetworks (numbered_manual k ns) = numbered k (map mn_localIP ns)"
  "map ms_weight (numbered_manual k ns) = map mn_weight ns"
  "numbered_manual k ns = [] \<longleftrightarrow> ns = []"
  by (induction ns arbitrary: k) (simp_all add: numbered_manual_def manualSelectedNetworks_def)

lemma numbered_valid:
  assumes "ips \<noteq> []" "length ips \<le> 35" "list_all Is4 ips" "distinct ips"
  shows "validateSelectedNetworks (numbered 0 ips) = Inr ()"
proof -
  have n: "map (num \<circ> sn_transfer) (numbered 0 ips) = [1..<Suc (length ips)]"
    using numbered_transfers [of 0 ips] assms(2) by simp
  then have "distinct (map (num \<circ> sn_transfer) (numbered 0 ips))" by (metis distinct_upt)
  then have "distinct (map sn_transfer (numbered 0 ips))" by (auto simp: distinct_map inj_on_def)
  moreover have "set (map (num \<circ> sn_transfer) (numbered 0 ips)) = {1..length ips}"
    using n by (metis atLeastLessThanSuc_atLeastAtMost set_upt)
  moreover have "num_value (sn_transfer s) \<noteq> 0" if "s \<in> set (numbered 0 ips)" for s
  proof -
    have "num (sn_transfer s) \<in> {1..length ips}"
      using that n by (metis (no_types, lifting) atLeastLessThanSuc_atLeastAtMost comp_apply image_eqI list.set_map set_upt)
    then show ?thesis by (auto simp: num_def)
  qed
  moreover have "list_all (\<lambda>s. Is4 (sn_localIP s)) (numbered 0 ips)"
    using assms(3) map_sn_localIP_numbered [of 0 ips]
    by (metis (no_types, lifting) list_all_length list_all_iff length_map nth_map in_set_conv_nth)
  ultimately show ?thesis
    using assms by (auto simp: validateSelectedNetworks_iff transfer_maximum_def image_image)
qed

subsection \<open>Environments\<close>

definition environment_ok :: "string list \<Rightarrow> bool" where
  "environment_ok env \<longleftrightarrow> list_all (\<lambda>e. \<not> request_entry_bad e) env \<and> distinct (map entry_name_of env)"

lemma entry_name_TERM:
  assumes "entry_name_of e = ''TERM''" "CHR ''='' \<in> set e"
  shows "HasPrefix e ''TERM=''"
proof -
  have cut: "snd (snd (str_cut sep s)) \<Longrightarrow> s = fst (str_cut sep s) @ sep # fst (snd (str_cut sep s))" for sep s
    by (induction s) (auto split: prod.splits if_splits)
  have "snd (snd (str_cut (CHR ''='') e))" using assms(2) by (simp add: str_cut_found_iff)
  then have "e = ''TERM='' @ fst (snd (str_cut (CHR ''='') e))"
    using cut [of "CHR ''=''" e] assms(1) by (simp add: entry_name_of_def)
  then show ?thesis unfolding HasPrefix_def by (metis append_eq_conv_conj)
qed

lemma request_entry_good: "\<not> request_entry_bad e \<Longrightarrow> CHR ''='' \<in> set e"
  using str_cut_found_iff [of "CHR ''=''" e] by (auto simp: request_entry_bad_def split: prod.splits)

lemma childEnvironment_ok: "environment_ok env \<Longrightarrow> environment_ok (childEnvironment env)"
proof -
  assume ok: "environment_ok env"
  have "entry_name_of ''TERM=xterm-256color'' = ''TERM''" "\<not> request_entry_bad ''TERM=xterm-256color''"
    by code_simp+
  moreover have "entry_name_of e \<noteq> ''TERM''" if "e \<in> set env" "\<not> HasPrefix e ''TERM=''" for e
    using that ok entry_name_TERM request_entry_good by (auto simp: environment_ok_def list_all_iff)
  moreover have "distinct (map entry_name_of (filter (\<lambda>e. \<not> HasPrefix e ''TERM='') env))"
    using ok by (simp add: environment_ok_def distinct_map_filter)
  ultimately show ?thesis
    using ok by (fastforce simp: environment_ok_def childEnvironment_def list_all_iff)
qed

subsection \<open>What the worker builds\<close>

lemma request_io_ok:
  assumes "common_valid r" "environment_ok env"
  shows "validateCommandIntent (sr_childArgv r) env
    (if io_mode (sr_commandIO r) = ptyMode then io_terminal (sr_commandIO r) else no_terminal)
    (if io_mode (sr_commandIO r) = ptyMode then InteractiveCommandIO else PlainCommandIO) = Inr ()"
proof -
  have "\<not> list_ex has_nul (sr_childArgv r)" "sr_childArgv r \<noteq> []"
    "length (filter (\<lambda>a. a = ''{}'') (sr_childArgv r)) = 1"
    using assms(1) by (auto simp: common_valid_def list_all_iff list_ex_iff validText_def)
  moreover have "io_valid (sr_commandIO r)" using assms(1) by (simp add: common_valid_def)
  ultimately show ?thesis
    using assms(2)
    by (auto simp: validateCommandIntent_def environment_ok_def list_all_iff result_simps io_valid_def
        no_terminal_def Let_def)
qed

lemma clean_source_name:
  assumes "common_valid r"
  shows "sr_sourceLabel r \<noteq> []" "\<not> has_nul (sr_sourceLabel r)"
    "proper_part (Base (Clean (sr_sourceLabel r)))"
proof -
  have l: "IsAbs (sr_sourceLabel r)" "Clean (sr_sourceLabel r) = sr_sourceLabel r" "sr_sourceLabel r \<noteq> ''/''"
    using assms by (auto simp: common_valid_def)
  show "sr_sourceLabel r \<noteq> []" "\<not> has_nul (sr_sourceLabel r)"
    using assms by (auto simp: common_valid_def validText_def)
  obtain ps where ps: "ps \<noteq> []" "list_all proper_part ps" "sr_sourceLabel r = slash # join_with slash ps"
    using absolute_clean_parts [OF l] by blast
  have ns: "\<And>p. p \<in> set ps \<Longrightarrow> slash \<notin> set p" using ps(2) by (auto simp: list_all_iff proper_part_def)
  have split: "split_on slash (join_with slash ps) = ps" using ps(1) ns by (rule split_join)
  have last: "proper_part (last ps)" using ps(1,2) by (simp add: list_all_iff)
  have jl: "join_with slash ps \<noteq> [] \<and> last (join_with slash ps) = last (last ps)"
    using ps(1,2) by (induction slash ps rule: join_with.induct) (auto simp: proper_part_def)
  then have "last (sr_sourceLabel r) \<noteq> slash"
    using last last_in_set [of "last ps"] ps(3) by (metis last_ConsR proper_part_def)
  then have "drop_trailing_slashes (sr_sourceLabel r) = sr_sourceLabel r"
    using ps(3) by (intro drop_trailing_slashes_id) auto
  then have "Base (sr_sourceLabel r) = last ps"
    using ps(1,3) split by (simp add: Base_def)
  then show "proper_part (Base (Clean (sr_sourceLabel r)))" using l last by simp
qed

lemma newRequest_Inr_iff:
  "newRequest source networks argv env resolver terminal io follow = Inr tr \<longleftrightarrow>
     source \<noteq> [] \<and> \<not> has_nul source \<and> Base (Clean source) \<notin> {''.'', ''..'', ''/''} \<and>
     validateSelectedNetworks networks = Inr () \<and> validateCommandIntent argv env terminal io = Inr () \<and>
     tr = \<lparr>tr_sourceName = Base (Clean source), tr_manual = [], tr_automatic = [], tr_argv = argv,
           tr_environment = env, tr_resolver = resolver, tr_terminal = terminal, tr_commandIO = io,
           tr_settings = no_settings, tr_followSymlinks = follow\<rparr>"
  by (auto simp: newRequest_def Let_def bind_r_Inr_iff)

text \<open>The resolver choice of the worker.\<close>

lemma resolver_choice:
  assumes "common_valid r" "distinct (sr_dns r)"
  shows "(if length (sr_dns r) \<noteq> 0
      then (case DirectIntent (sr_dns r) of Inl e \<Rightarrow> Inl (ResolverIntentError e) | Inr i \<Rightarrow> Inr i)
      else Inr DefaultIntent) = (Inr \<lparr>ri_explicit = sr_dns r\<rparr> :: request_error + resolver_intent)"
  using assms DirectIntent_Inr_iff [of "sr_dns r" "\<lparr>ri_explicit = sr_dns r\<rparr>"]
  by (cases "sr_dns r = []") (auto simp: DefaultIntent_def common_valid_def)

definition start_networks :: "start_request \<Rightarrow> addr list" where
  "start_networks r = (if AutomaticWeight r then sr_automatic r else map mn_localIP (sr_manual r))"

lemma start_networks_ok:
  assumes "start_validate r = Inr ()"
  shows "start_networks r \<noteq> []" "length (start_networks r) \<le> 35" "list_all Is4 (start_networks r)"
    "distinct (start_networks r)"
  using assms mode_AutomaticWeight [of r]
  by (auto simp: start_validate_iff start_networks_def manual_mode_def automatic_mode_def transfer_maximum_def
      list_all_iff manual_ok_def split: if_splits)

section \<open>Properties\<close>

text \<open>
  C7: a start message the worker could decode is a transfer it can build: with pairwise
  different resolvers and a well-formed process environment, \<open>transferRequest\<close> succeeds; the
  networks keep their order and are numbered \<open>1..n\<close>; weights, argument vector, settings
  and the symlink choice are taken over; the terminal is kept exactly for a PTY.
\<close>

theorem worker_builds_the_requested_transfer:
  assumes "start_Decode url_parse p = Inr r" "distinct (sr_dns r)" "environment_ok env"
  shows "\<exists>tr. transferRequest r (childEnvironment env) = Inr tr \<and>
    map (\<lambda>s. (num (sn_transfer s), sn_localIP s)) (selectedNetworks tr) =
      zip [1..<Suc (length (start_networks r))] (start_networks r) \<and>
    map ms_weight (tr_manual tr) = map mn_weight (sr_manual r) \<and>
    tr_argv tr = sr_childArgv r \<and> ri_explicit (tr_resolver tr) = sr_dns r \<and>
    (AutomaticWeight r \<longrightarrow> tr_settings tr = sr_settings r) \<and>
    tr_followSymlinks tr = sr_followSymlinks r \<and>
    (tr_commandIO tr = InteractiveCommandIO \<longleftrightarrow> io_mode (sr_commandIO r) = ptyMode)"
proof -
  have v: "start_validate r = Inr ()" using assms(1) by (rule start_Decode_validate)
  then have c: "common_valid r" by (simp add: start_validate_iff)
  note n = start_networks_ok [OF v]
  define i where "i = \<lparr>ri_explicit = sr_dns r\<rparr>"
  note res = resolver_choice [OF c assms(2), folded i_def]
  define base where "base = \<lparr>tr_sourceName = Base (Clean (sr_sourceLabel r)), tr_manual = [], tr_automatic = [],
    tr_argv = sr_childArgv r, tr_environment = childEnvironment env, tr_resolver = i,
    tr_terminal = (if io_mode (sr_commandIO r) = ptyMode then io_terminal (sr_commandIO r) else no_terminal),
    tr_commandIO = (if io_mode (sr_commandIO r) = ptyMode then InteractiveCommandIO else PlainCommandIO),
    tr_settings = no_settings, tr_followSymlinks = sr_followSymlinks r\<rparr>"
  have nr: "newRequest (sr_sourceLabel r) (numbered 0 (start_networks r)) (sr_childArgv r) (childEnvironment env) i
      (tr_terminal base) (tr_commandIO base) (sr_followSymlinks r) = Inr base"
    unfolding newRequest_Inr_iff base_def
    using clean_source_name [OF c] numbered_valid [OF n] request_io_ok [OF c childEnvironment_ok [OF assms(3)]]
    by (auto simp: proper_part_def)
  have zip: "map (\<lambda>s. (num (sn_transfer s), sn_localIP s)) (numbered 0 (start_networks r)) =
      zip [1..<Suc (length (start_networks r))] (start_networks r)"
    using numbered_zip [of 0 "start_networks r"] n(2) by simp
  show ?thesis
  proof (cases "AutomaticWeight r")
    case True
    then have m: "automatic_mode r" using v mode_AutomaticWeight by (auto simp: start_validate_iff)
    then have "transferRequest r (childEnvironment env) =
        Inr (base\<lparr>tr_automatic := numbered 0 (start_networks r), tr_settings := sr_settings r\<rparr>)"
      using True nr res number_automatic_eq [of "start_networks r" 0] n
      by (simp add: transferRequest_def start_networks_def PTYSize_def NewPlainAutomaticRequest_def
          InteractiveAutomaticRequest_def tr_NewAutomaticRequest_def automatic_mode_def base_def split: if_splits)
    then show ?thesis
      using True zip m by (simp add: base_def i_def selectedNetworks_def automatic_mode_def)
  next
    case False
    then have m: "manual_mode r" using v mode_AutomaticWeight by (auto simp: start_validate_iff)
    then have nm: "number_manual 0 (sr_manual r) = Inr (numbered_manual 0 (sr_manual r))"
      using number_manual_eq [of "sr_manual r" 0] by (simp add: manual_mode_def transfer_maximum_def)
    have "validateManualSelections (numbered_manual 0 (sr_manual r)) = Inr ()"
      using m by (auto simp: validateManualSelections_def numbered_manual_def manual_mode_def list_ex_iff
          list_all_iff manual_ok_def in_set_enumerate_eq)
    then have "transferRequest r (childEnvironment env) = Inr (base\<lparr>tr_manual := numbered_manual 0 (sr_manual r)\<rparr>)"
      using False nr res nm
      by (simp add: transferRequest_def start_networks_def PTYSize_def NewPlainManualRequest_def
          InteractiveManualRequest_def tr_NewManualRequest_def base_def split: if_splits)
    then show ?thesis
      using False zip m by (simp add: base_def i_def selectedNetworks_def manual_mode_def start_networks_def)
  qed
qed

theorem worker_builds_the_requested_transfer_witness:
  "\<exists>tr. transferRequest demo_manual (childEnvironment [''HOME=/root'', ''TERM=vt100'']) = Inr tr \<and>
     map (\<lambda>s. num (sn_transfer s)) (selectedNetworks tr) = [1, 2]"
proof -
  have e: "environment_ok [''HOME=/root'', ''TERM=vt100'']" by code_simp
  have d: "distinct (sr_dns demo_manual)" "start_networks demo_manual = [V4 192 168 1 2, V4 10 0 0 2]"
    by (simp_all add: demo_manual_def start_networks_def AutomaticWeight_def)
  have "\<exists>tr. transferRequest demo_manual (childEnvironment [''HOME=/root'', ''TERM=vt100'']) = Inr tr \<and>
      map (\<lambda>s. (num (sn_transfer s), sn_localIP s)) (selectedNetworks tr) =
        zip [1..<Suc (length (start_networks demo_manual))] (start_networks demo_manual)"
    using worker_builds_the_requested_transfer [OF demo_manual_decodes d(1) e] by blast
  then obtain tr where tr: "transferRequest demo_manual (childEnvironment [''HOME=/root'', ''TERM=vt100'']) = Inr tr"
    "map (\<lambda>s. (num (sn_transfer s), sn_localIP s)) (selectedNetworks tr) = [(1, V4 192 168 1 2), (2, V4 10 0 0 2)]"
    unfolding d(2) by (auto simp: upt_rec)
  then have "map fst (map (\<lambda>s. (num (sn_transfer s), sn_localIP s)) (selectedNetworks tr)) = [1, 2]" by simp
  with tr(1) show ?thesis by (auto simp: o_def)
qed

text \<open>
  C12: a start message that repeats a resolver passes every check of the parent and of the
  decoder, but the worker cannot build the transfer: \<open>DirectIntent\<close> refuses it.
\<close>

theorem repeated_resolvers_fail_in_the_worker:
  assumes "start_validate r = Inr ()" "\<not> distinct (sr_dns r)"
  shows "\<exists>a \<in> set (sr_dns r). transferRequest r env = Inl (ResolverIntentError (DirectRepeated a))"
proof -
  have c: "list_all (\<lambda>a. \<not> dns_bad a) (sr_dns r)" "sr_dns r \<noteq> []"
    using assms by (auto simp: start_validate_iff common_valid_def)
  then have "\<nexists>i. DirectIntent (sr_dns r) = Inr i" using assms(2) by (simp add: DirectIntent_Inr_iff)
  then obtain e where e: "DirectIntent (sr_dns r) = Inl e" by (cases "DirectIntent (sr_dns r)") auto
  then have "\<exists>a \<in> set (sr_dns r). e = DirectRepeated a"
    using c by (auto simp: DirectIntent_def bind_r_Inl_iff list_all_iff dns_bad_def dest!: scan_seen_Inl
        split: if_splits)
  then show ?thesis using e c(2) by (auto simp: transferRequest_def)
qed

definition repeated_dns :: start_request where
  "repeated_dns = demo_manual\<lparr>sr_dns := [V4 1 1 1 1, V4 1 1 1 1]\<rparr>"

theorem repeated_resolvers_fail_in_the_worker_witness:
  "start_validate repeated_dns = Inr () \<and>
   transferRequest repeated_dns [] = Inl (ResolverIntentError (DirectRepeated (V4 1 1 1 1)))"
proof -
  have "manual_mode repeated_dns"
    using demo_validate(2) mode_AutomaticWeight(2) [of demo_manual] demo_manual_facts(1)
    by (auto simp: start_validate_iff manual_mode_def repeated_dns_def)
  moreover have "\<not> dns_bad (V4 1 1 1 1)" by code_simp
  then have "common_valid repeated_dns"
    using demo_common(2) by (simp add: common_valid_def repeated_dns_def maximumDNSResolvers_def)
  ultimately have v: "start_validate repeated_dns = Inr ()" by (simp add: start_validate_iff)
  moreover have "sr_dns repeated_dns = [V4 1 1 1 1, V4 1 1 1 1]" by (simp add: repeated_dns_def)
  ultimately show ?thesis using repeated_resolvers_fail_in_the_worker [OF v, of "[]"] by simp
qed

subsection \<open>Final weights\<close>

text \<open>What every constructor of a transfer request establishes.\<close>

definition request_ok :: "transfer_request \<Rightarrow> bool" where
  "request_ok tr \<longleftrightarrow> validateSelectedNetworks (selectedNetworks tr) = Inr () \<and>
     (tr_manual tr = [] \<longleftrightarrow> tr_automatic tr \<noteq> []) \<and> list_all (\<lambda>s. ms_weight s \<noteq> 0) (tr_manual tr)"

lemma manualSelectedNetworks_simps [simp]:
  "length (manualSelectedNetworks ss) = length ss" "manualSelectedNetworks ss = [] \<longleftrightarrow> ss = []"
  "map sn_transfer (manualSelectedNetworks ss) = map ms_transfer ss"
  by (simp_all add: manualSelectedNetworks_def)

lemma selected_not_empty: "validateSelectedNetworks ss = Inr () \<Longrightarrow> ss \<noteq> []"
  by (simp add: validateSelectedNetworks_iff)

lemma constructors_request_ok:
  "tr_NewManualRequest io source selected argv env res term follow = Inr tr \<Longrightarrow> request_ok tr"
  "tr_NewAutomaticRequest io source networks argv env res term settings follow = Inr tr \<Longrightarrow> request_ok tr"
  by (auto simp: tr_NewManualRequest_def tr_NewAutomaticRequest_def bind_r_Inr_iff newRequest_Inr_iff
      validateManualSelections_def request_ok_def selectedNetworks_def list_ex_iff list_all_iff
      dest: selected_not_empty split: if_splits)

lemma transferRequest_ok: "transferRequest r env = Inr tr \<Longrightarrow> request_ok tr"
  by (auto simp: transferRequest_def Let_def bind_r_Inr_iff NewPlainManualRequest_def NewPlainAutomaticRequest_def
      InteractiveManualRequest_def InteractiveAutomaticRequest_def intro: constructors_request_ok split: if_splits)

lemma lift_alloc_Inr_iff [result_simps]: "lift_alloc m = Inr x \<longleftrightarrow> m = Inr x"
  by (cases m) (simp_all add: lift_alloc_def)

lemma validateWeightSet_iff [result_simps]:
  "validateWeightSet selected ws = Inr () \<longleftrightarrow>
     length selected = length ws \<and> set (map tw_transfer ws) \<subseteq> set (map sn_transfer selected) \<and>
     distinct (map tw_transfer ws)"
  by (auto simp: validateWeightSet_def result_simps split: if_splits)

lemma weights_complete:
  assumes "distinct ts" "{1..length ts} \<subseteq> num ` set ts" "map tw_transfer ws = rs" "mset rs = mset ts"
  shows "map (num \<circ> tw_transfer) (sort_key tw_transfer ws) = [1..<Suc (length ts)]"
proof -
  have "length ws = length ts" using assms(3,4) by (metis length_map size_mset)
  moreover have "distinct rs" "set rs = set ts"
    using assms(1,4) by (metis mset_eq_imp_distinct_iff, metis set_mset_mset)
  ultimately show ?thesis using complete_sorted_numbers [of tw_transfer ws] assms by simp
qed

lemma finalWeights_Inr:
  assumes "request_ok tr" "finalWeights tr obs = Inr ws"
  obtains weighted where "ws = sort_key tw_transfer weighted" "weights_ok ws"
    "mset (map tw_transfer weighted) = mset (map sn_transfer (selectedNetworks tr))"
    "tr_automatic tr = [] \<Longrightarrow> map tw_weight weighted = map ms_weight (tr_manual tr) \<and>
       map tw_transfer weighted = map ms_transfer (tr_manual tr)"
proof (cases "tr_automatic tr = []")
  case True
  then obtain weighted where w: "list_all2 (\<lambda>s w. NewTransferWeight (ms_transfer s) (ms_weight s) = Inr w)
      (tr_manual tr) weighted" "NewTransferWeights weighted = Inr ws"
    using assms(2) by (auto simp: finalWeights_def result_simps)
  have m: "map tw_transfer weighted = map ms_transfer (tr_manual tr)"
    "map tw_weight weighted = map ms_weight (tr_manual tr)"
    using w(1) by (induction rule: list_all2_induct) (auto simp: NewTransferWeight_def split: if_splits)
  have "tr_manual tr \<noteq> []" using assms(1) True by (simp add: request_ok_def)
  then show ?thesis
    using that [of weighted] w(2) NewTransferWeights_ok [OF w(2)] m
    by (simp add: selectedNetworks_def NewTransferWeights_Inr_iff)
next
  case False
  then obtain weighted where w: "validateWeightSet (selectedNetworks tr) weighted = Inr ()"
    "NewTransferWeights weighted = Inr ws"
    using assms(2) by (auto simp: finalWeights_def bind_r_Inr_iff lift_alloc_Inr_iff)
  have d: "distinct (map sn_transfer (selectedNetworks tr))"
    using assms(1) by (simp add: request_ok_def validateSelectedNetworks_iff)
  have sub: "set (map tw_transfer weighted) \<subseteq> set (map sn_transfer (selectedNetworks tr))"
    "distinct (map tw_transfer weighted)" "length (selectedNetworks tr) = length weighted"
    using w(1) by (simp_all add: validateWeightSet_iff)
  have "card (set (map tw_transfer weighted)) = card (set (map sn_transfer (selectedNetworks tr)))"
    using distinct_card [OF sub(2)] distinct_card [OF d] sub(3) by simp
  then have "set (map tw_transfer weighted) = set (map sn_transfer (selectedNetworks tr))"
    by (rule card_subset_eq [OF finite_set sub(1)])
  then have "mset (map tw_transfer weighted) = mset (map sn_transfer (selectedNetworks tr))"
    using sub(2) d by (metis set_eq_iff_mset_eq_distinct)
  then show ?thesis
    using that [of weighted] w(2) NewTransferWeights_ok [OF w(2)] False by (simp add: NewTransferWeights_Inr_iff)
qed

text \<open>
  the weights an allocation starts from cover the run exactly: for a request the
  constructors accept, \<open>finalWeights\<close> returns one positive weight for each of the transfers
  \<open>1..n\<close>, in order; with manual weights it always succeeds and the weight of a transfer is
  the one the user gave it.
\<close>

theorem final_weights_cover_the_run:
  assumes "request_ok tr"
  shows "(finalWeights tr obs = Inr ws \<longrightarrow>
      weights_ok ws \<and> map (num \<circ> tw_transfer) ws = [1..<Suc (length (selectedNetworks tr))]) \<and>
    (tr_automatic tr = [] \<longrightarrow>
      (\<exists>ws. finalWeights tr obs = Inr ws \<and>
         set (map (\<lambda>w. (tw_transfer w, tw_weight w)) ws) =
         set (map (\<lambda>s. (ms_transfer s, ms_weight s)) (tr_manual tr))))"
proof (intro conjI impI)
  assume "finalWeights tr obs = Inr ws"
  then obtain weighted where w: "ws = sort_key tw_transfer weighted" "weights_ok ws"
    "mset (map tw_transfer weighted) = mset (map sn_transfer (selectedNetworks tr))"
    by (rule finalWeights_Inr [OF assms]) blast
  show "weights_ok ws" by (rule w(2))
  show "map (num \<circ> tw_transfer) ws = [1..<Suc (length (selectedNetworks tr))]"
    using weights_complete [OF _ _ refl w(3)] assms
    by (simp add: w(1) request_ok_def validateSelectedNetworks_iff)
next
  assume man: "tr_automatic tr = []"
  have sel: "validateSelectedNetworks (manualSelectedNetworks (tr_manual tr)) = Inr ()"
    and wt: "list_all (\<lambda>s. ms_weight s \<noteq> 0) (tr_manual tr)"
    using assms man by (auto simp: request_ok_def selectedNetworks_def)
  let ?w = "map (\<lambda>s. \<lparr>tw_transfer = ms_transfer s, tw_weight = ms_weight s\<rparr>) (tr_manual tr)"
  have nz: "\<forall>s \<in> set (tr_manual tr). num_value (ms_transfer s) \<noteq> 0"
    using sel by (fastforce simp: validateSelectedNetworks_iff manualSelectedNetworks_def)
  have "map_r (\<lambda>s. lift_alloc (NewTransferWeight (ms_transfer s) (ms_weight s))) (tr_manual tr) = Inr ?w"
    using nz wt by (intro map_r_total) (auto simp: NewTransferWeight_def lift_alloc_def list_all_iff)
  moreover have "NewTransferWeights ?w = Inr (sort_key tw_transfer ?w)"
    using nz wt sel by (auto simp: NewTransferWeights_Inr_iff validateSelectedNetworks_iff list_all_iff o_def)
  ultimately have "finalWeights tr obs = Inr (sort_key tw_transfer ?w)"
    using man by (simp add: finalWeights_def lift_alloc_def)
  then show "\<exists>ws. finalWeights tr obs = Inr ws \<and>
      set (map (\<lambda>w. (tw_transfer w, tw_weight w)) ws) = set (map (\<lambda>s. (ms_transfer s, ms_weight s)) (tr_manual tr))"
    by (auto simp: image_image)
qed

definition demo_transfer :: transfer_request where
  "demo_transfer = \<lparr>tr_sourceName = ''src'',
     tr_manual = [\<lparr>ms_transfer = Number 2, ms_localIP = V4 10 0 0 2, ms_weight = 1\<rparr>,
       \<lparr>ms_transfer = Number 1, ms_localIP = V4 192 168 1 2, ms_weight = 3\<rparr>],
     tr_automatic = [], tr_argv = [''copy'', ''{}''], tr_environment = [], tr_resolver = DefaultIntent,
     tr_terminal = no_terminal, tr_commandIO = PlainCommandIO, tr_settings = no_settings,
     tr_followSymlinks = False\<rparr>"

theorem final_weights_cover_the_run_witness:
  "\<exists>ws. finalWeights demo_transfer [] = Inr ws \<and> weights_ok ws \<and> map (num \<circ> tw_transfer) ws = [1, 2]"
proof -
  have ok: "request_ok demo_transfer" by code_simp
  have "tr_automatic demo_transfer = []" "length (selectedNetworks demo_transfer) = 2"
    by (simp_all add: demo_transfer_def selectedNetworks_def)
  moreover from this obtain ws where "finalWeights demo_transfer [] = Inr ws"
    using final_weights_cover_the_run [OF ok, of "[]"] by blast
  moreover have "[1..<Suc 2] = [1, 2]" by (simp add: upt_rec)
  ultimately show ?thesis using final_weights_cover_the_run [OF ok, of "[]" ws] by metis
qed

text \<open>
  the results reported for a run are the children's results in the order of the
  request, none missing, none repeated and none invented.
\<close>

theorem reported_results_match_the_request:
  assumes "orderedTransferResults selected results = Inr ordered" "distinct (map sn_transfer selected)"
  shows "map ctr_Transfer ordered = map sn_transfer selected \<and> mset ordered = mset results"
proof -
  have len: "length results = length selected" and d: "distinct (map ctr_Transfer results)"
    and all: "list_all2 (\<lambda>s r. (case find (\<lambda>r. ctr_Transfer r = sn_transfer s) results of
            None \<Rightarrow> Inl (ResultOmits (sn_transfer s)) | Some r \<Rightarrow> Inr r) = Inr r) selected ordered"
    using assms(1) by (auto simp: orderedTransferResults_def result_simps split: if_splits)
  have each: "ctr_Transfer r = sn_transfer s \<and> r \<in> set results"
    if "(case find (\<lambda>r. ctr_Transfer r = sn_transfer s) results of
            None \<Rightarrow> Inl (ResultOmits (sn_transfer s)) | Some r \<Rightarrow> Inr r) = Inr r" for s r
    using that by (auto simp: find_Some_iff split: option.splits)
  from all have m: "map ctr_Transfer ordered = map sn_transfer selected" "set ordered \<subseteq> set results"
    by (induction rule: list_all2_induct) (use each in auto)
  have "distinct ordered" "distinct results"
    using m(1) assms(2) d by (metis distinct_map, simp add: distinct_map)
  moreover have "length ordered = length results" using m(1) len by (metis length_map)
  ultimately have "set ordered = set results"
    using m(2) by (metis card_subset_eq distinct_card finite_set)
  then show ?thesis
    using m(1) \<open>distinct ordered\<close> \<open>distinct results\<close> by (simp add: set_eq_iff_mset_eq_distinct)
qed

theorem reported_results_match_the_request_witness:
  "\<exists>ordered. orderedTransferResults (selectedNetworks demo_transfer) (rev demo_child_results) = Inr ordered \<and>
     mset ordered = mset demo_child_results"
proof -
  have "is_ok (orderedTransferResults (selectedNetworks demo_transfer) (rev demo_child_results))" by code_simp
  then obtain o' where o: "orderedTransferResults (selectedNetworks demo_transfer) (rev demo_child_results) = Inr o'"
    by (auto simp: is_ok_iff)
  have "distinct (map sn_transfer (selectedNetworks demo_transfer))" by code_simp
  then show ?thesis using reported_results_match_the_request [OF o] o by simp
qed

end
