(* ===== verification/Plain_Sanitizer.thy ===== *)
theory Plain_Sanitizer
  imports Utf8
begin

text \<open>
  The incremental filter that keeps terminal control sequences out of plain output
  (\<open>internal/plainoutput/sanitizer.go\<close>).  The valid prefix \<open>utf8Bytes[:utf8Length]\<close> of the
  code is a list.  A chunk is the fixed array of eight bytes the code copies into; what does
  not fit would be lost, and the facts show that everything fits.
\<close>

section \<open>Chunks\<close>

definition chunk_capacity :: nat where
  "chunk_capacity = 4 * 2"

definition chunk_append :: "byte list \<Rightarrow> byte list \<Rightarrow> byte list" where
  "chunk_append content chunk = chunk @ take (chunk_capacity - length chunk) content"

definition appendReplacement :: "byte list \<Rightarrow> byte list" where
  "appendReplacement chunk = chunk_append replacement chunk"

section \<open>The state machine\<close>

datatype terminalSequence =
    terminalText
  | terminalEscape
  | terminalEscapeIntermediate
  | terminalCSI
  | terminalOSC
  | terminalControlString
  | terminalOSCEscape
  | terminalStringEscape

record terminal_sanitizer =
  sz_sequence :: terminalSequence
  sz_utf8Bytes :: "byte list"
  sz_utf8Expected :: nat
  sz_remaining :: nat
  sz_C2 :: bool

definition new_sanitizer :: terminal_sanitizer where
  "new_sanitizer = \<lparr>sz_sequence = terminalText, sz_utf8Bytes = [], sz_utf8Expected = 0, sz_remaining = 0, sz_C2 = False\<rparr>"

definition resetUTF8 :: "terminal_sanitizer \<Rightarrow> terminal_sanitizer" where
  "resetUTF8 s = s\<lparr>sz_utf8Bytes := [], sz_utf8Expected := 0\<rparr>"

definition resetControlStringUTF8 :: "terminal_sanitizer \<Rightarrow> terminal_sanitizer" where
  "resetControlStringUTF8 s = s\<lparr>sz_remaining := 0, sz_C2 := False\<rparr>"

definition resetSequence :: "terminal_sanitizer \<Rightarrow> terminal_sanitizer" where
  "resetSequence s = resetControlStringUTF8 (s\<lparr>sz_sequence := terminalText\<rparr>)"

definition utf8SequenceLength :: "byte \<Rightarrow> nat" where
  "utf8SequenceLength b =
     (if 0xc2 \<le> b \<and> b \<le> 0xdf then 2 else if 0xe0 \<le> b \<and> b \<le> 0xef then 3
      else if 0xf0 \<le> b \<and> b \<le> 0xf4 then 4 else 0)"

definition consumeC1 :: "byte \<Rightarrow> terminal_sanitizer \<Rightarrow> terminal_sanitizer" where
  "consumeC1 b s =
     (if b \<in> {0x90, 0x98, 0x9e, 0x9f} then resetControlStringUTF8 (s\<lparr>sz_sequence := terminalControlString\<rparr>)
      else if b = 0x9b then s\<lparr>sz_sequence := terminalCSI\<rparr>
      else if b = 0x9d then resetControlStringUTF8 (s\<lparr>sz_sequence := terminalOSC\<rparr>)
      else s)"

definition consumeRawC1 :: "byte \<Rightarrow> terminal_sanitizer \<Rightarrow> terminal_sanitizer" where
  "consumeRawC1 b s = (if 0x80 \<le> b \<and> b \<le> 0x9f then consumeC1 b s else s)"

text \<open>\<open>consumeText\<close> outside a pending rune, and the whole of it; the recursion of the code is one level deep.\<close>

definition consume_fresh :: "byte \<Rightarrow> terminal_sanitizer \<Rightarrow> byte list \<Rightarrow> byte list \<times> terminal_sanitizer" where
  "consume_fresh b s visible =
     (if b < 0x80 then
        if b = 0x1b then (visible, s\<lparr>sz_sequence := terminalEscape\<rparr>)
        else (chunk_append [b] visible, s)
      else if b \<le> 0x9f then (visible, consumeC1 b s)
      else
        let expected = utf8SequenceLength b in
        if expected = 0 then (appendReplacement visible, s)
        else (visible, s\<lparr>sz_utf8Bytes := [b], sz_utf8Expected := expected\<rparr>))"

definition consumeText :: "byte \<Rightarrow> terminal_sanitizer \<Rightarrow> byte list \<Rightarrow> byte list \<times> terminal_sanitizer" where
  "consumeText b s visible =
     (if length (sz_utf8Bytes s) \<noteq> 0 then
        if b < 0x80 \<or> b > 0xbf then consume_fresh b (resetUTF8 s) (appendReplacement visible)
        else
          let content = sz_utf8Bytes s @ [b] in
          if length content < sz_utf8Expected s then (visible, s\<lparr>sz_utf8Bytes := content\<rparr>)
          else if \<not> utf8_valid content then (appendReplacement visible, resetUTF8 s)
          else
            let character = DecodeRune content in
            if 0x80 \<le> character \<and> character \<le> 0x9f
            then (visible, resetUTF8 (consumeC1 (word_of_nat character) s))
            else (chunk_append content visible, resetUTF8 s)
      else consume_fresh b s visible)"

definition consumeEscape :: "byte \<Rightarrow> terminal_sanitizer \<Rightarrow> terminal_sanitizer" where
  "consumeEscape b s =
     (if b = 0x1b then s
      else if b = 0x5b then s\<lparr>sz_sequence := terminalCSI\<rparr>
      else if b = 0x5d then resetControlStringUTF8 (s\<lparr>sz_sequence := terminalOSC\<rparr>)
      else if b \<in> {0x50, 0x58, 0x5e, 0x5f} then resetControlStringUTF8 (s\<lparr>sz_sequence := terminalControlString\<rparr>)
      else if 0x20 \<le> b \<and> b \<le> 0x2f then s\<lparr>sz_sequence := terminalEscapeIntermediate\<rparr>
      else if 0x30 \<le> b \<and> b \<le> 0x7e then s\<lparr>sz_sequence := terminalText\<rparr>
      else consumeRawC1 b (s\<lparr>sz_sequence := terminalText\<rparr>))"

definition consumeEscapeIntermediate :: "byte \<Rightarrow> terminal_sanitizer \<Rightarrow> terminal_sanitizer" where
  "consumeEscapeIntermediate b s =
     (if b = 0x1b then s\<lparr>sz_sequence := terminalEscape\<rparr>
      else if 0x20 \<le> b \<and> b \<le> 0x2f then s
      else if 0x30 \<le> b \<and> b \<le> 0x7e then s\<lparr>sz_sequence := terminalText\<rparr>
      else consumeRawC1 b (s\<lparr>sz_sequence := terminalText\<rparr>))"

definition consumeCSI :: "byte \<Rightarrow> terminal_sanitizer \<Rightarrow> terminal_sanitizer" where
  "consumeCSI b s =
     (if b = 0x1b then s\<lparr>sz_sequence := terminalEscape\<rparr>
      else if 0x20 \<le> b \<and> b \<le> 0x3f then s
      else if 0x40 \<le> b \<and> b \<le> 0x7e then s\<lparr>sz_sequence := terminalText\<rparr>
      else consumeRawC1 b (s\<lparr>sz_sequence := terminalText\<rparr>))"

text \<open>The part of \<open>consumeControlString\<close> after a pending rune was dropped.\<close>

definition control_string_fresh :: "byte \<Rightarrow> bool \<Rightarrow> terminalSequence \<Rightarrow> terminal_sanitizer \<Rightarrow> terminal_sanitizer" where
  "control_string_fresh b allowBell escape s =
     (if b = 0x1b then s\<lparr>sz_sequence := escape\<rparr>
      else if allowBell \<and> b = 0x07 \<or> b = 0x9c then resetSequence s
      else if utf8SequenceLength b \<noteq> 0 then s\<lparr>sz_remaining := utf8SequenceLength b - 1, sz_C2 := (b = 0xc2)\<rparr>
      else s)"

definition consumeControlString :: "byte \<Rightarrow> bool \<Rightarrow> terminalSequence \<Rightarrow> terminal_sanitizer \<Rightarrow> terminal_sanitizer" where
  "consumeControlString b allowBell escape s =
     (if sz_remaining s \<noteq> 0 then
        if 0x80 \<le> b \<and> b \<le> 0xbf then
          if sz_C2 s \<and> sz_remaining s = 1 \<and> b = 0x9c then resetSequence s
          else
            let s = s\<lparr>sz_remaining := sz_remaining s - 1\<rparr> in
            if sz_remaining s = 0 then s\<lparr>sz_C2 := False\<rparr> else s
        else control_string_fresh b allowBell escape (resetControlStringUTF8 s)
      else control_string_fresh b allowBell escape s)"

definition consumeStringEscape ::
  "byte \<Rightarrow> bool \<Rightarrow> terminalSequence \<Rightarrow> terminalSequence \<Rightarrow> terminal_sanitizer \<Rightarrow> terminal_sanitizer" where
  "consumeStringEscape b allowBell content escape s =
     (if b = 0x5c then resetSequence s
      else if b = 0x1b then s
      else consumeControlString b allowBell escape (s\<lparr>sz_sequence := content\<rparr>))"

definition consumeSequence :: "byte \<Rightarrow> terminal_sanitizer \<Rightarrow> terminal_sanitizer" where
  "consumeSequence b s =
     (case sz_sequence s of
        terminalText \<Rightarrow> s
      | terminalEscape \<Rightarrow> consumeEscape b s
      | terminalEscapeIntermediate \<Rightarrow> consumeEscapeIntermediate b s
      | terminalCSI \<Rightarrow> consumeCSI b s
      | terminalOSC \<Rightarrow> consumeControlString b True terminalOSCEscape s
      | terminalControlString \<Rightarrow> consumeControlString b False terminalStringEscape s
      | terminalOSCEscape \<Rightarrow> consumeStringEscape b True terminalOSC terminalOSCEscape s
      | terminalStringEscape \<Rightarrow> consumeStringEscape b False terminalControlString terminalStringEscape s)"

definition sanitizer_accept :: "byte \<Rightarrow> terminal_sanitizer \<Rightarrow> byte list \<times> terminal_sanitizer" where
  "sanitizer_accept b s =
     (if sz_sequence s = terminalText then consumeText b s [] else ([], consumeSequence b s))"

definition sanitizer_finish :: "terminal_sanitizer \<Rightarrow> byte list \<times> terminal_sanitizer" where
  "sanitizer_finish s =
     ((if length (sz_utf8Bytes s) \<noteq> 0 then appendReplacement [] else []), resetSequence (resetUTF8 s))"

text \<open>A whole stream, byte by byte.\<close>

fun sanitize :: "byte list \<Rightarrow> terminal_sanitizer \<Rightarrow> byte list \<times> terminal_sanitizer" where
  "sanitize [] s = ([], s)"
| "sanitize (b # bs) s =
     (case sanitizer_accept b s of (out, s') \<Rightarrow> case sanitize bs s' of (outs, s'') \<Rightarrow> (out @ outs, s''))"

lemma sanitize_append:
  "sanitize (a @ b) s =
     (case sanitize a s of (x, s') \<Rightarrow> case sanitize b s' of (y, s'') \<Rightarrow> (x @ y, s''))"
  by (induction a arbitrary: s) (auto split: prod.splits)

section \<open>Visible text\<close>

text \<open>Well-formed UTF-8 in which no character is ESC or a C1 control.\<close>

definition visible_rune :: "nat \<Rightarrow> bool" where
  "visible_rune r \<longleftrightarrow> r \<noteq> 0x1b \<and> \<not> (0x80 \<le> r \<and> r \<le> 0x9f)"

function visible_text :: "byte list \<Rightarrow> bool" where
  "visible_text bs =
     (if bs = [] then True
      else if rune_len bs = 0 \<or> \<not> visible_rune (DecodeRune bs) then False
      else visible_text (drop (rune_len bs) bs))"
  by pat_completeness auto
termination
  by (relation "measure length") auto

declare visible_text.simps [simp del]

lemma visible_Nil [simp]: "visible_text []"
  by (simp add: visible_text.simps)

lemma visible_step:
  "bs \<noteq> [] \<Longrightarrow> visible_text bs \<longleftrightarrow> rune_len bs \<noteq> 0 \<and> visible_rune (DecodeRune bs) \<and> visible_text (drop (rune_len bs) bs)"
  by (subst visible_text.simps) simp

lemma DecodeRune_append: "rune_len bs \<noteq> 0 \<Longrightarrow> DecodeRune (bs @ cs) = DecodeRune bs"
  using rune_len_append [of bs cs] rune_len_bounds [of bs]
  by (auto simp: DecodeRune_def Let_def nth_append)

lemma visible_append: "visible_text a \<Longrightarrow> visible_text b \<Longrightarrow> visible_text (a @ b)"
proof (induction a rule: visible_text.induct)
  case (1 bs)
  show ?case
  proof (cases "bs = []")
    case False
    with "1.prems" have r: "rune_len bs \<noteq> 0" "visible_rune (DecodeRune bs)" "visible_text (drop (rune_len bs) bs)"
      by (simp_all add: visible_step)
    with "1.IH" False "1.prems" have "visible_text (drop (rune_len bs) bs @ b)" by blast
    with r show ?thesis
      using False rune_len_append [OF r(1), of b] DecodeRune_append [OF r(1), of b] rune_len_bounds(2) [of bs]
      by (simp add: visible_step)
  qed (use 1 in simp)
qed

lemma visible_utf8: "visible_text bs \<Longrightarrow> utf8_valid bs"
proof (induction bs rule: visible_text.induct)
  case (1 bs)
  then show ?case by (cases "bs = []") (simp_all add: visible_step utf8_valid_step)
qed


section \<open>Facts\<close>

lemma rune_lead_length: "rune_lead b = Some (n, lo, hi) \<Longrightarrow> utf8SequenceLength b = n \<and> 0xc2 \<le> b \<and> 0x80 \<le> lo \<and> hi \<le> 0xbf"
  by (auto simp: rune_lead_def utf8SequenceLength_def word_le_nat_alt split: if_splits)

lemma utf8SequenceLength_bounds: "utf8SequenceLength b \<in> {0, 2, 3, 4}"
  by (simp add: utf8SequenceLength_def)

lemma utf8SequenceLength_lead: "utf8SequenceLength b \<noteq> 0 \<Longrightarrow> 0xc2 \<le> b \<and> \<not> b < 0x80 \<and> \<not> b \<le> 0x9f"
  by (auto simp: utf8SequenceLength_def word_le_nat_alt word_less_nat_alt split: if_splits)

lemma rune_shape:
  assumes "rune_len bs = n" "2 \<le> n"
  shows "bs \<noteq> []" "utf8SequenceLength (hd bs) = n" "list_all continuation (tl (take n bs))"
proof -
  obtain b rest where bs: "bs = b # rest" using assms by (cases bs) (auto simp: rune_len_def)
  have nb: "\<not> b < 0x80" using assms by (auto simp: bs rune_len_def)
  obtain m lo hi where l: "rune_lead b = Some (m, lo, hi)"
    using assms nb by (auto simp: bs rune_len_def split: option.splits)
  have m: "m = n" "m \<le> length bs" "\<not> rest ! 0 < lo" "\<not> hi < rest ! 0" "list_all continuation (take (n - 2) (drop 1 rest))"
    using assms nb l by (auto simp: bs rune_len_def split: if_splits)
  note lead = rune_lead_length [OF l]
  then show "bs \<noteq> []" "utf8SequenceLength (hd bs) = n" using m by (simp_all add: bs)
  obtain c rest' where c: "rest = c # rest'" using m(2) assms(2) by (cases rest) (auto simp: bs m(1))
  have "continuation c" using m(3,4) lead c by (auto simp: continuation_def)
  moreover have "tl (take n bs) = c # take (n - 2) rest'"
  proof -
    obtain k where "n = Suc (Suc k)" using assms(2) by (metis Suc_le_D numeral_2_eq_2 Suc_le_mono)
    then show ?thesis by (simp add: bs c)
  qed
  ultimately show "list_all continuation (tl (take n bs))" using m(5) c by simp
qed

lemma mod_window:
  assumes "k \<le> x" "x < k + m" "m dvd k" shows "x mod m = x - (k :: nat)"
proof -
  obtain j where k: "k = m * j" using assms(3) by blast
  have "x = m * j + (x - k)" using assms(1) k by simp
  then have "x mod m = (x - k) mod m" by (metis mod_mult_self4)
  also have "\<dots> = x - k" using assms(1,2) by (intro mod_less) linarith
  finally show ?thesis .
qed

lemma lead_bits:
  "194 \<le> x \<Longrightarrow> x \<le> 223 \<Longrightarrow> 2 \<le> x mod (32 :: nat)"
  "160 \<le> x \<Longrightarrow> x \<le> 191 \<Longrightarrow> 32 \<le> x mod (64 :: nat)"
  "225 \<le> x \<Longrightarrow> x \<le> 239 \<Longrightarrow> 1 \<le> x mod (16 :: nat)"
  "144 \<le> x \<Longrightarrow> x \<le> 191 \<Longrightarrow> 16 \<le> x mod (64 :: nat)"
  "241 \<le> x \<Longrightarrow> x \<le> 243 \<Longrightarrow> 1 \<le> x mod (8 :: nat)"
  using mod_window [of 192 x 32] mod_window [of 128 x 64] mod_window [of 224 x 16] mod_window [of 240 x 8] by simp_all

lemma decode_large:
  assumes "2 \<le> rune_len bs"
  shows "0x80 \<le> DecodeRune bs"
proof -
  obtain b rest where bs: "bs = b # rest" using assms by (cases bs) (auto simp: rune_len_def)
  have nb: "\<not> b < 0x80" using assms by (auto simp: bs rune_len_def)
  obtain m lo hi where l: "rune_lead b = Some (m, lo, hi)"
    using assms nb by (auto simp: bs rune_len_def split: option.splits)
  have m: "rune_len bs = m" "m \<le> length bs" "lo \<le> rest ! 0" "rest ! 0 \<le> hi"
    using assms nb l by (auto simp: bs rune_len_def split: if_splits)
  have k: "unat lo \<le> unat (bs ! 1)" "unat (bs ! 1) \<le> unat hi" using m by (simp_all add: bs word_le_nat_alt)
  show ?thesis
    using l k
    by (simp add: DecodeRune_def Let_def m(1) bits_of_def)
      (auto simp: rune_lead_def bs word_le_nat_alt split: if_splits dest!: lead_bits)
qed


lemma visible_single: "b < 0x80 \<Longrightarrow> b \<noteq> 0x1b \<Longrightarrow> visible_text [b]"
proof -
  assume a: "b < 0x80" "b \<noteq> 0x1b"
  have r: "rune_len [b] = 1" using a(1) by (simp add: rune_len_def)
  have "unat b < 128" using a(1) by (simp add: word_less_nat_alt)
  moreover have "unat b \<noteq> unat (0x1b :: byte)"
    using a(2) by (simp only: word_eq_iff_unsigned [where 'a = nat] not_False_eq_True)
  ultimately show ?thesis using r by (simp add: visible_step DecodeRune_def visible_rune_def)
qed

lemma replacement_visible: "visible_text replacement"
proof -
  have r: "rune_len replacement = 3" by code_simp
  then have "DecodeRune replacement = 65533" by (simp add: DecodeRune_def replacement_def bits_of_def)
  moreover have "replacement \<noteq> []" "drop 3 replacement = []" by (simp_all add: replacement_def)
  ultimately show ?thesis using r by (simp add: visible_step visible_rune_def)
qed

lemma chunk_append_fits: "length chunk + length content \<le> 8 \<Longrightarrow> chunk_append content chunk = chunk @ content"
  by (simp add: chunk_append_def chunk_capacity_def)

lemma appendReplacement_fits: "length chunk \<le> 5 \<Longrightarrow> appendReplacement chunk = chunk @ replacement"
  by (simp add: appendReplacement_def chunk_append_fits replacement_def)

text \<open>The bytes of a rune that has begun.\<close>

definition pending :: "byte list \<Rightarrow> nat \<Rightarrow> bool" where
  "pending bs n \<longleftrightarrow> bs \<noteq> [] \<and> n = utf8SequenceLength (hd bs) \<and> n \<noteq> 0 \<and> length bs < n \<and> list_all continuation (tl bs)"

definition san_inv :: "terminal_sanitizer \<Rightarrow> bool" where
  "san_inv s \<longleftrightarrow> (sz_sequence s \<noteq> terminalText \<longrightarrow> sz_utf8Bytes s = []) \<and>
     (sz_utf8Bytes s = [] \<or> pending (sz_utf8Bytes s) (sz_utf8Expected s))"

lemma consumeC1_bytes [simp]: "sz_utf8Bytes (consumeC1 b s) = sz_utf8Bytes s"
  by (simp add: consumeC1_def resetControlStringUTF8_def)

lemma consumeRawC1_bytes [simp]: "sz_utf8Bytes (consumeRawC1 b s) = sz_utf8Bytes s"
  by (simp add: consumeRawC1_def)

lemma resets_bytes [simp]:
  "sz_utf8Bytes (resetUTF8 s) = []" "sz_utf8Bytes (resetControlStringUTF8 s) = sz_utf8Bytes s"
  "sz_utf8Bytes (resetSequence s) = sz_utf8Bytes s"
  by (simp_all add: resetUTF8_def resetControlStringUTF8_def resetSequence_def)

lemma control_string_bytes [simp]:
  "sz_utf8Bytes (consumeControlString b bell esc s) = sz_utf8Bytes s"
  by (simp add: consumeControlString_def control_string_fresh_def Let_def)

lemma consumeSequence_bytes [simp]: "sz_utf8Bytes (consumeSequence b s) = sz_utf8Bytes s"
  by (simp add: consumeSequence_def consumeEscape_def consumeEscapeIntermediate_def consumeCSI_def
      consumeStringEscape_def split: terminalSequence.splits)

lemma clean_inv: "sz_utf8Bytes s = [] \<Longrightarrow> san_inv s"
  by (simp add: san_inv_def)

lemma consume_fresh_safe:
  assumes "consume_fresh b s chunk = (out, s')" "sz_sequence s = terminalText" "sz_utf8Bytes s = []" "length chunk \<le> 3" "visible_text chunk"
  shows "visible_text out \<and> san_inv s' \<and> length out \<le> 6"
proof -
  let ?n = "utf8SequenceLength b"
  have p: "pending [b] ?n" if "?n \<noteq> 0"
    using that utf8SequenceLength_bounds [of b] by (auto simp: pending_def)
  show ?thesis
    using assms p utf8SequenceLength_bounds [of b]
    by (auto simp: consume_fresh_def Let_def chunk_append_fits appendReplacement_fits san_inv_def replacement_def [symmetric]
        intro!: visible_append visible_single replacement_visible split: if_splits)
      (auto simp: replacement_def)
qed

lemma full_rune:
  assumes "utf8_valid content" "content \<noteq> []" "utf8SequenceLength (hd content) = length content" "length content \<noteq> 0"
  shows "rune_len content = length content"
proof -
  obtain b rest where c: "content = b # rest" using assms(2) by (cases content) auto
  have "rune_len content \<noteq> 0" using assms(1,2) by (simp add: utf8_valid_step)
  moreover have "\<not> b < 0x80" using assms(3,4) utf8SequenceLength_lead [of b] by (auto simp: c)
  ultimately obtain n lo hi where "rune_lead b = Some (n, lo, hi)" "rune_len content = n"
    by (auto simp: c rune_len_def split: option.splits if_splits)
  with assms(3) show ?thesis using rune_lead_length by (auto simp: c)
qed

lemma sanitizer_accept_safe:
  assumes "sanitizer_accept b s = (out, s')" "san_inv s"
  shows "visible_text out \<and> san_inv s' \<and> length out \<le> 6"
proof (cases "sz_sequence s = terminalText")
  case False
  then show ?thesis using assms by (auto simp: sanitizer_accept_def san_inv_def)
next
  case t: True
  then have ct: "consumeText b s [] = (out, s')" using assms(1) by (simp add: sanitizer_accept_def)
  show ?thesis
  proof (cases "sz_utf8Bytes s = []")
    case True
    then show ?thesis using ct consume_fresh_safe [of b s "[]"] t by (simp add: consumeText_def)
  next
    case False
    then have p: "pending (sz_utf8Bytes s) (sz_utf8Expected s)" using assms(2) by (simp add: san_inv_def)
    let ?c = "sz_utf8Bytes s @ [b]"
    show ?thesis
    proof (cases "b < 0x80 \<or> b > 0xbf")
      case True
      then have "consume_fresh b (resetUTF8 s) replacement = (out, s')"
        using ct False by (simp add: consumeText_def appendReplacement_fits)
      from consume_fresh_safe [OF this] show ?thesis
        using t replacement_visible by (simp add: resetUTF8_def replacement_def)
    next
      case cont: False
      show ?thesis
      proof (cases "length ?c < sz_utf8Expected s")
        case True
        have "pending ?c (sz_utf8Expected s)" using p cont True by (auto simp: pending_def continuation_def)
        then show ?thesis using ct False cont True t by (auto simp: consumeText_def san_inv_def)
      next
        case full: False
        have l: "length ?c = sz_utf8Expected s" "length ?c \<le> 4" "utf8SequenceLength (hd ?c) = length ?c"
          using p full utf8SequenceLength_bounds [of "hd (sz_utf8Bytes s)"] by (auto simp: pending_def)
        show ?thesis
        proof (cases "utf8_valid ?c")
          case True
          have r: "rune_len ?c = length ?c" using full_rune [OF True _ l(3)] by simp
          then have "0x80 \<le> DecodeRune ?c" using decode_large [of ?c] False by (cases "sz_utf8Bytes s") auto
          then have "visible_text ?c" if "\<not> (0x80 \<le> DecodeRune ?c \<and> DecodeRune ?c \<le> 0x9f)"
            using that r by (simp add: visible_step visible_rune_def)
          then show ?thesis
            using ct False cont l True
            by (auto simp: consumeText_def Let_def chunk_append_fits clean_inv split: if_splits)
        next
          case bad: False
          then show ?thesis
            using ct False cont full replacement_visible
            by (auto simp: consumeText_def Let_def appendReplacement_fits clean_inv replacement_def)
        qed
      qed
    qed
  qed
qed

lemma sanitize_safe: "sanitize bs s = (out, s') \<Longrightarrow> san_inv s \<Longrightarrow> visible_text out \<and> san_inv s'"
proof (induction bs arbitrary: s out s')
  case (Cons b bs)
  obtain o1 s1 where a: "sanitizer_accept b s = (o1, s1)" by fastforce
  obtain o2 s2 where r: "sanitize bs s1 = (o2, s2)" by fastforce
  have "visible_text o1" "san_inv s1" using sanitizer_accept_safe [OF a Cons.prems(2)] by auto
  with Cons.IH [OF r] Cons.prems(1) a r show ?case by (auto intro: visible_append)
qed simp


text \<open>The other direction: visible text goes through unchanged.\<close>

definition clean :: "terminal_sanitizer \<Rightarrow> bool" where
  "clean s \<longleftrightarrow> sz_sequence s = terminalText \<and> sz_utf8Bytes s = [] \<and> sz_utf8Expected s = 0"

lemma clean_eta: "clean s \<Longrightarrow> s\<lparr>sz_utf8Bytes := [], sz_utf8Expected := 0\<rparr> = s"
  by (cases s) (simp add: clean_def)

lemma pending_run:
  "list_all continuation cs \<Longrightarrow> sz_utf8Bytes s \<noteq> [] \<Longrightarrow> length (sz_utf8Bytes s) + length cs < sz_utf8Expected s \<Longrightarrow>
   sz_sequence s = terminalText \<Longrightarrow> sanitize cs s = ([], s\<lparr>sz_utf8Bytes := sz_utf8Bytes s @ cs\<rparr>)"
proof (induction cs arbitrary: s)
  case (Cons c cs)
  then have "sanitizer_accept c s = ([], s\<lparr>sz_utf8Bytes := sz_utf8Bytes s @ [c]\<rparr>)"
    by (auto simp: sanitizer_accept_def consumeText_def continuation_def Let_def)
  with Cons show ?case by simp
qed simp

lemma sanitize_rune:
  assumes "clean s" "rune_len bs = n" "2 \<le> n" "visible_rune (DecodeRune bs)"
  shows "sanitize (take n bs) s = (take n bs, s)"
proof -
  let ?r = "take n bs"
  note shape = rune_shape [OF assms(2,3)]
  have ln: "length ?r = n" "n \<le> 4" using rune_len_bounds [of bs] assms(2) by auto
  obtain b cs where r: "?r = b # cs" using ln(1) assms(3) by (cases ?r) auto
  obtain mid c where cs: "cs = mid @ [c]" using r ln(1) assms(3) by (cases cs rule: rev_cases) auto
  have cont: "list_all continuation (mid @ [c])" using shape(3) r cs by simp
  have b: "utf8SequenceLength b = n" using shape(1,2) r assms(3) by (cases bs; cases n) auto
  let ?s1 = "s\<lparr>sz_utf8Bytes := [b], sz_utf8Expected := n\<rparr>"
  have 1: "sanitizer_accept b s = ([], ?s1)"
    using assms(1,3) b utf8SequenceLength_lead [of b]
    by (auto simp: sanitizer_accept_def clean_def consumeText_def consume_fresh_def Let_def)
  have lm: "Suc (length mid) < n" "length mid + 2 = n" using ln(1) r cs by auto
  have 2: "sanitize mid ?s1 = ([], ?s1\<lparr>sz_utf8Bytes := b # mid\<rparr>)"
    using pending_run [of mid ?s1] cont lm assms(1) by (simp add: clean_def)
  have v: "utf8_valid ?r" using utf8_valid_rune [of bs] assms(2,3) by simp
  have d: "DecodeRune ?r = DecodeRune bs"
    using DecodeRune_append [of ?r "drop n bs"] rune_len_take [of bs] assms(2,3) by simp
  have 3: "sanitizer_accept c (?s1\<lparr>sz_utf8Bytes := b # mid\<rparr>) = (?r, s)"
    using cont lm assms(1,4) v ln r cs d clean_eta [OF assms(1)]
    by (auto simp: sanitizer_accept_def consumeText_def continuation_def clean_def Let_def visible_rune_def
        chunk_append_fits resetUTF8_def)
  show ?thesis unfolding r cs using 1 2 3 r cs by (simp add: sanitize_append)
qed

lemma sanitize_visible: "visible_text bs \<Longrightarrow> clean s \<Longrightarrow> sanitize bs s = (bs, s)"
proof (induction bs rule: visible_text.induct)
  case (1 bs)
  show ?case
  proof (cases "bs = []")
    case False
    let ?n = "rune_len bs"
    have v: "?n \<noteq> 0" "visible_rune (DecodeRune bs)" "visible_text (drop ?n bs)"
      using "1.prems"(1) False by (simp_all add: visible_step)
    have rest: "sanitize (drop ?n bs) s = (drop ?n bs, s)" using "1.IH" False v "1.prems"(2) by blast
    have "sanitize (take ?n bs) s = (take ?n bs, s)"
    proof (cases "?n = 1")
      case True
      obtain b cs where b: "bs = b # cs" using False by (cases bs) auto
      have "b < 0x80" using True by (auto simp: b rune_len_def dest: rune_lead_size split: if_splits option.splits)
      moreover have "b \<noteq> 0x1b" using v(2) True by (auto simp: b DecodeRune_def visible_rune_def)
      ultimately show ?thesis
        using True b "1.prems"(2)
        by (simp add: sanitizer_accept_def clean_def consumeText_def consume_fresh_def chunk_append_fits)
    qed (use sanitize_rune [OF "1.prems"(2) refl] v in simp)
    then show ?thesis using sanitize_append [of "take ?n bs" "drop ?n bs" s] rest by simp
  qed simp
qed

section \<open>Properties\<close>

text \<open>
  whatever bytes a command prints, in whatever chunks they arrive, the sanitizer emits
  only well-formed UTF-8 without ESC and without C1 controls, and nothing it emits for one
  byte overflows its fixed chunk.
\<close>

theorem sanitized_output_is_safe_text:
  assumes "sanitize input new_sanitizer = (out, s)"
  shows "visible_text (out @ fst (sanitizer_finish s)) \<and> utf8_valid (out @ fst (sanitizer_finish s)) \<and>
    (\<forall>b. length (fst (sanitizer_accept b s)) < chunk_capacity)"
proof -
  have inv: "visible_text out" "san_inv s"
    using sanitize_safe [OF assms] by (simp_all add: san_inv_def new_sanitizer_def)
  have "visible_text (fst (sanitizer_finish s))"
    using replacement_visible by (simp add: sanitizer_finish_def appendReplacement_fits)
  then have v: "visible_text (out @ fst (sanitizer_finish s))" using inv(1) visible_append by blast
  have "length (fst (sanitizer_accept b s)) < chunk_capacity" for b
    using sanitizer_accept_safe [OF surjective_pairing inv(2), of b] by (simp add: chunk_capacity_def)
  with v visible_utf8 [OF v] show ?thesis by blast
qed

theorem sanitized_output_is_safe_text_witness:
  "\<exists>out s. sanitize [0x1b, 0x5b, 0x33, 0x31, 0x6d, 0x68, 0xc2] new_sanitizer = (out, s) \<and>
     out @ fst (sanitizer_finish s) = 0x68 # replacement \<and> visible_text (out @ fst (sanitizer_finish s))"
proof -
  obtain out s where s: "sanitize [0x1b, 0x5b, 0x33, 0x31, 0x6d, 0x68, 0xc2] new_sanitizer = (out, s)" by fastforce
  have "out @ fst (sanitizer_finish s) = 0x68 # replacement"
    using s by (auto simp: new_sanitizer_def sanitizer_accept_def consumeText_def consume_fresh_def consumeSequence_def
        consumeEscape_def consumeCSI_def utf8SequenceLength_def Let_def chunk_append_fits appendReplacement_fits sanitizer_finish_def)
  with sanitized_output_is_safe_text [OF s] s show ?thesis by blast
qed

text \<open>
  text without control sequences is not altered: well-formed UTF-8 that contains neither
  ESC nor a C1 control passes through byte for byte, leaving the sanitizer as it was.  So the
  sanitizer is a projection: sanitizing its own output changes nothing.
\<close>

theorem visible_text_is_unchanged:
  "(visible_text input \<longrightarrow> sanitize input new_sanitizer = (input, new_sanitizer)) \<and>
   sanitize (fst (sanitize any new_sanitizer)) new_sanitizer = (fst (sanitize any new_sanitizer), new_sanitizer)"
proof -
  have c: "clean new_sanitizer" by (simp add: clean_def new_sanitizer_def)
  have "visible_text (fst (sanitize any new_sanitizer))"
    using sanitize_safe [OF surjective_pairing] by (simp add: san_inv_def new_sanitizer_def)
  with sanitize_visible c show ?thesis by blast
qed

theorem visible_text_is_unchanged_witness:
  "sanitize [0x68, 0x69] new_sanitizer = ([0x68, 0x69], new_sanitizer)"
proof -
  have "visible_text ([0x68] @ [0x69])" by (intro visible_append visible_single) simp_all
  then show ?thesis using visible_text_is_unchanged [of "[0x68, 0x69]"] by simp
qed

end
