(* ===== verification/Supervisor_Frame.thy ===== *)
theory Supervisor_Frame
  imports Prelude
begin

text \<open>
  The framing of the private supervisor pipes (\<open>internal/runsupervisor/frame.go\<close>): an eight
  byte header (magic, version, kind, payload length) and a payload of at most 64 KiB.  A
  reader is the list of the bytes still in the pipe, ended by end of file; a writer is the
  list of its successive answers to \<open>Write\<close>.  The main fact is that a sequence of frames
  written back to back is read back frame by frame, with nothing left over.
\<close>

section \<open>Kinds\<close>

definition wireVersion :: byte where "wireVersion = 5"
definition wireHeaderBytes :: nat where "wireHeaderBytes = 8"
definition maximumWirePayload :: nat where "maximumWirePayload = 65536"
definition pipeAtomicFrameBytes :: nat where "pipeAtomicFrameBytes = 4096"

definition wireMagic :: "byte list" where
  "wireMagic = to_bytes ''WS''"

datatype frameKind =
    frameReady | frameAccepted | frameStart | frameCommit | frameCancel
  | frameResize | frameInput | frameOutput | frameStatus | frameFinal

definition frame_kinds :: "frameKind list" where
  "frame_kinds = [frameReady, frameAccepted, frameStart, frameCommit, frameCancel,
     frameResize, frameInput, frameOutput, frameStatus, frameFinal]"

text \<open>
  The code numbers the kinds from 1 (\<open>iota + 1\<close>); a byte outside \<open>1..10\<close> is not \<open>valid\<close>.
\<close>

fun kind_byte :: "frameKind \<Rightarrow> byte" where
  "kind_byte frameReady = 1" | "kind_byte frameAccepted = 2" | "kind_byte frameStart = 3"
| "kind_byte frameCommit = 4" | "kind_byte frameCancel = 5" | "kind_byte frameResize = 6"
| "kind_byte frameInput = 7" | "kind_byte frameOutput = 8" | "kind_byte frameStatus = 9"
| "kind_byte frameFinal = 10"

definition kind_of :: "byte \<Rightarrow> frameKind option" where
  "kind_of b = find (\<lambda>k. kind_byte k = b) frame_kinds"

definition allowedOnEventPipe :: "frameKind \<Rightarrow> bool" where
  "allowedOnEventPipe kind \<longleftrightarrow> kind = frameReady \<or> kind = frameAccepted \<or> kind = frameOutput \<or>
     kind = frameStatus \<or> kind = frameFinal"

record wire_frame =
  wf_kind :: frameKind
  wf_payload :: "byte list"

datatype frame_error = FrameInvalid | FrameEOF | FrameUnexpectedEOF | HeaderInvalid | PayloadRead frame_error

section \<open>Encoding and reading\<close>

definition encodeFrame :: "frameKind \<Rightarrow> byte list \<Rightarrow> frame_error + byte list" where
  "encodeFrame kind payload =
     (if length payload > maximumWirePayload then Inl FrameInvalid
      else Inr (wireMagic @ [wireVersion, kind_byte kind] @ be32 (word_of_nat (length payload)) @ payload))"

text \<open>\<open>io.ReadFull\<close>: \<open>EOF\<close> when nothing could be read, \<open>ErrUnexpectedEOF\<close> when only a part.\<close>

definition ReadFull :: "nat \<Rightarrow> byte list \<Rightarrow> frame_error + byte list \<times> byte list" where
  "ReadFull n bs =
     (if n \<le> length bs then Inr (take n bs, drop n bs)
      else if bs = [] then Inl FrameEOF else Inl FrameUnexpectedEOF)"

definition readFrame :: "byte list \<Rightarrow> frame_error + wire_frame \<times> byte list" where
  "readFrame pipe =
     bind_r (ReadFull wireHeaderBytes pipe) (\<lambda>(header, pipe).
       let kind = kind_of (header ! 3); sz = unbe (drop 4 header) :: u32 in
       if header ! 0 \<noteq> wireMagic ! 0 \<or> header ! 1 \<noteq> wireMagic ! 1 \<or> header ! 2 \<noteq> wireVersion \<or>
          kind = None \<or> unat sz > maximumWirePayload then Inl HeaderInvalid
       else (case ReadFull (unat sz) pipe of
               Inl e \<Rightarrow> Inl (PayloadRead e)
             | Inr (payload, pipe) \<Rightarrow>
                 Inr (\<lparr>wf_kind = the kind, wf_payload = payload\<rparr>, pipe)))"

section \<open>Writing\<close>

text \<open>
  \<open>writeFull\<close> calls \<open>Write\<close> until everything is written.  The writer is the list of its
  answers \<open>(written, err)\<close>; \<open>None\<close> is "still waiting for the writer when the list ends".
  The second component of the result is what reached the pipe.
\<close>

datatype write_error = WriteFailed string | ErrShortWrite

fun writeFull :: "(int \<times> string option) list \<Rightarrow> byte list \<Rightarrow> ((write_error + unit) \<times> byte list) option" where
  "writeFull answers [] = Some (Inr (), [])"
| "writeFull [] (b # bs) = None"
| "writeFull ((written, err) # answers) (b # bs) =
     (case err of
        Some e \<Rightarrow> Some (Inl (WriteFailed e), take (nat written) (b # bs))
      | None \<Rightarrow>
          if written \<le> 0 \<or> written > int (length (b # bs)) then Some (Inl ErrShortWrite, [])
          else map_option (\<lambda>(r, out). (r, take (nat written) (b # bs) @ out))
                 (writeFull answers (drop (nat written) (b # bs))))"

section \<open>Facts\<close>

lemma kind_of_byte [simp]: "kind_of (kind_byte k) = Some k"
  by (cases k) (simp_all add: kind_of_def frame_kinds_def)

lemma kind_of_Some_iff [result_simps]: "kind_of b = Some k \<longleftrightarrow> b = kind_byte k"
proof
  assume "kind_of b = Some k"
  then show "b = kind_byte k" by (auto simp: kind_of_def find_Some_iff)
qed simp

lemma ReadFull_append [simp]: "length a = n \<Longrightarrow> ReadFull n (a @ b) = Inr (a, b)"
  by (simp add: ReadFull_def)

lemma ReadFull_Inr_iff [result_simps]: "ReadFull n bs = Inr (a, b) \<longleftrightarrow> length a = n \<and> bs = a @ b"
  by (auto simp: ReadFull_def)

lemma encodeFrame_Inr_iff [result_simps]:
  "encodeFrame kind payload = Inr bs \<longleftrightarrow> length payload \<le> maximumWirePayload \<and>
     bs = wireMagic @ [wireVersion, kind_byte kind] @ be32 (word_of_nat (length payload)) @ payload"
  by (auto simp: encodeFrame_def)

lemma encodeFrame_length:
  "encodeFrame kind payload = Inr bs \<Longrightarrow> length bs = wireHeaderBytes + length payload"
  by (auto simp: encodeFrame_Inr_iff wireMagic_def wireHeaderBytes_def)

lemma unat_payload_length:
  "length payload \<le> maximumWirePayload \<Longrightarrow> unat (word_of_nat (length payload) :: u32) = length payload"
  by (simp add: maximumWirePayload_def unat_of_nat)

lemma header_parts:
  "length (wireMagic @ [wireVersion, k] @ be32 w) = wireHeaderBytes"
  "(wireMagic @ [wireVersion, k] @ be32 w) ! 0 = wireMagic ! 0"
  "(wireMagic @ [wireVersion, k] @ be32 w) ! 1 = wireMagic ! 1"
  "(wireMagic @ [wireVersion, k] @ be32 w) ! 2 = wireVersion"
  "(wireMagic @ [wireVersion, k] @ be32 w) ! 3 = k"
  "drop 4 (wireMagic @ [wireVersion, k] @ be32 w) = be32 w"
  by (simp_all add: wireMagic_def wireHeaderBytes_def to_bytes_def)

lemma readFrame_encodeFrame:
  assumes "encodeFrame kind payload = Inr bs"
  shows "readFrame (bs @ rest) = Inr (\<lparr>wf_kind = kind, wf_payload = payload\<rparr>, rest)"
proof -
  let ?h = "wireMagic @ [wireVersion, kind_byte kind] @ be32 (word_of_nat (length payload))"
  have l: "length payload \<le> maximumWirePayload" and bs: "bs @ rest = ?h @ payload @ rest"
    using assms by (simp_all add: encodeFrame_Inr_iff)
  have "ReadFull wireHeaderBytes (bs @ rest) = Inr (?h, payload @ rest)"
    unfolding bs using header_parts(1) by (rule ReadFull_append)
  then show ?thesis
    using l unat_payload_length [OF l]
    by (simp only: readFrame_def bind_r_simps case_prod_conv Let_def header_parts) simp
qed

lemma readFrame_Inr:
  assumes "readFrame pipe = Inr (f, rest)"
  shows "\<exists>bs. encodeFrame (wf_kind f) (wf_payload f) = Inr bs \<and> pipe = bs @ rest"
proof -
  obtain h body kind where h: "length h = wireHeaderBytes" "pipe = h @ body"
    "h ! 0 = wireMagic ! 0" "h ! 1 = wireMagic ! 1" "h ! 2 = wireVersion" "kind_of (h ! 3) = Some kind"
    "unat (unbe (drop 4 h) :: u32) \<le> maximumWirePayload" "wf_kind f = kind"
    "length (wf_payload f) = unat (unbe (drop 4 h) :: u32)" "body = wf_payload f @ rest"
    using assms
    by (auto simp: readFrame_def Let_def bind_r_Inr_iff ReadFull_Inr_iff split: if_splits sum.splits)
  have "length h = 8" using h(1) by (simp add: wireHeaderBytes_def)
  then obtain a b c d rest4 where hs: "h = a # b # c # d # rest4" "length rest4 = 4"
    by (auto simp: numeral_eq_Suc length_Suc_conv)
  have sz: "word_of_nat (length (wf_payload f)) = (unbe rest4 :: u32)"
    using h(9) hs by simp
  have "wireMagic = [wireMagic ! 0, wireMagic ! 1]" by (simp add: wireMagic_def to_bytes_def)
  then have "h = wireMagic @ [wireVersion, kind_byte kind] @ be32 (word_of_nat (length (wf_payload f)))"
    using h(3-6) hs be_unbe [of rest4 4, where 'a = 32] by (simp add: sz kind_of_Some_iff)
  then show ?thesis using h by (simp add: encodeFrame_Inr_iff)
qed

text \<open>Frames written back to back, and reading until the pipe is empty.\<close>

fun read_frames :: "nat \<Rightarrow> byte list \<Rightarrow> frame_error + wire_frame list \<times> byte list" where
  "read_frames 0 pipe = Inr ([], pipe)"
| "read_frames (Suc n) pipe =
     bind_r (readFrame pipe) (\<lambda>(f, pipe). bind_r (read_frames n pipe) (\<lambda>(fs, pipe). Inr (f # fs, pipe)))"

definition frame_bytes :: "wire_frame \<Rightarrow> frame_error + byte list" where
  "frame_bytes f = encodeFrame (wf_kind f) (wf_payload f)"

lemma writeFull_complete:
  "writeFull answers data = Some (Inr (), out) \<Longrightarrow> out = data"
proof (induction answers data arbitrary: out rule: writeFull.induct)
  case (3 written err answers b bs)
  then show ?case by (fastforce split: option.splits if_splits)
qed simp_all

lemma writeFull_prefix:
  "writeFull answers data = Some (r, out) \<Longrightarrow> \<exists>rest. data = out @ rest"
proof (induction answers data arbitrary: r out rule: writeFull.induct)
  case (3 written err answers b bs)
  show ?case
  proof (cases "err \<noteq> None \<or> written \<le> 0 \<or> written > int (length (b # bs))")
    case True
    then show ?thesis using "3.prems" by (auto split: option.splits if_splits intro: exI [of _ "drop (nat written) (b # bs)"])
  next
    case False
    then obtain r' out' where o: "writeFull answers (drop (nat written) (b # bs)) = Some (r', out')"
      "out = take (nat written) (b # bs) @ out'" using "3.prems" by (auto split: if_splits)
    then obtain rest where "drop (nat written) (b # bs) = out' @ rest"
      using "3.IH" False by (metis not_None_eq)
    then have "b # bs = out @ rest" using o(2) by (metis append.assoc append_take_drop_id)
    then show ?thesis by blast
  qed
qed auto

lemma writeFull_terminates:
  "length data \<le> length answers \<Longrightarrow> \<exists>r out. writeFull answers data = Some (r, out)"
proof (induction answers data rule: writeFull.induct)
  case (3 written err answers b bs)
  show ?case
  proof (cases "err \<noteq> None \<or> written \<le> 0 \<or> written > int (length (b # bs))")
    case False
    then have "length (drop (nat written) (b # bs)) \<le> length answers" using "3.prems" by auto
    then obtain r out where "writeFull answers (drop (nat written) (b # bs)) = Some (r, out)"
      using "3.IH" False by (metis not_None_eq)
    with False show ?thesis by (auto split: if_splits)
  qed (auto split: option.splits)
qed simp_all

lemma read_frames_bytes:
  "list_all2 (\<lambda>f bs. frame_bytes f = Inr bs) fs bss \<Longrightarrow>
     read_frames (length fs) (concat bss @ rest) = Inr (fs, rest)"
proof (induction rule: list_all2_induct)
  case (Cons f fs bs bss)
  then have "readFrame (bs @ concat bss @ rest) = Inr (f, concat bss @ rest)"
    using readFrame_encodeFrame by (simp add: frame_bytes_def)
  with Cons.IH show ?case by simp
qed simp

section \<open>Properties\<close>

text \<open>
  C8: frames survive the pipe.  Frames written one after the other with \<open>writeFull\<close>, whose
  writer may accept any number of bytes at a time, are read back as the same sequence of
  frames; and \<open>readFrame\<close> accepts nothing but the encoding of the frame it returns, leaving
  the bytes that follow untouched.
\<close>

theorem frames_survive_the_pipe:
  assumes "list_all2 (\<lambda>f (answers, out). \<exists>bs. frame_bytes f = Inr bs \<and> writeFull answers bs = Some (Inr (), out)) fs ws"
  shows "read_frames (length fs) (concat (map snd ws) @ rest) = Inr (fs, rest) \<and>
    (\<forall>pipe f tail. readFrame pipe = Inr (f, tail) \<longrightarrow> (\<exists>bs. frame_bytes f = Inr bs \<and> pipe = bs @ tail))"
proof -
  have "list_all2 (\<lambda>f bs. frame_bytes f = Inr bs) fs (map snd ws)"
    using assms by (auto simp: list_all2_conv_all_nth split: prod.splits dest!: writeFull_complete)
      (metis prod.collapse writeFull_complete)
  then show ?thesis
    using read_frames_bytes readFrame_Inr by (auto simp: frame_bytes_def)
qed

theorem frames_survive_the_pipe_witness:
  "\<exists>bs out. frame_bytes \<lparr>wf_kind = frameCancel, wf_payload = [1]\<rparr> = Inr bs \<and>
     writeFull [(4, None), (5, None)] bs = Some (Inr (), out) \<and>
     read_frames 1 (out @ [7]) = Inr ([\<lparr>wf_kind = frameCancel, wf_payload = [1]\<rparr>], [7])"
proof -
  let ?f = "\<lparr>wf_kind = frameCancel, wf_payload = [1]\<rparr>"
  let ?bs = "[0x57, 0x53, 5, 5, 0, 0, 0, 1, 1] :: byte list"
  have "be32 1 = [0, 0, 0, 1]" "wireMagic = [0x57, 0x53]" by code_simp+
  then have b: "frame_bytes ?f = Inr ?bs"
    by (simp add: frame_bytes_def encodeFrame_def maximumWirePayload_def wireVersion_def)
  have w: "writeFull [(4, None), (5, None)] ?bs = Some (Inr (), ?bs)" by code_simp
  have "list_all2 (\<lambda>f (answers, out). \<exists>bs. frame_bytes f = Inr bs \<and> writeFull answers bs = Some (Inr (), out))
      [?f] [([(4, None), (5, None)], ?bs)]"
    using b w by simp
  from frames_survive_the_pipe [OF this, of "[7]"] b w show ?thesis by auto
qed

text \<open>
  \<open>writeFull\<close> is bounded and honest: with a writer that keeps answering it returns
  after at most as many calls as there are bytes, what reached the pipe is always a prefix
  of the data, and success means all of it.
\<close>

theorem writeFull_is_bounded_and_honest:
  "(length data \<le> length answers \<longrightarrow> (\<exists>r out. writeFull answers data = Some (r, out))) \<and>
   (writeFull answers data = Some (r, out) \<longrightarrow>
      (\<exists>rest. data = out @ rest) \<and> (r = Inr () \<longrightarrow> out = data))"
  using writeFull_terminates writeFull_prefix writeFull_complete by blast

theorem writeFull_is_bounded_and_honest_witness:
  "\<exists>r out rest. writeFull [(1, None), (0, None)] [1, 2] = Some (r, out) \<and> [1, 2] = out @ rest \<and> r \<noteq> Inr ()"
proof -
  have w: "writeFull [(1, None), (0, None)] [1, 2] = Some (Inl ErrShortWrite, [1])" by code_simp
  then show ?thesis
    using writeFull_is_bounded_and_honest [of "[1, 2]" "[(1, None), (0, None)]" "Inl ErrShortWrite" "[1]"] by auto
qed

end
