(* ===== verification/Supervisor_Final.thy ===== *)
theory Supervisor_Final
  imports Identity Utf8
begin

text \<open>
  The supervisor's single terminal result (\<open>internal/runsupervisor/final.go\<close>): bounded
  UTF-8 diagnostics, validation, the wire form, and the reduced result that is sent when
  the full one cannot be encoded.  A cancel reason is the byte the code uses: \<open>validateFinal\<close>
  only relates its validity to the cancelled flag.  Exit codes and signals are Go \<open>int\<close>s.
\<close>

section \<open>Diagnostics\<close>

definition maximumDiagnosticBytes :: nat where
  "maximumDiagnosticBytes = 1024"

fun cut_valid :: "byte list \<Rightarrow> nat \<Rightarrow> nat" where
  "cut_valid bs 0 = 0"
| "cut_valid bs (Suc end) = (if \<not> utf8_valid (take (Suc end) bs) then cut_valid bs end else Suc end)"

definition truncateDiagnostic :: "string \<Rightarrow> nat \<Rightarrow> string" where
  "truncateDiagnostic s limit =
     (if length s \<le> limit then s else take (cut_valid (to_bytes s) limit) s)"

definition normalizeDiagnostic :: "string \<Rightarrow> string" where
  "normalizeDiagnostic s = truncateDiagnostic (ToValidUTF8 s) maximumDiagnosticBytes"

definition joinDiagnostic :: "string \<Rightarrow> string \<Rightarrow> string" where
  "joinDiagnostic left right =
     (let left = ToValidUTF8 left; right = ToValidUTF8 right; separator = ''; '' in
      if left = [] then truncateDiagnostic right maximumDiagnosticBytes
      else if right = [] then truncateDiagnostic left maximumDiagnosticBytes
      else if length left + length separator + length right \<le> maximumDiagnosticBytes
      then left @ separator @ right
      else
        let budget = maximumDiagnosticBytes - length separator;
            limits =
              (if length left < budget div 2 then (length left, budget - length left)
               else if length right < budget - budget div 2 then (budget - length right, length right)
               else (budget div 2, budget - budget div 2))
        in truncateDiagnostic left (fst limits) @ separator @ truncateDiagnostic right (snd limits))"

definition diagnosticFor :: "string \<Rightarrow> string option \<Rightarrow> string" where
  "diagnosticFor action err = (case err of None \<Rightarrow> [] | Some e \<Rightarrow> action @ '': '' @ e)"

lemma cut_valid_le: "cut_valid bs limit \<le> limit"
  by (induction limit) auto

lemma cut_valid_valid: "utf8_valid (take (cut_valid bs limit) bs)"
  by (induction limit) auto

lemma cut_valid_greatest: "k \<le> limit \<Longrightarrow> utf8_valid (take k bs) \<Longrightarrow> k \<le> cut_valid bs limit"
proof (induction limit)
  case (Suc n)
  then show ?case by (cases "k = Suc n") auto
qed simp

lemma to_bytes_take: "to_bytes (take k s) = take k (to_bytes s)"
  by (simp add: to_bytes_def take_map)

lemma truncateDiagnostic_length: "length (truncateDiagnostic s limit) \<le> limit"
  using cut_valid_le [of "to_bytes s" limit] by (simp add: truncateDiagnostic_def)

lemma truncateDiagnostic_valid: "ValidString s \<Longrightarrow> ValidString (truncateDiagnostic s limit)"
  by (simp add: truncateDiagnostic_def ValidString_def to_bytes_take cut_valid_valid)

lemma truncateDiagnostic_keeps:
  assumes "ValidString s" "limit \<le> length s"
  shows "limit - 3 \<le> length (truncateDiagnostic s limit)"
proof (cases "length s \<le> limit")
  case False
  obtain k where "limit - 3 \<le> k" "k \<le> limit" "utf8_valid (take k (to_bytes s))"
    using utf8_cut [of "to_bytes s" limit] assms by (auto simp: ValidString_def)
  then have "limit - 3 \<le> cut_valid (to_bytes s) limit" using cut_valid_greatest le_trans by blast
  with False show ?thesis using cut_valid_le [of "to_bytes s" limit] by (simp add: truncateDiagnostic_def)
qed (use assms in \<open>simp add: truncateDiagnostic_def\<close>)

definition diagnostic_ok :: "string \<Rightarrow> bool" where
  "diagnostic_ok s \<longleftrightarrow> length s \<le> maximumDiagnosticBytes \<and> ValidString s"

lemma normalizeDiagnostic_ok: "diagnostic_ok (normalizeDiagnostic s)"
  by (simp add: diagnostic_ok_def normalizeDiagnostic_def truncateDiagnostic_length truncateDiagnostic_valid)

lemma normalizeDiagnostic_id: "diagnostic_ok s \<Longrightarrow> normalizeDiagnostic s = s"
  by (simp add: diagnostic_ok_def normalizeDiagnostic_def ToValidUTF8_id truncateDiagnostic_def)

lemma joinDiagnostic_ok: "diagnostic_ok (joinDiagnostic left right)"
proof -
  have sep: "ValidString ''; ''" by code_simp
  let ?l = "ToValidUTF8 left" and ?r = "ToValidUTF8 right"
  have bound: "length (truncateDiagnostic ?l a @ ''; '' @ truncateDiagnostic ?r b) \<le> maximumDiagnosticBytes"
    if "a + b + 2 \<le> maximumDiagnosticBytes" for a b
    using that truncateDiagnostic_length [of ?l a] truncateDiagnostic_length [of ?r b] by simp
  have valid: "ValidString (truncateDiagnostic ?l a @ ''; '' @ truncateDiagnostic ?r b)" for a b
    by (intro ValidString_append truncateDiagnostic_valid sep) simp_all
  have "ValidString (?l @ ''; '' @ ?r)" by (intro ValidString_append sep) simp_all
  then show ?thesis
    using bound valid
    by (simp add: diagnostic_ok_def joinDiagnostic_def Let_def truncateDiagnostic_length truncateDiagnostic_valid
        maximumDiagnosticBytes_def)
qed

section \<open>Final results\<close>

definition CancelNone :: byte where "CancelNone = 0"
definition CancelUser :: byte where "CancelUser = 1"
definition CancelTerminate :: byte where "CancelTerminate = 2"
definition CancelHangup :: byte where "CancelHangup = 3"
definition CancelLifeline :: byte where "CancelLifeline = 4"
definition CancelInternal :: byte where "CancelInternal = 5"

definition validCancellation :: "byte \<Rightarrow> bool" where
  "validCancellation reason \<longleftrightarrow> CancelUser \<le> reason \<and> reason \<le> CancelInternal"

record transfer_result =
  tr_Transfer :: transfer_number
  tr_ExitCode :: int
  tr_Signal :: int

record final_summary =
  fs_FollowedSymlinks :: u64
  fs_IgnoredSymlinks :: u64
  fs_EmptyDirectories :: u64
  fs_IgnoredSpecialFiles :: u64

record final =
  fi_Cancelled :: bool
  fi_Reason :: byte
  fi_InternalError :: string
  fi_RunError :: string
  fi_CleanupError :: string
  fi_Source :: "final_summary option"
  fi_Transfers :: "transfer_result list"

datatype final_error =
    CancellationInconsistent
  | DiagnosticInvalid
  | TooManyTransfers
  | FinalResultInvalid
  | FinalDuplicate
  | FinalMissing nat
  | FinalTruncated
  | SummaryFlagInvalid
  | TransferSetInvalid
  | FinalFlagsInvalid
  | FinalTransferInvalid

definition validTransferResult :: "transfer_result \<Rightarrow> bool" where
  "validTransferResult r \<longleftrightarrow>
     num_value (tr_Transfer r) \<noteq> 0 \<and> tr_Signal r \<ge> 0 \<and> tr_Signal r \<le> 255 \<and>
     (tr_Signal r = 0 \<and> tr_ExitCode r \<ge> 0 \<and> tr_ExitCode r \<le> 255 \<or> tr_Signal r \<noteq> 0 \<and> tr_ExitCode r = -1)"

definition validateFinal :: "final \<Rightarrow> final_error + unit" where
  "validateFinal f =
     (if fi_Cancelled f \<noteq> validCancellation (fi_Reason f) then Inl CancellationInconsistent
      else if length (fi_InternalError f) > maximumDiagnosticBytes \<or> \<not> ValidString (fi_InternalError f) \<or>
              length (fi_RunError f) > maximumDiagnosticBytes \<or> \<not> ValidString (fi_RunError f) \<or>
              length (fi_CleanupError f) > maximumDiagnosticBytes \<or> \<not> ValidString (fi_CleanupError f)
      then Inl DiagnosticInvalid
      else if length (fi_Transfers f) > transfer_maximum then Inl TooManyTransfers
      else bind_r
        (scan_seen (\<lambda>r. if \<not> validTransferResult r then Some FinalResultInvalid else None)
           tr_Transfer (\<lambda>_. FinalDuplicate) [] (fi_Transfers f))
        (\<lambda>seen. case first_missing (length (fi_Transfers f)) seen of
            None \<Rightarrow> Inr () | Some k \<Rightarrow> Inl (FinalMissing k)))"

definition orderedFinal :: "final \<Rightarrow> final_error + final" where
  "orderedFinal f =
     bind_r (validateFinal f) (\<lambda>_. Inr (f\<lparr>fi_Transfers := sort_key tr_Transfer (fi_Transfers f)\<rparr>))"

definition result_bytes :: "transfer_result \<Rightarrow> byte list" where
  "result_bytes r =
     [num_value (tr_Transfer r)] @ be32 (word_of_int (tr_ExitCode r)) @ be16 (word_of_int (tr_Signal r))"

definition summary_bytes :: "final_summary option \<Rightarrow> byte list" where
  "summary_bytes s =
     (case s of
        None \<Rightarrow> replicate 33 0
      | Some s \<Rightarrow> [1] @ be64 (fs_FollowedSymlinks s) @ be64 (fs_IgnoredSymlinks s) @
          be64 (fs_EmptyDirectories s) @ be64 (fs_IgnoredSpecialFiles s))"

definition encodeFinal :: "final \<Rightarrow> final_error + byte list" where
  "encodeFinal f =
     bind_r (orderedFinal (f\<lparr>fi_InternalError := normalizeDiagnostic (fi_InternalError f),
                            fi_RunError := normalizeDiagnostic (fi_RunError f),
                            fi_CleanupError := normalizeDiagnostic (fi_CleanupError f)\<rparr>)) (\<lambda>f.
       Inr ([if fi_Cancelled f then 1 else 0, fi_Reason f] @
            be16 (word_of_nat (length (fi_InternalError f))) @ be16 (word_of_nat (length (fi_RunError f))) @
            be16 (word_of_nat (length (fi_CleanupError f))) @ summary_bytes (fi_Source f) @
            to_bytes (fi_InternalError f) @ to_bytes (fi_RunError f) @ to_bytes (fi_CleanupError f) @
            [word_of_nat (length (fi_Transfers f))] @ concat (map result_bytes (fi_Transfers f))))"

definition subslice :: "nat \<Rightarrow> nat \<Rightarrow> 'a list \<Rightarrow> 'a list" where
  "subslice a b xs = take (b - a) (drop a xs)"

fun decode_results :: "nat \<Rightarrow> byte list \<Rightarrow> final_error + transfer_result list" where
  "decode_results 0 bs = Inr []"
| "decode_results (Suc n) bs =
     (case number_new (uint (bs ! 0)) of
        Inl _ \<Rightarrow> Inl FinalTransferInvalid
      | Inr t \<Rightarrow>
          bind_r (decode_results n (drop 7 bs)) (\<lambda>rs.
            Inr (\<lparr>tr_Transfer = t, tr_ExitCode = sint (unbe (subslice 1 5 bs) :: u32),
                  tr_Signal = uint (unbe (subslice 5 7 bs) :: u16)\<rparr> # rs)))"

definition decode_summary :: "byte list \<Rightarrow> final_summary option" where
  "decode_summary payload =
     (if payload ! 8 = 1 then
        Some \<lparr>fs_FollowedSymlinks = unbe (subslice 9 17 payload), fs_IgnoredSymlinks = unbe (subslice 17 25 payload),
              fs_EmptyDirectories = unbe (subslice 25 33 payload), fs_IgnoredSpecialFiles = unbe (subslice 33 41 payload)\<rparr>
      else None)"

definition decodeFinal :: "byte list \<Rightarrow> final_error + final" where
  "decodeFinal payload =
     (if length payload < 42 then Inl FinalTruncated
      else
        let internalSize = unat (unbe (subslice 2 4 payload) :: u16);
            runSize = unat (unbe (subslice 4 6 payload) :: u16);
            cleanupSize = unat (unbe (subslice 6 8 payload) :: u16);
            textSize = internalSize + runSize + cleanupSize
        in
        if internalSize > maximumDiagnosticBytes \<or> runSize > maximumDiagnosticBytes \<or>
           cleanupSize > maximumDiagnosticBytes \<or> 42 + textSize > length payload then Inl DiagnosticInvalid
        else if payload ! 8 > 1 then Inl SummaryFlagInvalid
        else
          let offset = 41 + textSize; cnt = unat (payload ! offset); offset = offset + 1 in
          if cnt > transfer_maximum \<or> length payload \<noteq> offset + 7 * cnt then Inl TransferSetInvalid
          else if payload ! 0 > 1 then Inl FinalFlagsInvalid
          else
            bind_r (decode_results cnt (drop offset payload)) (\<lambda>transfers.
              let f = \<lparr>fi_Cancelled = (payload ! 0 = 1), fi_Reason = payload ! 1,
                    fi_InternalError = to_string (subslice 41 (41 + internalSize) payload),
                    fi_RunError = to_string (subslice (41 + internalSize) (41 + internalSize + runSize) payload),
                    fi_CleanupError = to_string (subslice (41 + internalSize + runSize) (41 + textSize) payload),
                    fi_Source = decode_summary payload, fi_Transfers = transfers\<rparr>
              in bind_r (validateFinal f) (\<lambda>_.
                Inr (f\<lparr>fi_Transfers := sort_key tr_Transfer (fi_Transfers f)\<rparr>))))"

text \<open>
  The map of usable results, in insertion order, and the longest complete run of them.
\<close>

fun collect_valid ::
  "(transfer_number \<times> transfer_result) list \<Rightarrow> transfer_result list \<Rightarrow> (transfer_number \<times> transfer_result) list"
where
  "collect_valid valid [] = valid"
| "collect_valid valid (r # rs) =
     (if length valid = transfer_maximum \<or> \<not> validTransferResult r then collect_valid valid rs
      else if map_of valid (tr_Transfer r) \<noteq> None then collect_valid valid rs
      else collect_valid (valid @ [(tr_Transfer r, r)]) rs)"

fun complete_prefix :: "(transfer_number \<times> transfer_result) list \<Rightarrow> nat list \<Rightarrow> transfer_result list" where
  "complete_prefix valid [] = []"
| "complete_prefix valid (expected # rest) =
     (case map_of valid (number_or_zero expected) of
        None \<Rightarrow> []
      | Some r \<Rightarrow> r # complete_prefix valid rest)"

definition finalEncodingFallback :: "final \<Rightarrow> string \<Rightarrow> final" where
  "finalEncodingFallback f encodeErr =
     \<lparr>fi_Cancelled = fi_Cancelled f,
      fi_Reason = (if fi_Cancelled f
                   then (if \<not> validCancellation (fi_Reason f) then CancelInternal else fi_Reason f)
                   else CancelNone),
      fi_InternalError = joinDiagnostic (fi_InternalError f) (''encode supervisor final: '' @ encodeErr),
      fi_RunError = normalizeDiagnostic (fi_RunError f),
      fi_CleanupError = normalizeDiagnostic (fi_CleanupError f),
      fi_Source = fi_Source f,
      fi_Transfers = complete_prefix (collect_valid [] (fi_Transfers f)) [1..<Suc transfer_maximum]\<rparr>"

section \<open>Facts\<close>

lemma validateFinal_iff:
  "validateFinal f = Inr () \<longleftrightarrow>
     fi_Cancelled f = validCancellation (fi_Reason f) \<and> diagnostic_ok (fi_InternalError f) \<and>
     diagnostic_ok (fi_RunError f) \<and> diagnostic_ok (fi_CleanupError f) \<and>
     length (fi_Transfers f) \<le> transfer_maximum \<and> list_all validTransferResult (fi_Transfers f) \<and>
     distinct (map tr_Transfer (fi_Transfers f)) \<and>
     {1..length (fi_Transfers f)} \<subseteq> num ` set (map tr_Transfer (fi_Transfers f))"
proof (cases "transfer_maximum < length (fi_Transfers f)")
  case False
  then show ?thesis
    by (auto simp: validateFinal_def diagnostic_ok_def linorder_not_less list_all_iff bind_r_Inr_iff
        scan_seen_Inr_iff first_missing_case split: if_splits)
qed (auto simp: validateFinal_def)

interpretation final_group: numbered_group tr_Transfer "\<lambda>ts. validateFinal (f\<lparr>fi_Transfers := ts\<rparr>) = Inr ()" for f
  by unfold_locales (simp_all add: validateFinal_iff)

lemma validateFinal_sorted:
  "validateFinal f = Inr () \<Longrightarrow> validateFinal (f\<lparr>fi_Transfers := sort_key tr_Transfer (fi_Transfers f)\<rparr>) = Inr ()"
  by (auto simp: validateFinal_iff list_all_iff distinct_map)

definition normalized :: "final \<Rightarrow> final" where
  "normalized f = f\<lparr>fi_InternalError := normalizeDiagnostic (fi_InternalError f),
     fi_RunError := normalizeDiagnostic (fi_RunError f),
     fi_CleanupError := normalizeDiagnostic (fi_CleanupError f),
     fi_Transfers := sort_key tr_Transfer (fi_Transfers f)\<rparr>"

definition final_bytes :: "final \<Rightarrow> byte list" where
  "final_bytes f = [if fi_Cancelled f then 1 else 0, fi_Reason f] @
     be16 (word_of_nat (length (fi_InternalError f))) @ be16 (word_of_nat (length (fi_RunError f))) @
     be16 (word_of_nat (length (fi_CleanupError f))) @ summary_bytes (fi_Source f) @
     to_bytes (fi_InternalError f) @ to_bytes (fi_RunError f) @ to_bytes (fi_CleanupError f) @
     [word_of_nat (length (fi_Transfers f))] @ concat (map result_bytes (fi_Transfers f))"

lemma encodeFinal_Inr_iff:
  "encodeFinal f = Inr p \<longleftrightarrow> validateFinal (normalized f) = Inr () \<and> p = final_bytes (normalized f)"
proof -
  let ?g = "f\<lparr>fi_InternalError := normalizeDiagnostic (fi_InternalError f),
     fi_RunError := normalizeDiagnostic (fi_RunError f), fi_CleanupError := normalizeDiagnostic (fi_CleanupError f)\<rparr>"
  have "validateFinal ?g = Inr () \<longleftrightarrow> validateFinal (normalized f) = Inr ()"
    by (auto simp: validateFinal_iff normalized_def list_all_iff distinct_map)
  then show ?thesis
    by (auto simp: encodeFinal_def orderedFinal_def bind_r_Inr_iff normalized_def final_bytes_def)
qed

lemma length_summary_bytes [simp]: "length (summary_bytes s) = 33"
  by (simp add: summary_bytes_def split: option.splits)

lemma length_result_bytes [simp]: "length (result_bytes r) = 7"
  by (simp add: result_bytes_def)

lemma length_results: "length (concat (map result_bytes rs)) = 7 * length rs"
  by (induction rs) simp_all

lemma length_final_bytes:
  "length (final_bytes f) = 42 + length (fi_InternalError f) + length (fi_RunError f) +
     length (fi_CleanupError f) + 7 * length (fi_Transfers f)"
  by (simp add: final_bytes_def length_results)

lemma subslice_middle: "length a = i \<Longrightarrow> i + length x = j \<Longrightarrow> subslice i j (a @ x @ b) = x"
  by (simp add: subslice_def)

lemma subslice_prefix: "j = length x \<Longrightarrow> subslice 0 j (x @ b) = x"
  by (simp add: subslice_def)

text \<open>Exit codes and signals fit their fields.\<close>

lemma sint_small: "-1 \<le> x \<Longrightarrow> x \<le> 255 \<Longrightarrow> sint (word_of_int x :: u32) = x"
  by (simp add: sint_sbintrunc' signed_take_bit_int_eq_self)

lemma uint_small16: "0 \<le> x \<Longrightarrow> x \<le> 255 \<Longrightarrow> uint (word_of_int x :: u16) = x"
  by (simp add: uint_word_of_int)

lemma decode_result_bytes:
  assumes "validTransferResult r" "number_ok (tr_Transfer r)"
  shows "decode_results (Suc n) (result_bytes r @ rest) = bind_r (decode_results n rest) (\<lambda>rs. Inr (r # rs))"
proof -
  obtain b where t: "tr_Transfer r = Number b" by (cases "tr_Transfer r")
  then have "number_new (uint b) = Inr (tr_Transfer r)" using assms(2) by (simp add: number_new_uint)
  moreover have "(result_bytes r @ rest) ! 0 = b" by (simp add: result_bytes_def t)
  moreover have "subslice 1 5 (result_bytes r @ rest) = be32 (word_of_int (tr_ExitCode r))"
    "subslice 5 7 (result_bytes r @ rest) = be16 (word_of_int (tr_Signal r))"
    by (simp_all add: result_bytes_def subslice_def)
  moreover have "sint (word_of_int (tr_ExitCode r) :: u32) = tr_ExitCode r"
    "uint (word_of_int (tr_Signal r) :: u16) = tr_Signal r"
    using assms(1) by (auto simp: validTransferResult_def intro: sint_small uint_small16)
  ultimately show ?thesis by (cases r) simp
qed

lemma decode_results_bytes:
  "list_all validTransferResult rs \<Longrightarrow> list_all (\<lambda>r. number_ok (tr_Transfer r)) rs \<Longrightarrow>
     decode_results (length rs) (concat (map result_bytes rs)) = Inr rs"
proof (induction rs)
  case (Cons r rs)
  then show ?case
    using decode_result_bytes [of r "length rs" "concat (map result_bytes rs)"] by simp
qed simp

lemma decode_summary_bytes:
  assumes "length a = 8"
  shows "decode_summary (a @ summary_bytes s @ b) = s" "(a @ summary_bytes s @ b) ! 8 \<le> 1"
proof -
  have split: "a @ summary_bytes (Some t) @ b = (a @ [1]) @ be64 (fs_FollowedSymlinks t) @
      be64 (fs_IgnoredSymlinks t) @ be64 (fs_EmptyDirectories t) @ be64 (fs_IgnoredSpecialFiles t) @ b" for t
    by (simp add: summary_bytes_def)
  have "(a @ summary_bytes s @ b) ! 8 = (if s = None then 0 else 1)"
    using assms by (simp add: nth_append summary_bytes_def split: option.splits)
  moreover have "subslice 9 17 (a @ summary_bytes (Some t) @ b) = be64 (fs_FollowedSymlinks t)"
    "subslice 17 25 (a @ summary_bytes (Some t) @ b) = be64 (fs_IgnoredSymlinks t)"
    "subslice 25 33 (a @ summary_bytes (Some t) @ b) = be64 (fs_EmptyDirectories t)"
    "subslice 33 41 (a @ summary_bytes (Some t) @ b) = be64 (fs_IgnoredSpecialFiles t)" for t
    using assms unfolding split by (simp_all add: subslice_def)
  ultimately show "decode_summary (a @ summary_bytes s @ b) = s" "(a @ summary_bytes s @ b) ! 8 \<le> 1"
    by (cases s; simp add: decode_summary_def)+
qed

lemma validateFinal_numbers:
  assumes "validateFinal f = Inr ()" "r \<in> set (fi_Transfers f)"
  shows "number_ok (tr_Transfer r)"
proof -
  have "f\<lparr>fi_Transfers := fi_Transfers f\<rparr> = f" by simp
  then show ?thesis using final_group.keys_ok [where f = f and xs = "fi_Transfers f" and x = r] assms by simp
qed

lemma final_bytes_fields:
  assumes "diagnostic_ok (fi_InternalError f)" "diagnostic_ok (fi_RunError f)" "diagnostic_ok (fi_CleanupError f)"
  defines "p \<equiv> final_bytes f"
  defines "i \<equiv> length (fi_InternalError f)" and "r \<equiv> length (fi_RunError f)" and "c \<equiv> length (fi_CleanupError f)"
  shows "(p ! 0 = 1) = fi_Cancelled f" "p ! 0 \<le> 1" "p ! 1 = fi_Reason f"
    "unat (unbe (subslice 2 4 p) :: u16) = i" "unat (unbe (subslice 4 6 p) :: u16) = r"
    "unat (unbe (subslice 6 8 p) :: u16) = c"
    "p ! 8 \<le> 1" "decode_summary p = fi_Source f"
    "subslice 41 (41 + i) p = to_bytes (fi_InternalError f)"
    "subslice (41 + i) (41 + i + r) p = to_bytes (fi_RunError f)"
    "subslice (41 + i + r) (41 + (i + r + c)) p = to_bytes (fi_CleanupError f)"
    "p ! (41 + (i + r + c)) = word_of_nat (length (fi_Transfers f))"
    "drop (42 + (i + r + c)) p = concat (map result_bytes (fi_Transfers f))"
proof -
  let ?h = "[if fi_Cancelled f then 1 else 0, fi_Reason f]"
  let ?s1 = "be16 (word_of_nat i)" and ?s2 = "be16 (word_of_nat r)" and ?s3 = "be16 (word_of_nat c)"
  let ?I = "to_bytes (fi_InternalError f)" and ?R = "to_bytes (fi_RunError f)" and ?C = "to_bytes (fi_CleanupError f)"
  let ?rest = "[word_of_nat (length (fi_Transfers f))] @ concat (map result_bytes (fi_Transfers f))"
  have p: "p = ?h @ ?s1 @ ?s2 @ ?s3 @ summary_bytes (fi_Source f) @ ?I @ ?R @ ?C @ ?rest"
    by (simp add: p_def final_bytes_def i_def r_def c_def)
  have b: "i \<le> 1024" "r \<le> 1024" "c \<le> 1024"
    using assms by (simp_all add: diagnostic_ok_def maximumDiagnosticBytes_def)
  have u: "unat (word_of_nat n :: u16) = n" if "n \<le> 1024" for n
    using that by (simp add: unat_of_nat)
  have l: "length ?I = i" "length ?R = r" "length ?C = c" by (simp_all add: i_def r_def c_def)
  show "(p ! 0 = 1) = fi_Cancelled f" "p ! 0 \<le> 1" "p ! 1 = fi_Reason f" by (simp_all add: p)
  show "unat (unbe (subslice 2 4 p) :: u16) = i"
    using subslice_middle [of ?h 2 ?s1 4] b by (simp add: p u)
  show "unat (unbe (subslice 4 6 p) :: u16) = r"
    using subslice_middle [of "?h @ ?s1" 4 ?s2 6] b by (simp add: p u)
  show "unat (unbe (subslice 6 8 p) :: u16) = c"
    using subslice_middle [of "?h @ ?s1 @ ?s2" 6 ?s3 8] b by (simp add: p u)
  have p8: "p = (?h @ ?s1 @ ?s2 @ ?s3) @ summary_bytes (fi_Source f) @ ?I @ ?R @ ?C @ ?rest" by (simp add: p)
  show "p ! 8 \<le> 1" "decode_summary p = fi_Source f"
    unfolding p8 by (rule decode_summary_bytes, simp)+
  let ?a = "?h @ ?s1 @ ?s2 @ ?s3 @ summary_bytes (fi_Source f)"
  have a: "length ?a = 41" by simp
  have pa: "p = ?a @ ?I @ ?R @ ?C @ ?rest" by (simp add: p)
  show "subslice 41 (41 + i) p = ?I" unfolding pa by (rule subslice_middle [OF a]) (simp add: i_def)
  show "subslice (41 + i) (41 + i + r) p = ?R"
    using subslice_middle [of "?a @ ?I" "41 + i" ?R "41 + i + r" "?C @ ?rest"] a l by (simp add: pa)
  show "subslice (41 + i + r) (41 + (i + r + c)) p = ?C"
    using subslice_middle [of "?a @ ?I @ ?R" "41 + i + r" ?C "41 + (i + r + c)" ?rest] a l by (simp add: pa)
  have pr: "p = (?a @ ?I @ ?R @ ?C) @ ?rest" by (simp add: pa)
  have la: "length (?a @ ?I @ ?R @ ?C) = 41 + (i + r + c)" using a l by simp
  show "p ! (41 + (i + r + c)) = word_of_nat (length (fi_Transfers f))"
    unfolding pr nth_append la by simp
  show "drop (42 + (i + r + c)) p = concat (map result_bytes (fi_Transfers f))"
    using la unfolding pr drop_append by simp
qed

lemma final_eta:
  "\<lparr>fi_Cancelled = fi_Cancelled f, fi_Reason = fi_Reason f, fi_InternalError = fi_InternalError f,
    fi_RunError = fi_RunError f, fi_CleanupError = fi_CleanupError f, fi_Source = fi_Source f,
    fi_Transfers = ts\<rparr> = f\<lparr>fi_Transfers := ts\<rparr>" for f :: final
  by simp

lemma decodeFinal_bytes:
  assumes v: "validateFinal f = Inr ()"
  shows "decodeFinal (final_bytes f) = Inr (f\<lparr>fi_Transfers := sort_key tr_Transfer (fi_Transfers f)\<rparr>)"
proof -
  have d: "diagnostic_ok (fi_InternalError f)" "diagnostic_ok (fi_RunError f)" "diagnostic_ok (fi_CleanupError f)"
    and t: "length (fi_Transfers f) \<le> 35" "list_all validTransferResult (fi_Transfers f)"
    using v by (simp_all add: validateFinal_iff transfer_maximum_def)
  note fields = final_bytes_fields [OF d]
  have n: "unat (word_of_nat (length (fi_Transfers f)) :: byte) = length (fi_Transfers f)"
    using t(1) by (simp add: unat_of_nat)
  have "decode_results (length (fi_Transfers f)) (concat (map result_bytes (fi_Transfers f))) = Inr (fi_Transfers f)"
    using t(2) validateFinal_numbers [OF v] by (intro decode_results_bytes) (auto simp: list_all_iff)
  moreover have "length (fi_InternalError f) \<le> maximumDiagnosticBytes" "length (fi_RunError f) \<le> maximumDiagnosticBytes"
    "length (fi_CleanupError f) \<le> maximumDiagnosticBytes"
    using d by (simp_all add: diagnostic_ok_def)
  moreover have "drop (42 + (length (fi_InternalError f) + (length (fi_RunError f) + length (fi_CleanupError f))))
      (final_bytes f) = concat (map result_bytes (fi_Transfers f))"
    using fields(13) by (simp only: add.assoc)
  ultimately show ?thesis
    using v t(1) n fields
    by (simp add: decodeFinal_def Let_def final_eta length_final_bytes transfer_maximum_def linorder_not_less)
qed

subsection \<open>The reduced result\<close>

definition collected :: "(transfer_number \<times> transfer_result) list \<Rightarrow> bool" where
  "collected valid \<longleftrightarrow> (\<forall>(k, r) \<in> set valid. k = tr_Transfer r \<and> validTransferResult r)"

lemma collect_valid_collected: "collected valid \<Longrightarrow> collected (collect_valid valid rs)"
  by (induction valid rs rule: collect_valid.induct) (auto simp: collected_def)

lemma collect_valid_set: "set (collect_valid valid rs) \<subseteq> set valid \<union> (\<lambda>r. (tr_Transfer r, r)) ` set rs"
  by (induction valid rs rule: collect_valid.induct) auto

lemma complete_prefix_numbers:
  "collected valid \<Longrightarrow> 1 \<le> a \<Longrightarrow> a \<le> 36 \<Longrightarrow>
     list_all validTransferResult (complete_prefix valid [a..<36]) \<and>
     map (num \<circ> tr_Transfer) (complete_prefix valid [a..<36]) = [a..<a + length (complete_prefix valid [a..<36])] \<and>
     a + length (complete_prefix valid [a..<36]) \<le> 36 \<and>
     set (complete_prefix valid [a..<36]) \<subseteq> snd ` set valid"
proof (induction "36 - a" arbitrary: a)
  case (Suc n)
  then have a: "[a..<36] = a # [Suc a..<36]" by (simp add: upt_conv_Cons)
  show ?case
  proof (cases "map_of valid (number_or_zero a)")
    case (Some r)
    then have r: "(number_or_zero a, r) \<in> set valid" by (rule map_of_SomeD)
    then have "tr_Transfer r = number_or_zero a" "validTransferResult r"
      using Suc.prems(1) by (auto simp: collected_def)
    moreover have "num (number_or_zero a) = a" using Suc by (intro num_number_or_zero) auto
    moreover have "r \<in> snd ` set valid" using r by force
    ultimately show ?thesis using Suc(1) [of "Suc a"] Suc(2-5) Some by (simp add: a upt_conv_Cons del: upt_Suc)
  qed (use Suc in \<open>simp add: a\<close>)
qed simp

lemma fallback_transfers:
  fixes f e
  defines "ts \<equiv> fi_Transfers (finalEncodingFallback f e)"
  shows "list_all validTransferResult ts" "map (num \<circ> tr_Transfer) ts = [1..<Suc (length ts)]"
    "length ts \<le> 35" "set ts \<subseteq> set (fi_Transfers f)"
proof -
  let ?valid = "collect_valid [] (fi_Transfers f)"
  have ts: "ts = complete_prefix ?valid [1..<36]"
    by (simp add: ts_def finalEncodingFallback_def transfer_maximum_def upt_rec)
  have "collected ?valid" by (rule collect_valid_collected) (simp add: collected_def)
  note c = complete_prefix_numbers [OF this, of 1, folded ts]
  show "list_all validTransferResult ts" "map (num \<circ> tr_Transfer) ts = [1..<Suc (length ts)]" "length ts \<le> 35"
    using c by simp_all
  have "set ts \<subseteq> snd ` set ?valid" using c by simp
  also have "\<dots> \<subseteq> set (fi_Transfers f)" using collect_valid_set [of "[]" "fi_Transfers f"] by auto
  finally show "set ts \<subseteq> set (fi_Transfers f)" .
qed

lemma fallback_valid: "validateFinal (finalEncodingFallback f e) = Inr ()"
proof -
  let ?g = "finalEncodingFallback f e"
  have n: "map (num \<circ> tr_Transfer) (fi_Transfers ?g) = [1..<Suc (length (fi_Transfers ?g))]"
    using fallback_transfers(2) .
  then have "distinct (map (num \<circ> tr_Transfer) (fi_Transfers ?g))" by (metis distinct_upt)
  then have "distinct (map tr_Transfer (fi_Transfers ?g))" by (auto simp: distinct_map inj_on_def)
  moreover have "set (map (num \<circ> tr_Transfer) (fi_Transfers ?g)) = {1..length (fi_Transfers ?g)}"
    using n by (metis atLeastLessThanSuc_atLeastAtMost set_upt)
  moreover have "fi_Cancelled ?g = validCancellation (fi_Reason ?g)"
    by (simp add: finalEncodingFallback_def validCancellation_def CancelInternal_def CancelUser_def CancelNone_def)
  moreover have "diagnostic_ok (fi_InternalError ?g)" "diagnostic_ok (fi_RunError ?g)" "diagnostic_ok (fi_CleanupError ?g)"
    by (simp_all add: finalEncodingFallback_def joinDiagnostic_ok normalizeDiagnostic_ok)
  ultimately show ?thesis
    using fallback_transfers(1,3) [of f e]
    by (simp add: validateFinal_iff transfer_maximum_def image_image o_def)
qed

lemma normalized_valid: "validateFinal f = Inr () \<Longrightarrow> validateFinal (normalized f) = Inr ()"
  by (auto simp: validateFinal_iff normalized_def normalizeDiagnostic_ok list_all_iff distinct_map)

section \<open>Properties\<close>

text \<open>
  C9: the final result survives the wire.  Whatever \<open>encodeFinal\<close> accepts, \<open>decodeFinal\<close>
  returns with its diagnostics normalised and its transfers in order, nothing else changed;
  and the payload is at most 3359 bytes, so that the frame is always written atomically.
\<close>

theorem final_round_trip:
  assumes "encodeFinal f = Inr p"
  shows "decodeFinal p = Inr (normalized f) \<and> length p \<le> 3359 \<and>
    mset (fi_Transfers (normalized f)) = mset (fi_Transfers f) \<and>
    map (num \<circ> tr_Transfer) (fi_Transfers (normalized f)) = [1..<Suc (length (fi_Transfers f))]"
proof -
  have v: "validateFinal (normalized f) = Inr ()" and p: "p = final_bytes (normalized f)"
    using assms by (simp_all add: encodeFinal_Inr_iff)
  have "(normalized f)\<lparr>fi_Transfers := sort_key tr_Transfer (fi_Transfers (normalized f))\<rparr> = normalized f"
    by (simp add: normalized_def sort_key_idem)
  then have "decodeFinal p = Inr (normalized f)" using decodeFinal_bytes [OF v] p by simp
  moreover have "length p \<le> 3359"
    using v by (simp add: p length_final_bytes validateFinal_iff diagnostic_ok_def maximumDiagnosticBytes_def
        transfer_maximum_def)
  moreover have "map (num \<circ> tr_Transfer) (fi_Transfers (normalized f)) = [1..<Suc (length (fi_Transfers f))]"
    using final_group.sorted_numbers [where f = "normalized f" and xs = "fi_Transfers (normalized f)"] v
    by (simp add: normalized_def sort_key_idem)
  ultimately show ?thesis by (simp add: normalized_def)
qed

definition demo_final :: final where
  "demo_final = \<lparr>fi_Cancelled = True, fi_Reason = CancelUser, fi_InternalError = [], fi_RunError = ''stopped'',
     fi_CleanupError = [], fi_Source = Some \<lparr>fs_FollowedSymlinks = 1, fs_IgnoredSymlinks = 0,
       fs_EmptyDirectories = 2, fs_IgnoredSpecialFiles = 0\<rparr>,
     fi_Transfers = [\<lparr>tr_Transfer = Number 2, tr_ExitCode = -1, tr_Signal = 15\<rparr>,
       \<lparr>tr_Transfer = Number 1, tr_ExitCode = 0, tr_Signal = 0\<rparr>]\<rparr>"

lemma demo_final_ok: "validateFinal demo_final = Inr ()"
proof -
  have "ValidString ''stopped''" "ValidString []" by code_simp+
  moreover have "{Suc 0..Suc (Suc 0)} \<subseteq> {num (Number 2), num (Number 1)}"
    by (auto simp: num_def)
  ultimately show ?thesis
    by (simp add: validateFinal_iff demo_final_def validCancellation_def CancelUser_def CancelInternal_def
        diagnostic_ok_def maximumDiagnosticBytes_def transfer_maximum_def validTransferResult_def)
qed

theorem final_round_trip_witness:
  "\<exists>p. encodeFinal demo_final = Inr p \<and> decodeFinal p = Inr (normalized demo_final)"
proof -
  have "encodeFinal demo_final = Inr (final_bytes (normalized demo_final))"
    using normalized_valid [OF demo_final_ok] by (simp add: encodeFinal_Inr_iff)
  from final_round_trip [OF this] this show ?thesis by blast
qed

text \<open>
  C10: the fallback cannot fail.  For any result and any encoding error, the reduced result
  is encodable; it keeps the cancelled flag, reports only results the run produced, and
  those are the transfers \<open>1..m\<close>.
\<close>

theorem fallback_final_always_encodes:
  "\<exists>p. encodeFinal (finalEncodingFallback f e) = Inr p \<and>
     fi_Cancelled (finalEncodingFallback f e) = fi_Cancelled f \<and>
     set (fi_Transfers (finalEncodingFallback f e)) \<subseteq> set (fi_Transfers f) \<and>
     map (num \<circ> tr_Transfer) (fi_Transfers (finalEncodingFallback f e)) =
       [1..<Suc (length (fi_Transfers (finalEncodingFallback f e)))]"
  using normalized_valid [OF fallback_valid] fallback_transfers(2,4)
  by (simp add: encodeFinal_Inr_iff finalEncodingFallback_def)

text \<open>
  diagnostics are bounded valid UTF-8 without needless loss: a normalised or joined
  diagnostic is valid and at most 1024 bytes; one that already is stays as it is; and a
  longer valid one loses at most the last three bytes of the bound.
\<close>

theorem diagnostics_are_bounded_text:
  "diagnostic_ok (normalizeDiagnostic s) \<and> diagnostic_ok (joinDiagnostic s t) \<and>
   (diagnostic_ok s \<longrightarrow> normalizeDiagnostic s = s) \<and>
   (ValidString s \<and> 1024 \<le> length s \<longrightarrow> 1021 \<le> length (normalizeDiagnostic s))"
  using normalizeDiagnostic_ok joinDiagnostic_ok normalizeDiagnostic_id
    truncateDiagnostic_keeps [of s maximumDiagnosticBytes]
  by (auto simp: normalizeDiagnostic_def ToValidUTF8_id maximumDiagnosticBytes_def)

theorem diagnostics_are_bounded_text_witness:
  "diagnostic_ok ''ok'' \<and> normalizeDiagnostic ''ok'' = ''ok''"
proof -
  have "ValidString ''ok''" by code_simp
  then have "diagnostic_ok ''ok''" by (simp add: diagnostic_ok_def maximumDiagnosticBytes_def)
  then show ?thesis using diagnostics_are_bounded_text [of "''ok''"] by blast
qed

end
