(* ===== verification/Supervisor_Codec.thy ===== *)
theory Supervisor_Codec
  imports Supervisor_Frame Supervisor_Final
begin

text \<open>
  What travels in supervisor frames (\<open>internal/runsupervisor/control.go\<close> and \<open>events.go\<close>):
  resize and input controls, cancellation, command output, status changes and the final
  result.  Streams and states are the bytes of the code with their validity tests.  The
  locale \<open>frame_codec\<close> is the contract of a sender and a receiver of one vocabulary;
  every vocabulary of the code interprets it.
\<close>

section \<open>The contract of a vocabulary\<close>

locale frame_codec =
  fixes enc :: "'a \<Rightarrow> 'e + frameKind \<times> byte list" and dec :: "wire_frame \<Rightarrow> 'e + 'a" and ok :: "'a \<Rightarrow> bool"
  assumes dec_enc: "ok x \<Longrightarrow> enc x = Inr (k, p) \<Longrightarrow> dec \<lparr>wf_kind = k, wf_payload = p\<rparr> = Inr x"
    and enc_fits: "enc x = Inr (k, p) \<Longrightarrow> length p \<le> maximumWirePayload"
begin

definition wire :: "'a \<Rightarrow> byte list \<Rightarrow> bool" where
  "wire x bs \<longleftrightarrow> (\<exists>k p. enc x = Inr (k, p) \<and> encodeFrame k p = Inr bs)"

lemma wire_total: "enc x = Inr (k, p) \<Longrightarrow> \<exists>bs. wire x bs"
  using enc_fits by (auto simp: wire_def encodeFrame_def linorder_not_less)

text \<open>A sequence of items sent back to back arrives as the same sequence.\<close>

lemma delivered:
  "list_all2 wire xs bss \<Longrightarrow> list_all ok xs \<Longrightarrow>
     \<exists>fs. read_frames (length xs) (concat bss @ rest) = Inr (fs, rest) \<and> map_r dec fs = Inr xs"
proof (induction rule: list_all2_induct)
  case (Cons x xs bs bss)
  obtain k p where kp: "enc x = Inr (k, p)" "encodeFrame k p = Inr bs"
    using Cons.hyps(1) by (auto simp: wire_def)
  have "readFrame (bs @ concat bss @ rest) = Inr (\<lparr>wf_kind = k, wf_payload = p\<rparr>, concat bss @ rest)"
    using kp(2) by (rule readFrame_encodeFrame)
  moreover obtain fs where "read_frames (length xs) (concat bss @ rest) = Inr (fs, rest)" "map_r dec fs = Inr xs"
    using Cons by auto
  ultimately show ?case
    using dec_enc [OF _ kp(1)] Cons.prems by auto
qed simp

end

section \<open>Controls\<close>

datatype control = Resize transfer_number u16 u16 | Input transfer_number "byte list"

datatype control_error = ResizeInvalid | InputInvalid | ResizePayload | InputPayload | NotAControl
  | CancelReasonInvalid | CancelFrameInvalid

definition newResizeControl :: "transfer_number \<Rightarrow> u16 \<Rightarrow> u16 \<Rightarrow> control" where
  "newResizeControl t cols rows = Resize t cols rows"

definition newInputControl :: "transfer_number \<Rightarrow> byte list \<Rightarrow> control" where
  "newInputControl t input = Input t input"

fun control_transfer :: "control \<Rightarrow> transfer_number" where
  "control_transfer (Resize t _ _) = t"
| "control_transfer (Input t _) = t"

fun encodeControl :: "control \<Rightarrow> control_error + frameKind \<times> byte list" where
  "encodeControl (Resize t cols rows) =
     (if num_value t = 0 \<or> cols = 0 \<or> rows = 0 then Inl ResizeInvalid
      else Inr (frameResize, [num_value t] @ be16 cols @ be16 rows))"
| "encodeControl (Input t input) =
     (if num_value t = 0 \<or> length input = 0 \<or> length input + 1 > maximumWirePayload then Inl InputInvalid
      else Inr (frameInput, [num_value t] @ input))"

definition decodeControl :: "wire_frame \<Rightarrow> control_error + control" where
  "decodeControl f =
     (let p = wf_payload f in
      if wf_kind f = frameResize then
        if length p \<noteq> 5 then Inl ResizePayload
        else
          let cols = unbe (subslice 1 3 p); rows = unbe (subslice 3 5 p) in
          (case number_new (uint (p ! 0)) of
             Inl _ \<Rightarrow> Inl ResizePayload
           | Inr t \<Rightarrow> if cols = 0 \<or> rows = 0 then Inl ResizePayload else Inr (newResizeControl t cols rows))
      else if wf_kind f = frameInput then
        if length p < 2 then Inl InputPayload
        else (case number_new (uint (p ! 0)) of
                Inl _ \<Rightarrow> Inl InputPayload
              | Inr t \<Rightarrow> Inr (newInputControl t (drop 1 p)))
      else Inl NotAControl)"

definition encodeCancellation :: "byte \<Rightarrow> control_error + frameKind \<times> byte list" where
  "encodeCancellation reason =
     (if \<not> validCancellation reason then Inl CancelReasonInvalid else Inr (frameCancel, [reason]))"

text \<open>
  \<open>writeCancellation\<close>: one \<open>Write\<close> of the whole frame; the answer of the writer is a
  parameter.  The second component is what reached the pipe.
\<close>

datatype cancel_write_error = CancelEncode control_error | CancelFrame frame_error | CancelWrite string | CancelShortWrite

definition writeCancellation ::
  "nat \<times> string option \<Rightarrow> byte \<Rightarrow> (cancel_write_error + unit) \<times> byte list" where
  "writeCancellation answer reason =
     (case encodeCancellation reason of
        Inl e \<Rightarrow> (Inl (CancelEncode e), [])
      | Inr (kind, payload) \<Rightarrow>
          (case encodeFrame kind payload of
             Inl e \<Rightarrow> (Inl (CancelFrame e), [])
           | Inr encoded \<Rightarrow>
               (case answer of (written, err) \<Rightarrow>
                  (case err of
                     Some e \<Rightarrow> (Inl (CancelWrite e), take written encoded)
                   | None \<Rightarrow>
                       if written \<noteq> length encoded then (Inl CancelShortWrite, take written encoded)
                       else (Inr (), encoded)))))"

definition decodeCancellation :: "wire_frame \<Rightarrow> control_error + byte" where
  "decodeCancellation f =
     (if wf_kind f \<noteq> frameCancel \<or> length (wf_payload f) \<noteq> 1 then Inl CancelFrameInvalid
      else if \<not> validCancellation (wf_payload f ! 0) then Inl CancelReasonInvalid
      else Inr (wf_payload f ! 0))"

section \<open>Events\<close>

definition maximumEventPayload :: nat where
  "maximumEventPayload = pipeAtomicFrameBytes - wireHeaderBytes"

definition maximumOutputChunk :: nat where
  "maximumOutputChunk = maximumEventPayload - 2"

definition OutputPTY :: byte where "OutputPTY = 1"
definition OutputStdout :: byte where "OutputStdout = 2"
definition OutputStderr :: byte where "OutputStderr = 3"

definition stream_valid :: "byte \<Rightarrow> bool" where
  "stream_valid s \<longleftrightarrow> OutputPTY \<le> s \<and> s \<le> OutputStderr"

definition TransferRunning :: byte where "TransferRunning = 1"
definition TransferExited :: byte where "TransferExited = 2"

record transfer_status =
  st_Transfer :: transfer_number
  st_State :: byte
  st_ExitCode :: int
  st_Signal :: int

datatype event =
    OutputEvent (ev_transfer: transfer_number) (ev_stream: byte) (ev_bytes: "byte list")
  | StatusEvent (ev_status: transfer_status)
  | FinalEvent (ev_final: final)

datatype event_error =
    OutputInvalid | OutputIdentityInvalid | StatusPayload | StatusTransfer | StatusInvalid
  | RunningWithOutcome | StatusResultInvalid | NotPipeAtomic | NotAnEvent | FinalError final_error

definition encodeOutput :: "transfer_number \<Rightarrow> byte \<Rightarrow> byte list \<Rightarrow> event_error + frameKind \<times> byte list" where
  "encodeOutput t stream contents =
     (if num_value t = 0 \<or> \<not> stream_valid stream \<or> length contents = 0 \<or> length contents > maximumOutputChunk
      then Inl OutputInvalid
      else Inr (frameOutput, [num_value t, stream] @ contents))"

definition decodeOutput :: "byte list \<Rightarrow> event_error + event" where
  "decodeOutput payload =
     (if length payload < 3 then Inl OutputInvalid
      else (case number_new (uint (payload ! 0)) of
              Inl _ \<Rightarrow> Inl OutputIdentityInvalid
            | Inr t \<Rightarrow>
                if \<not> stream_valid (payload ! 1) then Inl OutputIdentityInvalid
                else Inr (OutputEvent t (payload ! 1) (drop 2 payload))))"

definition encodeStatus :: "transfer_status \<Rightarrow> event_error + byte list" where
  "encodeStatus s =
     (if num_value (st_Transfer s) = 0 \<or> st_State s < TransferRunning \<or> st_State s > TransferExited
      then Inl StatusInvalid
      else if st_State s = TransferRunning \<and> (st_ExitCode s \<noteq> 0 \<or> st_Signal s \<noteq> 0) then Inl RunningWithOutcome
      else if st_State s \<noteq> TransferRunning \<and>
              \<not> validTransferResult \<lparr>tr_Transfer = st_Transfer s, tr_ExitCode = st_ExitCode s, tr_Signal = st_Signal s\<rparr>
      then Inl StatusResultInvalid
      else Inr ([num_value (st_Transfer s), st_State s] @
                be32 (word_of_int (st_ExitCode s)) @ be16 (word_of_int (st_Signal s))))"

definition decodeStatus :: "byte list \<Rightarrow> event_error + transfer_status" where
  "decodeStatus payload =
     (if length payload \<noteq> 8 then Inl StatusPayload
      else (case number_new (uint (payload ! 0)) of
              Inl _ \<Rightarrow> Inl StatusTransfer
            | Inr t \<Rightarrow>
                let s = \<lparr>st_Transfer = t, st_State = payload ! 1,
                      st_ExitCode = sint (unbe (subslice 2 6 payload) :: u32),
                      st_Signal = uint (unbe (subslice 6 8 payload) :: u16)\<rparr>
                in bind_r (encodeStatus s) (\<lambda>_. Inr s)))"

definition NewOutputEvent :: "transfer_number \<Rightarrow> byte \<Rightarrow> byte list \<Rightarrow> event_error + event" where
  "NewOutputEvent t stream contents = bind_r (encodeOutput t stream contents) (\<lambda>(_, payload). decodeOutput payload)"

definition NewStatusEvent :: "transfer_status \<Rightarrow> event_error + event" where
  "NewStatusEvent s = bind_r (encodeStatus s) (\<lambda>_. Inr (StatusEvent s))"

definition lift_final :: "final_error + 'a \<Rightarrow> event_error + 'a" where
  "lift_final r = (case r of Inl e \<Rightarrow> Inl (FinalError e) | Inr x \<Rightarrow> Inr x)"

definition NewFinalEvent :: "final \<Rightarrow> event_error + event" where
  "NewFinalEvent f = bind_r (lift_final (orderedFinal f)) (\<lambda>ordered. Inr (FinalEvent ordered))"

definition decodeEvent :: "wire_frame \<Rightarrow> event_error + event" where
  "decodeEvent f =
     (if \<not> allowedOnEventPipe (wf_kind f) \<or> length (wf_payload f) > maximumEventPayload then Inl NotPipeAtomic
      else (case wf_kind f of
              frameOutput \<Rightarrow> decodeOutput (wf_payload f)
            | frameStatus \<Rightarrow> bind_r (decodeStatus (wf_payload f)) (\<lambda>s. Inr (StatusEvent s))
            | frameFinal \<Rightarrow> bind_r (lift_final (decodeFinal (wf_payload f))) (\<lambda>x. Inr (FinalEvent x))
            | _ \<Rightarrow> Inl NotAnEvent))"

text \<open>The frame of an event, as the senders of the supervisor build it.\<close>

fun encodeEvent :: "event \<Rightarrow> event_error + frameKind \<times> byte list" where
  "encodeEvent (OutputEvent t stream contents) = encodeOutput t stream contents"
| "encodeEvent (StatusEvent s) = bind_r (encodeStatus s) (\<lambda>p. Inr (frameStatus, p))"
| "encodeEvent (FinalEvent f) = bind_r (lift_final (encodeFinal f)) (\<lambda>p. Inr (frameFinal, p))"


lemma resize_parts:
  "subslice (Suc 0) 3 (n # be16 c @ be16 r) = be16 c" "subslice 3 5 (n # be16 c @ be16 r) = be16 r"
  using subslice_middle [of "[n]" 1 "be16 c" 3 "be16 r"] subslice_middle [of "[n] @ be16 c" 3 "be16 r" 5 "[]"]
  by simp_all

lemma status_parts:
  "subslice 2 6 (n # s # be32 c @ be16 r) = be32 c" "subslice 6 8 (n # s # be32 c @ be16 r) = be16 r"
  using subslice_middle [of "[n, s]" 2 "be32 c" 6 "be16 r"] subslice_middle [of "[n, s] @ be32 c" 6 "be16 r" 8 "[]"]
  by simp_all

fun control_ok :: "control \<Rightarrow> bool" where
  "control_ok c = number_ok (control_transfer c)"

lemma number_new_value: "number_ok t \<Longrightarrow> number_new (uint (num_value t)) = Inr t"
  by (simp add: number_new_uint)

lemma decodeControl_encodeControl:
  assumes "control_ok c" "encodeControl c = Inr (k, p)"
  shows "decodeControl \<lparr>wf_kind = k, wf_payload = p\<rparr> = Inr c"
proof (cases c)
  case (Resize t cols rows)
  with assms have "k = frameResize" "p = [num_value t] @ be16 cols @ be16 rows" "cols \<noteq> 0" "rows \<noteq> 0"
    by (auto split: if_splits)
  with assms Resize show ?thesis
    by (simp add: decodeControl_def Let_def resize_parts number_new_value newResizeControl_def)
next
  case (Input t input)
  with assms show ?thesis
    by (cases input) (auto simp: decodeControl_def Let_def number_new_value newInputControl_def split: if_splits)
qed

interpretation controls: frame_codec encodeControl decodeControl control_ok
proof
  fix x k p assume "encodeControl x = Inr (k, p)"
  then show "length p \<le> maximumWirePayload"
    by (cases x) (auto simp: maximumWirePayload_def split: if_splits)
qed (rule decodeControl_encodeControl)

interpretation cancellations: frame_codec encodeCancellation decodeCancellation "\<lambda>_. True"
  by unfold_locales (auto simp: encodeCancellation_def decodeCancellation_def maximumWirePayload_def split: if_splits)

lemma encodeStatus_Inr:
  "encodeStatus s = Inr p \<Longrightarrow> p = [num_value (st_Transfer s), st_State s] @
      be32 (word_of_int (st_ExitCode s)) @ be16 (word_of_int (st_Signal s)) \<and>
      -1 \<le> st_ExitCode s \<and> st_ExitCode s \<le> 255 \<and> 0 \<le> st_Signal s \<and> st_Signal s \<le> 255"
  by (auto simp: encodeStatus_def validTransferResult_def split: if_splits)

lemma status_eta [simp]:
  "\<lparr>st_Transfer = st_Transfer s, st_State = st_State s, st_ExitCode = st_ExitCode s, st_Signal = st_Signal s\<rparr> = s"
  for s :: transfer_status
  by simp

lemma decodeStatus_encodeStatus:
  assumes "number_ok (st_Transfer s)" "encodeStatus s = Inr p"
  shows "decodeStatus p = Inr s"
proof -
  note p = encodeStatus_Inr [OF assms(2)]
  have "sint (word_of_int (st_ExitCode s) :: u32) = st_ExitCode s" "uint (word_of_int (st_Signal s) :: u16) = st_Signal s"
    using p by (simp_all add: sint_small uint_small16)
  with p assms show ?thesis
    by (simp add: decodeStatus_def Let_def status_parts number_new_value)
qed

fun event_ok :: "event \<Rightarrow> bool" where
  "event_ok (OutputEvent t _ _) = number_ok t"
| "event_ok (StatusEvent s) = number_ok (st_Transfer s)"
| "event_ok (FinalEvent f) = (normalized f = f)"

lemma encodeEvent_kind:
  "encodeEvent e = Inr (k, p) \<Longrightarrow> k \<in> {frameOutput, frameStatus, frameFinal}"
  by (cases e) (auto simp: encodeOutput_def bind_r_Inr_iff split: if_splits)

lemma lift_final_Inr_iff [result_simps]: "lift_final r = Inr x \<longleftrightarrow> r = Inr x"
  by (simp add: lift_final_def split: sum.splits)

lemma final_bytes_bound:
  "validateFinal f = Inr () \<Longrightarrow> length (final_bytes f) \<le> 3359"
  by (simp add: length_final_bytes validateFinal_iff diagnostic_ok_def maximumDiagnosticBytes_def transfer_maximum_def)

lemmas event_bounds = maximumEventPayload_def pipeAtomicFrameBytes_def wireHeaderBytes_def maximumOutputChunk_def

lemma encodeEvent_atomic: "encodeEvent e = Inr (k, p) \<Longrightarrow> length p \<le> maximumEventPayload"
proof (cases e)
  case (FinalEvent f)
  moreover assume "encodeEvent e = Inr (k, p)"
  ultimately show ?thesis
    using final_bytes_bound [of "normalized f"]
    by (auto simp: bind_r_Inr_iff lift_final_Inr_iff encodeFinal_Inr_iff event_bounds)
qed (auto simp: encodeOutput_def bind_r_Inr_iff event_bounds dest: encodeStatus_Inr split: if_splits)

lemma decodeFinal_normalized:
  assumes "validateFinal f = Inr ()" "normalized f = f"
  shows "decodeFinal (final_bytes f) = Inr f"
proof -
  have "sort_key tr_Transfer (fi_Transfers f) = fi_Transfers f"
    using arg_cong [OF assms(2), of fi_Transfers] by (simp add: normalized_def)
  then show ?thesis using decodeFinal_bytes [OF assms(1)] by simp
qed

lemma decodeEvent_encodeEvent:
  assumes "event_ok e" "encodeEvent e = Inr (k, p)"
  shows "decodeEvent \<lparr>wf_kind = k, wf_payload = p\<rparr> = Inr e"
proof -
  have "length p \<le> maximumEventPayload" "allowedOnEventPipe k"
    using encodeEvent_atomic [OF assms(2)] encodeEvent_kind [OF assms(2)] by (auto simp: allowedOnEventPipe_def)
  then show ?thesis
    using assms decodeStatus_encodeStatus decodeFinal_normalized
    by (cases e) (auto simp: decodeEvent_def encodeOutput_def decodeOutput_def number_new_value bind_r_Inr_iff lift_final_Inr_iff encodeFinal_Inr_iff split: if_splits)
qed

interpretation events: frame_codec encodeEvent decodeEvent event_ok
proof
  fix x k p assume "encodeEvent x = Inr (k, p)"
  then show "length p \<le> maximumWirePayload"
    using encodeEvent_atomic by (fastforce simp: event_bounds maximumWirePayload_def)
qed (rule decodeEvent_encodeEvent)

section \<open>Properties\<close>

text \<open>
  the parent's instructions reach the supervisor.  Controls accepted by \<open>encodeControl\<close>
  and framed one after the other are read back by \<open>readFrame\<close> and \<open>decodeControl\<close> as the
  same controls in the same order, and an accepted cancellation is read back as its reason;
  what follows on the pipe is left unread.
\<close>

theorem controls_and_cancellation_arrive:
  assumes "list_all control_ok cs" "list_all2 (frame_codec.wire encodeControl) cs frames"
    and "validCancellation reason"
  shows "(\<exists>fs. read_frames (length cs) (concat frames @ rest) = Inr (fs, rest) \<and> map_r decodeControl fs = Inr cs) \<and>
    (\<exists>f. bind_r (encodeFrame frameCancel [reason]) (\<lambda>bs. readFrame (bs @ rest)) = Inr (f, rest) \<and>
         decodeCancellation f = Inr reason)"
  using controls.delivered [OF assms(2,1)] cancellations.dec_enc [of reason frameCancel "[reason]"] assms(3)
    readFrame_encodeFrame [of frameCancel "[reason]" _ rest]
  by (simp add: encodeCancellation_def encodeFrame_def maximumWirePayload_def)

definition demo_controls :: "control list" where
  "demo_controls = [Resize (Number 2) 80 24, Input (Number 1) [13]]"

theorem controls_and_cancellation_arrive_witness:
  "\<exists>frames. list_all2 (frame_codec.wire encodeControl) demo_controls frames \<and>
     (\<exists>fs. read_frames 2 (concat frames @ [7]) = Inr (fs, [7]) \<and> map_r decodeControl fs = Inr demo_controls)"
proof -
  have ok: "list_all control_ok demo_controls"
    by (simp add: demo_controls_def number_ok_def num_def transfer_maximum_def)
  obtain a b where "controls.wire (Resize (Number 2) 80 24) a" "controls.wire (Input (Number 1) [13]) b"
    using controls.wire_total [of "Resize (Number 2) 80 24"] controls.wire_total [of "Input (Number 1) [13]"]
    by (auto simp: maximumWirePayload_def)
  then have wire: "list_all2 controls.wire demo_controls [a, b]" by (simp add: demo_controls_def)
  have "validCancellation CancelUser" by code_simp
  note arrive = controls_and_cancellation_arrive [OF ok wire this, of "[7]"]
  moreover have "length demo_controls = 2" by (simp add: demo_controls_def)
  ultimately show ?thesis using wire by metis
qed

end
