(* ===== verification/Plain_Output.thy ===== *)
theory Plain_Output
  imports Plain_Sanitizer Supervisor_Codec Netip
begin

text \<open>
  Plain, append-only output of a run (\<open>internal/plainoutput/output.go\<close>).  Child output is
  sanitized, split into logical lines, carriage-return progress is thinned out, and every
  line is written with the prefix of its transfer.  The \<open>io.Writer\<close> is a function from what
  it has received so far and the contents offered to the answer of \<open>Write\<close>; \<open>sw_out\<close> is what
  it has received and \<open>sw_lines\<close>, which is not in the code, lists the lines handed to it.  A
  \<open>time.Time\<close> is an \<open>int\<close> of nanoseconds, with \<open>None\<close> for the zero time.
\<close>

section \<open>The shared writer\<close>

definition progressInterval :: int where
  "progressInterval = 1000000000"

definition maximumLogicalLineBytes :: nat where
  "maximumLogicalLineBytes = 64 * 1024"

type_synonym sink = "byte list \<Rightarrow> byte list \<Rightarrow> int \<times> string option"

record sync_writer =
  sw_err :: "write_error option"
  sw_finalizing :: bool
  sw_out :: "byte list"
  sw_lines :: "(string \<times> byte list) list"

definition new_writer :: sync_writer where
  "new_writer = \<lparr>sw_err = None, sw_finalizing = False, sw_out = [], sw_lines = []\<rparr>"

text \<open>The package's own \<open>writeFull\<close>, with all the bytes the writer has received as second result.\<close>

function output_writeFull :: "sink \<Rightarrow> byte list \<Rightarrow> byte list \<Rightarrow> write_error option \<times> byte list" where
  "output_writeFull sink received content =
     (if content = [] then (None, received)
      else case sink received content of (written, err) \<Rightarrow>
        (case err of
           Some e \<Rightarrow> (Some (WriteFailed e), received @ take (nat written) content)
         | None \<Rightarrow>
             if written \<le> 0 then (Some ErrShortWrite, received)
             else if written > int (length content) then (Some ErrShortWrite, received @ content)
             else output_writeFull sink (received @ take (nat written) content) (drop (nat written) content)))"
  by pat_completeness auto
termination
  by (relation "measure (\<lambda>(sink, received, content). length content)") auto

declare output_writeFull.simps [simp del]

definition writeLine :: "sink \<Rightarrow> string \<Rightarrow> byte list \<Rightarrow> sync_writer \<Rightarrow> write_error option \<times> sync_writer" where
  "writeLine sink prefix line w =
     (case sw_err w of
        Some e \<Rightarrow> (if sw_finalizing w then None else Some e, w)
      | None \<Rightarrow>
          (case output_writeFull sink (sw_out w) (to_bytes prefix @ to_valid False line @ [0x0a]) of
             (err, received) \<Rightarrow>
               (err, w\<lparr>sw_err := err, sw_out := received, sw_lines := sw_lines w @ [(prefix, line)]\<rparr>)))"

definition beginFinalization :: "sync_writer \<Rightarrow> sync_writer" where
  "beginFinalization w = w\<lparr>sw_finalizing := True\<rparr>"

section \<open>One stream\<close>

record output_stream =
  os_line :: "byte list"
  os_progress :: "byte list"
  os_progressWritten :: bool
  os_segmentWritten :: bool
  os_lastProgress :: "int option"
  os_sanitizer :: terminal_sanitizer

definition new_stream :: output_stream where
  "new_stream = \<lparr>os_line = [], os_progress = [], os_progressWritten = False, os_segmentWritten = False,
     os_lastProgress = None, os_sanitizer = new_sanitizer\<rparr>"

datatype plain_error =
    PlainWrite write_error
  | SanitizerInvalidUTF8
  | PlainTransferInvalid
  | PlainIncomplete
  | PlainUnordered
  | PlainRepeats
  | PlainClosed
  | UnknownStream
  | UnknownTransfer
  | UnsupportedEvent

type_synonym stream_step = "plain_error option \<times> output_stream \<times> sync_writer"

text \<open>\<open>stream.write\<close>: the closure over the writer and the prefix.\<close>

definition stream_write :: "sink \<Rightarrow> string \<Rightarrow> byte list \<Rightarrow> sync_writer \<Rightarrow> plain_error option \<times> sync_writer" where
  "stream_write sink prefix line w =
     (case writeLine sink prefix line w of (err, w') \<Rightarrow> (map_option PlainWrite err, w'))"

definition resetLogicalLine :: "output_stream \<Rightarrow> output_stream" where
  "resetLogicalLine st = st\<lparr>os_line := [], os_progress := [], os_progressWritten := False,
     os_segmentWritten := False, os_lastProgress := None\<rparr>"

definition writeBufferedSegment :: "sink \<Rightarrow> string \<Rightarrow> output_stream \<Rightarrow> sync_writer \<Rightarrow> stream_step" where
  "writeBufferedSegment sink prefix st w =
     (case stream_write sink prefix (os_line st) w of
        (Some e, w) \<Rightarrow> (Some e, st, w)
      | (None, w) \<Rightarrow>
          (None, st\<lparr>os_line := [], os_progress := [], os_progressWritten := False, os_segmentWritten := True\<rparr>, w))"

definition appendVisibleBytes :: "sink \<Rightarrow> string \<Rightarrow> byte list \<Rightarrow> output_stream \<Rightarrow> sync_writer \<Rightarrow> stream_step" where
  "appendVisibleBytes sink prefix content st w =
     (case (if length (os_line st) \<noteq> 0 \<and> length (os_line st) + length content > maximumLogicalLineBytes
            then writeBufferedSegment sink prefix st w else (None, st, w)) of
        (Some e, st, w) \<Rightarrow> (Some e, st, w)
      | (None, st, w) \<Rightarrow>
          let st = st\<lparr>os_line := os_line st @ content\<rparr> in
          if length (os_line st) < maximumLogicalLineBytes then (None, st, w)
          else writeBufferedSegment sink prefix st w)"

definition acceptCarriageReturnWithoutLine ::
  "sink \<Rightarrow> string \<Rightarrow> int option \<Rightarrow> output_stream \<Rightarrow> sync_writer \<Rightarrow> stream_step" where
  "acceptCarriageReturnWithoutLine sink prefix now st w =
     (if length (os_progress st) \<noteq> 0 \<or> os_progressWritten st then (None, st, w)
      else if os_segmentWritten st
      then (None, (resetLogicalLine st)\<lparr>os_progressWritten := True, os_lastProgress := now\<rparr>, w)
      else (case stream_write sink prefix [] w of
              (Some e, w) \<Rightarrow> (Some e, st, w)
            | (None, w) \<Rightarrow> (None, st\<lparr>os_progressWritten := True, os_lastProgress := now\<rparr>, w)))"

text \<open>\<open>!lastProgress.IsZero() && now.Sub(lastProgress) < progressInterval\<close>; the zero time is
  earlier than every other.\<close>

definition too_early :: "int option \<Rightarrow> int option \<Rightarrow> bool" where
  "too_early now lastProgress =
     (case lastProgress of
        None \<Rightarrow> False
      | Some prev \<Rightarrow> (case now of None \<Rightarrow> True | Some t \<Rightarrow> t - prev < progressInterval))"

definition progressUpdate :: "sink \<Rightarrow> string \<Rightarrow> int option \<Rightarrow> output_stream \<Rightarrow> sync_writer \<Rightarrow> stream_step" where
  "progressUpdate sink prefix now st w =
     (if length (os_line st) = 0 then acceptCarriageReturnWithoutLine sink prefix now st w
      else
        let st = st\<lparr>os_progress := os_line st, os_line := [], os_progressWritten := False\<rparr> in
        if too_early now (os_lastProgress st) then (None, st, w)
        else (case stream_write sink prefix (os_progress st) w of
                (Some e, w) \<Rightarrow> (Some e, st, w)
              | (None, w) \<Rightarrow> (None, st\<lparr>os_progressWritten := True, os_lastProgress := now\<rparr>, w)))"

definition finishLine :: "sink \<Rightarrow> string \<Rightarrow> output_stream \<Rightarrow> sync_writer \<Rightarrow> stream_step" where
  "finishLine sink prefix st w =
     (if length (os_line st) = 0 \<and> os_progressWritten st then (None, resetLogicalLine st, w)
      else if length (os_line st) = 0 \<and> length (os_progress st) = 0 \<and> os_segmentWritten st
      then (None, resetLogicalLine st, w)
      else
        let line = (if length (os_line st) = 0 \<and> length (os_progress st) \<noteq> 0 then os_progress st else os_line st) in
        (case stream_write sink prefix line w of
           (Some e, w) \<Rightarrow> (Some e, st, w)
         | (None, w) \<Rightarrow> (None, resetLogicalLine st, w)))"

definition acceptVisible :: "sink \<Rightarrow> string \<Rightarrow> int option \<Rightarrow> byte \<Rightarrow> output_stream \<Rightarrow> sync_writer \<Rightarrow> stream_step" where
  "acceptVisible sink prefix now b st w =
     (if b = 0x0a then finishLine sink prefix st w
      else if b = 0x0d then progressUpdate sink prefix now st w
      else if b = 0x09 then appendVisibleBytes sink prefix [b] st w
      else if b \<ge> 0x20 \<and> b \<noteq> 0x7f then appendVisibleBytes sink prefix [b] st w
      else (None, st, w))"

text \<open>The width \<open>utf8.DecodeRune\<close> reports: 1 for a malformed head.\<close>

definition rune_width :: "byte list \<Rightarrow> nat" where
  "rune_width bs = (if rune_len bs = 0 then 1 else rune_len bs)"

function acceptSanitized :: "sink \<Rightarrow> string \<Rightarrow> int option \<Rightarrow> byte list \<Rightarrow> output_stream \<Rightarrow> sync_writer \<Rightarrow> stream_step" where
  "acceptSanitized sink prefix now content st w =
     (if content = [] then (None, st, w)
      else if content ! 0 < 0x80 then
        (case acceptVisible sink prefix now (content ! 0) st w of
           (Some e, st, w) \<Rightarrow> (Some e, st, w)
         | (None, st, w) \<Rightarrow> acceptSanitized sink prefix now (drop 1 content) st w)
      else if rune_width content = 1 then (Some SanitizerInvalidUTF8, st, w)
      else
        (case appendVisibleBytes sink prefix (take (rune_width content) content) st w of
           (Some e, st, w) \<Rightarrow> (Some e, st, w)
         | (None, st, w) \<Rightarrow> acceptSanitized sink prefix now (drop (rune_width content) content) st w))"
  by pat_completeness auto
termination
  by (relation "measure (\<lambda>(sink, prefix, now, content, st, w). length content)")
    (auto simp: rune_width_def neq_Nil_conv split: if_splits)

declare acceptSanitized.simps [simp del]

fun stream_accept :: "sink \<Rightarrow> string \<Rightarrow> int option \<Rightarrow> byte list \<Rightarrow> output_stream \<Rightarrow> sync_writer \<Rightarrow> stream_step" where
  "stream_accept sink prefix now [] st w = (None, st, w)"
| "stream_accept sink prefix now (b # bs) st w =
     (case sanitizer_accept b (os_sanitizer st) of (visible, z) \<Rightarrow>
        (case acceptSanitized sink prefix now visible (st\<lparr>os_sanitizer := z\<rparr>) w of
           (Some e, st, w) \<Rightarrow> (Some e, st, w)
         | (None, st, w) \<Rightarrow> stream_accept sink prefix now bs st w))"

definition stream_flush :: "sink \<Rightarrow> string \<Rightarrow> output_stream \<Rightarrow> sync_writer \<Rightarrow> stream_step" where
  "stream_flush sink prefix st w =
     (case sanitizer_finish (os_sanitizer st) of (visible, z) \<Rightarrow>
        (case acceptSanitized sink prefix None visible (st\<lparr>os_sanitizer := z\<rparr>) w of
           (Some e, st, w) \<Rightarrow> (Some e, st, w)
         | (None, st, w) \<Rightarrow>
             if length (os_line st) \<noteq> 0 then finishLine sink prefix st w
             else if length (os_progress st) \<noteq> 0 \<and> \<not> os_progressWritten st then finishLine sink prefix st w
             else (None, resetLogicalLine st, w)))"


section \<open>The output of a run\<close>

record plain_transfer =
  pt_number :: transfer_number
  pt_localIP :: addr

definition NewTransfer :: "transfer_number \<Rightarrow> addr \<Rightarrow> plain_error + plain_transfer" where
  "NewTransfer n ip =
     (if num_value n = 0 \<or> \<not> Is4 ip then Inl PlainTransferInvalid
      else Inr \<lparr>pt_number = n, pt_localIP = ip\<rparr>)"

text \<open>
  The streams and the writers live in one record; a stream is found by its transfer and its
  \<open>OutputStream\<close> byte, and the closure it holds is its prefix together with the writer of
  that byte.  \<open>Begin\<close> counts the entries of the transfer map, of which there are
  \<open>po_transfers\<close>, numbered from one.
\<close>

record plain_output =
  po_stdout :: sync_writer
  po_stderr :: sync_writer
  po_transfers :: "plain_transfer list"
  po_streams :: "transfer_number \<times> byte \<Rightarrow> (string \<times> output_stream) option"
  po_closed :: bool

definition prefix_of :: "plain_transfer \<Rightarrow> string" where
  "prefix_of t = ''['' @ decimal (num (pt_number t)) @ '' '' @ addr_string (pt_localIP t) @ ''] ''"

definition add_transfer :: "plain_transfer \<Rightarrow> plain_output \<Rightarrow> plain_output" where
  "add_transfer t po = po\<lparr>po_transfers := po_transfers po @ [t],
     po_streams := (po_streams po)(
       (pt_number t, OutputStdout) \<mapsto> (prefix_of t, new_stream),
       (pt_number t, OutputStderr) \<mapsto> (prefix_of t, new_stream))\<rparr>"

fun add_transfers :: "nat \<Rightarrow> plain_transfer list \<Rightarrow> plain_output \<Rightarrow> plain_error + plain_output" where
  "add_transfers expected [] po = Inr po"
| "add_transfers expected (t # ts) po =
     (if num_value (pt_number t) \<noteq> word_of_nat (expected + 1) \<or> \<not> Is4 (pt_localIP t) then Inl PlainUnordered
      else if pt_number t \<in> pt_number ` set (po_transfers po) then Inl PlainRepeats
      else add_transfers (expected + 1) ts (add_transfer t po))"

definition plain_New :: "bool \<Rightarrow> bool \<Rightarrow> plain_transfer list \<Rightarrow> plain_error + plain_output" where
  "plain_New stdout stderr ts =
     (if \<not> stdout \<or> \<not> stderr \<or> length ts = 0 \<or> length ts > transfer_maximum then Inl PlainIncomplete
      else add_transfers 0 ts \<lparr>po_stdout = new_writer, po_stderr = new_writer, po_transfers = [],
             po_streams = Map.empty, po_closed = False\<rparr>)"

definition plain_Begin :: "sink \<Rightarrow> plain_output \<Rightarrow> plain_error option \<times> plain_output" where
  "plain_Begin out po =
     (if po_closed po then (Some PlainClosed, po)
      else (case writeLine out ''transferlanes: ''
                   (to_bytes (''starting '' @ decimal (length (po_transfers po)) @ '' transfers'')) (po_stdout po) of
              (err, w) \<Rightarrow> (map_option PlainWrite err, po\<lparr>po_stdout := w\<rparr>)))"

text \<open>Running an operation of a stream on the writer its byte selects.\<close>

definition on_stream ::
  "(sink \<Rightarrow> string \<Rightarrow> output_stream \<Rightarrow> sync_writer \<Rightarrow> stream_step) \<Rightarrow> sink \<Rightarrow> sink \<Rightarrow>
   transfer_number \<Rightarrow> byte \<Rightarrow> string \<times> output_stream \<Rightarrow> plain_output \<Rightarrow> plain_error option \<times> plain_output" where
  "on_stream f out err t s entry po =
     (case entry of (prefix, st) \<Rightarrow>
        if s = OutputStderr then
          (case f err prefix st (po_stderr po) of (e, st, w) \<Rightarrow>
             (e, po\<lparr>po_stderr := w, po_streams := (po_streams po)((t, s) \<mapsto> (prefix, st))\<rparr>))
        else
          (case f out prefix st (po_stdout po) of (e, st, w) \<Rightarrow>
             (e, po\<lparr>po_stdout := w, po_streams := (po_streams po)((t, s) \<mapsto> (prefix, st))\<rparr>)))"

text \<open>\<open>errors.Join\<close>: the failures that are not nil, in order.\<close>

definition flush_stream :: "sink \<Rightarrow> sink \<Rightarrow> transfer_number \<Rightarrow> byte \<Rightarrow> plain_output \<Rightarrow> plain_error list \<times> plain_output" where
  "flush_stream out err t s po =
     (case po_streams po (t, s) of
        None \<Rightarrow> ([], po)
      | Some entry \<Rightarrow>
          (case on_stream stream_flush out err t s entry po of
             (e, po) \<Rightarrow> (case e of None \<Rightarrow> [] | Some e \<Rightarrow> [e], po)))"

definition flushTransfer :: "sink \<Rightarrow> sink \<Rightarrow> transfer_number \<Rightarrow> plain_output \<Rightarrow> plain_error list \<times> plain_output" where
  "flushTransfer out err t po =
     (case flush_stream out err t OutputStdout po of (failures, po) \<Rightarrow>
        (case flush_stream out err t OutputStderr po of (others, po) \<Rightarrow> (failures @ others, po)))"

definition plain_Show :: "sink \<Rightarrow> sink \<Rightarrow> int \<Rightarrow> event \<Rightarrow> plain_output \<Rightarrow> plain_error list \<times> plain_output" where
  "plain_Show out err now event po =
     (if po_closed po then ([PlainClosed], po)
      else (case event of
        OutputEvent t s bytes \<Rightarrow>
          (case po_streams po (t, s) of
             None \<Rightarrow> ([UnknownStream], po)
           | Some entry \<Rightarrow>
               (case on_stream (\<lambda>sink prefix. stream_accept sink prefix (Some now) bytes) out err t s entry po of
                  (e, po) \<Rightarrow> (case e of None \<Rightarrow> [] | Some e \<Rightarrow> [e], po)))
      | StatusEvent status \<Rightarrow>
          if st_Transfer status \<notin> pt_number ` set (po_transfers po) then ([UnknownTransfer], po)
          else if st_State status = TransferExited then flushTransfer out err (st_Transfer status) po
          else ([], po)
      | FinalEvent _ \<Rightarrow> ([UnsupportedEvent], po)))"

fun flush_numbers :: "sink \<Rightarrow> sink \<Rightarrow> nat list \<Rightarrow> plain_output \<Rightarrow> plain_error list \<times> plain_output" where
  "flush_numbers out err [] po = ([], po)"
| "flush_numbers out err (n # ns) po =
     (case flushTransfer out err (case number_new (int n) of Inl _ \<Rightarrow> no_number | Inr t \<Rightarrow> t) po of
        (failures, po) \<Rightarrow> (case flush_numbers out err ns po of (others, po) \<Rightarrow> (failures @ others, po)))"

definition plain_Close :: "sink \<Rightarrow> sink \<Rightarrow> plain_output \<Rightarrow> plain_error list \<times> plain_output" where
  "plain_Close out err po =
     (if po_closed po then ([], po)
      else flush_numbers out err [1..<length (po_transfers po) + 1]
             (po\<lparr>po_closed := True, po_stdout := beginFinalization (po_stdout po),
                po_stderr := beginFinalization (po_stderr po)\<rparr>))"


section \<open>Safety of what is written\<close>

definition printable :: "byte list \<Rightarrow> bool" where
  "printable bs \<longleftrightarrow> visible_text bs \<and> list_all (\<lambda>b. b = 0x09 \<or> 0x20 \<le> b \<and> b \<noteq> 0x7f) bs"

definition render :: "string \<times> byte list \<Rightarrow> byte list" where
  "render entry = to_bytes (fst entry) @ snd entry @ [0x0a]"

definition line_ok :: "byte list \<Rightarrow> bool" where
  "line_ok line \<longleftrightarrow> printable line \<and> length line \<le> maximumLogicalLineBytes"

definition writer_inv :: "string set \<Rightarrow> sync_writer \<Rightarrow> bool" where
  "writer_inv names w \<longleftrightarrow>
     (\<forall>(name, line) \<in> set (sw_lines w). name \<in> names \<and> line_ok line) \<and>
     (\<exists>rest. concat (map render (sw_lines w)) = sw_out w @ rest) \<and>
     (sw_err w = None \<longrightarrow> sw_out w = concat (map render (sw_lines w)))"

definition stream_inv :: "output_stream \<Rightarrow> bool" where
  "stream_inv st \<longleftrightarrow> line_ok (os_line st) \<and> line_ok (os_progress st) \<and> san_inv (os_sanitizer st)"

lemma printable_Nil [simp]: "printable []"
  by (simp add: printable_def)

lemma printable_append [intro]: "printable a \<Longrightarrow> printable b \<Longrightarrow> printable (a @ b)"
  by (simp add: printable_def visible_append)

lemma line_ok_Nil [simp]: "line_ok []"
  by (simp add: line_ok_def)

lemma printable_utf8: "printable bs \<Longrightarrow> utf8_valid bs"
  by (simp add: printable_def visible_utf8)

lemma output_writeFull_prefix:
  "output_writeFull sink received content = (err, received') \<Longrightarrow>
     (\<exists>rest. received @ content = received' @ rest) \<and> (err = None \<longrightarrow> received' = received @ content)"
proof (induction sink received content arbitrary: err received' rule: output_writeFull.induct)
  case (1 sink received content)
  obtain n e where s: "sink received content = (n, e)" by fastforce
  have cut: "\<exists>rest. content = take (nat n) content @ rest" by (rule exI [of _ "drop (nat n) content"]) simp
  show ?case
  proof (cases "content = [] \<or> e \<noteq> None \<or> n \<le> 0 \<or> n > int (length content)")
    case True
    then show ?thesis using "1.prems" s cut
      by (subst (asm) output_writeFull.simps) (auto split: if_splits option.splits)
  next
    case False
    then have "output_writeFull sink (received @ take (nat n) content) (drop (nat n) content) = (err, received')"
      using "1.prems" s by (subst (asm) output_writeFull.simps) auto
    from "1.IH" [OF _ s [symmetric] _ _ _ this] False show ?thesis by auto
  qed
qed

lemma writeLine_safe:
  assumes "writeLine sink name line w = (err, w')" "writer_inv names w" "name \<in> names" "line_ok line"
  shows "writer_inv names w'"
proof (cases "sw_err w")
  case (Some e)
  then show ?thesis using assms by (simp add: writeLine_def split: if_splits)
next
  case None
  obtain err1 received where f:
    "output_writeFull sink (sw_out w) (to_bytes name @ to_valid False line @ [0x0a]) = (err1, received)" by fastforce
  have l: "to_valid False line = line" using assms(4) printable_utf8 by (simp add: line_ok_def to_valid_id)
  have out: "sw_out w = concat (map render (sw_lines w))" using assms(2) None by (simp add: writer_inv_def)
  have w': "w' = w\<lparr>sw_err := err1, sw_out := received, sw_lines := sw_lines w @ [(name, line)]\<rparr>"
    using assms(1) None f by (auto simp: writeLine_def)
  show ?thesis
    using output_writeFull_prefix [OF f] assms(2-4) out by (auto simp: w' writer_inv_def render_def l)
qed

lemma stream_write_safe:
  assumes "stream_write sink name line w = (err, w')" "writer_inv names w" "name \<in> names" "line_ok line"
  shows "writer_inv names w' \<and> err \<noteq> Some SanitizerInvalidUTF8"
  using assms writeLine_safe [of sink name line w] by (auto simp: stream_write_def split: prod.splits)

text \<open>What every operation on a stream keeps.\<close>

definition keeps :: "string set \<Rightarrow> string \<Rightarrow> (output_stream \<Rightarrow> sync_writer \<Rightarrow> stream_step) \<Rightarrow> bool" where
  "keeps names name f \<longleftrightarrow>
     (\<forall>st w e st' w'. f st w = (e, st', w') \<longrightarrow> name \<in> names \<longrightarrow> stream_inv st \<longrightarrow> writer_inv names w \<longrightarrow>
        stream_inv st' \<and> writer_inv names w' \<and> e \<noteq> Some SanitizerInvalidUTF8)"

lemma keepsD:
  "keeps names name f \<Longrightarrow> f st w = (e, st', w') \<Longrightarrow> name \<in> names \<Longrightarrow> stream_inv st \<Longrightarrow> writer_inv names w \<Longrightarrow>
     stream_inv st' \<and> writer_inv names w' \<and> e \<noteq> Some SanitizerInvalidUTF8"
  by (auto simp: keeps_def)

lemma keeps_write:
  assumes "\<And>st. stream_inv st \<Longrightarrow> line_ok (line st)"
    and "\<And>st. stream_inv st \<Longrightarrow> stream_inv (bad st)" "\<And>st. stream_inv st \<Longrightarrow> stream_inv (good st)"
  shows "keeps names name (\<lambda>st w. case stream_write sink name (line st) w of
           (Some e, w) \<Rightarrow> (Some e, bad st, w) | (None, w) \<Rightarrow> (None, good st, w))"
  unfolding keeps_def using assms stream_write_safe by (fastforce split: prod.splits option.splits)

lemma keeps_pure: "(\<And>st. stream_inv st \<Longrightarrow> stream_inv (g st)) \<Longrightarrow> keeps names name (\<lambda>st w. (None, g st, w))"
  by (simp add: keeps_def)

lemma keeps_if:
  "keeps names name f \<Longrightarrow> keeps names name g \<Longrightarrow> keeps names name (\<lambda>st w. if c st then f st w else g st w)"
  by (simp add: keeps_def)

lemma keeps_cond:
  "(c \<Longrightarrow> keeps names name f) \<Longrightarrow> (\<not> c \<Longrightarrow> keeps names name g) \<Longrightarrow> keeps names name (\<lambda>st w. if c then f st w else g st w)"
  by (simp add: keeps_def)

lemma keeps_then:
  assumes "keeps names name f" "keeps names name g"
  shows "keeps names name (\<lambda>st w. case f st w of (Some e, st, w) \<Rightarrow> (Some e, st, w) | (None, st, w) \<Rightarrow> g st w)"
  unfolding keeps_def
proof (intro allI impI)
  fix st w e st' w'
  assume a: "(case f st w of (Some e, st, w) \<Rightarrow> (Some e, st, w) | (None, st, w) \<Rightarrow> g st w) = (e, st', w')"
    and inv: "name \<in> names" "stream_inv st" "writer_inv names w"
  obtain e1 st1 w1 where f: "f st w = (e1, st1, w1)" by (metis prod_cases3)
  show "stream_inv st' \<and> writer_inv names w' \<and> e \<noteq> Some SanitizerInvalidUTF8"
    using keepsD [OF assms(1) f inv] keepsD [OF assms(2) _ inv(1)] a f by (cases e1) auto
qed

lemma stream_inv_reset [simp]: "stream_inv st \<Longrightarrow> stream_inv (resetLogicalLine st)"
  by (simp add: stream_inv_def resetLogicalLine_def)

lemma keeps_segment: "keeps names name (writeBufferedSegment sink name)"
  unfolding writeBufferedSegment_def by (rule keeps_write) (simp_all add: stream_inv_def)

lemma keeps_finishLine: "keeps names name (finishLine sink name)"
  unfolding finishLine_def Let_def
  by (intro keeps_if keeps_write keeps_pure) (simp_all add: stream_inv_def resetLogicalLine_def)

lemma line_ok_longer:
  "line_ok line \<Longrightarrow> printable content \<Longrightarrow> length line + length content \<le> maximumLogicalLineBytes \<Longrightarrow> line_ok (line @ content)"
  by (auto simp: line_ok_def)

lemma keeps_append:
  assumes "printable content" "length content \<le> 4"
  shows "keeps names name (appendVisibleBytes sink name content)"
  unfolding keeps_def
proof (intro allI impI)
  fix st w e st' w'
  assume a: "appendVisibleBytes sink name content st w = (e, st', w')"
    and inv: "name \<in> names" "stream_inv st" "writer_inv names w"
  let ?f = "\<lambda>st w. if length (os_line st) \<noteq> 0 \<and> length (os_line st) + length content > maximumLogicalLineBytes
            then writeBufferedSegment sink name st w else (None, st, w)"
  obtain e1 st1 w1 where f: "?f st w = (e1, st1, w1)" by (metis prod_cases3)
  have k: "keeps names name ?f" by (intro keeps_if keeps_segment keeps_pure)
  have one: "stream_inv st1" "writer_inv names w1" "e1 \<noteq> Some SanitizerInvalidUTF8"
    using keepsD [OF k f inv] by auto
  show "stream_inv st' \<and> writer_inv names w' \<and> e \<noteq> Some SanitizerInvalidUTF8"
  proof (cases e1)
    case (Some x)
    then show ?thesis using a f one by (auto simp: appendVisibleBytes_def)
  next
    case None
    have "length (os_line st1) + length content \<le> maximumLogicalLineBytes"
      using f None assms(2)
      by (auto simp: writeBufferedSegment_def maximumLogicalLineBytes_def split: if_splits prod.splits option.splits)
    then have i: "stream_inv (st1\<lparr>os_line := os_line st1 @ content\<rparr>)"
      using one(1) assms(1) by (simp add: stream_inv_def line_ok_longer)
    show ?thesis
      using a f None i one keepsD [OF keeps_segment _ inv(1) i one(2)]
      by (auto simp: appendVisibleBytes_def Let_def split: if_splits)
  qed
qed

lemma keeps_carriage: "keeps names name (acceptCarriageReturnWithoutLine sink name now)"
  unfolding acceptCarriageReturnWithoutLine_def Let_def
  by (intro keeps_if keeps_write keeps_pure) (simp_all add: stream_inv_def resetLogicalLine_def)

lemma keeps_progress: "keeps names name (progressUpdate sink name now)"
  unfolding progressUpdate_def Let_def
  by (intro keeps_if keeps_write keeps_pure keeps_carriage) (simp_all add: stream_inv_def)

lemma rune_high:
  assumes "rune_len bs \<noteq> 0" "\<not> bs ! 0 < 0x80"
  shows "2 \<le> rune_len bs" "list_all (\<lambda>b. 0x80 \<le> b) (take (rune_len bs) bs)"
proof -
  show n: "2 \<le> rune_len bs"
    using assms by (auto simp: rune_len_def dest: rune_lead_size split: list.splits option.splits if_splits)
  note shape = rune_shape [OF refl n]
  have "take (rune_len bs) bs = hd bs # tl (take (rune_len bs) bs)"
    using shape(1) n by (cases bs; cases "rune_len bs") auto
  moreover have "0x80 \<le> hd bs" using assms(2) shape(1) by (simp add: hd_conv_nth not_less)
  moreover have "list_all (\<lambda>b. 0x80 \<le> b) (tl (take (rune_len bs) bs))"
    using shape(3) by (auto simp: list_all_iff continuation_def)
  ultimately show "list_all (\<lambda>b. 0x80 \<le> b) (take (rune_len bs) bs)" by (metis list.pred_inject(2))
qed

lemma printable_rune:
  assumes "rune_len bs \<noteq> 0" "\<not> bs ! 0 < 0x80" "visible_rune (DecodeRune bs)"
  shows "printable (take (rune_len bs) bs)"
proof -
  let ?r = "take (rune_len bs) bs"
  have bs: "bs \<noteq> []" using assms(1) by (auto simp: rune_len_def)
  have "rune_len ?r = rune_len bs" by (rule rune_len_take)
  moreover have "DecodeRune ?r = DecodeRune bs"
    using DecodeRune_append [of ?r "drop (rune_len bs) bs"] calculation assms(1) by simp
  ultimately have "visible_text ?r"
    using visible_step [of ?r] assms bs by simp
  moreover have "list_all (\<lambda>b :: byte. b = 0x09 \<or> 0x20 \<le> b \<and> b \<noteq> 0x7f) ?r"
    using rune_high(2) [OF assms(1,2)] by (auto simp: list_all_iff word_le_nat_alt)
  ultimately show ?thesis by (simp add: printable_def)
qed

lemma printable_byte:
  "b < 0x80 \<Longrightarrow> b = 0x09 \<or> 0x20 \<le> b \<and> b \<noteq> 0x7f \<Longrightarrow> printable [b]"
  using visible_single [of b] by (cases "b = 0x1b") (auto simp: printable_def)

lemma keeps_visible:
  assumes "b < 0x80"
  shows "keeps names name (acceptVisible sink name now b)"
  unfolding acceptVisible_def
  by (intro keeps_cond keeps_finishLine keeps_progress keeps_append keeps_pure)
    (use assms printable_byte [of b] in auto)

lemma sanitized_Nil [simp]: "acceptSanitized sink name now [] = (\<lambda>st w. (None, st, w))"
  by (intro ext, subst acceptSanitized.simps) simp

lemma sanitized_low:
  "bs \<noteq> [] \<Longrightarrow> bs ! 0 < 0x80 \<Longrightarrow>
     acceptSanitized sink name now bs = (\<lambda>st w. case acceptVisible sink name now (bs ! 0) st w of
       (Some e, st, w) \<Rightarrow> (Some e, st, w) | (None, st, w) \<Rightarrow> acceptSanitized sink name now (drop 1 bs) st w)"
  by (intro ext, subst acceptSanitized.simps) simp

lemma sanitized_high:
  "rune_len bs \<noteq> 0 \<Longrightarrow> \<not> bs ! 0 < 0x80 \<Longrightarrow>
     acceptSanitized sink name now bs = (\<lambda>st w. case appendVisibleBytes sink name (take (rune_len bs) bs) st w of
       (Some e, st, w) \<Rightarrow> (Some e, st, w) | (None, st, w) \<Rightarrow> acceptSanitized sink name now (drop (rune_len bs) bs) st w)"
  using rune_high(1) [of bs] rune_len_bounds(2) [of bs]
  by (intro ext, subst acceptSanitized.simps) (auto simp: rune_width_def split: prod.splits option.splits)

lemma rune_low: "bs \<noteq> [] \<Longrightarrow> bs ! 0 < 0x80 \<Longrightarrow> rune_len bs = 1"
  by (cases bs) (simp_all add: rune_len_def)

lemma keeps_sanitized: "visible_text content \<Longrightarrow> keeps names name (acceptSanitized sink name now content)"
proof (induction content rule: visible_text.induct)
  case (1 bs)
  show ?case
  proof (cases "bs = []")
    case True
    then show ?thesis by (simp add: keeps_pure)
  next
    case False
    with "1.prems" have r: "rune_len bs \<noteq> 0" "visible_rune (DecodeRune bs)" "visible_text (drop (rune_len bs) bs)"
      by (simp_all add: visible_step)
    note IH = "1.IH" [OF False]
    show ?thesis
    proof (cases "bs ! 0 < 0x80")
      case True
      then show ?thesis
        unfolding sanitized_low [OF False True]
        using IH r rune_low [OF False True] by (intro keeps_then keeps_visible) auto
    next
      case h: False
      show ?thesis
        unfolding sanitized_high [OF r(1) h]
        using IH r rune_len_bounds [of bs] by (intro keeps_then keeps_append printable_rune h) auto
    qed
  qed
qed

lemma keeps_accept: "keeps names name (stream_accept sink name now bs)"
proof (induction bs)
  case Nil
  then show ?case by (simp add: keeps_def)
next
  case (Cons b bs)
  show ?case
    unfolding keeps_def
  proof (intro allI impI)
    fix st w e st' w'
    assume a: "stream_accept sink name now (b # bs) st w = (e, st', w')"
      and inv: "name \<in> names" "stream_inv st" "writer_inv names w"
    obtain visible z where z: "sanitizer_accept b (os_sanitizer st) = (visible, z)" by fastforce
    have s: "visible_text visible" "san_inv z"
      using sanitizer_accept_safe [OF z] inv(2) by (auto simp: stream_inv_def)
    have i: "stream_inv (st\<lparr>os_sanitizer := z\<rparr>)" using inv(2) s(2) by (simp add: stream_inv_def)
    have k: "keeps names name (\<lambda>st w. case acceptSanitized sink name now visible st w of
        (Some e, st, w) \<Rightarrow> (Some e, st, w) | (None, st, w) \<Rightarrow> stream_accept sink name now bs st w)"
      by (rule keeps_then [OF keeps_sanitized [OF s(1)] Cons.IH])
    show "stream_inv st' \<and> writer_inv names w' \<and> e \<noteq> Some SanitizerInvalidUTF8"
      by (rule keepsD [OF k _ inv(1) i inv(3)]) (use a z in simp)
  qed
qed

lemma keeps_flush: "keeps names name (stream_flush sink name)"
  unfolding keeps_def
proof (intro allI impI)
  fix st w e st' w'
  assume a: "stream_flush sink name st w = (e, st', w')"
    and inv: "name \<in> names" "stream_inv st" "writer_inv names w"
  obtain visible z where z: "sanitizer_finish (os_sanitizer st) = (visible, z)" by fastforce
  have s: "visible_text visible" "san_inv z"
    using z by (auto simp: sanitizer_finish_def appendReplacement_fits replacement_visible clean_inv)
  have i: "stream_inv (st\<lparr>os_sanitizer := z\<rparr>)" using inv(2) s(2) by (simp add: stream_inv_def)
  have g: "keeps names name (\<lambda>st w. if length (os_line st) \<noteq> 0 then finishLine sink name st w
             else if length (os_progress st) \<noteq> 0 \<and> \<not> os_progressWritten st then finishLine sink name st w
             else (None, resetLogicalLine st, w))"
    by (intro keeps_if keeps_finishLine keeps_pure) simp
  show "stream_inv st' \<and> writer_inv names w' \<and> e \<noteq> Some SanitizerInvalidUTF8"
    by (rule keepsD [OF keeps_then [OF keeps_sanitized [OF s(1)] g] _ inv(1) i inv(3)])
      (use a z in \<open>simp add: stream_flush_def\<close>)
qed

section \<open>The interface between a stream and its output\<close>

definition plain_inv :: "string set \<Rightarrow> plain_output \<Rightarrow> bool" where
  "plain_inv names po \<longleftrightarrow>
     writer_inv names (po_stdout po) \<and> writer_inv names (po_stderr po) \<and>
     (\<forall>key name st. po_streams po key = Some (name, st) \<longrightarrow> name \<in> names \<and> stream_inv st)"

locale stream_operation =
  fixes f :: "sink \<Rightarrow> string \<Rightarrow> output_stream \<Rightarrow> sync_writer \<Rightarrow> stream_step"
  assumes safe: "keeps names name (f sink name)"
begin

lemma on_stream_safe:
  assumes "on_stream f out err t s entry po = (e, po')" "po_streams po (t, s) = Some entry" "plain_inv names po"
  shows "plain_inv names po' \<and> e \<noteq> Some SanitizerInvalidUTF8 \<and>
    po_transfers po' = po_transfers po \<and> po_closed po' = po_closed po"
proof -
  obtain name st where en: "entry = (name, st)" by fastforce
  have inv: "name \<in> names" "stream_inv st" "writer_inv names (po_stdout po)" "writer_inv names (po_stderr po)"
    using assms(2,3) by (auto simp: plain_inv_def en)
  show ?thesis
    using assms keepsD [OF safe _ inv(1,2,3)] keepsD [OF safe _ inv(1,2,4)] inv
    by (auto simp: on_stream_def en plain_inv_def split: if_splits prod.splits)
qed

end

interpretation accepting: stream_operation "\<lambda>sink prefix. stream_accept sink prefix now bytes"
  by unfold_locales (rule keeps_accept)

interpretation flushing: stream_operation stream_flush
  by unfold_locales (rule keeps_flush)


lemma flush_stream_safe:
  assumes "flush_stream out err t s po = (failures, po')" "plain_inv names po"
  shows "plain_inv names po' \<and> SanitizerInvalidUTF8 \<notin> set failures"
proof (cases "po_streams po (t, s)")
  case (Some entry)
  then show ?thesis
    using assms flushing.on_stream_safe [OF _ Some assms(2)]
    by (fastforce simp: flush_stream_def split: prod.splits option.splits)
qed (use assms in \<open>simp add: flush_stream_def\<close>)

lemma flushTransfer_safe:
  assumes "flushTransfer out err t po = (failures, po')" "plain_inv names po"
  shows "plain_inv names po' \<and> SanitizerInvalidUTF8 \<notin> set failures"
proof -
  obtain f1 po1 where a: "flush_stream out err t OutputStdout po = (f1, po1)" by fastforce
  obtain f2 po2 where b: "flush_stream out err t OutputStderr po1 = (f2, po2)" by fastforce
  show ?thesis
    using assms a b flush_stream_safe [OF a assms(2)] flush_stream_safe [OF b, of names]
    by (auto simp: flushTransfer_def)
qed

lemma flush_numbers_safe:
  "flush_numbers out err ns po = (failures, po') \<Longrightarrow> plain_inv names po \<Longrightarrow>
     plain_inv names po' \<and> SanitizerInvalidUTF8 \<notin> set failures"
proof (induction ns arbitrary: po failures po')
  case (Cons n ns)
  let ?t = "case number_new (int n) of Inl _ \<Rightarrow> no_number | Inr t \<Rightarrow> t"
  obtain f1 po1 where a: "flushTransfer out err ?t po = (f1, po1)" by fastforce
  obtain f2 po2 where b: "flush_numbers out err ns po1 = (f2, po2)" by fastforce
  show ?case using Cons.prems a b flushTransfer_safe [OF a Cons.prems(2)] Cons.IH [OF b] by auto
qed simp

text \<open>The calls the run output makes.\<close>

datatype plain_request = CallBegin | CallShow int event | CallClose

fun plain_call :: "sink \<Rightarrow> sink \<Rightarrow> plain_request \<Rightarrow> plain_output \<Rightarrow> plain_error list \<times> plain_output" where
  "plain_call out err CallBegin po = (case plain_Begin out po of (e, po) \<Rightarrow> (case e of None \<Rightarrow> [] | Some e \<Rightarrow> [e], po))"
| "plain_call out err (CallShow now ev) po = plain_Show out err now ev po"
| "plain_call out err CallClose po = plain_Close out err po"

fun plain_calls :: "sink \<Rightarrow> sink \<Rightarrow> plain_request list \<Rightarrow> plain_output \<Rightarrow> plain_error list \<times> plain_output" where
  "plain_calls out err [] po = ([], po)"
| "plain_calls out err (c # cs) po =
     (case plain_call out err c po of (failures, po) \<Rightarrow>
        (case plain_calls out err cs po of (others, po) \<Rightarrow> (failures @ others, po)))"

lemma printable_ascii: "list_all (\<lambda>b. 0x20 \<le> b \<and> b < 0x7f) bs \<Longrightarrow> printable bs"
proof (induction bs)
  case (Cons b bs)
  then have "b < 0x80" "b \<noteq> 0x7f" "0x20 \<le> b" by (auto simp: word_less_nat_alt)
  then have "printable [b]" by (intro printable_byte) auto
  from printable_append [OF this, of bs] Cons show ?case by simp
qed simp

lemma decimal_printable: "list_all (\<lambda>b. 0x20 \<le> b \<and> b < 0x7f) (to_bytes (decimal n))"
proof -
  have "\<exists>k < 10. c = hex_table ! k" if "c \<in> set (decimal n)" for c
    using set_digits [of 10 c n] that by (simp add: decimal_def)
  moreover have "\<forall>k \<in> set [0..<10]. 0x20 \<le> (word_of_nat (of_char (hex_table ! k)) :: byte) \<and> (word_of_nat (of_char (hex_table ! k)) :: byte) < 0x7f"
    by code_simp
  ultimately show ?thesis by (fastforce simp: to_bytes_def list_all_iff)
qed

lemma decimal_short: "n < 100 \<Longrightarrow> length (decimal n) \<le> 2"
  using digits.simps [of 10 n] digits_small [of "n div 10" 10] digits_small [of n 10] by (auto simp: decimal_def split: if_splits)

lemma banner_ok:
  assumes "n \<le> transfer_maximum"
  shows "line_ok (to_bytes (''starting '' @ decimal n @ '' transfers''))"
proof -
  have "list_all (\<lambda>b. 0x20 \<le> b \<and> b < 0x7f) (to_bytes ''starting '')"
    "list_all (\<lambda>b. 0x20 \<le> b \<and> b < 0x7f) (to_bytes '' transfers'')" by code_simp+
  then have "printable (to_bytes (''starting '' @ decimal n @ '' transfers''))"
    using decimal_printable [of n] by (intro printable_ascii) (auto simp: to_bytes_def)
  moreover have "length (decimal n) \<le> 2" using assms by (intro decimal_short) (simp add: transfer_maximum_def)
  ultimately show ?thesis by (simp add: line_ok_def to_bytes_def maximumLogicalLineBytes_def)
qed

lemma plain_Begin_safe:
  assumes "plain_Begin out po = (e, po')" "plain_inv names po" "''transferlanes: '' \<in> names"
    "length (po_transfers po) \<le> transfer_maximum"
  shows "plain_inv names po' \<and> e \<noteq> Some SanitizerInvalidUTF8"
  using assms writeLine_safe [OF _ _ assms(3) banner_ok [OF assms(4)]]
  by (fastforce simp: plain_Begin_def plain_inv_def split: if_splits prod.splits)

lemma plain_Show_safe:
  assumes "plain_Show out err now ev po = (failures, po')" "plain_inv names po"
  shows "plain_inv names po' \<and> SanitizerInvalidUTF8 \<notin> set failures"
proof (cases ev)
  case (OutputEvent t s bytes)
  show ?thesis
  proof (cases "po_streams po (t, s)")
    case (Some entry)
    then show ?thesis
      using assms OutputEvent accepting.on_stream_safe [OF _ Some assms(2)]
      by (fastforce simp: plain_Show_def split: if_splits prod.splits option.splits)
  qed (use assms OutputEvent in \<open>auto simp: plain_Show_def split: if_splits\<close>)
qed (use assms flushTransfer_safe in \<open>auto simp: plain_Show_def split: if_splits\<close>)

lemma plain_Close_safe:
  assumes "plain_Close out err po = (failures, po')" "plain_inv names po"
  shows "plain_inv names po' \<and> SanitizerInvalidUTF8 \<notin> set failures"
proof (cases "po_closed po")
  case False
  have "writer_inv names (beginFinalization w) = writer_inv names w" for w
    by (simp add: writer_inv_def beginFinalization_def)
  then have "plain_inv names (po\<lparr>po_closed := True, po_stdout := beginFinalization (po_stdout po),
      po_stderr := beginFinalization (po_stderr po)\<rparr>)"
    using assms(2) by (simp add: plain_inv_def)
  then show ?thesis using assms False flush_numbers_safe by (auto simp: plain_Close_def)
qed (use assms in \<open>auto simp: plain_Close_def\<close>)


lemma on_stream_transfers: "po_transfers (snd (on_stream f out err t s entry po)) = po_transfers po"
  by (simp add: on_stream_def split: prod.splits)

lemma flushTransfer_transfers: "po_transfers (snd (flushTransfer out err t po)) = po_transfers po"
proof -
  have "po_transfers (snd (flush_stream out err t s q)) = po_transfers q" for s q
    by (simp add: flush_stream_def case_prod_unfold on_stream_transfers split: option.split)
  then show ?thesis by (simp add: flushTransfer_def case_prod_unfold)
qed

lemma flush_numbers_transfers: "po_transfers (snd (flush_numbers out err ns po)) = po_transfers po"
  by (induction ns arbitrary: po) (simp_all add: case_prod_unfold flushTransfer_transfers)

lemma plain_call_transfers: "po_transfers (snd (plain_call out err c po)) = po_transfers po"
  by (cases c) (simp_all add: plain_Begin_def plain_Show_def plain_Close_def case_prod_unfold on_stream_transfers
    flushTransfer_transfers flush_numbers_transfers split: event.split option.split)

lemma plain_calls_safe:
  "plain_calls out err cs po = (failures, po') \<Longrightarrow> plain_inv names po \<Longrightarrow> ''transferlanes: '' \<in> names \<Longrightarrow>
     length (po_transfers po) \<le> transfer_maximum \<Longrightarrow> plain_inv names po' \<and> SanitizerInvalidUTF8 \<notin> set failures"
proof (induction cs arbitrary: po failures po')
  case (Cons c cs)
  obtain f1 po1 where a: "plain_call out err c po = (f1, po1)" by fastforce
  obtain f2 po2 where b: "plain_calls out err cs po1 = (f2, po2)" by fastforce
  have "plain_inv names po1 \<and> SanitizerInvalidUTF8 \<notin> set f1"
    using a plain_Begin_safe [OF _ Cons.prems(2-4)] plain_Show_safe [OF _ Cons.prems(2)] plain_Close_safe [OF _ Cons.prems(2)]
    by (cases c) (fastforce split: prod.splits option.splits)+
  moreover have "po_transfers po1 = po_transfers po" using plain_call_transfers [of out err c po] a by simp
  ultimately show ?case using Cons.prems Cons.IH [OF b] a b by auto
qed simp

definition names_of :: "plain_transfer list \<Rightarrow> string set" where
  "names_of ts = insert ''transferlanes: '' (prefix_of ` set ts)"

lemma add_transfers_inv:
  "add_transfers k ts po = Inr po' \<Longrightarrow> plain_inv names po \<Longrightarrow> prefix_of ` set ts \<subseteq> names \<Longrightarrow>
     plain_inv names po' \<and> po_transfers po' = po_transfers po @ ts"
proof (induction k ts po rule: add_transfers.induct)
  case (2 k t ts po)
  have s: "stream_inv new_stream" by (simp add: stream_inv_def new_stream_def new_sanitizer_def clean_inv)
  have "plain_inv names (add_transfer t po)"
    using "2.prems" s by (auto simp: plain_inv_def add_transfer_def)
  moreover have "add_transfers (k + 1) ts (add_transfer t po) = Inr po'"
    using "2.prems" by (auto split: if_splits)
  ultimately show ?case using "2.IH" "2.prems" by (auto simp: add_transfer_def split: if_splits)
qed simp

lemma plain_New_inv:
  assumes "plain_New stdout stderr ts = Inr po"
  shows "plain_inv (names_of ts) po \<and> po_transfers po = ts \<and> length ts \<le> transfer_maximum"
proof -
  let ?po = "\<lparr>po_stdout = new_writer, po_stderr = new_writer, po_transfers = [], po_streams = Map.empty, po_closed = False\<rparr>"
  have "add_transfers 0 ts ?po = Inr po" "length ts \<le> transfer_maximum"
    using assms by (auto simp: plain_New_def split: if_splits)
  moreover have "plain_inv (names_of ts) ?po" by (simp add: plain_inv_def writer_inv_def new_writer_def)
  ultimately show ?thesis using add_transfers_inv [of 0 ts ?po po "names_of ts"] by (auto simp: names_of_def)
qed


section \<open>Ordinary lines\<close>

definition with_san :: "terminal_sanitizer \<Rightarrow> stream_step \<Rightarrow> stream_step" where
  "with_san z r = (case r of (e, st, w) \<Rightarrow> (e, st\<lparr>os_sanitizer := z\<rparr>, w))"

lemma with_san_pair [simp]: "with_san z (e, st, w) = (e, st\<lparr>os_sanitizer := z\<rparr>, w)"
  by (simp add: with_san_def)

lemma segment_san: "writeBufferedSegment sink name (st\<lparr>os_sanitizer := z\<rparr>) w = with_san z (writeBufferedSegment sink name st w)"
  by (simp add: writeBufferedSegment_def split: prod.split option.split)

lemma append_san:
  "appendVisibleBytes sink name c (st\<lparr>os_sanitizer := z\<rparr>) w = with_san z (appendVisibleBytes sink name c st w)"
  by (simp add: appendVisibleBytes_def writeBufferedSegment_def Let_def split: prod.split option.split)

lemma visible_san:
  "acceptVisible sink name now b (st\<lparr>os_sanitizer := z\<rparr>) w = with_san z (acceptVisible sink name now b st w)"
proof -
  have "finishLine sink name (st\<lparr>os_sanitizer := z\<rparr>) w = with_san z (finishLine sink name st w)"
    by (simp add: finishLine_def resetLogicalLine_def Let_def split: prod.split option.split)
  moreover have "progressUpdate sink name now (st\<lparr>os_sanitizer := z\<rparr>) w = with_san z (progressUpdate sink name now st w)"
    by (simp add: progressUpdate_def acceptCarriageReturnWithoutLine_def resetLogicalLine_def Let_def split: prod.split option.split)
  ultimately show ?thesis by (simp add: acceptVisible_def append_san)
qed

lemma sanitized_san:
  "acceptSanitized sink name now c (st\<lparr>os_sanitizer := z\<rparr>) w = with_san z (acceptSanitized sink name now c st w)"
proof (induction sink name now c st w rule: acceptSanitized.induct)
  case (1 sink name now c st w)
  show ?case
    using "1.IH"
    by (subst (1 2) acceptSanitized.simps)
      (auto simp: visible_san append_san split: prod.splits option.splits)
qed

lemma sanitized_append:
  "visible_text a \<Longrightarrow>
     acceptSanitized sink name now (a @ b) st w =
       (case acceptSanitized sink name now a st w of
          (Some e, st, w) \<Rightarrow> (Some e, st, w)
        | (None, st, w) \<Rightarrow> acceptSanitized sink name now b st w)"
proof (induction a arbitrary: st w rule: visible_text.induct)
  case (1 a)
  show ?case
  proof (cases "a = []")
    case False
    with "1.prems" have r: "rune_len a \<noteq> 0" "visible_rune (DecodeRune a)" "visible_text (drop (rune_len a) a)"
      by (simp_all add: visible_step)
    note IH = "1.IH" [OF False]
    have h: "(a @ b) ! 0 = a ! 0" "a @ b \<noteq> []" using False by (simp_all add: nth_append)
    have l: "rune_len (a @ b) = rune_len a" "rune_len a \<le> length a" using rune_len_append [OF r(1)] rune_len_bounds by auto
    show ?thesis
    proof (cases "a ! 0 < 0x80")
      case True
      have "drop 1 (a @ b) = drop 1 a @ b" using False by (cases a) auto
      then show ?thesis
        using True IH r rune_low [OF False True] False sanitized_low [OF False True] sanitized_low [OF h(2)] h(1)
        by (auto split: prod.splits option.splits)
    next
      case high: False
      then show ?thesis
        using IH r sanitized_high [OF r(1) high] sanitized_high [of "a @ b"] h(1) l
        by (auto split: prod.splits option.splits)
    qed
  qed simp
qed

lemma sanitized_printable:
  "printable c \<Longrightarrow> length (os_line st) + length c < maximumLogicalLineBytes \<Longrightarrow>
     acceptSanitized sink name now c st w = (None, st\<lparr>os_line := os_line st @ c\<rparr>, w)"
proof (induction c arbitrary: st rule: visible_text.induct)
  case (1 c)
  show ?case
  proof (cases "c = []")
    case False
    with "1.prems" have r: "rune_len c \<noteq> 0" "visible_rune (DecodeRune c)" "visible_text (drop (rune_len c) c)"
      by (simp_all add: visible_step printable_def)
    have d: "printable (drop (rune_len c) c)"
      using "1.prems"(1) r(3) by (auto simp: printable_def list_all_iff dest: in_set_dropD)
    note IH = "1.IH" [OF False]
    have step: "appendVisibleBytes sink name (take (rune_len c) c) st w = (None, st\<lparr>os_line := os_line st @ take (rune_len c) c\<rparr>, w)"
      using "1.prems"(2) min.cobounded1 [of "length c" "rune_len c"] by (auto simp: appendVisibleBytes_def Let_def)
    have rest: "acceptSanitized sink name now (drop (rune_len c) c) (st\<lparr>os_line := os_line st @ take (rune_len c) c\<rparr>) w =
        (None, st\<lparr>os_line := os_line st @ c\<rparr>, w)"
      using IH r d "1.prems"(2) rune_len_bounds(2) [of c] by simp
    show ?thesis
    proof (cases "c ! 0 < 0x80")
      case True
      have "c ! 0 = 0x09 \<or> 0x20 \<le> c ! 0 \<and> c ! 0 \<noteq> 0x7f"
        using "1.prems"(1) False by (simp add: printable_def list_all_length)
      then have "acceptVisible sink name now (c ! 0) st w = appendVisibleBytes sink name [c ! 0] st w"
        by (auto simp: acceptVisible_def)
      moreover have "take (rune_len c) c = [c ! 0]"
        using rune_low [OF False True] False by (cases c) auto
      ultimately show ?thesis using sanitized_low [OF False True] step rest rune_low [OF False True] by simp
    next
      case high: False
      then show ?thesis using sanitized_high [OF r(1) high] step rest by simp
    qed
  qed simp
qed

text \<open>A stream sees its input through the sanitizer, whatever the chunks.\<close>

lemma stream_accept_append:
  "stream_accept sink name now (a @ b) st w =
     (case stream_accept sink name now a st w of
        (Some e, st, w) \<Rightarrow> (Some e, st, w)
      | (None, st, w) \<Rightarrow> stream_accept sink name now b st w)"
  by (induction a arbitrary: st w) (auto split: prod.split option.split)

lemma stream_accept_sanitized:
  "sanitize bs (os_sanitizer st) = (visible, z) \<Longrightarrow> san_inv (os_sanitizer st) \<Longrightarrow>
     acceptSanitized sink name now visible st w = (None, st', w') \<Longrightarrow>
     stream_accept sink name now bs st w = (None, st'\<lparr>os_sanitizer := z\<rparr>, w')"
proof (induction bs arbitrary: st w visible st' w')
  case (Cons b bs)
  obtain v1 z1 where a: "sanitizer_accept b (os_sanitizer st) = (v1, z1)" by fastforce
  obtain v2 where r: "sanitize bs z1 = (v2, z)" "visible = v1 @ v2"
    using Cons.prems(1) a by (auto split: prod.splits)
  have v1: "visible_text v1" "san_inv z1" using sanitizer_accept_safe [OF a Cons.prems(2)] by auto
  obtain st1 w1 where one: "acceptSanitized sink name now v1 st w = (None, st1, w1)"
      "acceptSanitized sink name now v2 st1 w1 = (None, st', w')"
    using Cons.prems(3) sanitized_append [OF v1(1)] r(2) by (auto split: prod.splits option.splits)
  have "stream_accept sink name now bs (st1\<lparr>os_sanitizer := z1\<rparr>) w1 = (None, (st'\<lparr>os_sanitizer := z1\<rparr>)\<lparr>os_sanitizer := z\<rparr>, w')"
    by (rule Cons.IH [where visible = v2]) (use r v1 one in \<open>simp_all add: sanitized_san\<close>)
  then show ?case using a one(1) by (simp add: sanitized_san)
qed auto

definition takes_all :: "sink \<Rightarrow> bool" where
  "takes_all sink \<longleftrightarrow> (\<forall>received content. sink received content = (int (length content), None))"

lemma takes_all_writes: "takes_all sink \<Longrightarrow> output_writeFull sink received content = (None, received @ content)"
  by (subst output_writeFull.simps) (simp add: takes_all_def output_writeFull.simps [of _ _ "[]"])

definition accept_line :: "string \<Rightarrow> byte list \<Rightarrow> sync_writer \<Rightarrow> sync_writer" where
  "accept_line name line w = w\<lparr>sw_out := sw_out w @ render (name, line), sw_lines := sw_lines w @ [(name, line)]\<rparr>"

lemma stream_write_ok:
  "takes_all sink \<Longrightarrow> sw_err w = None \<Longrightarrow> printable line \<Longrightarrow> stream_write sink name line w = (None, accept_line name line w)"
  by (simp add: stream_write_def writeLine_def takes_all_writes to_valid_id printable_utf8 accept_line_def render_def)

lemma accept_line_err [simp]: "sw_err (accept_line name line w) = sw_err w"
  by (simp add: accept_line_def)

lemma ordinary_line:
  assumes "takes_all sink" "sw_err w = None" "printable line" "length line < maximumLogicalLineBytes"
  shows "stream_accept sink name now (line @ [0x0a]) new_stream w = (None, new_stream, accept_line name line w)"
proof -
  have "visible_text (line @ [0x0a])"
    using assms(3) visible_single [of "0x0a"] by (intro visible_append) (simp_all add: printable_def)
  moreover have "clean new_sanitizer" by (simp add: clean_def new_sanitizer_def)
  ultimately have s: "sanitize (line @ [0x0a]) (os_sanitizer new_stream) = (line @ [0x0a], new_sanitizer)"
    using sanitize_visible by (simp add: new_stream_def)
  have i: "san_inv (os_sanitizer new_stream)" by (simp add: new_stream_def new_sanitizer_def clean_inv)
  have "acceptSanitized sink name now (line @ [0x0a]) new_stream w = (None, new_stream, accept_line name line w)"
    using assms
    by (simp add: sanitized_append printable_def [THEN iffD1] sanitized_printable sanitized_low acceptVisible_def
        finishLine_def stream_write_ok resetLogicalLine_def new_stream_def)
  from stream_accept_sanitized [OF s i this] show ?thesis by (simp add: new_stream_def)
qed

lemma ordinary_lines:
  assumes "takes_all sink" "sw_err w = None" "list_all (\<lambda>line. printable line \<and> length line < maximumLogicalLineBytes) ls"
  shows "stream_accept sink name now (concat (map (\<lambda>line. line @ [0x0a]) ls)) new_stream w =
    (None, new_stream, fold (accept_line name) ls w)"
  using assms(2,3)
proof (induction ls arbitrary: w)
  case (Cons l ls)
  have split: "concat (map (\<lambda>line. line @ [0x0a]) (l # ls)) = (l @ [0x0a]) @ concat (map (\<lambda>line. line @ [0x0a]) ls)" by simp
  have l: "stream_accept sink name now (l @ [0x0a]) new_stream w = (None, new_stream, accept_line name l w)"
    by (rule ordinary_line [OF assms(1) Cons.prems(1)]) (use Cons.prems in auto)
  show ?case
    unfolding split stream_accept_append [of _ _ _ "l @ [0x0a]"] l
    using Cons.IH [of "accept_line name l w"] Cons.prems by simp
qed simp

lemma fold_lines:
  "sw_lines (fold (accept_line name) ls w) = sw_lines w @ map (Pair name) ls"
  "sw_out (fold (accept_line name) ls w) = sw_out w @ concat (map (\<lambda>line. render (name, line)) ls)"
  "sw_err (fold (accept_line name) ls w) = sw_err w"
  by (induction ls arbitrary: w) (simp_all add: accept_line_def)

text \<open>The same bytes in any chunks: the calls of \<open>Show\<close> for one stream of standard output.\<close>

fun show_chunks :: "sink \<Rightarrow> sink \<Rightarrow> transfer_number \<Rightarrow> int \<Rightarrow> byte list list \<Rightarrow> plain_output \<Rightarrow> plain_error list \<times> plain_output" where
  "show_chunks out err t now [] po = ([], po)"
| "show_chunks out err t now (c # cs) po =
     (case plain_Show out err now (OutputEvent t OutputStdout c) po of (failures, po) \<Rightarrow>
        (case show_chunks out err t now cs po of (others, po) \<Rightarrow> (failures @ others, po)))"

lemma Stdout_not_Stderr [simp]: "OutputStdout \<noteq> OutputStderr"
  by (simp add: OutputStdout_def OutputStderr_def)

lemma show_chunks_accept:
  "\<not> po_closed po \<Longrightarrow> po_streams po (t, OutputStdout) = Some (name, st) \<Longrightarrow>
     stream_accept out name (Some now) (concat cs) st (po_stdout po) = (None, st', w') \<Longrightarrow>
     show_chunks out err t now cs po =
       ([], po\<lparr>po_stdout := w', po_streams := (po_streams po)((t, OutputStdout) \<mapsto> (name, st'))\<rparr>)"
proof (induction cs arbitrary: po st)
  case Nil
  then show ?case by (auto simp: fun_upd_idem)
next
  case (Cons c cs)
  obtain st1 w1 where one: "stream_accept out name (Some now) c st (po_stdout po) = (None, st1, w1)"
      "stream_accept out name (Some now) (concat cs) st1 w1 = (None, st', w')"
    using Cons.prems(3) by (auto simp: stream_accept_append split: prod.splits option.splits)
  show ?case
    using Cons.prems one Cons.IH [of "po\<lparr>po_stdout := w1, po_streams := (po_streams po)((t, OutputStdout) \<mapsto> (name, st1))\<rparr>" st1]
    by (simp add: plain_Show_def on_stream_def cong: if_cong)
qed


definition streams_ready :: "plain_output \<Rightarrow> bool" where
  "streams_ready po \<longleftrightarrow> po_stdout po = new_writer \<and> \<not> po_closed po \<and>
     (\<forall>t \<in> set (po_transfers po). po_streams po (pt_number t, OutputStdout) = Some (prefix_of t, new_stream))"

lemma add_transfers_ready: "add_transfers k ts po = Inr po' \<Longrightarrow> streams_ready po \<Longrightarrow> streams_ready po'"
proof (induction k ts po rule: add_transfers.induct)
  case (2 k t ts po)
  have "pt_number t' \<noteq> pt_number t" if "t' \<in> set (po_transfers po)" for t'
    using "2.prems"(1) imageI [OF that, of pt_number] by (auto split: if_splits)
  then have "streams_ready (add_transfer t po)"
    using "2.prems"(2) by (auto simp: streams_ready_def add_transfer_def split: if_splits)
  then show ?case using "2.IH" "2.prems" by (auto split: if_splits)
qed simp

lemma plain_New_ready: "plain_New stdout stderr ts = Inr po \<Longrightarrow> streams_ready po"
  using add_transfers_ready [of 0 ts _ po]
  by (fastforce simp: plain_New_def streams_ready_def split: if_splits)

section \<open>Properties\<close>

text \<open>
  C22: Whatever the children print and however the writers behave, in any sequence of calls
  to the plain output of a run: every line handed to standard output or standard error
  carries the prefix of a transfer of the run (or the banner), is valid UTF-8 without an
  escape character, without a C1 control and without any control byte but the tab, and is
  at most 64 KiB long; the bytes the writer received are a prefix of those lines, and all
  of them when no write failed; and the internal error for malformed sanitizer output never
  occurs.
\<close>

theorem plain_output_is_safe:
  assumes "plain_New stdout stderr ts = Inr po" "plain_calls out err cs po = (failures, po')"
    and "w \<in> {po_stdout po', po_stderr po'}"
  shows "(\<forall>(name, line) \<in> set (sw_lines w). name \<in> names_of ts \<and> printable line \<and> length line \<le> 65536) \<and>
    (\<exists>rest. concat (map render (sw_lines w)) = sw_out w @ rest) \<and>
    (sw_err w = None \<longrightarrow> sw_out w = concat (map render (sw_lines w))) \<and>
    SanitizerInvalidUTF8 \<notin> set failures"
proof -
  have n: "plain_inv (names_of ts) po" "length (po_transfers po) \<le> transfer_maximum"
    using plain_New_inv [OF assms(1)] by auto
  have "plain_inv (names_of ts) po' \<and> SanitizerInvalidUTF8 \<notin> set failures"
    by (rule plain_calls_safe [OF assms(2) n(1) _ n(2)]) (simp add: names_of_def)
  moreover have "writer_inv (names_of ts) w" using calculation assms(3) by (auto simp: plain_inv_def)
  ultimately show ?thesis by (simp add: writer_inv_def line_ok_def maximumLogicalLineBytes_def)
qed

theorem plain_output_is_safe_witness:
  "\<exists>po failures po'. plain_New True True [\<lparr>pt_number = Number 1, pt_localIP = V4 10 0 0 1\<rparr>] = Inr po \<and>
     plain_calls (\<lambda>_ content. (int (length content), None)) (\<lambda>_ _. (0, None))
       [CallBegin, CallShow 5 (OutputEvent (Number 1) OutputStdout [0x68, 0x1b, 0x5b, 0x33, 0x6d, 0x0a]), CallClose] po = (failures, po') \<and>
     SanitizerInvalidUTF8 \<notin> set failures \<and> (\<forall>(name, line) \<in> set (sw_lines (po_stdout po')). printable line)"
proof -
  obtain po where n: "plain_New True True [\<lparr>pt_number = Number 1, pt_localIP = V4 10 0 0 1\<rparr>] = Inr po"
    by (simp add: plain_New_def transfer_maximum_def Is4_def)
  obtain failures po' where c: "plain_calls (\<lambda>_ content. (int (length content), None)) (\<lambda>_ _. (0, None))
       [CallBegin, CallShow 5 (OutputEvent (Number 1) OutputStdout [0x68, 0x1b, 0x5b, 0x33, 0x6d, 0x0a]), CallClose] po = (failures, po')"
    by fastforce
  show ?thesis using n c plain_output_is_safe [OF n c, of "po_stdout po'"] by auto
qed

text \<open>
  C23: Ordinary output is printed unchanged: printable lines shorter than 64 KiB that a
  child writes to its standard output, in whatever chunks they arrive, come out on the
  writer as the same lines in the same order, each behind the prefix of its transfer, when
  the writer takes what it is given.
\<close>

theorem ordinary_output_is_printed_unchanged:
  assumes "plain_New stdout stderr ts = Inr po" "tr \<in> set ts" "takes_all out"
    and "list_all (\<lambda>line. printable line \<and> length line < 65536) ls"
    and "concat chunks = concat (map (\<lambda>line. line @ [0x0a]) ls)"
  shows "\<exists>po'. show_chunks out err (pt_number tr) now chunks po = ([], po') \<and> sw_err (po_stdout po') = None \<and>
    sw_out (po_stdout po') = concat (map (\<lambda>line. to_bytes (prefix_of tr) @ line @ [0x0a]) ls)"
proof -
  have r: "po_stdout po = new_writer" "\<not> po_closed po"
      "po_streams po (pt_number tr, OutputStdout) = Some (prefix_of tr, new_stream)"
    using plain_New_ready [OF assms(1)] plain_New_inv [OF assms(1)] assms(2) by (auto simp: streams_ready_def)
  have "stream_accept out (prefix_of tr) (Some now) (concat chunks) new_stream (po_stdout po) =
      (None, new_stream, fold (accept_line (prefix_of tr)) ls new_writer)"
    unfolding assms(5) r(1)
    by (rule ordinary_lines [OF assms(3)]) (use assms(4) in \<open>simp_all add: new_writer_def maximumLogicalLineBytes_def\<close>)
  from show_chunks_accept [OF r(2,3) this] show ?thesis
    by (simp add: fold_lines new_writer_def render_def)
qed

theorem ordinary_output_is_printed_unchanged_witness:
  "\<exists>po po'. plain_New True True [\<lparr>pt_number = Number 1, pt_localIP = V4 10 0 0 1\<rparr>] = Inr po \<and>
     show_chunks (\<lambda>_ content. (int (length content), None)) (\<lambda>_ _. (0, None)) (Number 1) 5 [[0x68], [0x69, 0x0a]] po = ([], po') \<and>
     sw_out (po_stdout po') = to_bytes ''[1 10.0.0.1] hi'' @ [0x0a]"
proof -
  let ?t = "\<lparr>pt_number = Number 1, pt_localIP = V4 10 0 0 1\<rparr>"
  obtain po where n: "plain_New True True [?t] = Inr po"
    by (simp add: plain_New_def transfer_maximum_def Is4_def)
  have p: "printable [0x68, 0x69]" by (rule printable_ascii) simp
  have "prefix_of ?t = ''[1 10.0.0.1] ''" by code_simp
  then show ?thesis
    using n p ordinary_output_is_printed_unchanged [OF n, of ?t "\<lambda>_ content. (int (length content), None)" "[[0x68, 0x69]]"
        "[[0x68], [0x69, 0x0a]]" "\<lambda>_ _. (0, None)" 5]
    by (auto simp: takes_all_def to_bytes_def)
qed

end
