(* ===== verification/Run_Output.thy ===== *)
theory Run_Output
  imports Plain_Output Child_Types
begin

text \<open>
  The parent's side of a run's events: the raw log files (\<open>internal/runlogs/logs.go\<close>,
  \<open>stream.go\<close>) and the loop that reads the supervisor's events, logs output bytes, shows
  events and requests termination on the first failure (\<open>internal/runoutput/output.go\<close>).
  A log file is the list of the bytes it received; its writer is a \<open>sink\<close> as in
  \<open>Plain_Output\<close>.  The checks that keep the log directory away from the source and the
  recovery tree are file-system calls and enter \<open>Open\<close> as its answers.
\<close>

section \<open>Raw logs\<close>

definition LogPTY :: byte where "LogPTY = 1"
definition LogStdout :: byte where "LogStdout = 2"
definition LogStderr :: byte where "LogStderr = 3"

datatype log_layout = Interactive | Plain

type_synonym log_key = "transfer_number \<times> byte"

datatype log_error =
    LogsClosed | LogNotOpen | RawLogClosed | LogWrite write_error | LogSync string | LogClose string
  | LogTransfersIncomplete | LogTransfersUnordered | LogContext string | LogCreate string | LogDirectory string
  | LogDirectorySync string

record raw_log =
  rl_contents :: "byte list"
  rl_closed :: bool
  rl_writeErr :: "log_error option"
  rl_closeErr :: "log_error list"

record run_log_set =
  ls_files :: "log_key \<Rightarrow> raw_log option"
  ls_keys :: "log_key list"
  ls_closed :: bool

text \<open>\<open>ls_keys\<close> lists the keys of the map \<open>files\<close>, in the order in which they were inserted.\<close>

definition streamsFor :: "log_layout \<Rightarrow> byte list" where
  "streamsFor layout = (case layout of Interactive \<Rightarrow> [LogPTY] | Plain \<Rightarrow> [LogStdout, LogStderr])"

definition validateTransfers :: "transfer_number list \<Rightarrow> log_error + unit" where
  "validateTransfers ts =
     (if length ts = 0 \<or> length ts > transfer_maximum then Inl LogTransfersIncomplete
      else if list_ex (\<lambda>i. num_value (ts ! i) \<noteq> word_of_nat (i + 1)) [0..<length ts] then Inl LogTransfersUnordered
      else Inr ())"

definition pad2 :: "nat \<Rightarrow> string" where
  "pad2 n = replicate (2 - length (decimal n)) (CHR ''0'') @ decimal n"

definition logName :: "log_key \<Rightarrow> string" where
  "logName key =
     (if snd key = LogPTY then ''transfer-'' @ pad2 (num (fst key)) @ ''.ptylog''
      else if snd key = LogStdout then ''transfer-'' @ pad2 (num (fst key)) @ ''.stdout.log''
      else if snd key = LogStderr then ''transfer-'' @ pad2 (num (fst key)) @ ''.stderr.log''
      else [])"

definition writeAll :: "sink \<Rightarrow> byte list \<Rightarrow> byte list \<Rightarrow> write_error option \<times> byte list" where
  "writeAll = output_writeFull"

definition raw_write :: "sink \<Rightarrow> byte list \<Rightarrow> raw_log \<Rightarrow> log_error option \<times> raw_log" where
  "raw_write sink content log =
     (if rl_closed log then (Some RawLogClosed, log)
      else case rl_writeErr log of
        Some e \<Rightarrow> (Some e, log)
      | None \<Rightarrow>
          (case writeAll sink (rl_contents log) content of (err, received) \<Rightarrow>
             (map_option LogWrite err, log\<lparr>rl_contents := received, rl_writeErr := map_option LogWrite err\<rparr>)))"

text \<open>The answers of \<open>Sync\<close> and \<open>Close\<close> of the file.\<close>

definition raw_close :: "string option \<times> string option \<Rightarrow> raw_log \<Rightarrow> log_error list \<times> raw_log" where
  "raw_close answer log =
     (if rl_closed log then (rl_closeErr log, log)
      else
        let errs = (case fst answer of None \<Rightarrow> [] | Some e \<Rightarrow> [LogSync e]) @ (case snd answer of None \<Rightarrow> [] | Some e \<Rightarrow> [LogClose e])
        in (errs, log\<lparr>rl_closed := True, rl_closeErr := errs\<rparr>))"

definition logs_Write ::
  "(log_key \<Rightarrow> sink) \<Rightarrow> transfer_number \<Rightarrow> byte \<Rightarrow> byte list \<Rightarrow> run_log_set \<Rightarrow> log_error option \<times> run_log_set" where
  "logs_Write sinks transfer stream content logs =
     (if ls_closed logs then (Some LogsClosed, logs)
      else case ls_files logs (transfer, stream) of
        None \<Rightarrow> (Some LogNotOpen, logs)
      | Some log \<Rightarrow>
          (case raw_write (sinks (transfer, stream)) content log of (err, log) \<Rightarrow>
             (err, logs\<lparr>ls_files := (ls_files logs)((transfer, stream) \<mapsto> log)\<rparr>)))"

fun close_keys ::
  "(log_key \<Rightarrow> string option \<times> string option) \<Rightarrow> log_key list \<Rightarrow> run_log_set \<Rightarrow> log_error list \<times> run_log_set" where
  "close_keys answers [] logs = ([], logs)"
| "close_keys answers (key # keys) logs =
     (case ls_files logs key of
        None \<Rightarrow> close_keys answers keys logs
      | Some log \<Rightarrow>
          (case raw_close (answers key) log of (errs, log) \<Rightarrow>
             (case close_keys answers keys (logs\<lparr>ls_files := (ls_files logs)(key \<mapsto> log)\<rparr>) of
                (others, logs) \<Rightarrow> (errs @ others, logs))))"

definition closeFiles ::
  "(log_key \<Rightarrow> string option \<times> string option) \<Rightarrow> run_log_set \<Rightarrow> log_error list \<times> run_log_set" where
  "closeFiles answers logs =
     close_keys answers (sort_key (\<lambda>(t, s). 256 * num t + unat s) (ls_keys logs)) logs"

definition logs_Close ::
  "(log_key \<Rightarrow> string option \<times> string option) \<Rightarrow> run_log_set \<Rightarrow> log_error list \<times> run_log_set" where
  "logs_Close answers logs =
     (if ls_closed logs then ([], logs) else closeFiles answers (logs\<lparr>ls_closed := True\<rparr>))"

text \<open>
  \<open>Open\<close> after the directory has been opened: before each file the context is asked, then the
  file is created; a failure closes what was opened.  The environment is the answers.
\<close>

record log_environment =
  le_context :: "log_key \<Rightarrow> string option"
  le_directory :: "string option"
  le_create :: "string \<Rightarrow> string option"
  le_sync :: "string option"
  le_close :: "log_key \<Rightarrow> string option \<times> string option"

definition new_raw_log :: raw_log where
  "new_raw_log = \<lparr>rl_contents = [], rl_closed = False, rl_writeErr = None, rl_closeErr = []\<rparr>"

fun open_keys :: "log_environment \<Rightarrow> log_key list \<Rightarrow> run_log_set \<Rightarrow> log_error list + run_log_set" where
  "open_keys env [] logs = Inr logs"
| "open_keys env (key # keys) logs =
     (case le_context env key of
        Some e \<Rightarrow> Inl (LogContext e # fst (closeFiles (le_close env) logs))
      | None \<Rightarrow>
          (case le_create env (logName key) of
             Some e \<Rightarrow> Inl (LogCreate e # fst (closeFiles (le_close env) logs))
           | None \<Rightarrow> open_keys env keys
               (logs\<lparr>ls_files := (ls_files logs)(key \<mapsto> new_raw_log), ls_keys := ls_keys logs @ [key]\<rparr>)))"

definition logs_Open ::
  "log_environment \<Rightarrow> string option \<Rightarrow> string \<Rightarrow> log_layout \<Rightarrow> transfer_number list \<Rightarrow> log_error list + run_log_set option" where
  "logs_Open env cancelled path layout ts =
     (if path = [] then Inr None
      else case cancelled of
        Some e \<Rightarrow> Inl [LogContext e]
      | None \<Rightarrow>
          (case validateTransfers ts of
             Inl e \<Rightarrow> Inl [e]
           | Inr _ \<Rightarrow>
               (case le_directory env of
                  Some e \<Rightarrow> Inl [LogDirectory e]
                | None \<Rightarrow>
                    bind_r (open_keys env (concat (map (\<lambda>t. map (Pair t) (streamsFor layout)) ts))
                              \<lparr>ls_files = Map.empty, ls_keys = [], ls_closed = False\<rparr>) (\<lambda>logs.
                      case le_sync env of
                        Some e \<Rightarrow> Inl (LogDirectorySync e # fst (closeFiles (le_close env) logs))
                      | None \<Rightarrow> Inr (Some logs)))))"

section \<open>Forwarding\<close>

definition rawStream :: "byte \<Rightarrow> byte" where
  "rawStream stream =
     (if stream = OutputPTY then LogPTY else if stream = OutputStdout then LogStdout
      else if stream = OutputStderr then LogStderr else 0)"

text \<open>
  The display is an interface: \<open>Begin\<close> and \<open>Show\<close> over a state of its own, returning the
  joined errors (none on success).  \<open>fw_stops\<close> counts the calls of \<open>requestTermination\<close>.
\<close>

record ('d, 'e) display =
  di_Begin :: "'d \<Rightarrow> 'e list \<times> 'd"
  di_Show :: "event \<Rightarrow> 'd \<Rightarrow> 'e list \<times> 'd"

record ('d, 'e) forward_state =
  fw_final :: "final option"
  fw_displayEventsComplete :: bool
  fw_readError :: "string option"
  fw_logError :: "(transfer_number \<times> log_error) list"
  fw_displayError :: "'e list"
  fw_notified :: bool
  fw_stops :: nat
  fw_displayActive :: bool
  fw_displayStarted :: bool
  fw_logsActive :: bool
  fw_display :: 'd
  fw_logs :: run_log_set

definition requestStop :: "('d, 'e) forward_state \<Rightarrow> ('d, 'e) forward_state" where
  "requestStop st = (if fw_notified st then st else st\<lparr>fw_notified := True, fw_stops := fw_stops st + 1\<rparr>)"

definition begin_display :: "('d, 'e) display \<Rightarrow> ('d, 'e) forward_state \<Rightarrow> ('d, 'e) forward_state" where
  "begin_display display st =
     (if fw_displayStarted st then st
      else
        (case di_Begin display (fw_display st) of (errs, d) \<Rightarrow>
           let st = st\<lparr>fw_displayStarted := True, fw_display := d\<rparr> in
           if errs \<noteq> [] then requestStop (st\<lparr>fw_displayError := errs, fw_displayActive := False\<rparr>) else st))"

definition show_event :: "('d, 'e) display \<Rightarrow> event \<Rightarrow> ('d, 'e) forward_state \<Rightarrow> ('d, 'e) forward_state" where
  "show_event display ev st =
     (if fw_displayActive st then
        (case di_Show display ev (fw_display st) of (errs, d) \<Rightarrow>
           let st = st\<lparr>fw_display := d\<rparr> in
           if errs \<noteq> [] then requestStop (st\<lparr>fw_displayError := fw_displayError st @ errs, fw_displayActive := False\<rparr>) else st)
      else st)"

definition forward_event ::
  "(log_key \<Rightarrow> sink) \<Rightarrow> ('d, 'e) display \<Rightarrow> event \<Rightarrow> ('d, 'e) forward_state \<Rightarrow> ('d, 'e) forward_state" where
  "forward_event sinks display ev st =
     (case ev of
        OutputEvent t s bytes \<Rightarrow>
          if fw_logsActive st then
            (case logs_Write sinks t (rawStream s) bytes (fw_logs st) of (err, logs) \<Rightarrow>
               let st = st\<lparr>fw_logs := logs\<rparr> in
               (case err of
                  Some e \<Rightarrow>
                    requestStop (st\<lparr>fw_logError := fw_logError st @ [(t, e)], fw_logsActive := False, fw_displayActive := False\<rparr>)
                | None \<Rightarrow> show_event display ev st))
          else show_event display ev st
      | _ \<Rightarrow> show_event display ev st)"

fun forward_loop ::
  "(log_key \<Rightarrow> sink) \<Rightarrow> ('d, 'e) display \<Rightarrow> (string + event) list \<Rightarrow> ('d, 'e) forward_state \<Rightarrow> ('d, 'e) forward_state option" where
  "forward_loop sinks display [] st = None"
| "forward_loop sinks display (Inl e # answers) st = Some (requestStop (st\<lparr>fw_readError := Some e\<rparr>))"
| "forward_loop sinks display (Inr ev # answers) st =
     (let st = begin_display display st in
      case ev of
        FinalEvent f \<Rightarrow> Some (st\<lparr>fw_final := Some f, fw_displayEventsComplete := fw_displayActive st\<rparr>)
      | _ \<Rightarrow> forward_loop sinks display answers (forward_event sinks display ev st))"

definition forward ::
  "(log_key \<Rightarrow> sink) \<Rightarrow> bool \<Rightarrow> ('d, 'e) display option \<Rightarrow> (string + event) list \<Rightarrow> 'd \<Rightarrow> run_log_set option \<Rightarrow>
     ('d, 'e) forward_state option" where
  "forward sinks has_source display answers d logs =
     (let st = \<lparr>fw_final = None, fw_displayEventsComplete = False, fw_readError = None, fw_logError = [], fw_displayError = [],
           fw_notified = False, fw_stops = 0, fw_displayActive = True, fw_displayStarted = False,
           fw_logsActive = (logs \<noteq> None), fw_display = d,
           fw_logs = (case logs of None \<Rightarrow> \<lparr>ls_files = Map.empty, ls_keys = [], ls_closed = False\<rparr> | Some l \<Rightarrow> l)\<rparr> in
      case display of
        None \<Rightarrow> Some (st\<lparr>fw_readError := Some ''run output requires an event source and one display'', fw_stops := 1\<rparr>)
      | Some display \<Rightarrow>
          if \<not> has_source then
            Some (st\<lparr>fw_readError := Some ''run output requires an event source and one display'', fw_stops := 1\<rparr>)
          else forward_loop sinks display answers st)"


section \<open>Logs\<close>

definition log_bytes :: "run_log_set \<Rightarrow> log_key \<Rightarrow> byte list" where
  "log_bytes logs key = (case ls_files logs key of None \<Rightarrow> [] | Some log \<Rightarrow> rl_contents log)"

lemma raw_write_contents:
  assumes "raw_write sink content log = (err, log')"
  shows "(\<exists>rest. rl_contents log @ content = rl_contents log' @ rest) \<and>
    (err = None \<longrightarrow> rl_contents log' = rl_contents log @ content)"
proof (cases "rl_closed log \<or> rl_writeErr log \<noteq> None")
  case True
  then show ?thesis using assms by (auto simp: raw_write_def split: if_splits option.splits)
next
  case False
  then obtain e received where w: "output_writeFull sink (rl_contents log) content = (e, received)"
      and r: "err = map_option LogWrite e" "rl_contents log' = received"
    using assms by (auto simp: raw_write_def writeAll_def split: prod.splits)
  then show ?thesis using output_writeFull_prefix [OF w] by simp
qed

lemma logs_Write_bytes:
  assumes "logs_Write sinks t s content logs = (err, logs')"
  shows "(\<exists>rest. log_bytes logs k @ (if k = (t, s) then content else []) = log_bytes logs' k @ rest) \<and>
    (err = None \<longrightarrow> log_bytes logs' k = log_bytes logs k @ (if k = (t, s) then content else []))"
proof (cases "ls_closed logs \<or> ls_files logs (t, s) = None")
  case True
  then show ?thesis using assms by (auto simp: logs_Write_def split: if_splits)
next
  case False
  then obtain log where l: "ls_files logs (t, s) = Some log" by auto
  obtain log' where w: "raw_write (sinks (t, s)) content log = (err, log')"
      "logs' = logs\<lparr>ls_files := (ls_files logs)((t, s) \<mapsto> log')\<rparr>"
    using assms False l by (auto simp: logs_Write_def split: prod.splits)
  then show ?thesis using raw_write_contents [OF w(1)] l by (auto simp: log_bytes_def)
qed

section \<open>The loop\<close>

lemma requestStop_simps [simp]:
  "fw_logs (requestStop st) = fw_logs st" "fw_logError (requestStop st) = fw_logError st"
  "fw_logsActive (requestStop st) = fw_logsActive st" "fw_display (requestStop st) = fw_display st"
  "fw_displayError (requestStop st) = fw_displayError st" "fw_readError (requestStop st) = fw_readError st"
  "fw_final (requestStop st) = fw_final st" "fw_displayActive (requestStop st) = fw_displayActive st"
  "fw_displayStarted (requestStop st) = fw_displayStarted st"
  "fw_displayEventsComplete (requestStop st) = fw_displayEventsComplete st"
  by (simp_all add: requestStop_def)

lemma begin_display_logs [simp]:
  "fw_logs (begin_display display st) = fw_logs st" "fw_logError (begin_display display st) = fw_logError st"
  "fw_logsActive (begin_display display st) = fw_logsActive st"
  "fw_readError (begin_display display st) = fw_readError st" "fw_final (begin_display display st) = fw_final st"
  by (simp_all add: begin_display_def Let_def split: prod.split)

lemma show_event_logs [simp]:
  "fw_logs (show_event display ev st) = fw_logs st" "fw_logError (show_event display ev st) = fw_logError st"
  "fw_logsActive (show_event display ev st) = fw_logsActive st"
  "fw_readError (show_event display ev st) = fw_readError st" "fw_final (show_event display ev st) = fw_final st"
  by (simp_all add: show_event_def Let_def split: prod.split)

lemma forward_event_ends [simp]:
  "fw_readError (forward_event sinks display ev st) = fw_readError st"
  "fw_final (forward_event sinks display ev st) = fw_final st"
  by (simp_all add: forward_event_def Let_def split: prod.split event.split option.split)

text \<open>The bytes a stream received, and how the events end.\<close>

fun event_bytes :: "log_key \<Rightarrow> event \<Rightarrow> byte list" where
  "event_bytes k (OutputEvent t s bytes) = (if k = (t, rawStream s) then bytes else [])"
| "event_bytes k (StatusEvent _) = []"
| "event_bytes k (FinalEvent _) = []"

fun events_before_end :: "(string + event) list \<Rightarrow> event list" where
  "events_before_end [] = []"
| "events_before_end (Inl e # answers) = []"
| "events_before_end (Inr (FinalEvent f) # answers) = []"
| "events_before_end (Inr ev # answers) = ev # events_before_end answers"

fun end_of :: "(string + event) list \<Rightarrow> (string + final) option" where
  "end_of [] = None"
| "end_of (Inl e # answers) = Some (Inl e)"
| "end_of (Inr (FinalEvent f) # answers) = Some (Inr f)"
| "end_of (Inr ev # answers) = end_of answers"

lemma forward_event_log:
  "\<not> fw_logsActive st \<Longrightarrow> \<not> fw_logsActive (forward_event sinks display ev st) \<and>
     fw_logs (forward_event sinks display ev st) = fw_logs st \<and> fw_logError (forward_event sinks display ev st) = fw_logError st"
  "fw_logsActive st \<Longrightarrow>
     fw_logsActive (forward_event sinks display ev st) \<and> fw_logError (forward_event sinks display ev st) = fw_logError st \<and>
       log_bytes (fw_logs (forward_event sinks display ev st)) k = log_bytes (fw_logs st) k @ event_bytes k ev \<or>
     \<not> fw_logsActive (forward_event sinks display ev st) \<and>
       (\<exists>e. fw_logError (forward_event sinks display ev st) = fw_logError st @ [e]) \<and>
       (\<exists>rest. log_bytes (fw_logs st) k @ event_bytes k ev = log_bytes (fw_logs (forward_event sinks display ev st)) k @ rest)"
proof -
  show "\<not> fw_logsActive st \<Longrightarrow> \<not> fw_logsActive (forward_event sinks display ev st) \<and>
     fw_logs (forward_event sinks display ev st) = fw_logs st \<and> fw_logError (forward_event sinks display ev st) = fw_logError st"
    by (simp add: forward_event_def split: event.split)
  assume active: "fw_logsActive st"
  show "fw_logsActive (forward_event sinks display ev st) \<and> fw_logError (forward_event sinks display ev st) = fw_logError st \<and>
       log_bytes (fw_logs (forward_event sinks display ev st)) k = log_bytes (fw_logs st) k @ event_bytes k ev \<or>
     \<not> fw_logsActive (forward_event sinks display ev st) \<and>
       (\<exists>e. fw_logError (forward_event sinks display ev st) = fw_logError st @ [e]) \<and>
       (\<exists>rest. log_bytes (fw_logs st) k @ event_bytes k ev = log_bytes (fw_logs (forward_event sinks display ev st)) k @ rest)"
  proof (cases ev)
    case (OutputEvent t s bytes)
    obtain err logs where w: "logs_Write sinks t (rawStream s) bytes (fw_logs st) = (err, logs)" by fastforce
    show ?thesis
      using logs_Write_bytes [OF w, of k] w active
      by (auto simp: OutputEvent forward_event_def Let_def split: option.splits)
  qed (use active in \<open>simp_all add: forward_event_def\<close>)
qed

lemma forward_loop_frozen:
  "forward_loop sinks display answers st = Some st' \<Longrightarrow> \<not> fw_logsActive st \<Longrightarrow>
     fw_logs st' = fw_logs st \<and> fw_logError st' = fw_logError st"
proof (induction answers arbitrary: st)
  case (Cons a answers)
  then show ?case
    using forward_event_log(1) [of "begin_display display st" sinks display "projr a"]
    by (cases a) (auto simp: Let_def split: event.splits)
qed simp

lemma forward_loop_step:
  "ev \<noteq> FinalEvent (ev_final ev) \<Longrightarrow>
     forward_loop sinks display (Inr ev # answers) st =
       forward_loop sinks display answers (forward_event sinks display ev (begin_display display st))"
  "ev \<noteq> FinalEvent (ev_final ev) \<Longrightarrow> events_before_end (Inr ev # answers) = ev # events_before_end answers"
  "ev \<noteq> FinalEvent (ev_final ev) \<Longrightarrow> end_of (Inr ev # answers) = end_of answers"
  by (cases ev; simp add: Let_def)+

lemma answer_cases:
  obtains (err) e where "a = Inl e" | (fin) f where "a = Inr (FinalEvent f)"
    | (ev) ev where "a = Inr ev" "ev \<noteq> FinalEvent (ev_final ev)"
  by (metis event.exhaust event.simps(9) sum.exhaust)

lemma forward_loop_log:
  "forward_loop sinks display answers st = Some st' \<Longrightarrow> fw_logsActive st \<Longrightarrow>
    (\<exists>rest. log_bytes (fw_logs st) k @ concat (map (event_bytes k) (events_before_end answers)) = log_bytes (fw_logs st') k @ rest) \<and>
    (\<exists>others. fw_logError st' = fw_logError st @ others) \<and>
    (fw_logError st' = fw_logError st \<longrightarrow>
      log_bytes (fw_logs st') k = log_bytes (fw_logs st) k @ concat (map (event_bytes k) (events_before_end answers)))"
proof (induction answers arbitrary: st)
  case (Cons a answers)
  show ?case
  proof (cases a rule: answer_cases)
    case (ev ev)
    let ?b = "begin_display display st" and ?s = "forward_event sinks display ev (begin_display display st)"
    have l: "forward_loop sinks display answers ?s = Some st'"
      and e: "events_before_end (a # answers) = ev # events_before_end answers"
      using Cons.prems(1) unfolding ev(1) forward_loop_step [OF ev(2)] by simp_all
    have "fw_logsActive ?b" using Cons.prems(2) by simp
    from forward_event_log(2) [OF this, of sinks display ev k] show ?thesis
    proof (elim disjE conjE exE)
      assume o: "fw_logsActive ?s" "fw_logError ?s = fw_logError ?b" "log_bytes (fw_logs ?s) k = log_bytes (fw_logs ?b) k @ event_bytes k ev"
      from Cons.IH [OF l o(1)] o show ?thesis by (simp add: e)
    next
      fix x rest
      assume o: "\<not> fw_logsActive ?s" "fw_logError ?s = fw_logError ?b @ [x]"
        "log_bytes (fw_logs ?b) k @ event_bytes k ev = log_bytes (fw_logs ?s) k @ rest"
      from forward_loop_frozen [OF l o(1)] o show ?thesis
        by (simp add: e) (metis append.assoc)
    qed
  qed (use Cons.prems in \<open>auto simp: Let_def\<close>)
qed simp


text \<open>Termination is requested exactly once after the first failure.\<close>

definition stop_inv :: "('d, 'e) forward_state \<Rightarrow> bool" where
  "stop_inv st \<longleftrightarrow> fw_stops st = (if fw_notified st then 1 else 0) \<and>
     (fw_notified st \<longleftrightarrow> fw_readError st \<noteq> None \<or> fw_logError st \<noteq> [] \<or> fw_displayError st \<noteq> [])"

lemma stop_inv_requestStop:
  "fw_stops st = (if fw_notified st then 1 else 0) \<Longrightarrow>
     fw_readError st \<noteq> None \<or> fw_logError st \<noteq> [] \<or> fw_displayError st \<noteq> [] \<Longrightarrow> stop_inv (requestStop st)"
  by (auto simp: stop_inv_def requestStop_def)

lemma begin_display_stop: "stop_inv st \<Longrightarrow> stop_inv (begin_display display st)"
  by (auto simp: begin_display_def Let_def split: prod.split intro!: stop_inv_requestStop) (auto simp: stop_inv_def)

lemma show_event_stop: "stop_inv st \<Longrightarrow> stop_inv (show_event display ev st)"
  by (auto simp: show_event_def Let_def split: prod.split intro!: stop_inv_requestStop) (auto simp: stop_inv_def)

lemma forward_event_stop: "stop_inv st \<Longrightarrow> stop_inv (forward_event sinks display ev st)"
proof -
  assume i: "stop_inv st"
  have "stop_inv (st\<lparr>fw_logs := logs\<rparr>)" for logs using i by (simp add: stop_inv_def)
  moreover have "stop_inv (requestStop (st\<lparr>fw_logs := logs, fw_logError := fw_logError st @ [x], fw_logsActive := False, fw_displayActive := False\<rparr>))" for logs x
    using i by (intro stop_inv_requestStop) (simp_all add: stop_inv_def)
  ultimately show ?thesis
    using i by (simp add: forward_event_def Let_def show_event_stop split: event.split prod.split option.split)
qed

lemma forward_loop_stop: "forward_loop sinks display answers st = Some st' \<Longrightarrow> stop_inv st \<Longrightarrow> stop_inv st'"
proof (induction answers arbitrary: st)
  case (Cons a answers)
  show ?case
  proof (cases a rule: answer_cases)
    case (err e)
    then show ?thesis using Cons.prems by (auto simp: stop_inv_def requestStop_def split: if_splits)
  next
    case (fin f)
    then show ?thesis using Cons.prems begin_display_stop [OF Cons.prems(2)] by (auto simp: Let_def stop_inv_def)
  next
    case (ev ev)
    then show ?thesis
      using Cons.prems(1) Cons.IH forward_event_stop [OF begin_display_stop [OF Cons.prems(2)]]
      unfolding ev(1) forward_loop_step(1) [OF ev(2)] by blast
  qed
qed simp

lemma forward_loop_ends:
  "forward_loop sinks display answers st = Some st' \<Longrightarrow> fw_readError st = None \<Longrightarrow> fw_final st = None \<Longrightarrow>
     end_of answers = Some (case fw_final st' of Some f \<Rightarrow> Inr f | None \<Rightarrow> Inl (the (fw_readError st'))) \<and>
     (fw_readError st' = None \<longleftrightarrow> fw_final st' \<noteq> None)"
proof (induction answers arbitrary: st)
  case (Cons a answers)
  show ?case
  proof (cases a rule: answer_cases)
    case (ev ev)
    have "forward_loop sinks display answers (forward_event sinks display ev (begin_display display st)) = Some st'"
      using Cons.prems(1) unfolding ev(1) forward_loop_step(1) [OF ev(2)] .
    from Cons.IH [OF this] show ?thesis using Cons.prems unfolding ev(1) forward_loop_step(3) [OF ev(2)] by simp
  qed (use Cons.prems in \<open>auto simp: Let_def\<close>)
qed simp

lemma forward_loop_total: "end_of answers \<noteq> None \<Longrightarrow> \<exists>st'. forward_loop sinks display answers st = Some st'"
proof (induction answers arbitrary: st)
  case (Cons a answers)
  show ?case
  proof (cases a rule: answer_cases)
    case (ev ev)
    then show ?thesis using Cons unfolding ev(1) forward_loop_step(1,3) [OF ev(2)] by blast
  qed (simp_all add: Let_def)
qed simp

text \<open>What the display has been shown.\<close>

definition shown :: "('d, 'e) display \<Rightarrow> event list \<Rightarrow> 'd \<Rightarrow> 'd" where
  "shown display evs d = fold (\<lambda>ev d. snd (di_Show display ev d)) evs d"

definition begun :: "('d, 'e) display \<Rightarrow> ('d, 'e) forward_state \<Rightarrow> 'd" where
  "begun display st = (if fw_displayStarted st then fw_display st else snd (di_Begin display (fw_display st)))"

lemma begin_display_active:
  "fw_displayActive (begin_display display st) \<Longrightarrow> fw_displayActive st"
  "fw_display (begin_display display st) = begun display st" "fw_displayStarted (begin_display display st)"
  "fw_displayEventsComplete (begin_display display st) = fw_displayEventsComplete st"
  by (auto simp: begin_display_def begun_def Let_def split: prod.splits if_splits)

lemma show_event_active:
  "fw_displayActive (show_event display ev st) \<Longrightarrow> fw_displayActive st"
  "fw_displayActive (show_event display ev st) \<Longrightarrow> fw_display (show_event display ev st) = snd (di_Show display ev (fw_display st))"
  "fw_displayStarted (show_event display ev st) = fw_displayStarted st"
  "fw_displayEventsComplete (show_event display ev st) = fw_displayEventsComplete st"
  by (auto simp: show_event_def Let_def split: prod.splits if_splits)

lemma forward_event_shape:
  "(\<exists>logs. forward_event sinks display ev st = show_event display ev (st\<lparr>fw_logs := logs\<rparr>)) \<or>
     \<not> fw_displayActive (forward_event sinks display ev st) \<and>
     fw_displayStarted (forward_event sinks display ev st) = fw_displayStarted st \<and>
     fw_displayEventsComplete (forward_event sinks display ev st) = fw_displayEventsComplete st"
proof -
  have same: "\<exists>logs. show_event display ev st = show_event display ev (st\<lparr>fw_logs := logs\<rparr>)"
    by (rule exI [of _ "fw_logs st"]) simp
  show ?thesis
  proof (cases ev)
    case (OutputEvent t s bytes)
    obtain err logs where "logs_Write sinks t (rawStream s) bytes (fw_logs st) = (err, logs)" by fastforce
    then show ?thesis using same by (cases err) (auto simp: OutputEvent forward_event_def Let_def)
  qed (use same in \<open>simp_all add: forward_event_def\<close>)
qed

lemma forward_event_active:
  "fw_displayActive (forward_event sinks display ev st) \<Longrightarrow> fw_displayActive st"
  "fw_displayActive (forward_event sinks display ev st) \<Longrightarrow>
     fw_display (forward_event sinks display ev st) = snd (di_Show display ev (fw_display st))"
  "fw_displayStarted (forward_event sinks display ev st) = fw_displayStarted st"
  "fw_displayEventsComplete (forward_event sinks display ev st) = fw_displayEventsComplete st"
proof -
  let ?s = "forward_event sinks display ev st"
  have "(fw_displayActive ?s \<longrightarrow> fw_displayActive st \<and> fw_display ?s = snd (di_Show display ev (fw_display st))) \<and>
      fw_displayStarted ?s = fw_displayStarted st \<and> fw_displayEventsComplete ?s = fw_displayEventsComplete st"
    using forward_event_shape [of sinks display ev st]
  proof (elim disjE exE)
    fix logs
    assume "?s = show_event display ev (st\<lparr>fw_logs := logs\<rparr>)"
    then show ?thesis using show_event_active [of display ev "st\<lparr>fw_logs := logs\<rparr>"] by simp
  qed simp
  then show "fw_displayActive ?s \<Longrightarrow> fw_displayActive st"
    "fw_displayActive ?s \<Longrightarrow> fw_display ?s = snd (di_Show display ev (fw_display st))"
    "fw_displayStarted ?s = fw_displayStarted st" "fw_displayEventsComplete ?s = fw_displayEventsComplete st"
    by simp_all
qed

lemma forward_loop_shown:
  "forward_loop sinks display answers st = Some st' \<Longrightarrow> \<not> fw_displayEventsComplete st \<Longrightarrow> fw_displayEventsComplete st' \<Longrightarrow>
     fw_displayActive st \<and> fw_display st' = shown display (events_before_end answers) (begun display st)"
proof (induction answers arbitrary: st)
  case (Cons a answers)
  show ?case
  proof (cases a rule: answer_cases)
    case (fin f)
    then show ?thesis
      using Cons.prems begin_display_active [of display st] by (auto simp: Let_def shown_def)
  next
    case (ev ev)
    let ?s = "forward_event sinks display ev (begin_display display st)"
    have l: "forward_loop sinks display answers ?s = Some st'"
      using Cons.prems(1) unfolding ev(1) forward_loop_step(1) [OF ev(2)] .
    have "\<not> fw_displayEventsComplete ?s"
      using Cons.prems(2) by (simp add: forward_event_active(4) begin_display_active(4))
    note IH = Cons.IH [OF l this Cons.prems(3)]
    have "begun display ?s = snd (di_Show display ev (begun display st))"
      using IH forward_event_active(2) [of sinks display ev "begin_display display st"]
      by (simp add: begun_def [of display ?s] forward_event_active(3) begin_display_active(2,3))
    then show ?thesis
      using IH forward_event_active(1) [of sinks display ev "begin_display display st"] begin_display_active(1) [of display st]
      unfolding ev(1) forward_loop_step(2) [OF ev(2)] by (simp add: shown_def)
  qed (use Cons.prems in auto)
qed simp


section \<open>Opening\<close>

lemma open_keys_Inr:
  "open_keys env keys logs = Inr logs' \<Longrightarrow>
     ls_files logs' = (\<lambda>k. if k \<in> set keys then Some new_raw_log else ls_files logs k) \<and>
     ls_keys logs' = ls_keys logs @ keys \<and> ls_closed logs' = ls_closed logs"
proof (induction keys arbitrary: logs)
  case (Cons key keys)
  then have "open_keys env keys (logs\<lparr>ls_files := (ls_files logs)(key \<mapsto> new_raw_log), ls_keys := ls_keys logs @ [key]\<rparr>) = Inr logs'"
    by (auto split: option.splits)
  from Cons.IH [OF this] show ?case by (auto simp: fun_eq_iff)
qed auto

lemma logs_Open_Inr:
  assumes "logs_Open env cancelled path layout ts = Inr (Some logs)"
  shows "ls_keys logs = concat (map (\<lambda>t. map (Pair t) (streamsFor layout)) ts) \<and> \<not> ls_closed logs \<and>
    ls_files logs = (\<lambda>k. if k \<in> set (ls_keys logs) then Some new_raw_log else None) \<and> validateTransfers ts = Inr ()"
  using assms
  by (auto simp: logs_Open_def bind_r_Inr_iff dest!: open_keys_Inr split: if_splits option.splits sum.splits)

lemma open_log_bytes: "logs_Open env cancelled path layout ts = Inr (Some logs) \<Longrightarrow> log_bytes logs k = []"
  using logs_Open_Inr [of env cancelled path layout ts logs] by (auto simp: log_bytes_def new_raw_log_def)

lemma pad2_length: "n < 100 \<Longrightarrow> length (pad2 n) = 2"
  using decimal_short [of n] by (simp add: pad2_def)

lemma pad2_inject:
  assumes "pad2 m = pad2 n"
  shows "m = n"
  using arg_cong [OF assms, of decimal_value] by (simp add: pad2_def decimal_value_zeros decimal_value_decimal)

lemma logName_inject:
  assumes "num t < 100" "num t' < 100" "s \<in> {LogPTY, LogStdout, LogStderr}" "s' \<in> {LogPTY, LogStdout, LogStderr}"
    and "logName (t, s) = logName (t', s')"
  shows "(t, s) = (t', s')"
proof -
  define suffix where "suffix x = (if x = LogPTY then ''.ptylog'' else if x = LogStdout then ''.stdout.log'' else ''.stderr.log'')" for x
  have n: "logName (t, s) = ''transfer-'' @ pad2 (num t) @ suffix s" "logName (t', s') = ''transfer-'' @ pad2 (num t') @ suffix s'"
    using assms(3,4) by (auto simp: logName_def suffix_def)
  have "pad2 (num t) @ suffix s = pad2 (num t') @ suffix s'" using assms(5) unfolding n by simp
  then have "pad2 (num t) = pad2 (num t')" "suffix s = suffix s'"
    using pad2_length assms(1,2) by (auto simp: append_eq_append_conv)
  moreover have "s = s'" using calculation(2) assms(3,4) by (auto simp: suffix_def split: if_splits)
  ultimately show ?thesis using pad2_inject [of "num t" "num t'"] num_inject [of t t'] by blast
qed

lemma validateTransfers_iff:
  "validateTransfers ts = Inr () \<longleftrightarrow> ts \<noteq> [] \<and> length ts \<le> transfer_maximum \<and> map num ts = [1..<length ts + 1]"
proof -
  have "num_value (ts ! i) = word_of_nat (i + 1) \<longleftrightarrow> num (ts ! i) = i + 1" if "i < transfer_maximum" for i
  proof -
    have "i + 1 < 2 ^ LENGTH(8)" using that by (simp add: transfer_maximum_def)
    then have u: "unat (word_of_nat (i + 1) :: byte) = i + 1" by (simp only: unat_of_nat mod_less)
    show ?thesis unfolding num_def word_unat_eq_iff u ..
  qed
  moreover have "map num ts = [1..<length ts + 1] \<longleftrightarrow> (\<forall>i < length ts. num (ts ! i) = i + 1)"
  proof
    assume m: "map num ts = [1..<length ts + 1]"
    show "\<forall>i < length ts. num (ts ! i) = i + 1"
    proof (intro allI impI)
      fix i assume i: "i < length ts"
      then have "num (ts ! i) = map num ts ! i" by simp
      also have "\<dots> = i + 1" unfolding m using i by (subst nth_upt) simp_all
      finally show "num (ts ! i) = i + 1" .
    qed
  next
    assume "\<forall>i < length ts. num (ts ! i) = i + 1"
    then show "map num ts = [1..<length ts + 1]" by (intro nth_equalityI) (simp_all del: upt_Suc)
  qed
  ultimately have "list_ex (\<lambda>i. num_value (ts ! i) \<noteq> word_of_nat (i + 1)) [0..<length ts] \<longleftrightarrow> map num ts \<noteq> [1..<length ts + 1]"
    if "length ts \<le> transfer_maximum"
    using that by (auto simp: list_ex_iff simp del: upt_Suc)
  then show ?thesis by (auto simp: validateTransfers_def simp del: upt_Suc)
qed

lemma open_names_distinct:
  assumes "logs_Open env cancelled path layout ts = Inr (Some logs)"
  shows "distinct (map logName (ls_keys logs))"
proof -
  have o: "ls_keys logs = concat (map (\<lambda>t. map (Pair t) (streamsFor layout)) ts)" "validateTransfers ts = Inr ()"
    using logs_Open_Inr [OF assms] by auto
  have n: "map num ts = [1..<length ts + 1]" "length ts \<le> transfer_maximum" using o(2) by (auto simp: validateTransfers_iff)
  then have "distinct (map num ts)" by (metis distinct_upt)
  then have d: "distinct ts" by (simp add: distinct_map)
  have s: "distinct (streamsFor layout)" "set (streamsFor layout) \<subseteq> {LogPTY, LogStdout, LogStderr}"
    by (cases layout; simp add: streamsFor_def LogStdout_def LogStderr_def LogPTY_def)+
  have lt: "num t < 100" if "t \<in> set ts" for t
  proof -
    have "num t \<in> set [1..<length ts + 1]" using that n(1) by (metis image_eqI set_map)
    then show ?thesis using n(2) by (auto simp: transfer_maximum_def)
  qed
  have "distinct (ls_keys logs)"
    using d s(1) unfolding o(1) by (induction ts) (auto simp: distinct_map inj_on_def)
  moreover have "inj_on logName (set (ls_keys logs))"
  proof (rule inj_onI)
    fix x y assume a: "x \<in> set (ls_keys logs)" "y \<in> set (ls_keys logs)" "logName x = logName y"
    have "fst z \<in> set ts \<and> snd z \<in> {LogPTY, LogStdout, LogStderr}" if "z \<in> set (ls_keys logs)" for z
      using that s(2) by (auto simp: o(1))
    then show "x = y"
      using logName_inject [of "fst x" "fst y" "snd x" "snd y"] lt a by (metis prod.collapse)
  qed
  ultimately show ?thesis by (simp add: distinct_map)
qed


section \<open>The display as an interface\<close>

text \<open>
  What the forwarder relies on and the display promises: an invariant that both calls keep.
  The forwarder then keeps it whatever it reads.
\<close>

locale kept_display =
  fixes display :: "('d, 'e) display" and inv :: "'d \<Rightarrow> bool"
  assumes begins: "inv d \<Longrightarrow> inv (snd (di_Begin display d))"
    and shows_event: "inv d \<Longrightarrow> inv (snd (di_Show display ev d))"
begin

lemma forward_event_keeps: "inv (fw_display st) \<Longrightarrow> inv (fw_display (forward_event sinks display ev st))"
proof -
  assume i: "inv (fw_display st)"
  have k: "inv (fw_display (show_event display ev t))" if "inv (fw_display t)" for t
    using that shows_event [OF that, of ev] by (simp add: show_event_def Let_def case_prod_unfold)
  show ?thesis
    using i k [of st] k [of "st\<lparr>fw_logs := _\<rparr>"]
    by (auto simp: forward_event_def Let_def split: event.split prod.split option.split)
qed

lemma forward_loop_keeps:
  "forward_loop sinks display answers st = Some st' \<Longrightarrow> inv (fw_display st) \<Longrightarrow> inv (fw_display st')"
proof (induction answers arbitrary: st)
  case (Cons a answers)
  have b: "inv (fw_display (begin_display display st))"
    using Cons.prems(2) begins [OF Cons.prems(2)] by (simp add: begin_display_active(2) begun_def)
  show ?case
  proof (cases a rule: answer_cases)
    case (ev ev)
    then show ?thesis
      using Cons.prems(1) Cons.IH forward_event_keeps [OF b] unfolding ev(1) forward_loop_step(1) [OF ev(2)] by blast
  qed (use Cons.prems b in \<open>auto simp: Let_def\<close>)
qed simp

lemma forward_keeps: "forward sinks has_source (Some display) answers d logs = Some st \<Longrightarrow> inv d \<Longrightarrow> inv (fw_display st)"
  using forward_loop_keeps by (auto simp: forward_def Let_def split: if_splits)

end

text \<open>The plain output as a display; the clock gives the time of the n-th call of \<open>Show\<close>.\<close>

definition plain_display :: "sink \<Rightarrow> sink \<Rightarrow> (nat \<Rightarrow> int) \<Rightarrow> (nat \<times> plain_output, plain_error) display" where
  "plain_display out err clock =
     \<lparr>di_Begin = (\<lambda>(n, po). case plain_Begin out po of (e, po) \<Rightarrow> (case e of None \<Rightarrow> [] | Some e \<Rightarrow> [e], (n, po))),
      di_Show = (\<lambda>ev (n, po). case plain_Show out err (clock n) ev po of (es, po) \<Rightarrow> (es, (Suc n, po)))\<rparr>"

definition plain_kept :: "string set \<Rightarrow> nat \<times> plain_output \<Rightarrow> bool" where
  "plain_kept names d \<longleftrightarrow> plain_inv names (snd d) \<and> ''transferlanes: '' \<in> names \<and> length (po_transfers (snd d)) \<le> transfer_maximum"

lemma plain_call_kept:
  assumes "plain_inv names po" "''transferlanes: '' \<in> names" "length (po_transfers po) \<le> transfer_maximum"
  shows "plain_inv names (snd (plain_call out err c po)) \<and> length (po_transfers (snd (plain_call out err c po))) \<le> transfer_maximum"
  using plain_calls_safe [of out err "[c]" po "fst (plain_call out err c po)" "snd (plain_call out err c po)" names] assms
    plain_call_transfers [of out err c po]
  by (simp add: case_prod_unfold)

interpretation plain_showing: kept_display "plain_display out err clock" "plain_kept names"
proof
  fix d :: "nat \<times> plain_output" and ev
  assume k: "plain_kept names d"
  obtain n po where d: "d = (n, po)" by fastforce
  show "plain_kept names (snd (di_Begin (plain_display out err clock) d))"
    using k plain_call_kept [of names po out err CallBegin] by (auto simp: d plain_kept_def plain_display_def split: prod.splits)
  show "plain_kept names (snd (di_Show (plain_display out err clock) ev d))"
    using k plain_call_kept [of names po out err "CallShow (clock n) ev"]
    by (auto simp: d plain_kept_def plain_display_def split: prod.splits)
qed

section \<open>Properties\<close>

text \<open>
  C26: the raw logs hold the exact output.  After any run of the forwarder over a freshly
  opened log set, with any display and any behaviour of the files, every log holds a prefix
  of the bytes its transfer wrote to that stream, in order, and all of them when no log
  error was reported; and no two streams share a file name.
\<close>

theorem raw_logs_hold_the_exact_output:
  assumes "logs_Open env cancelled path layout ts = Inr (Some logs)"
    and "forward sinks True (Some display) answers d (Some logs) = Some st"
  shows "(\<exists>rest. concat (map (event_bytes k) (events_before_end answers)) = log_bytes (fw_logs st) k @ rest) \<and>
    (fw_logError st = [] \<longrightarrow> log_bytes (fw_logs st) k = concat (map (event_bytes k) (events_before_end answers))) \<and>
    distinct (map logName (ls_keys logs))"
proof -
  let ?st = "\<lparr>fw_final = None, fw_displayEventsComplete = False, fw_readError = None, fw_logError = [], fw_displayError = [],
    fw_notified = False, fw_stops = 0, fw_displayActive = True, fw_displayStarted = False, fw_logsActive = True,
    fw_display = d, fw_logs = logs\<rparr>"
  have "forward_loop sinks display answers ?st = Some st" using assms(2) by (simp add: forward_def)
  from forward_loop_log [OF this, of k] show ?thesis
    using open_log_bytes [OF assms(1)] open_names_distinct [OF assms(1)] by simp
qed

theorem raw_logs_hold_the_exact_output_witness:
  "\<exists>logs st. logs_Open \<lparr>le_context = \<lambda>_. None, le_directory = None, le_create = \<lambda>_. None, le_sync = None, le_close = \<lambda>_. (None, None)\<rparr>
       None ''/var/log'' Plain [Number 1] = Inr (Some logs) \<and>
     forward (\<lambda>_ _ content. (int (length content), None)) True (Some \<lparr>di_Begin = \<lambda>d. ([], d), di_Show = \<lambda>_ d. ([] :: unit list, d)\<rparr>)
       [Inr (OutputEvent (Number 1) OutputStdout [1, 2]), Inl ''eof''] () (Some logs) = Some st \<and>
     (fw_logError st = [] \<longrightarrow> log_bytes (fw_logs st) (Number 1, LogStdout) = [1, 2])"
proof -
  obtain logs where l: "logs_Open \<lparr>le_context = \<lambda>_. None, le_directory = None, le_create = \<lambda>_. None, le_sync = None, le_close = \<lambda>_. (None, None)\<rparr>
       None ''/var/log'' Plain [Number 1] = Inr (Some logs)"
    by (simp add: logs_Open_def validateTransfers_def transfer_maximum_def streamsFor_def)
  obtain st where s: "forward (\<lambda>_ _ content. (int (length content), None)) True (Some \<lparr>di_Begin = \<lambda>d. ([], d), di_Show = \<lambda>_ d. ([] :: unit list, d)\<rparr>)
       [Inr (OutputEvent (Number 1) OutputStdout [1, 2]), Inl ''eof''] () (Some logs) = Some st"
    by (simp add: forward_def Let_def)
  show ?thesis
    using l s raw_logs_hold_the_exact_output [OF l s, of "(Number 1, LogStdout)"]
    by (auto simp: rawStream_def OutputPTY_def OutputStdout_def LogStdout_def)
qed

text \<open>
  C27: the forwarder ends exactly when its event source does, with the final result or the
  read error that ended it; it requests termination exactly once when anything failed and
  never otherwise; and when it reports that the display saw everything, the display began
  and was shown every event before the final one, in order.
\<close>

theorem forwarding_ends_with_the_events:
  "(\<exists>st. forward sinks True (Some display) answers d logs = Some st) = (end_of answers \<noteq> None) \<and>
   (forward sinks True (Some display) answers d logs = Some st \<longrightarrow>
      end_of answers = Some (case fw_final st of Some f \<Rightarrow> Inr f | None \<Rightarrow> Inl (the (fw_readError st))) \<and>
      fw_stops st = (if fw_readError st = None \<and> fw_logError st = [] \<and> fw_displayError st = [] then 0 else 1) \<and>
      (fw_displayEventsComplete st \<longrightarrow>
         fw_display st = shown display (events_before_end answers) (snd (di_Begin display d))))"
proof -
  let ?st = "\<lparr>fw_final = None, fw_displayEventsComplete = False, fw_readError = None, fw_logError = [], fw_displayError = [],
    fw_notified = False, fw_stops = 0, fw_displayActive = True, fw_displayStarted = False, fw_logsActive = (logs \<noteq> None),
    fw_display = d, fw_logs = (case logs of None \<Rightarrow> \<lparr>ls_files = Map.empty, ls_keys = [], ls_closed = False\<rparr> | Some l \<Rightarrow> l)\<rparr>"
  have f: "forward sinks True (Some display) answers d logs = forward_loop sinks display answers ?st"
    by (simp add: forward_def)
  have i: "stop_inv ?st" by (simp add: stop_inv_def)
  show ?thesis
    unfolding f
    using forward_loop_total [of answers sinks display ?st] forward_loop_ends [of sinks display answers ?st]
      forward_loop_stop [of sinks display answers ?st, OF _ i] forward_loop_shown [of sinks display answers ?st]
    by (auto simp: stop_inv_def begun_def)
qed

theorem forwarding_ends_with_the_events_witness:
  "\<exists>st. forward (\<lambda>_ _ _. (0, None)) True (Some \<lparr>di_Begin = \<lambda>d. ([], d), di_Show = \<lambda>_ d. ([()], d)\<rparr>)
       [Inr (OutputEvent (Number 1) OutputStdout [1]), Inr (OutputEvent (Number 1) OutputStdout [2]), Inl ''eof''] () None = Some st \<and>
     fw_stops st = 1"
proof -
  let ?a = "[Inr (OutputEvent (Number 1) OutputStdout [1]), Inr (OutputEvent (Number 1) OutputStdout [2]), Inl ''eof'']"
  let ?d = "\<lparr>di_Begin = \<lambda>d. ([], d), di_Show = \<lambda>_ d. ([()], d)\<rparr>"
  obtain st where s: "forward (\<lambda>_ _ _. (0, None)) True (Some ?d) ?a () None = Some st" "fw_readError st \<noteq> None"
    by (auto simp: forward_def Let_def)
  show ?thesis
    using s forwarding_ends_with_the_events [of "\<lambda>_ _ _. (0, None)" ?d ?a "()" None st] by auto
qed

text \<open>
  the forwarder and the plain output together.  Whatever events a supervisor sends and
  whatever the writers and log files do, every line the parent writes for a run is prefixed,
  printable and at most 64 KiB long.
\<close>

theorem forwarded_output_is_safe:
  assumes "plain_New stdout stderr ts = Inr po"
    and "forward sinks has_source (Some (plain_display out err clock)) answers (0, po) logs = Some st"
    and "w \<in> {po_stdout (snd (fw_display st)), po_stderr (snd (fw_display st))}"
  shows "\<forall>(name, line) \<in> set (sw_lines w). name \<in> names_of ts \<and> printable line \<and> length line \<le> 65536"
proof -
  have "plain_kept (names_of ts) (0, po)"
    using plain_New_inv [OF assms(1)] by (simp add: plain_kept_def names_of_def)
  from plain_showing.forward_keeps [OF assms(2) this] have "writer_inv (names_of ts) w"
    using assms(3) by (auto simp: plain_kept_def plain_inv_def)
  then show ?thesis by (simp add: writer_inv_def line_ok_def maximumLogicalLineBytes_def)
qed

theorem forwarded_output_is_safe_witness:
  "\<exists>po st. plain_New True True [\<lparr>pt_number = Number 1, pt_localIP = V4 10 0 0 1\<rparr>] = Inr po \<and>
     forward (\<lambda>_ _ _. (0, None)) True (Some (plain_display (\<lambda>_ c. (int (length c), None)) (\<lambda>_ _. (0, None)) int))
       [Inr (OutputEvent (Number 1) OutputStdout [0x1b, 0x68, 0x0a]), Inl ''eof''] (0, po) None = Some st \<and>
     (\<forall>(name, line) \<in> set (sw_lines (po_stdout (snd (fw_display st)))). printable line)"
proof -
  obtain po where n: "plain_New True True [\<lparr>pt_number = Number 1, pt_localIP = V4 10 0 0 1\<rparr>] = Inr po"
    by (simp add: plain_New_def transfer_maximum_def Is4_def)
  obtain st where s: "forward (\<lambda>_ _ _. (0, None)) True (Some (plain_display (\<lambda>_ c. (int (length c), None)) (\<lambda>_ _. (0, None)) int))
       [Inr (OutputEvent (Number 1) OutputStdout [0x1b, 0x68, 0x0a]), Inl ''eof''] (0, po) None = Some st"
    by (simp add: forward_def Let_def)
  show ?thesis using n s forwarded_output_is_safe [OF n s, of "po_stdout (snd (fw_display st))"] by auto
qed

end
