(* ===== verification/Run_Completion.thy ===== *)
theory Run_Completion
  imports Run_Output
begin

text \<open>
  How a finished run is reported (\<open>internal/cli/run_presenter.go\<close>, over the evidence of
  \<open>internal/runcommand/result.go\<close>): the summary and diagnostic lines and the exit status.
  A line is a destination with its text; every line is written, whether or not an earlier
  write failed, and \<open>answers n\<close> says whether the n-th write failed.
\<close>

section \<open>Cleaning diagnostics\<close>

text \<open>\<open>unicode.IsControl\<close> and \<open>unicode.IsSpace\<close>.\<close>

definition IsControl :: "nat \<Rightarrow> bool" where
  "IsControl c \<longleftrightarrow> c < 0x20 \<or> 0x7f \<le> c \<and> c < 0xa0"

definition IsSpace :: "nat \<Rightarrow> bool" where
  "IsSpace c \<longleftrightarrow> 9 \<le> c \<and> c \<le> 13 \<or> 0x2000 \<le> c \<and> c \<le> 0x200a \<or>
     c \<in> {0x20, 0x85, 0xa0, 0x1680, 0x2028, 0x2029, 0x202f, 0x205f, 0x3000}"

text \<open>
  \<open>strings.Map\<close> over the runes of a text: a malformed byte is the rune U+FFFD and comes out
  as its encoding.
\<close>

function map_control :: "byte list \<Rightarrow> (nat \<times> byte list) list" where
  "map_control bs =
     (if bs = [] then []
      else if rune_len bs = 0 then (0xfffd, replacement) # map_control (drop 1 bs)
      else (if IsControl (DecodeRune bs) then (0x20, [0x20]) else (DecodeRune bs, take (rune_len bs) bs)) #
             map_control (drop (rune_len bs) bs))"
  by pat_completeness auto
termination by (relation "measure length") (auto simp: neq_Nil_conv)

declare map_control.simps [simp del]

definition trim_space :: "(nat \<times> byte list) list \<Rightarrow> (nat \<times> byte list) list" where
  "trim_space rs = rev (dropWhile (IsSpace \<circ> fst) (rev (dropWhile (IsSpace \<circ> fst) rs)))"

definition cleanRunMessage :: "string \<Rightarrow> string" where
  "cleanRunMessage v = to_string (concat (map snd (trim_space (map_control (to_bytes v)))))"

section \<open>Lines\<close>

datatype DisplayMode = DisplayPlain | DisplayInteractive

record run_completion =
  rc_LiveSessionEstablished :: bool
  rc_DisplayMode :: "DisplayMode option"
  rc_Final :: "final option"
  rc_Cancellation :: "byte option"
  rc_ParentError :: "string option"
  rc_LogError :: "string option"

definition newPreparationCancellation :: "byte \<Rightarrow> DisplayMode option \<Rightarrow> run_completion" where
  "newPreparationCancellation reason mode =
     \<lparr>rc_LiveSessionEstablished = False, rc_DisplayMode = mode, rc_Final = None, rc_Cancellation = Some reason,
      rc_ParentError = None, rc_LogError = None\<rparr>"

datatype destination = ToStdout | ToStderr

type_synonym run_line = "destination \<times> string"

definition newline :: string where
  "newline = [char_of (10 :: nat)]"

definition writeRunLine :: "string \<Rightarrow> run_line" where
  "writeRunLine text1 = (ToStdout, ''transferlanes: '' @ text1 @ newline)"

definition writeNamedRunFailure :: "string \<Rightarrow> string \<Rightarrow> run_line" where
  "writeNamedRunFailure name v =
     (ToStderr, ''transferlanes: '' @ name @ '': '' @ cleanRunMessage v @ newline)"

definition writeParentRunFailures :: "string option \<Rightarrow> string option \<Rightarrow> run_line list" where
  "writeParentRunFailures parentError logError =
     (case parentError of None \<Rightarrow> [] | Some e \<Rightarrow> [writeNamedRunFailure ''output'' e]) @
     (case logError of None \<Rightarrow> [] | Some e \<Rightarrow> [writeNamedRunFailure ''logs'' e])"

definition transfer_succeeded :: "transfer_result \<Rightarrow> bool" where
  "transfer_succeeded t \<longleftrightarrow> tr_ExitCode t = 0 \<and> tr_Signal t = 0"

fun join_space :: "string list \<Rightarrow> string" where
  "join_space [] = []"
| "join_space [m] = m"
| "join_space (m # ms) = m @ '' '' @ join_space ms"

definition runFailureMessage :: "transfer_result list \<Rightarrow> string \<Rightarrow> string" where
  "runFailureMessage transfers runError =
     join_space (map (\<lambda>t. ''transfer '' @ decimal (num (tr_Transfer t)) @ '' failed: exit='' @ int_text (tr_ExitCode t) @
                        '' signal='' @ int_text (tr_Signal t))
                  (filter (\<lambda>t. \<not> transfer_succeeded t) transfers) @
                (if runError \<noteq> [] then [runError] else []))"

definition source_line :: "final_summary \<Rightarrow> run_line" where
  "source_line s = writeRunLine
     (''source: followed_symlinks='' @ decimal (unat (fs_FollowedSymlinks s)) @ '' ignored_symlinks='' @ decimal (unat (fs_IgnoredSymlinks s)) @
      '' empty_directories='' @ decimal (unat (fs_EmptyDirectories s)) @ '' ignored_special_files='' @ decimal (unat (fs_IgnoredSpecialFiles s)))"

definition transfer_line :: "transfer_result \<Rightarrow> run_line" where
  "transfer_line t = writeRunLine
     (''transfer '' @ decimal (num (tr_Transfer t)) @ '' completed: exit='' @ int_text (tr_ExitCode t) @ '' signal='' @ int_text (tr_Signal t))"

definition writePlainRunSummary :: "run_completion \<Rightarrow> run_line list" where
  "writePlainRunSummary result =
     (case rc_Final result of
        None \<Rightarrow> writeParentRunFailures (rc_ParentError result) (rc_LogError result)
      | Some f \<Rightarrow>
          let transfers = sort_key (\<lambda>t. num (tr_Transfer t)) (fi_Transfers f);
              succeeded = length (filter transfer_succeeded transfers);
              message = runFailureMessage transfers (fi_RunError f) in
          (case fi_Source f of None \<Rightarrow> [] | Some s \<Rightarrow> [source_line s]) @
          map transfer_line transfers @
          [writeRunLine (''completed: succeeded='' @ decimal succeeded @ '' failed='' @ decimal (length transfers - succeeded))] @
          (if fi_InternalError f \<noteq> [] then [writeNamedRunFailure ''internal'' (fi_InternalError f)] else []) @
          (if message \<noteq> [] then [writeNamedRunFailure ''run'' message] else []) @
          (if fi_CleanupError f \<noteq> [] then [writeNamedRunFailure ''cleanup'' (fi_CleanupError f)]
           else [writeRunLine ''cleanup completed'']) @
          writeParentRunFailures (rc_ParentError result) (rc_LogError result))"

definition writeInteractiveRunDiagnostics :: "run_completion \<Rightarrow> run_line list" where
  "writeInteractiveRunDiagnostics result =
     (case rc_Final result of
        None \<Rightarrow> []
      | Some f \<Rightarrow>
          map (\<lambda>(name, v). writeNamedRunFailure name v)
            (filter (\<lambda>(name, v). v \<noteq> [])
              [(''internal'', fi_InternalError f), (''run'', fi_RunError f), (''cleanup'', fi_CleanupError f)])) @
     writeParentRunFailures (rc_ParentError result) (rc_LogError result)"

section \<open>The exit status\<close>

definition runExitSuccess :: int where "runExitSuccess = 0"
definition runExitRuntime :: int where "runExitRuntime = 1"
definition runExitInterrupt :: int where "runExitInterrupt = 130"

definition anyRunTransferFailed :: "transfer_result list \<Rightarrow> bool" where
  "anyRunTransferFailed transfers = list_ex (\<lambda>t. tr_ExitCode t \<noteq> 0 \<or> tr_Signal t \<noteq> 0) transfers"

definition classifyRunCompletion :: "run_completion \<Rightarrow> int" where
  "classifyRunCompletion result =
     (if rc_ParentError result \<noteq> None \<or> rc_LogError result \<noteq> None then runExitRuntime
      else case rc_Final result of
        None \<Rightarrow>
          if \<not> rc_LiveSessionEstablished result \<and> rc_Cancellation result = Some CancelUser then runExitInterrupt
          else runExitRuntime
      | Some f \<Rightarrow>
          if fi_InternalError f \<noteq> [] \<or> fi_CleanupError f \<noteq> [] then runExitRuntime
          else if rc_Cancellation result = Some CancelUser \<or> fi_Reason f = CancelUser then runExitInterrupt
          else if fi_RunError f \<noteq> [] \<or> anyRunTransferFailed (fi_Transfers f) \<or> fi_Cancelled f then runExitRuntime
          else runExitSuccess)"

definition presentRun :: "(nat \<Rightarrow> bool) \<Rightarrow> run_completion \<Rightarrow> run_line list \<times> int" where
  "presentRun answers result =
     (let written = (if rc_DisplayMode result = Some DisplayPlain then writePlainRunSummary result
                     else writeInteractiveRunDiagnostics result)
      in (written, if list_ex answers [0..<length written] then runExitRuntime else classifyRunCompletion result))"


section \<open>Clean lines\<close>

lemma replacement_printable: "printable replacement"
  using replacement_visible by (simp add: printable_def replacement_def)

lemma printable_concat: "\<forall>r \<in> set rs. printable r \<Longrightarrow> printable (concat rs)"
  by (induction rs) auto

lemma rune_printable:
  assumes "rune_len bs \<noteq> 0" "\<not> IsControl (DecodeRune bs)"
  shows "printable (take (rune_len bs) bs)"
proof (cases "bs ! 0 < 0x80")
  case True
  have ne: "bs \<noteq> []" using assms(1) by (auto simp: rune_len_def)
  then have n: "rune_len bs = 1" using True rune_low by blast
  then have "DecodeRune bs = unat (bs ! 0)" by (simp add: DecodeRune_def)
  then have "0x20 \<le> unat (bs ! 0)" "unat (bs ! 0) \<noteq> 0x7f" using assms(2) by (auto simp: IsControl_def)
  then have "0x20 \<le> bs ! 0" "bs ! 0 \<noteq> 0x7f" by (auto simp: word_le_nat_alt)
  moreover have "take (rune_len bs) bs = [bs ! 0]" using n ne by (cases bs) auto
  ultimately show ?thesis using printable_byte [OF True] by simp
next
  case False
  then show ?thesis
    using assms printable_rune [of bs] by (auto simp: IsControl_def visible_rune_def)
qed

lemma map_control_printable: "(c, r) \<in> set (map_control bs) \<Longrightarrow> printable r"
proof (induction bs rule: map_control.induct)
  case (1 bs)
  have sp: "printable [0x20]" by (rule printable_byte) simp_all
  show ?case
    using "1.prems" "1.IH" replacement_printable sp rune_printable [of bs]
    by (subst (asm) map_control.simps) (auto split: if_splits)
qed

lemma trim_space_subset: "set (trim_space rs) \<subseteq> set rs"
  unfolding trim_space_def by (auto dest!: set_dropWhileD)

lemma cleanRunMessage_printable: "printable (to_bytes (cleanRunMessage v))"
proof -
  have "printable r" if "r \<in> snd ` set (trim_space (map_control (to_bytes v)))" for r
    using that trim_space_subset [of "map_control (to_bytes v)"] map_control_printable by fastforce
  then show ?thesis by (auto simp: cleanRunMessage_def intro!: printable_concat)
qed

text \<open>One line: printable text and the final newline.\<close>

definition line_clean :: "run_line \<Rightarrow> bool" where
  "line_clean l \<longleftrightarrow> (\<exists>body. snd l = body @ newline \<and> printable (to_bytes body))"

lemma clean_append: "printable (to_bytes a) \<Longrightarrow> printable (to_bytes b) \<Longrightarrow> printable (to_bytes (a @ b))"
  by (simp only: to_bytes_append printable_append)

lemma printable_decimal: "printable (to_bytes (decimal n))"
  by (rule printable_ascii) (rule decimal_printable)

lemma printable_int_text: "printable (to_bytes (int_text i))"
proof (cases "i < 0")
  case True
  have "printable (to_bytes (''-'' @ decimal (nat (- i))))"
    by (intro clean_append printable_decimal; rule printable_ascii; code_simp)
  with True show ?thesis by (simp only: int_text_def if_True)
qed (simp add: int_text_def printable_decimal)

lemma writeRunLine_clean: "printable (to_bytes t) \<Longrightarrow> line_clean (writeRunLine t)"
  unfolding line_clean_def writeRunLine_def snd_conv
  by (rule exI [of _ "''transferlanes: '' @ t"], intro conjI clean_append;
      (assumption | simp only: append_assoc | (rule printable_ascii, code_simp)))

lemma writeNamedRunFailure_clean: "printable (to_bytes name) \<Longrightarrow> line_clean (writeNamedRunFailure name v)"
  unfolding line_clean_def writeNamedRunFailure_def snd_conv
  by (rule exI [of _ "''transferlanes: '' @ name @ '': '' @ cleanRunMessage v"],
      intro conjI clean_append cleanRunMessage_printable;
      (assumption | simp only: append_assoc | (rule printable_ascii, code_simp)))

lemma parent_failures_clean: "list_all line_clean (writeParentRunFailures p l)"
proof -
  have "printable (to_bytes ''output'')" "printable (to_bytes ''logs'')" by (rule printable_ascii, code_simp)+
  then show ?thesis
    unfolding writeParentRunFailures_def by (auto split: option.split intro: writeNamedRunFailure_clean simp del: to_bytes_eq_iff)
qed

lemma source_line_clean: "line_clean (source_line s)"
  unfolding source_line_def
  by (intro writeRunLine_clean clean_append printable_decimal; rule printable_ascii; code_simp)

lemma transfer_line_clean: "line_clean (transfer_line t)"
  unfolding transfer_line_def
  by (intro writeRunLine_clean clean_append printable_decimal printable_int_text; rule printable_ascii; code_simp)

lemma count_line_clean: "line_clean (writeRunLine (''completed: succeeded='' @ decimal m @ '' failed='' @ decimal n))"
  by (intro writeRunLine_clean clean_append printable_decimal; rule printable_ascii; code_simp)

lemma fixed_lines_clean:
  "line_clean (writeRunLine ''cleanup completed'')" "line_clean (writeNamedRunFailure ''internal'' v)"
  "line_clean (writeNamedRunFailure ''run'' v)" "line_clean (writeNamedRunFailure ''cleanup'' v)"
  by (intro writeRunLine_clean writeNamedRunFailure_clean; rule printable_ascii; code_simp)+

lemma summary_clean: "list_all line_clean (writePlainRunSummary result)"
proof (cases "rc_Final result")
  case (Some f)
  have "list_all line_clean (case fi_Source f of None \<Rightarrow> [] | Some s \<Rightarrow> [source_line s])"
    using source_line_clean by (simp split: option.split)
  moreover have "list_all line_clean (map transfer_line ts)" for ts using transfer_line_clean by (simp add: list_all_iff)
  ultimately show ?thesis
    unfolding writePlainRunSummary_def Some option.case Let_def
    using parent_failures_clean count_line_clean fixed_lines_clean by (simp only: list_all_append list.pred_inject if_split simp_thms)
qed (simp add: writePlainRunSummary_def parent_failures_clean)

lemma diagnostics_clean: "list_all line_clean (writeInteractiveRunDiagnostics result)"
proof -
  have f: "list_all line_clean (map g (filter P xs))" if "list_all (\<lambda>x. line_clean (g x)) xs" for g :: "string \<times> string \<Rightarrow> run_line" and P xs
    using that by (auto simp: list_all_iff)
  have "list_all line_clean (map (\<lambda>(name, v). writeNamedRunFailure name v) (filter (\<lambda>(name, v). v \<noteq> [])
      [(''internal'', fi_InternalError x), (''run'', fi_RunError x), (''cleanup'', fi_CleanupError x)]))" for x
    by (rule f) (simp only: list.pred_inject case_prod_conv fixed_lines_clean simp_thms)
  then show ?thesis
    unfolding writeInteractiveRunDiagnostics_def
    by (cases "rc_Final result") (simp_all only: option.case list_all_append parent_failures_clean list.pred_inject simp_thms)
qed

section \<open>Properties\<close>

text \<open>
  C28: the exit status tells the outcome.  It is 0 exactly when every line could be written,
  the parent and the logs reported no error, a final result arrived without any error, every
  transfer exited with status 0, and nothing was cancelled; it is 130 exactly when, with
  every line written and without parent, log, internal or cleanup errors, the user
  cancelled; in every other case it is 1.
\<close>

theorem exit_status_tells_the_outcome:
  "presentRun answers result = (written, status) \<longrightarrow>
     (status = 0 \<longleftrightarrow>
        \<not> list_ex answers [0..<length written] \<and> rc_ParentError result = None \<and> rc_LogError result = None \<and>
        rc_Cancellation result \<noteq> Some CancelUser \<and>
        (\<exists>f. rc_Final result = Some f \<and> fi_InternalError f = [] \<and> fi_CleanupError f = [] \<and> fi_RunError f = [] \<and>
           fi_Reason f \<noteq> CancelUser \<and> \<not> fi_Cancelled f \<and> list_all transfer_succeeded (fi_Transfers f))) \<and>
     (status = 130 \<longleftrightarrow>
        \<not> list_ex answers [0..<length written] \<and> rc_ParentError result = None \<and> rc_LogError result = None \<and>
        (case rc_Final result of
           None \<Rightarrow> \<not> rc_LiveSessionEstablished result \<and> rc_Cancellation result = Some CancelUser
         | Some f \<Rightarrow> fi_InternalError f = [] \<and> fi_CleanupError f = [] \<and>
             (rc_Cancellation result = Some CancelUser \<or> fi_Reason f = CancelUser))) \<and>
     status \<in> {0, 1, 130}"
  by (cases "rc_Final result")
    (auto simp: presentRun_def Let_def classifyRunCompletion_def runExitSuccess_def runExitRuntime_def runExitInterrupt_def
      anyRunTransferFailed_def transfer_succeeded_def list_ex_iff list_all_iff split: if_splits)

theorem exit_status_tells_the_outcome_witness:
  "snd (presentRun (\<lambda>_. False) (newPreparationCancellation CancelUser None)) = 130"
proof -
  obtain written status where p: "presentRun (\<lambda>_. False) (newPreparationCancellation CancelUser None) = (written, status)"
    by fastforce
  have "status = 130"
    using exit_status_tells_the_outcome [of "\<lambda>_. False" "newPreparationCancellation CancelUser None" written status] p
    by (simp add: newPreparationCancellation_def list_ex_iff)
  then show ?thesis using p by simp
qed

text \<open>
  a run report is plain text.  Whatever diagnostics a run ends with, every line written
  for it is one line: printable UTF-8 without control characters but the newline at its end.
\<close>

theorem run_reports_are_plain_lines:
  "\<forall>(destination, line) \<in> set (fst (presentRun answers result)).
     \<exists>body. to_bytes line = body @ [0x0a] \<and> printable body"
proof -
  have nl: "to_bytes newline = [0x0a]" by code_simp
  have "list_all line_clean (fst (presentRun answers result))"
    using summary_clean diagnostics_clean by (simp add: presentRun_def Let_def)
  then show ?thesis by (fastforce simp: list_all_iff line_clean_def nl)
qed

theorem run_reports_are_plain_lines_witness:
  "\<forall>(destination, line) \<in> set (fst (presentRun (\<lambda>_. False)
       ((newPreparationCancellation CancelUser (Some DisplayPlain))\<lparr>rc_ParentError := Some [char_of (27 :: nat), CHR ''x'']\<rparr>))).
     \<exists>body. to_bytes line = body @ [0x0a] \<and> printable body"
  by (rule run_reports_are_plain_lines)

end
