(* ===== verification/Supervisor_Events.thy ===== *)
theory Supervisor_Events
  imports Supervisor_Codec
begin

text \<open>
  The event pipe of a run (\<open>internal/runsupervisor/event_sender.go\<close>, \<open>event_pipe_unix.go\<close>,
  \<open>event_receiver.go\<close> and the senders of \<open>supervisor.go\<close> and \<open>session.go\<close>).  The kernel is
  the list of its answers to \<open>write\<close> and the list of its answers to the wait loop; \<open>None\<close>
  is "still waiting when the answers end".  Every sender method holds the mutex of the
  sender for its whole body, so a history is a sequence of method calls.  The field
  \<open>es_pipe\<close> is not in the code: it is what has reached the pipe.
\<close>

section \<open>Writing one frame\<close>

datatype errno = EINTR | EAGAIN | Errno string

text \<open>The answer of one \<open>write\<close> may depend on the bytes it is given.\<close>

type_synonym write_answer = "byte list \<Rightarrow> nat \<times> errno option"

datatype wait_answer =
    DeadlinePassed
  | PollFailed errno
  | PollTimedOut
  | PollWritable
  | PollHangup
  | PollOther

datatype pipe_error = BackpressureStuck | PipeErrno errno | ErrClosedPipe | PipeShortWrite

fun waitForEventPipe :: "wait_answer list \<Rightarrow> ((pipe_error + unit) \<times> wait_answer list) option" where
  "waitForEventPipe [] = None"
| "waitForEventPipe (DeadlinePassed # ws) = Some (Inl BackpressureStuck, ws)"
| "waitForEventPipe (PollFailed e # ws) =
     (if e = EINTR then waitForEventPipe ws else Some (Inl (PipeErrno e), ws))"
| "waitForEventPipe (PollTimedOut # ws) = Some (Inl BackpressureStuck, ws)"
| "waitForEventPipe (PollWritable # ws) = Some (Inr (), ws)"
| "waitForEventPipe (PollHangup # ws) = Some (Inl ErrClosedPipe, ws)"
| "waitForEventPipe (PollOther # ws) = waitForEventPipe ws"

text \<open>The second component is what this call put on the pipe.\<close>

fun writeEventPipe ::
  "write_answer list \<Rightarrow> wait_answer list \<Rightarrow> byte list \<Rightarrow> ((pipe_error + unit) \<times> byte list) option"
where
  "writeEventPipe [] ws encoded = None"
| "writeEventPipe (answer # as) ws encoded =
     (case snd (answer encoded) of
        None \<Rightarrow>
          if fst (answer encoded) = length encoded then Some (Inr (), encoded)
          else Some (Inl PipeShortWrite, take (fst (answer encoded)) encoded)
      | Some EINTR \<Rightarrow> writeEventPipe as ws encoded
      | Some EAGAIN \<Rightarrow>
          (case waitForEventPipe ws of
             None \<Rightarrow> None
           | Some (Inl e, _) \<Rightarrow> Some (Inl e, [])
           | Some (Inr _, ws') \<Rightarrow> writeEventPipe as ws' encoded)
      | Some e \<Rightarrow> Some (Inl (PipeErrno e), []))"

text \<open>The \<open>io.Writer\<close> branch: one \<open>Write\<close>.\<close>

fun writeOnce :: "write_answer list \<Rightarrow> byte list \<Rightarrow> ((pipe_error + unit) \<times> byte list) option" where
  "writeOnce [] encoded = None"
| "writeOnce (answer # as) encoded =
     (case answer encoded of (written, err) \<Rightarrow>
        case err of
          Some e \<Rightarrow> Some (Inl (PipeErrno e), take written encoded)
        | None \<Rightarrow>
            if written \<noteq> length encoded then Some (Inl PipeShortWrite, take written encoded)
            else Some (Inr (), encoded))"

section \<open>The sender\<close>

record event_sender =
  es_fd :: int
  es_finalSent :: bool
  es_pipe :: "byte list"

datatype send_error =
    FrameNotAtomic
  | FrameEncode frame_error
  | FinalAlreadySent
  | EventWrite pipe_error
  | OutputRejected event_error
  | StatusRejected event_error
  | FallbackEncode final_error

record kernel =
  k_writes :: "write_answer list"
  k_waits :: "wait_answer list"

definition encodeEventFrame :: "frameKind \<Rightarrow> byte list \<Rightarrow> send_error + byte list" where
  "encodeEventFrame kind payload =
     (if \<not> allowedOnEventPipe kind \<or> length payload > maximumEventPayload then Inl FrameNotAtomic
      else (case encodeFrame kind payload of Inl e \<Rightarrow> Inl (FrameEncode e) | Inr bs \<Rightarrow> Inr bs))"

definition sendLocked ::
  "kernel \<Rightarrow> frameKind \<Rightarrow> byte list \<Rightarrow> event_sender \<Rightarrow> ((send_error + unit) \<times> event_sender) option" where
  "sendLocked k kind encoded s =
     (if es_finalSent s then Some (Inl FinalAlreadySent, s)
      else
        (case (if es_fd s \<ge> 0 then writeEventPipe (k_writes k) (k_waits k) encoded
               else writeOnce (k_writes k) encoded) of
           None \<Rightarrow> None
         | Some (Inl e, out) \<Rightarrow> Some (Inl (EventWrite e), s\<lparr>es_pipe := es_pipe s @ out\<rparr>)
         | Some (Inr _, out) \<Rightarrow>
             Some (Inr (), s\<lparr>es_pipe := es_pipe s @ out, es_finalSent := (kind = frameFinal)\<rparr>)))"

definition send_event ::
  "kernel \<Rightarrow> frameKind \<Rightarrow> byte list \<Rightarrow> event_sender \<Rightarrow> ((send_error + unit) \<times> event_sender) option" where
  "send_event k kind payload s =
     (case encodeEventFrame kind payload of
        Inl e \<Rightarrow> Some (Inl e, s)
      | Inr encoded \<Rightarrow> sendLocked k kind encoded s)"

text \<open>The loop of \<open>sendOutput\<close>; one kernel per frame.\<close>

function send_chunks ::
  "kernel list \<Rightarrow> transfer_number \<Rightarrow> byte \<Rightarrow> byte list \<Rightarrow> event_sender \<Rightarrow> ((send_error + unit) \<times> event_sender) option"
where
  "send_chunks ks t stream contents s =
     (if contents = [] then Some (Inr (), s)
      else
        (let chunk_len = min (length contents) maximumOutputChunk in
         case encodeOutput t stream (take chunk_len contents) of
           Inl e \<Rightarrow> Some (Inl (OutputRejected e), s)
         | Inr (kind, payload) \<Rightarrow>
             (case encodeEventFrame kind payload of
                Inl e \<Rightarrow> Some (Inl e, s)
              | Inr encoded \<Rightarrow>
                  (case ks of
                     [] \<Rightarrow> None
                   | k # ks' \<Rightarrow>
                       (case sendLocked k kind encoded s of
                          None \<Rightarrow> None
                        | Some (Inl e, s') \<Rightarrow> Some (Inl e, s')
                        | Some (Inr _, s') \<Rightarrow> send_chunks ks' t stream (drop chunk_len contents) s')))))"
  by pat_completeness auto
termination
  by (relation "measure (\<lambda>(ks, t, stream, contents, s). length ks)") auto

declare send_chunks.simps [simp del]

definition sendOutput ::
  "kernel list \<Rightarrow> transfer_number \<Rightarrow> byte \<Rightarrow> byte list \<Rightarrow> event_sender \<Rightarrow> ((send_error + unit) \<times> event_sender) option"
where
  "sendOutput ks t stream contents s =
     (if num_value t = 0 \<or> \<not> stream_valid stream \<or> length contents = 0
      then Some (Inl (OutputRejected OutputInvalid), s)
      else send_chunks ks t stream contents s)"

definition SendStatus ::
  "kernel \<Rightarrow> transfer_status \<Rightarrow> event_sender \<Rightarrow> ((send_error + unit) \<times> event_sender) option" where
  "SendStatus k status s =
     (case encodeStatus status of
        Inl e \<Rightarrow> Some (Inl (StatusRejected e), s)
      | Inr payload \<Rightarrow> send_event k frameStatus payload s)"

text \<open>The text of an encoding error is a parameter of the fallback.\<close>

definition sendSessionFinal ::
  "kernel \<Rightarrow> (final_error \<Rightarrow> string) \<Rightarrow> final \<Rightarrow> event_sender \<Rightarrow> ((send_error + unit) \<times> event_sender) option" where
  "sendSessionFinal k text f s =
     (case encodeFinal f of
        Inr payload \<Rightarrow> send_event k frameFinal payload s
      | Inl e \<Rightarrow>
          (case encodeFinal (finalEncodingFallback f (text e)) of
             Inl e' \<Rightarrow> Some (Inl (FallbackEncode e'), s)
           | Inr payload \<Rightarrow> send_event k frameFinal payload s))"

section \<open>The receiver\<close>

record event_receiver =
  er_events :: "byte list"
  er_finalDelivered :: bool

datatype receive_error = ReceiverEOF | EventRead frame_error | EventDecode event_error

text \<open>What a failed \<open>readFrame\<close> leaves unread.\<close>

definition after_read_error :: "frame_error \<Rightarrow> byte list \<Rightarrow> byte list" where
  "after_read_error e bs = (case e of HeaderInvalid \<Rightarrow> drop wireHeaderBytes bs | _ \<Rightarrow> [])"

text \<open>The third component: \<open>next\<close> stopped the controls.\<close>

definition receiver_next :: "event_receiver \<Rightarrow> (receive_error + event) \<times> event_receiver \<times> bool" where
  "receiver_next r =
     (if er_finalDelivered r then (Inl ReceiverEOF, r, False)
      else
        (case readFrame (er_events r) of
           Inl e \<Rightarrow> (Inl (EventRead e), r\<lparr>er_events := after_read_error e (er_events r)\<rparr>, False)
         | Inr (frame, rest) \<Rightarrow>
             (case decodeEvent frame of
                Inl e \<Rightarrow> (Inl (EventDecode e), r\<lparr>er_events := rest\<rparr>, False)
              | Inr event \<Rightarrow>
                  (case event of
                     FinalEvent _ \<Rightarrow> (Inr event, r\<lparr>er_events := rest, er_finalDelivered := True\<rparr>, True)
                   | _ \<Rightarrow> (Inr event, r\<lparr>er_events := rest\<rparr>, False)))))"


section \<open>Histories of a sender\<close>

text \<open>
  What \<open>write(2)\<close> promises for a pipe: a request of at most \<open>PIPE_BUF\<close> bytes is written
  whole or not at all.
\<close>

definition atomic_kernel :: "kernel \<Rightarrow> bool" where
  "atomic_kernel k \<longleftrightarrow> (\<forall>answer \<in> set (k_writes k). \<forall>bs.
     length bs \<le> pipeAtomicFrameBytes \<and> snd (answer bs) = None \<longrightarrow> fst (answer bs) = length bs)"

definition new_sender :: "int \<Rightarrow> event_sender" where
  "new_sender fd = \<lparr>es_fd = fd, es_finalSent = False, es_pipe = []\<rparr>"

inductive sender_step :: "event_sender \<Rightarrow> event_sender \<Rightarrow> bool" where
  step_handshake: "kind \<in> {frameReady, frameAccepted} \<Longrightarrow> atomic_kernel k \<Longrightarrow>
     send_event k kind [] s = Some (r, s') \<Longrightarrow> sender_step s s'"
| step_output: "list_all atomic_kernel ks \<Longrightarrow> number_ok t \<Longrightarrow>
     sendOutput ks t stream contents s = Some (r, s') \<Longrightarrow> sender_step s s'"
| step_status: "atomic_kernel k \<Longrightarrow> number_ok (st_Transfer status) \<Longrightarrow>
     SendStatus k status s = Some (r, s') \<Longrightarrow> sender_step s s'"
| step_final: "atomic_kernel k \<Longrightarrow> sendSessionFinal k errText f s = Some (r, s') \<Longrightarrow> sender_step s s'"

definition framed :: "byte list \<Rightarrow> wire_frame list \<Rightarrow> bool" where
  "framed pipe fs \<longleftrightarrow> (\<exists>bss. list_all2 (\<lambda>f bs. frame_bytes f = Inr bs) fs bss \<and> pipe = concat bss)"

lemma framed_Nil [simp]: "framed [] []"
  by (simp add: framed_def)

lemma framed_append: "framed p fs \<Longrightarrow> framed q gs \<Longrightarrow> framed (p @ q) (fs @ gs)"
  unfolding framed_def by (elim exE conjE) (auto intro!: exI [where x = "_ @ _"] list_all2_appendI)

lemma framed_single: "frame_bytes f = Inr bs \<Longrightarrow> framed bs [f]"
  unfolding framed_def by (rule exI [of _ "[bs]"]) simp

lemma framed_read: "framed p fs \<Longrightarrow> read_frames (length fs) (p @ rest) = Inr (fs, rest)"
  unfolding framed_def using read_frames_bytes by blast

lemma framed_read_Cons: "framed p (f # fs) \<Longrightarrow> \<exists>q. readFrame p = Inr (f, q) \<and> framed q fs"
proof -
  assume "framed p (f # fs)"
  then obtain bs bss where "frame_bytes f = Inr bs" "list_all2 (\<lambda>f bs. frame_bytes f = Inr bs) fs bss" "p = bs @ concat bss"
    by (auto simp: framed_def list_all2_Cons1)
  then show ?thesis
    using readFrame_encodeFrame [of "wf_kind f" "wf_payload f" bs "concat bss"] by (auto simp: framed_def frame_bytes_def)
qed

text \<open>A frame the protocol allows: a bare handshake frame or a decodable event.\<close>

definition event_frame :: "wire_frame \<Rightarrow> bool" where
  "event_frame f \<longleftrightarrow> wf_kind f \<in> {frameReady, frameAccepted} \<and> wf_payload f = [] \<or> is_ok (decodeEvent f)"

text \<open>The history \<open>fs\<close> is on the pipe, every frame is allowed, and the final one is last.\<close>

definition sent :: "event_sender \<Rightarrow> wire_frame list \<Rightarrow> bool" where
  "sent s fs \<longleftrightarrow> es_fd s \<ge> 0 \<and> framed (es_pipe s) fs \<and> list_all event_frame fs \<and>
     (es_finalSent s \<longleftrightarrow> fs \<noteq> [] \<and> wf_kind (last fs) = frameFinal) \<and>
     frameFinal \<notin> wf_kind ` set (butlast fs)"

lemma writeEventPipe_cases:
  "writeEventPipe as ws encoded = Some (r, out) \<Longrightarrow>
   (\<forall>answer \<in> set as. snd (answer encoded) = None \<longrightarrow> fst (answer encoded) = length encoded) \<Longrightarrow>
     r = Inr () \<and> out = encoded \<or> (\<exists>e. r = Inl e) \<and> out = []"
proof (induction as ws encoded arbitrary: r out rule: writeEventPipe.induct)
  case (2 answer as ws encoded)
  then show ?case
    by (cases "snd (answer encoded)") (auto split: errno.splits option.splits sum.splits prod.splits if_splits)
qed simp

lemma sendLocked_cases:
  assumes "sendLocked k kind encoded s = Some (r, s')" "atomic_kernel k" "es_fd s \<ge> 0"
    and "length encoded \<le> pipeAtomicFrameBytes"
  shows "(\<exists>e. r = Inl e) \<and> s' = s \<or>
     r = Inr () \<and> \<not> es_finalSent s \<and> s' = s\<lparr>es_pipe := es_pipe s @ encoded, es_finalSent := (kind = frameFinal)\<rparr>"
proof (cases "es_finalSent s")
  case False
  then obtain q out where w: "writeEventPipe (k_writes k) (k_waits k) encoded = Some (q, out)"
    using assms(1,3) by (auto simp: sendLocked_def split: option.splits)
  have "\<forall>answer \<in> set (k_writes k). snd (answer encoded) = None \<longrightarrow> fst (answer encoded) = length encoded"
    using assms(2,4) by (auto simp: atomic_kernel_def)
  from writeEventPipe_cases [OF w this] show ?thesis
    using assms(1,3) w False by (auto simp: sendLocked_def)
qed (use assms(1) in \<open>auto simp: sendLocked_def\<close>)

lemma encodeEventFrame_Inr:
  assumes "encodeEventFrame kind payload = Inr encoded"
  shows "frame_bytes \<lparr>wf_kind = kind, wf_payload = payload\<rparr> = Inr encoded"
    and "length encoded \<le> pipeAtomicFrameBytes"
proof -
  have "encodeFrame kind payload = Inr encoded" "length payload \<le> maximumEventPayload"
    using assms by (auto simp: encodeEventFrame_def split: if_splits sum.splits)
  then show "frame_bytes \<lparr>wf_kind = kind, wf_payload = payload\<rparr> = Inr encoded" "length encoded \<le> pipeAtomicFrameBytes"
    using encodeFrame_length by (auto simp: frame_bytes_def event_bounds)
qed

text \<open>One frame through \<open>sendLocked\<close> extends the history by that frame or leaves it alone.\<close>

lemma sendLocked_sent:
  assumes "sent s fs" "encodeEventFrame kind payload = Inr encoded" "atomic_kernel k"
    and "sendLocked k kind encoded s = Some (r, s')" "event_frame \<lparr>wf_kind = kind, wf_payload = payload\<rparr>"
  shows "(\<exists>e. r = Inl e) \<and> s' = s \<or> r = Inr () \<and> sent s' (fs @ [\<lparr>wf_kind = kind, wf_payload = payload\<rparr>])"
proof -
  note enc = encodeEventFrame_Inr [OF assms(2)]
  from sendLocked_cases [OF assms(4,3) _ enc(2)] assms(1)
  consider "(\<exists>e. r = Inl e) \<and> s' = s"
    | "r = Inr ()" "\<not> es_finalSent s" "s' = s\<lparr>es_pipe := es_pipe s @ encoded, es_finalSent := (kind = frameFinal)\<rparr>"
    by (auto simp: sent_def)
  then show ?thesis
  proof cases
    case 2
    then have "frameFinal \<notin> wf_kind ` set fs"
      using assms(1) by (cases fs rule: rev_cases) (auto simp: sent_def)
    with 2 show ?thesis
      using assms(1,5) framed_append [OF _ framed_single [OF enc(1)]] by (auto simp: sent_def)
  qed simp
qed

lemma send_event_sent:
  assumes "sent s fs" "atomic_kernel k" "send_event k kind payload s = Some (r, s')"
    and "event_frame \<lparr>wf_kind = kind, wf_payload = payload\<rparr>"
  shows "(\<exists>e. r = Inl e) \<and> s' = s \<or> r = Inr () \<and> sent s' (fs @ [\<lparr>wf_kind = kind, wf_payload = payload\<rparr>])"
  using assms sendLocked_sent [OF assms(1) _ assms(2) _ assms(4)]
  by (auto simp: send_event_def split: sum.splits)

lemma encodeEvent_frame:
  "event_ok e \<Longrightarrow> encodeEvent e = Inr (kind, payload) \<Longrightarrow> event_frame \<lparr>wf_kind = kind, wf_payload = payload\<rparr>"
  using decodeEvent_encodeEvent by (simp add: event_frame_def)

text \<open>The frames of one \<open>sendOutput\<close>: its chunks, in order.\<close>

definition output_frame :: "transfer_number \<Rightarrow> byte \<Rightarrow> byte list \<Rightarrow> wire_frame" where
  "output_frame t stream chunk = \<lparr>wf_kind = frameOutput, wf_payload = [num_value t, stream] @ chunk\<rparr>"

lemma send_chunks_sent:
  "send_chunks ks t stream contents s = Some (r, s') \<Longrightarrow> sent s fs \<Longrightarrow> list_all atomic_kernel ks \<Longrightarrow> number_ok t \<Longrightarrow>
     \<exists>chunks. sent s' (fs @ map (output_frame t stream) chunks) \<and>
       (\<forall>c \<in> set chunks. c \<noteq> [] \<and> length c \<le> maximumOutputChunk) \<and>
       (\<exists>rest. contents = concat chunks @ rest \<and> (r = Inr () \<longrightarrow> rest = []))"
proof (induction ks t stream contents s arbitrary: r s' fs rule: send_chunks.induct)
  case (1 ks t stream contents s)
  let ?n = "min (length contents) maximumOutputChunk"
  let ?c = "take ?n contents"
  show ?case
  proof (cases "contents = []")
    case True
    then show ?thesis using "1.prems" by (intro exI [of _ "[]"]) (auto simp: send_chunks.simps)
  next
    case ne: False
    show ?thesis
    proof (cases "\<exists>e. r = Inl e \<and> s' = s")
      case True
      then show ?thesis using "1.prems"(2) by (intro exI [of _ "[]"]) auto
    next
      case nf: False
      obtain kind payload where o: "encodeOutput t stream ?c = Inr (kind, payload)"
        using "1.prems"(1) ne nf by (subst (asm) send_chunks.simps) (auto simp: Let_def split: sum.splits)
      obtain encoded where e: "encodeEventFrame kind payload = Inr encoded"
        using "1.prems"(1) ne nf o by (subst (asm) send_chunks.simps) (auto simp: Let_def split: sum.splits)
      obtain k ks' where ks: "ks = k # ks'"
        using "1.prems"(1) ne nf o e by (subst (asm) send_chunks.simps) (auto simp: Let_def split: list.splits)
      obtain q s1 where l: "sendLocked k kind encoded s = Some (q, s1)"
        using "1.prems"(1) ne nf o e ks by (subst (asm) send_chunks.simps) (auto simp: Let_def split: option.splits)
      have f: "\<lparr>wf_kind = kind, wf_payload = payload\<rparr> = output_frame t stream ?c" "?c \<noteq> []"
        using o by (auto simp: encodeOutput_def output_frame_def split: if_splits)
      have ev: "event_frame \<lparr>wf_kind = kind, wf_payload = payload\<rparr>"
        using encodeEvent_frame [of "OutputEvent t stream ?c"] o "1.prems"(4) by simp
      from sendLocked_sent [OF "1.prems"(2) e _ l ev] "1.prems"(3) ks
      have "(\<exists>e. q = Inl e) \<and> s1 = s \<or> q = Inr () \<and> sent s1 (fs @ [output_frame t stream ?c])"
        by (simp add: f)
      moreover have "\<not> ((\<exists>e. q = Inl e) \<and> s1 = s)"
        using "1.prems"(1) ne nf o e ks l by (subst (asm) send_chunks.simps) (auto simp: Let_def)
      ultimately have q: "q = Inr ()" and s1: "sent s1 (fs @ [output_frame t stream ?c])" by auto
      have rec: "send_chunks ks' t stream (drop ?n contents) s1 = Some (r, s')"
        using "1.prems"(1) ne o e ks l q by (subst (asm) send_chunks.simps) (auto simp: Let_def)
      have at: "list_all atomic_kernel ks'" using "1.prems"(3) ks by simp
      have "\<exists>chunks. sent s' ((fs @ [output_frame t stream ?c]) @ map (output_frame t stream) chunks) \<and>
         (\<forall>c \<in> set chunks. c \<noteq> [] \<and> length c \<le> maximumOutputChunk) \<and>
         (\<exists>rest. drop ?n contents = concat chunks @ rest \<and> (r = Inr () \<longrightarrow> rest = []))"
        by (rule "1.IH" [OF ne refl o refl e ks l refl q rec s1 at "1.prems"(4)])
      then obtain chunks rest where c: "sent s' (fs @ map (output_frame t stream) (?c # chunks))"
        "\<forall>c \<in> set chunks. c \<noteq> [] \<and> length c \<le> maximumOutputChunk"
        "drop ?n contents = concat chunks @ rest" "r = Inr () \<longrightarrow> rest = []"
        by auto
      have "contents = concat (?c # chunks) @ rest"
        using c(3) append_take_drop_id [of ?n contents] by simp
      with c f(2) show ?thesis by (intro exI [of _ "?c # chunks"]) auto
    qed
  qed
qed


lemma normalized_idem: "normalized (normalized f) = normalized f"
  by (simp add: normalized_def normalizeDiagnostic_id normalizeDiagnostic_ok sort_key_idem)

lemma encodeFinal_event:
  assumes "encodeFinal f = Inr p"
  shows "decodeEvent \<lparr>wf_kind = frameFinal, wf_payload = p\<rparr> = Inr (FinalEvent (normalized f))"
    and "event_frame \<lparr>wf_kind = frameFinal, wf_payload = p\<rparr>"
    and "\<exists>encoded. encodeEventFrame frameFinal p = Inr encoded"
proof -
  have v: "validateFinal (normalized f) = Inr ()" and p: "p = final_bytes (normalized f)"
    using assms by (simp_all add: encodeFinal_Inr_iff)
  have l: "length p \<le> maximumEventPayload" using final_bytes_bound [OF v] by (simp add: p event_bounds)
  show d: "decodeEvent \<lparr>wf_kind = frameFinal, wf_payload = p\<rparr> = Inr (FinalEvent (normalized f))"
    using l decodeFinal_normalized [OF v normalized_idem]
    by (simp add: decodeEvent_def allowedOnEventPipe_def p lift_final_def)
  then show "event_frame \<lparr>wf_kind = frameFinal, wf_payload = p\<rparr>" by (simp add: event_frame_def)
  show "\<exists>encoded. encodeEventFrame frameFinal p = Inr encoded"
    using l by (auto simp: encodeEventFrame_def allowedOnEventPipe_def encodeFrame_def event_bounds maximumWirePayload_def)
qed

text \<open>The result that is really sent: the full one, or the reduced one.\<close>

definition delivered_final :: "(final_error \<Rightarrow> string) \<Rightarrow> final \<Rightarrow> final" where
  "delivered_final text f =
     (case encodeFinal f of Inr _ \<Rightarrow> normalized f | Inl e \<Rightarrow> normalized (finalEncodingFallback f (text e)))"

lemma sendSessionFinal_send:
  "\<exists>p. sendSessionFinal k text f s = send_event k frameFinal p s \<and>
     decodeEvent \<lparr>wf_kind = frameFinal, wf_payload = p\<rparr> = Inr (FinalEvent (delivered_final text f)) \<and>
     (\<exists>encoded. encodeEventFrame frameFinal p = Inr encoded)"
proof (cases "encodeFinal f")
  case (Inr p)
  then show ?thesis using encodeFinal_event [OF Inr] by (auto simp: sendSessionFinal_def delivered_final_def)
next
  case (Inl e)
  obtain p where "encodeFinal (finalEncodingFallback f (text e)) = Inr p"
    using normalized_valid [OF fallback_valid] by (auto simp: encodeFinal_Inr_iff)
  then show ?thesis using Inl encodeFinal_event by (auto simp: sendSessionFinal_def delivered_final_def)
qed

lemma sender_step_sent:
  assumes "sender_step s s'" "sent s fs"
  shows "\<exists>gs. sent s' (fs @ gs)"
proof -
  have one: ?thesis if "atomic_kernel k" "send_event k kind payload s = Some (r, s')"
    "event_frame \<lparr>wf_kind = kind, wf_payload = payload\<rparr>" for k kind payload r
    using send_event_sent [OF assms(2) that] assms(2) by (metis append_Nil2)
  from assms(1) show ?thesis
  proof cases
    case (step_handshake kind k r)
    then show ?thesis using one by (auto simp: event_frame_def)
  next
    case a: (step_output ks t stream contents r)
    show ?thesis
    proof (cases "s' = s")
      case False
      then have "send_chunks ks t stream contents s = Some (r, s')"
        using a(3) by (auto simp: sendOutput_def split: if_splits)
      then show ?thesis using send_chunks_sent assms(2) a by blast
    qed (use assms(2) in \<open>auto intro: exI [of _ "[]"]\<close>)
  next
    case a: (step_status k status r)
    show ?thesis
    proof (cases "encodeStatus status")
      case (Inr payload)
      then show ?thesis
        using a one encodeEvent_frame [of "StatusEvent status" frameStatus payload] by (auto simp: SendStatus_def)
    qed (use a assms(2) in \<open>auto simp: SendStatus_def intro: exI [of _ "[]"]\<close>)
  next
    case a: (step_final k errText f r)
    obtain p where "send_event k frameFinal p s = Some (r, s')" "event_frame \<lparr>wf_kind = frameFinal, wf_payload = p\<rparr>"
      using sendSessionFinal_send [of k errText f s] a(2) by (auto simp: event_frame_def)
    then show ?thesis using one a(1) by blast
  qed
qed

lemma reachable_sent:
  assumes "sender_step\<^sup>*\<^sup>* (new_sender fd) s" "fd \<ge> 0"
  shows "\<exists>fs. sent s fs"
  using assms(1)
proof (induction rule: rtranclp_induct)
  case base
  then show ?case using assms(2) by (intro exI [of _ "[]"]) (simp add: sent_def new_sender_def)
next
  case (step s s')
  then show ?case using sender_step_sent by blast
qed


lemma sent_read: "sent s fs \<Longrightarrow> read_frames (length fs) (es_pipe s) = Inr (fs, [])"
  using framed_read [of "es_pipe s" fs "[]"] by (simp add: sent_def)

lemma output_frame_event:
  assumes "number_ok t" "stream_valid stream" "c \<noteq> []" "length c \<le> maximumOutputChunk"
  shows "decodeEvent (output_frame t stream c) = Inr (OutputEvent t stream c)"
  using decodeEvent_encodeEvent [of "OutputEvent t stream c"] assms
  by (simp add: encodeOutput_def output_frame_def num_value_zero_iff number_ok_def)

text \<open>A kernel that is interrupted some number of times and then takes the whole frame.\<close>

definition accepting :: "nat \<Rightarrow> kernel" where
  "accepting n = \<lparr>k_writes = replicate n (\<lambda>_. (0, Some EINTR)) @ [\<lambda>bs. (length bs, None)], k_waits = []\<rparr>"

lemma accepting_writes: "writeEventPipe (k_writes (accepting n)) ws encoded = Some (Inr (), encoded)"
  unfolding accepting_def kernel.simps by (induction n) auto

lemma accepting_atomic: "atomic_kernel (accepting n)"
  by (auto simp: atomic_kernel_def accepting_def)

lemma receiver_next_final:
  assumes "readFrame bs = Inr (frame, rest)" "decodeEvent frame = Inr (FinalEvent f)"
  shows "receiver_next \<lparr>er_events = bs, er_finalDelivered = False\<rparr> =
    (Inr (FinalEvent f), \<lparr>er_events = rest, er_finalDelivered = True\<rparr>, True)"
  using assms by (simp add: receiver_next_def)

section \<open>Properties\<close>

text \<open>
  C13: the event pipe carries nothing but whole frames of the protocol, and the final event
  is the last of them.  After any sequence of handshake, output, status and final sends, in
  any order and with any interruptions, failures and waits of the kernel, the bytes on the
  pipe read as a sequence of bare handshake frames and decodable events; a final frame
  occurs at most once, only at the end, and exactly when the sender believes it sent one.
\<close>

theorem event_pipe_ends_with_the_final_event:
  assumes "fd \<ge> 0" "sender_step\<^sup>*\<^sup>* (new_sender fd) s"
  shows "\<exists>fs. read_frames (length fs) (es_pipe s) = Inr (fs, []) \<and>
    list_all (\<lambda>f. wf_kind f \<in> {frameReady, frameAccepted} \<and> wf_payload f = [] \<or> is_ok (decodeEvent f)) fs \<and>
    frameFinal \<notin> wf_kind ` set (butlast fs) \<and>
    (es_finalSent s \<longleftrightarrow> fs \<noteq> [] \<and> wf_kind (last fs) = frameFinal)"
proof -
  obtain fs where fs: "sent s fs" using reachable_sent assms by blast
  then have "read_frames (length fs) (es_pipe s) = Inr (fs, [])" by (rule sent_read)
  with fs show ?thesis by (intro exI [of _ fs]) (auto simp: sent_def event_frame_def [abs_def])
qed

theorem event_pipe_ends_with_the_final_event_witness:
  "\<exists>s fs. sender_step\<^sup>*\<^sup>* (new_sender 3) s \<and> es_finalSent s \<and>
     read_frames (length fs) (es_pipe s) = Inr (fs, []) \<and> fs \<noteq> [] \<and> wf_kind (last fs) = frameFinal"
proof -
  obtain p encoded where p: "sendSessionFinal (accepting 2) (\<lambda>_. []) demo_final (new_sender 3) =
      send_event (accepting 2) frameFinal p (new_sender 3)" "encodeEventFrame frameFinal p = Inr encoded"
    using sendSessionFinal_send by blast
  let ?s = "(new_sender 3)\<lparr>es_pipe := encoded, es_finalSent := True\<rparr>"
  have "sendSessionFinal (accepting 2) (\<lambda>_. []) demo_final (new_sender 3) = Some (Inr (), ?s)"
    unfolding p(1) using accepting_writes by (simp add: send_event_def p(2) sendLocked_def new_sender_def)
  then have "sender_step (new_sender 3) ?s" using accepting_atomic by (rule step_final [rotated])
  then have r: "sender_step\<^sup>*\<^sup>* (new_sender 3) ?s" by (rule r_into_rtranclp)
  have "es_finalSent ?s" by simp
  with event_pipe_ends_with_the_final_event [OF _ r] r show ?thesis by (metis zero_le_numeral)
qed

text \<open>
  command output is byte exact.  When \<open>sendOutput\<close> succeeds, the history on the pipe
  grows by output events of that transfer and stream whose bytes, concatenated, are exactly
  the bytes given, each in a frame the kernel writes atomically.
\<close>

theorem sent_output_is_byte_exact:
  assumes "fd \<ge> 0" "sender_step\<^sup>*\<^sup>* (new_sender fd) s" "list_all atomic_kernel ks" "number_ok t"
    and "sendOutput ks t stream contents s = Some (Inr (), s')"
  shows "\<exists>fs gs chunks. read_frames (length fs) (es_pipe s) = Inr (fs, []) \<and>
    read_frames (length fs + length gs) (es_pipe s') = Inr (fs @ gs, []) \<and>
    map_r decodeEvent gs = Inr (map (OutputEvent t stream) chunks) \<and> concat chunks = contents \<and>
    list_all (\<lambda>c. c \<noteq> [] \<and> length c \<le> 4086) chunks"
proof -
  have v: "stream_valid stream" and c: "send_chunks ks t stream contents s = Some (Inr (), s')"
    using assms(5) by (auto simp: sendOutput_def split: if_splits)
  obtain fs where fs: "sent s fs" using reachable_sent assms by blast
  obtain chunks where ch: "sent s' (fs @ map (output_frame t stream) chunks)"
    "\<forall>c \<in> set chunks. c \<noteq> [] \<and> length c \<le> maximumOutputChunk" "contents = concat chunks"
    using send_chunks_sent [OF c fs assms(3,4)] by auto
  have "map_r decodeEvent (map (output_frame t stream) chunks) = Inr (map (OutputEvent t stream) chunks)"
    using ch(2) output_frame_event [OF assms(4) v] by (induction chunks) auto
  with ch sent_read [OF fs] sent_read [OF ch(1)] show ?thesis
    by (intro exI [of _ fs] exI [of _ "map (output_frame t stream) chunks"] exI [of _ chunks])
      (auto simp: list_all_iff event_bounds)
qed

theorem sent_output_is_byte_exact_witness:
  "\<exists>s' gs chunks. sendOutput [accepting 2] (Number 4) OutputStdout [104, 105] (new_sender 3) = Some (Inr (), s') \<and>
     read_frames (length gs) (es_pipe s') = Inr (gs, []) \<and>
     map_r decodeEvent gs = Inr (map (OutputEvent (Number 4) OutputStdout) chunks) \<and> concat chunks = [104, 105]"
proof -
  have o: "encodeOutput (Number 4) OutputStdout [104, 105] = Inr (frameOutput, [4, OutputStdout, 104, 105])"
    by (simp add: encodeOutput_def stream_valid_def OutputPTY_def OutputStdout_def OutputStderr_def event_bounds)
  obtain encoded where e: "encodeEventFrame frameOutput [4, OutputStdout, 104, 105] = Inr encoded"
    by (simp add: encodeEventFrame_def allowedOnEventPipe_def event_bounds encodeFrame_def maximumWirePayload_def)
  let ?s = "(new_sender 3)\<lparr>es_pipe := encoded\<rparr>"
  have l: "sendLocked (accepting 2) frameOutput encoded (new_sender 3) = Some (Inr (), ?s)"
    using accepting_writes by (simp add: sendLocked_def new_sender_def)
  have "send_chunks [accepting 2] (Number 4) OutputStdout [104, 105] (new_sender 3) = Some (Inr (), ?s)"
    by (subst send_chunks.simps) (simp add: o e l event_bounds send_chunks.simps [of "[]"])
  then have so: "sendOutput [accepting 2] (Number 4) OutputStdout [104, 105] (new_sender 3) = Some (Inr (), ?s)"
    by (simp add: sendOutput_def stream_valid_def OutputPTY_def OutputStdout_def OutputStderr_def)
  have "number_ok (Number 4)" by (simp add: number_ok_def num_def transfer_maximum_def)
  from sent_output_is_byte_exact [OF _ rtranclp.rtrancl_refl _ this so] accepting_atomic
  obtain fs gs chunks where x: "read_frames (length fs) [] = Inr (fs, [])"
    "read_frames (length fs + length gs) (es_pipe ?s) = Inr (fs @ gs, [])"
    "map_r decodeEvent gs = Inr (map (OutputEvent (Number 4) OutputStdout) chunks)" "concat chunks = [104, 105]"
    by (auto simp: new_sender_def)
  have "fs = []" using x(1) by (cases fs) (auto simp: readFrame_def ReadFull_def wireHeaderBytes_def)
  with x so show ?thesis by auto
qed

text \<open>
  C14: a run always ends with one decodable result.  Whatever the work returned, unless a
  final was sent before, \<open>sendSessionFinal\<close> succeeds once the kernel takes the frame; the
  parent's next read delivers that result and stops its controls, the read after it reports
  the end, and every later send fails without writing.  The result is the normalised one or
  its reduced form, with the cancelled flag of the run.
\<close>

theorem every_session_delivers_its_final:
  assumes "es_fd s \<ge> 0" "\<not> es_finalSent s"
  shows "\<exists>s' r'. sendSessionFinal (accepting n) text f s = Some (Inr (), s') \<and>
    receiver_next \<lparr>er_events = drop (length (es_pipe s)) (es_pipe s'), er_finalDelivered = False\<rparr> =
      (Inr (FinalEvent (delivered_final text f)), r', True) \<and>
    receiver_next r' = (Inl ReceiverEOF, r', False) \<and>
    fi_Cancelled (delivered_final text f) = fi_Cancelled f \<and>
    (\<forall>k kind encoded. sendLocked k kind encoded s' = Some (Inl FinalAlreadySent, s'))"
proof -
  obtain p encoded where p: "sendSessionFinal (accepting n) text f s = send_event (accepting n) frameFinal p s"
    "decodeEvent \<lparr>wf_kind = frameFinal, wf_payload = p\<rparr> = Inr (FinalEvent (delivered_final text f))"
    "encodeEventFrame frameFinal p = Inr encoded"
    using sendSessionFinal_send by metis
  let ?s = "s\<lparr>es_pipe := es_pipe s @ encoded, es_finalSent := True\<rparr>"
  have "send_event (accepting n) frameFinal p s = Some (Inr (), ?s)"
    using assms accepting_writes by (simp add: send_event_def p sendLocked_def)
  moreover have "readFrame encoded = Inr (\<lparr>wf_kind = frameFinal, wf_payload = p\<rparr>, [])"
    using encodeEventFrame_Inr(1) [OF p(3)] readFrame_encodeFrame [of frameFinal p encoded "[]"]
    by (simp add: frame_bytes_def)
  moreover have "fi_Cancelled (delivered_final text f) = fi_Cancelled f"
    by (simp add: delivered_final_def normalized_def finalEncodingFallback_def split: sum.splits)
  ultimately show ?thesis
    using receiver_next_final p
    by (intro exI [of _ ?s] exI [of _ "\<lparr>er_events = [], er_finalDelivered = True\<rparr>"])
      (simp add: receiver_next_def sendLocked_def)
qed

theorem every_session_delivers_its_final_witness:
  "\<exists>s'. sendSessionFinal (accepting 5) (\<lambda>_. ''bad'') demo_final (new_sender 3) = Some (Inr (), s') \<and>
     fst (receiver_next \<lparr>er_events = es_pipe s', er_finalDelivered = False\<rparr>) = Inr (FinalEvent (normalized demo_final))"
proof -
  have d: "delivered_final (\<lambda>_. ''bad'') demo_final = normalized demo_final"
    using normalized_valid [OF demo_final_ok] by (auto simp: delivered_final_def encodeFinal_Inr_iff split: sum.splits)
      (metis encodeFinal_Inr_iff sum.distinct(1))
  show ?thesis
    using every_session_delivers_its_final [of "new_sender 3" 5 "\<lambda>_. ''bad''" demo_final]
    by (auto simp: new_sender_def d)
qed

end
