(* ===== verification/Supervisor_Control.thy ===== *)
theory Supervisor_Control
  imports Supervisor_Events
begin

text \<open>
  The parent's end of the control pipe (\<open>internal/runsupervisor/control_sender.go\<close> and
  \<open>control_pipe_linux.go\<close>).  The files are their presence (\<open>nil\<close> or not); \<open>cs_controlPipe\<close>
  and \<open>cs_cancelPipe\<close> are not in the code: they are what has reached the two pipes.

  Concurrency.  The sender has two mutexes.  \<open>sendMu\<close> serialises \<open>resize\<close>, \<open>writeInput\<close> and
  the second half of \<open>teardown\<close>; \<open>stateMu\<close> protects the fields and is released while a frame
  is being written.  An operation that releases \<open>stateMu\<close> therefore takes, for each such
  window, a function that stands for what the other threads do in it; the step relation
  lets that function be any sequence of the operations that need no \<open>sendMu\<close>.
\<close>

section \<open>Writing one control frame\<close>

datatype control_wait =
    CWaitFailed errno
  | CWoken
  | CWritable
  | CHangup
  | CNothing

datatype control_send_error =
    ControlEncode frame_error
  | ControlNotAtomic
  | ControlNonblock errno
  | ControlWait errno
  | ControlWoken
  | ControlClosedPipe
  | ControlWrite errno
  | ControlShortWrite
  | ControlRejected control_error

record control_kernel =
  ck_nonblock :: "errno option"
  ck_nonblockWake :: "errno option"
  ck_writes :: "write_answer list"
  ck_waits :: "control_wait list"

fun waitForControlFile :: "control_wait list \<Rightarrow> ((control_send_error + unit) \<times> control_wait list) option" where
  "waitForControlFile [] = None"
| "waitForControlFile (CWaitFailed e # ws) =
     (if e = EINTR then waitForControlFile ws else Some (Inl (ControlWait e), ws))"
| "waitForControlFile (CWoken # ws) = Some (Inl ControlWoken, ws)"
| "waitForControlFile (CWritable # ws) = Some (Inr (), ws)"
| "waitForControlFile (CHangup # ws) = Some (Inl ControlClosedPipe, ws)"
| "waitForControlFile (CNothing # ws) = waitForControlFile ws"

fun write_control_bytes ::
  "write_answer list \<Rightarrow> control_wait list \<Rightarrow> bool \<Rightarrow> byte list \<Rightarrow> ((control_send_error + unit) \<times> byte list) option"
where
  "write_control_bytes as ws atomic [] = Some (Inr (), [])"
| "write_control_bytes [] ws atomic (b # bs) = None"
| "write_control_bytes (answer # as) ws atomic (b # bs) =
     (let written = fst (answer (b # bs)) in
      case snd (answer (b # bs)) of
        None \<Rightarrow>
          if written > 0 \<and> (\<not> atomic \<or> written = length (b # bs)) then
            map_option (\<lambda>(r, out). (r, take written (b # bs) @ out))
              (write_control_bytes as ws atomic (drop written (b # bs)))
          else Some (Inl ControlShortWrite, take written (b # bs))
      | Some EINTR \<Rightarrow> write_control_bytes as ws atomic (b # bs)
      | Some EAGAIN \<Rightarrow>
          (case waitForControlFile ws of
             None \<Rightarrow> None
           | Some (Inl e, _) \<Rightarrow> Some (Inl e, [])
           | Some (Inr _, ws') \<Rightarrow> write_control_bytes as ws' atomic (b # bs))
      | Some e \<Rightarrow> Some (Inl (ControlWrite e), []))"

definition writeControlFile ::
  "control_kernel \<Rightarrow> frameKind \<Rightarrow> byte list \<Rightarrow> bool \<Rightarrow> ((control_send_error + unit) \<times> byte list) option" where
  "writeControlFile k kind payload atomic =
     (case encodeFrame kind payload of
        Inl e \<Rightarrow> Some (Inl (ControlEncode e), [])
      | Inr encoded \<Rightarrow>
          if atomic \<and> length encoded > pipeAtomicFrameBytes then Some (Inl ControlNotAtomic, [])
          else if ck_nonblock k \<noteq> None then Some (Inl (ControlNonblock (the (ck_nonblock k))), [])
          else if ck_nonblockWake k \<noteq> None then Some (Inl (ControlNonblock (the (ck_nonblockWake k))), [])
          else write_control_bytes (ck_writes k) (ck_waits k) atomic encoded)"

definition writeAtomicControlFile ::
  "control_kernel \<Rightarrow> frameKind \<Rightarrow> byte list \<Rightarrow> ((control_send_error + unit) \<times> byte list) option" where
  "writeAtomicControlFile k kind payload = writeControlFile k kind payload True"

section \<open>The control sender\<close>

definition maximumAtomicInputBytes :: nat where
  "maximumAtomicInputBytes = pipeAtomicFrameBytes - wireHeaderBytes - 1"

datatype controlState = controlOpen | controlCancelling | controlStopped | controlClosed

record control_sender =
  cs_state :: controlState
  cs_control :: bool
  cs_cancellation :: bool
  cs_wake :: bool
  cs_cancelErr :: "cancel_write_error option"
  cs_lifelineErr :: "string option"
  cs_teardownErr :: "string list"
  cs_controlPipe :: "byte list"
  cs_cancelPipe :: "byte list"

definition newControlSender :: control_sender where
  "newControlSender = \<lparr>cs_state = controlOpen, cs_control = True, cs_cancellation = True, cs_wake = True,
     cs_cancelErr = None, cs_lifelineErr = None, cs_teardownErr = [], cs_controlPipe = [], cs_cancelPipe = []\<rparr>"

type_synonym others = "control_sender \<Rightarrow> control_sender"

definition openForSend :: "control_sender \<Rightarrow> bool" where
  "openForSend s \<longleftrightarrow> cs_state s = controlOpen"

text \<open>The window is the write: the state may have changed when it is looked at again.\<close>

definition writeOpenFrame ::
  "control_kernel \<Rightarrow> others \<Rightarrow> frameKind \<Rightarrow> byte list \<Rightarrow> control_sender \<Rightarrow>
     (control_send_error option \<times> control_sender) option" where
  "writeOpenFrame k window kind payload s =
     (if cs_state s \<noteq> controlOpen then Some (None, s)
      else
        (case writeAtomicControlFile k kind payload of
           None \<Rightarrow> None
         | Some (r, out) \<Rightarrow>
             let s' = window (s\<lparr>cs_controlPipe := cs_controlPipe s @ out\<rparr>) in
             (case r of
                Inr _ \<Rightarrow> Some (None, s')
              | Inl e \<Rightarrow> if cs_state s' \<noteq> controlOpen then Some (None, s') else Some (Some e, s'))))"

definition sendFrame ::
  "control_kernel \<Rightarrow> others \<Rightarrow> others \<Rightarrow> frameKind \<Rightarrow> byte list \<Rightarrow> control_sender \<Rightarrow>
     (control_send_error option \<times> control_sender) option" where
  "sendFrame k before window kind payload s =
     (if \<not> openForSend s then Some (None, s)
      else writeOpenFrame k window kind payload (before s))"

definition control_resize ::
  "control_kernel \<Rightarrow> others \<Rightarrow> others \<Rightarrow> transfer_number \<Rightarrow> u16 \<Rightarrow> u16 \<Rightarrow> control_sender \<Rightarrow>
     (control_send_error option \<times> control_sender) option" where
  "control_resize k before window t cols rows s =
     (case encodeControl (newResizeControl t cols rows) of
        Inl e \<Rightarrow> Some (Some (ControlRejected e), s)
      | Inr (kind, payload) \<Rightarrow> sendFrame k before window kind payload s)"

text \<open>The loop of \<open>writeInput\<close>: per frame a kernel and the two windows around its state checks.\<close>

function write_input_chunks ::
  "(control_kernel \<times> others \<times> others) list \<Rightarrow> transfer_number \<Rightarrow> byte list \<Rightarrow> control_sender \<Rightarrow>
     (control_send_error option \<times> control_sender) option"
where
  "write_input_chunks ks t input s =
     (if input = [] then Some (None, s)
      else if \<not> openForSend s then Some (None, s)
      else
        (case ks of
           [] \<Rightarrow> None
         | (k, before, window) # ks' \<Rightarrow>
             let n = min (length input) maximumAtomicInputBytes in
             (case writeOpenFrame k window frameInput (num_value t # take n input) (before s) of
                None \<Rightarrow> None
              | Some (Some e, s') \<Rightarrow> Some (Some e, s')
              | Some (None, s') \<Rightarrow> write_input_chunks ks' t (drop n input) s')))"
  by pat_completeness auto
termination
  by (relation "measure (\<lambda>(ks, t, input, s). length ks)") auto

declare write_input_chunks.simps [simp del]

definition control_writeInput ::
  "(control_kernel \<times> others \<times> others) list \<Rightarrow> transfer_number \<Rightarrow> byte list \<Rightarrow> control_sender \<Rightarrow>
     (control_send_error option \<times> control_sender) option"
where
  "control_writeInput ks t input s =
     (if num_value t = 0 \<or> length input = 0 \<or> length input + 1 > maximumWirePayload
      then Some (Some (ControlRejected InputInvalid), s)
      else write_input_chunks ks t input s)"

text \<open>\<open>answer\<close> is what the writer of the cancellation frame reports.\<close>

definition control_cancel ::
  "nat \<times> string option \<Rightarrow> byte \<Rightarrow> control_sender \<Rightarrow> cancel_write_error option \<times> control_sender" where
  "control_cancel answer reason s =
     (if \<not> validCancellation reason then (Some (CancelEncode CancelReasonInvalid), s)
      else (case cs_state s of
              controlOpen \<Rightarrow>
                (case writeCancellation answer reason of
                   (r, out) \<Rightarrow>
                     let err = (case r of Inl e \<Rightarrow> Some e | Inr _ \<Rightarrow> None) in
                     (err, s\<lparr>cs_state := controlCancelling, cs_cancelErr := err,
                             cs_cancelPipe := cs_cancelPipe s @ out\<rparr>))
            | controlCancelling \<Rightarrow> (cs_cancelErr s, s)
            | controlStopped \<Rightarrow> (None, s)
            | controlClosed \<Rightarrow> (None, s)))"

definition control_stop :: "control_sender \<Rightarrow> control_sender" where
  "control_stop s =
     (if cs_state s = controlOpen \<or> cs_state s = controlCancelling then s\<lparr>cs_state := controlStopped\<rparr> else s)"

text \<open>\<open>closeErr\<close> is the answer of \<open>Close\<close>; \<open>between\<close> the window between the two locks.\<close>

definition closeLifeline :: "string option \<Rightarrow> others \<Rightarrow> control_sender \<Rightarrow> string option \<times> control_sender" where
  "closeLifeline closeErr between s =
     (let s = between (control_stop s) in
      if \<not> cs_cancellation s then (cs_lifelineErr s, s)
      else (closeErr, s\<lparr>cs_cancellation := False, cs_lifelineErr := closeErr\<rparr>))"

text \<open>
  \<open>closeErrs\<close> are the answers of \<open>Close\<close> on the control, cancellation and wake files; an
  absent file is not closed.  \<open>errors.Join\<close> is the list of the errors that are present.
\<close>

definition opt_list :: "'a option \<Rightarrow> 'a list" where
  "opt_list x = (case x of None \<Rightarrow> [] | Some a \<Rightarrow> [a])"

definition control_teardown ::
  "string option \<times> string option \<times> string option \<Rightarrow> others \<Rightarrow> others \<Rightarrow> control_sender \<Rightarrow>
     string list \<times> control_sender" where
  "control_teardown closeErrs before after s =
     (let s = before (control_stop s) in
      if cs_state s = controlClosed then (cs_teardownErr s, s)
      else
        let lifelineErr = cs_lifelineErr s;
            err = opt_list lifelineErr @
              (if cs_control s then opt_list (fst closeErrs) else []) @
              (if cs_cancellation s then opt_list (fst (snd closeErrs)) else []) @
              (if cs_wake s then opt_list (snd (snd closeErrs)) else []);
            s = after (s\<lparr>cs_control := False, cs_cancellation := False, cs_wake := False, cs_state := controlClosed\<rparr>)
        in (err, s\<lparr>cs_teardownErr := err\<rparr>))"


section \<open>Histories of a control sender\<close>

definition atomic_control :: "control_kernel \<Rightarrow> bool" where
  "atomic_control k \<longleftrightarrow> (\<forall>answer \<in> set (ck_writes k). \<forall>bs.
     length bs \<le> pipeAtomicFrameBytes \<and> snd (answer bs) = None \<longrightarrow> fst (answer bs) = length bs)"

inductive other_step :: "control_sender \<Rightarrow> control_sender \<Rightarrow> bool" where
  other_cancel: "control_cancel answer reason s = (err, s') \<Longrightarrow> other_step s s'"
| other_stop: "other_step s (control_stop s)"
| other_lifeline: "other_step\<^sup>*\<^sup>* (control_stop s) (between (control_stop s)) \<Longrightarrow>
     closeLifeline closeErr between s = (err, s') \<Longrightarrow> other_step s s'"

text \<open>A window in which only such operations happen.\<close>

definition window_ok :: "others \<Rightarrow> bool" where
  "window_ok w \<longleftrightarrow> (\<forall>s. other_step\<^sup>*\<^sup>* s (w s))"

inductive control_step :: "control_sender \<Rightarrow> control_sender \<Rightarrow> bool" where
  step_other: "other_step s s' \<Longrightarrow> control_step s s'"
| step_resize: "atomic_control k \<Longrightarrow> window_ok before \<Longrightarrow> window_ok window \<Longrightarrow> number_ok t \<Longrightarrow>
     control_resize k before window t cols rows s = Some (err, s') \<Longrightarrow> control_step s s'"
| step_input: "list_all (\<lambda>(k, before, window). atomic_control k \<and> window_ok before \<and> window_ok window) ks \<Longrightarrow>
     number_ok t \<Longrightarrow> control_writeInput ks t input s = Some (err, s') \<Longrightarrow> control_step s s'"
| step_teardown: "window_ok before \<Longrightarrow> window_ok after \<Longrightarrow>
     control_teardown closeErrs before after s = (errs, s') \<Longrightarrow> control_step s s'"

fun rank :: "controlState \<Rightarrow> nat" where
  "rank controlOpen = 0" | "rank controlCancelling = 1" | "rank controlStopped = 2" | "rank controlClosed = 3"

text \<open>The files a state owns, and what its two pipes hold.\<close>

definition cancel_prefix :: "byte list \<Rightarrow> bool" where
  "cancel_prefix bs \<longleftrightarrow> (\<exists>reason frame n. validCancellation reason \<and>
     encodeFrame frameCancel [reason] = Inr frame \<and> bs = take n frame)"

definition control_inv :: "control_sender \<Rightarrow> bool" where
  "control_inv s \<longleftrightarrow>
     (cs_control s \<longleftrightarrow> cs_state s \<noteq> controlClosed) \<and> (cs_wake s \<longleftrightarrow> cs_state s \<noteq> controlClosed) \<and>
     (cs_state s = controlOpen \<or> cs_state s = controlCancelling \<longrightarrow> cs_cancellation s) \<and>
     (cs_state s = controlClosed \<longrightarrow> \<not> cs_cancellation s) \<and>
     (cs_state s = controlOpen \<longrightarrow> cs_cancelPipe s = []) \<and>
     (cs_cancelPipe s = [] \<or> cancel_prefix (cs_cancelPipe s)) \<and>
     (\<exists>fs. framed (cs_controlPipe s) fs \<and> list_all (\<lambda>f. is_ok (decodeControl f)) fs)"

definition evolves :: "control_sender \<Rightarrow> control_sender \<Rightarrow> bool" where
  "evolves s s' \<longleftrightarrow> (control_inv s \<longrightarrow> control_inv s') \<and> rank (cs_state s) \<le> rank (cs_state s') \<and>
     (cs_state s \<noteq> controlOpen \<longrightarrow> cs_controlPipe s' = cs_controlPipe s \<and> cs_cancelPipe s' = cs_cancelPipe s)"

text \<open>The operations of the other threads never touch the control pipe.\<close>

definition evolves_other :: "control_sender \<Rightarrow> control_sender \<Rightarrow> bool" where
  "evolves_other s s' \<longleftrightarrow> evolves s s' \<and> cs_controlPipe s' = cs_controlPipe s \<and>
     (cs_state s \<noteq> controlClosed \<longrightarrow> cs_state s' \<noteq> controlClosed)"

lemma rank_open [simp]: "rank st = 0 \<longleftrightarrow> st = controlOpen" "rank st \<le> 0 \<longleftrightarrow> st = controlOpen" "rank controlClosed \<le> rank st \<longleftrightarrow> st = controlClosed"
  by (cases st; simp)+

lemma evolves_refl [simp]: "evolves s s"
  by (simp add: evolves_def)

lemma evolves_trans: "evolves s t \<Longrightarrow> evolves t u \<Longrightarrow> evolves s u"
  unfolding evolves_def
  by (metis le_trans rank_open(1) le_zero_eq)

lemma evolves_other_refl [simp]: "evolves_other s s"
  by (simp add: evolves_other_def)

lemma evolves_other_trans: "evolves_other s t \<Longrightarrow> evolves_other t u \<Longrightarrow> evolves_other s u"
  unfolding evolves_other_def using evolves_trans by metis

lemma stop_evolves: "evolves_other s (control_stop s)"
  by (auto simp: control_stop_def evolves_other_def evolves_def control_inv_def)

lemma evolves_other_star:
  "r\<^sup>*\<^sup>* s t \<Longrightarrow> (\<And>x y. r x y \<Longrightarrow> evolves_other x y) \<Longrightarrow> evolves_other s t"
  by (induction rule: rtranclp_induct) (simp, blast intro: evolves_other_trans)

lemma stop_rank: "2 \<le> rank (cs_state (control_stop s))"
  by (cases "cs_state s") (simp_all add: control_stop_def)

lemma cancel_evolves: "control_cancel answer reason s = (err, s') \<Longrightarrow> evolves_other s s'"
proof -
  assume a: "control_cancel answer reason s = (err, s')"
  show ?thesis
  proof (cases "validCancellation reason \<and> cs_state s = controlOpen")
    case True
    obtain r out where w: "writeCancellation answer reason = (r, out)" by fastforce
    then have out: "out = [] \<or> cancel_prefix out"
      using True by (auto simp: writeCancellation_def cancel_prefix_def encodeCancellation_def
          split: sum.splits prod.splits option.splits if_splits intro: exI [of _ "length _"])
        (metis order_refl take_all)
    with True a w show ?thesis
      by (auto simp: control_cancel_def Let_def evolves_other_def evolves_def control_inv_def)
  qed (use a in \<open>auto simp: control_cancel_def split: if_splits controlState.splits\<close>)
qed

lemma other_step_evolves: "other_step s s' \<Longrightarrow> evolves_other s s'"
proof (induction rule: other_step.induct)
  case (other_lifeline s between closeErr err s')
  let ?t = "control_stop s" and ?u = "between (control_stop s)"
  have "evolves_other ?t ?u"
    using other_lifeline.IH by (rule evolves_other_star) simp
  note tu = this
  have u: "evolves_other s ?u" using stop_evolves tu by (rule evolves_other_trans)
  have "rank (cs_state ?t) \<le> rank (cs_state ?u)" using tu by (simp add: evolves_other_def evolves_def)
  with stop_rank [of s] have r: "2 \<le> rank (cs_state ?u)" by (rule le_trans)
  have "evolves_other ?u s'"
    using other_lifeline.hyps r
    by (cases "cs_state ?u") (auto simp: closeLifeline_def Let_def evolves_other_def evolves_def control_inv_def split: if_splits)
  with u show ?case by (rule evolves_other_trans)
qed (auto intro: cancel_evolves stop_evolves)

lemma others_evolve: "other_step\<^sup>*\<^sup>* s s' \<Longrightarrow> evolves_other s s'"
  using evolves_other_star other_step_evolves by blast

lemma window_evolves: "window_ok w \<Longrightarrow> evolves_other s (w s)"
  by (simp add: window_ok_def others_evolve)


lemma rank_closed [simp]: "3 \<le> rank st \<longleftrightarrow> st = controlClosed"
  by (cases st) simp_all

lemma write_control_bytes_cases:
  "write_control_bytes as ws True bs = Some (r, out) \<Longrightarrow>
   \<forall>answer \<in> set as. snd (answer bs) = None \<longrightarrow> fst (answer bs) = length bs \<Longrightarrow>
     (\<exists>e. r = Inl e) \<and> out = [] \<or> r = Inr () \<and> out = bs"
proof (induction as ws True bs arbitrary: r out rule: write_control_bytes.induct)
  case (3 answer as ws b bs)
  then show ?case
    by (cases "snd (answer (b # bs))")
      (auto simp: Let_def split: errno.splits option.splits sum.splits prod.splits if_splits)
qed auto

lemma writeAtomicControlFile_cases:
  assumes "writeAtomicControlFile k kind payload = Some (r, out)" "atomic_control k"
  shows "(\<exists>e. r = Inl e) \<and> out = [] \<or> r = Inr () \<and> frame_bytes \<lparr>wf_kind = kind, wf_payload = payload\<rparr> = Inr out"
proof (cases "encodeFrame kind payload")
  case (Inr encoded)
  show ?thesis
  proof (cases "length encoded \<le> pipeAtomicFrameBytes \<and> ck_nonblock k = None \<and> ck_nonblockWake k = None")
    case True
    then have "write_control_bytes (ck_writes k) (ck_waits k) True encoded = Some (r, out)"
      using assms(1) Inr by (simp add: writeAtomicControlFile_def writeControlFile_def)
    with write_control_bytes_cases True assms(2) Inr show ?thesis
      by (fastforce simp: atomic_control_def frame_bytes_def)
  qed (use assms(1) Inr in \<open>auto simp: writeAtomicControlFile_def writeControlFile_def split: if_splits\<close>)
qed (use assms(1) in \<open>auto simp: writeAtomicControlFile_def writeControlFile_def\<close>)

lemma control_inv_frame:
  assumes "control_inv s" "cs_state s = controlOpen" "frame_bytes f = Inr out" "is_ok (decodeControl f)"
  shows "control_inv (s\<lparr>cs_controlPipe := cs_controlPipe s @ out\<rparr>)"
proof -
  obtain fs where "framed (cs_controlPipe s) fs" "list_all (\<lambda>f. is_ok (decodeControl f)) fs"
    using assms(1) by (auto simp: control_inv_def)
  then have "\<exists>fs. framed (cs_controlPipe s @ out) fs \<and> list_all (\<lambda>f. is_ok (decodeControl f)) fs"
    using framed_append [OF _ framed_single [OF assms(3)]] assms(4) by (intro exI [of _ "fs @ [f]"]) simp
  with assms(1,2) show ?thesis by (simp add: control_inv_def)
qed

text \<open>
  A frame written while open: the pipe grows by that frame or not at all; if the sender is
  still open and no error is reported, it grew.
\<close>

lemma writeOpenFrame_evolves:
  assumes "writeOpenFrame k window kind payload s = Some (err, s')" "atomic_control k" "window_ok window"
    and "is_ok (decodeControl \<lparr>wf_kind = kind, wf_payload = payload\<rparr>)"
  shows "evolves s s'"
    and "err = None \<Longrightarrow> cs_state s' = controlOpen \<Longrightarrow>
      \<exists>out. frame_bytes \<lparr>wf_kind = kind, wf_payload = payload\<rparr> = Inr out \<and> cs_controlPipe s' = cs_controlPipe s @ out"
proof -
  let ?t = "\<lambda>out. s\<lparr>cs_controlPipe := cs_controlPipe s @ out\<rparr>"
  have both: "evolves s s' \<and> (err = None \<and> cs_state s' = controlOpen \<longrightarrow>
      (\<exists>out. frame_bytes \<lparr>wf_kind = kind, wf_payload = payload\<rparr> = Inr out \<and> cs_controlPipe s' = cs_controlPipe s @ out))"
  proof (cases "cs_state s = controlOpen")
    case True
    then obtain r out where w: "writeAtomicControlFile k kind payload = Some (r, out)" and s': "s' = window (?t out)"
      using assms(1) by (auto simp: writeOpenFrame_def Let_def split: option.splits sum.splits if_splits)
    have st: "evolves_other (?t out) s'" unfolding s' using assms(3) by (rule window_evolves)
    have "evolves s (?t out)"
      using writeAtomicControlFile_cases [OF w assms(2)] control_inv_frame [OF _ True _ assms(4)] True
      by (auto simp: evolves_def)
    with st have "evolves s s'" using evolves_trans by (auto simp: evolves_other_def)
    moreover have "cs_controlPipe s' = cs_controlPipe s @ out" using st by (simp add: evolves_other_def)
    moreover have "r = Inr ()" if "err = None" "cs_state s' = controlOpen"
      using assms(1) True w that s' by (auto simp: writeOpenFrame_def Let_def split: sum.splits if_splits)
    ultimately show ?thesis using writeAtomicControlFile_cases [OF w assms(2)] by auto
  qed (use assms(1) in \<open>auto simp: writeOpenFrame_def\<close>)
  then show "evolves s s'" by blast
  show "\<exists>out. frame_bytes \<lparr>wf_kind = kind, wf_payload = payload\<rparr> = Inr out \<and> cs_controlPipe s' = cs_controlPipe s @ out"
    if "err = None" "cs_state s' = controlOpen"
    using both that by blast
qed

definition input_frame :: "transfer_number \<Rightarrow> byte list \<Rightarrow> wire_frame" where
  "input_frame t chunk = \<lparr>wf_kind = frameInput, wf_payload = num_value t # chunk\<rparr>"

lemma input_frame_control: "number_ok t \<Longrightarrow> chunk \<noteq> [] \<Longrightarrow> decodeControl (input_frame t chunk) = Inr (Input t chunk)"
  by (cases chunk) (simp_all add: decodeControl_def input_frame_def number_new_value newInputControl_def)

lemma write_input_chunks_evolves:
  "write_input_chunks ks t input s = Some (err, s') \<Longrightarrow> number_ok t \<Longrightarrow>
   list_all (\<lambda>(k, before, window). atomic_control k \<and> window_ok before \<and> window_ok window) ks \<Longrightarrow>
     evolves s s' \<and>
     (err = None \<and> cs_state s' = controlOpen \<longrightarrow>
        (\<exists>chunks out. concat chunks = input \<and> list_all (\<lambda>c. c \<noteq> [] \<and> length c \<le> maximumAtomicInputBytes) chunks \<and>
           framed out (map (input_frame t) chunks) \<and> cs_controlPipe s' = cs_controlPipe s @ out))"
proof (induction ks t input s arbitrary: err s' rule: write_input_chunks.induct)
  case (1 ks t input s)
  let ?n = "min (length input) maximumAtomicInputBytes"
  show ?case
  proof (cases "input = [] \<or> \<not> openForSend s")
    case True
    then show ?thesis using "1.prems"(1)
      by (auto simp: write_input_chunks.simps openForSend_def split: if_splits intro!: exI [of _ "[]"])
  next
    case False
    then have ne: "input \<noteq> []" and op: "\<not> \<not> openForSend s" by auto
    obtain k before window ks' where ks: "ks = (k, before, window) # ks'"
      using "1.prems"(1) False by (subst (asm) write_input_chunks.simps) (auto split: list.splits)
    have k: "atomic_control k" "window_ok before" "window_ok window"
      "list_all (\<lambda>(k, before, window). atomic_control k \<and> window_ok before \<and> window_ok window) ks'"
      using "1.prems"(3) ks by auto
    have c: "take ?n input \<noteq> []" using ne by (simp add: maximumAtomicInputBytes_def pipeAtomicFrameBytes_def wireHeaderBytes_def)
    obtain e1 s1 where w: "writeOpenFrame k window frameInput (num_value t # take ?n input) (before s) = Some (e1, s1)"
      using "1.prems"(1) False ks by (subst (asm) write_input_chunks.simps) (auto simp: Let_def split: option.splits)
    have dc: "is_ok (decodeControl \<lparr>wf_kind = frameInput, wf_payload = num_value t # take ?n input\<rparr>)"
      using input_frame_control [OF "1.prems"(2) c] by (simp add: input_frame_def)
    note wo = writeOpenFrame_evolves [OF w k(1,3) dc]
    have b: "evolves_other s (before s)" using k(2) by (rule window_evolves)
    have ev1: "evolves s s1" using b wo(1) evolves_trans by (auto simp: evolves_other_def)
    show ?thesis
    proof (cases e1)
      case (Some e)
      then have "err = Some e \<and> s' = s1"
        using "1.prems"(1) False ks w by (subst (asm) write_input_chunks.simps) (auto simp: Let_def)
      with ev1 show ?thesis by simp
    next
      case None
      then have rec: "write_input_chunks ks' t (drop ?n input) s1 = Some (err, s')"
        using "1.prems"(1) False ks w by (subst (asm) write_input_chunks.simps) (auto simp: Let_def)
      have IH: "evolves s1 s'" "err = None \<and> cs_state s' = controlOpen \<longrightarrow>
        (\<exists>chunks out. concat chunks = drop ?n input \<and> list_all (\<lambda>c. c \<noteq> [] \<and> length c \<le> maximumAtomicInputBytes) chunks \<and>
           framed out (map (input_frame t) chunks) \<and> cs_controlPipe s' = cs_controlPipe s1 @ out)"
        using "1.IH" [OF ne op ks refl refl refl w refl None rec "1.prems"(2) k(4)] by auto
      have ev: "evolves s s'" using ev1 IH(1) by (rule evolves_trans)
      have "\<exists>chunks out. concat chunks = input \<and> list_all (\<lambda>c. c \<noteq> [] \<and> length c \<le> maximumAtomicInputBytes) chunks \<and>
          framed out (map (input_frame t) chunks) \<and> cs_controlPipe s' = cs_controlPipe s @ out"
        if o: "err = None" "cs_state s' = controlOpen"
      proof -
        have "cs_state s1 = controlOpen" using IH(1) o by (simp add: evolves_def)
        then obtain out1 where o1: "frame_bytes (input_frame t (take ?n input)) = Inr out1"
          "cs_controlPipe s1 = cs_controlPipe s @ out1"
          using wo(2) None b by (auto simp: input_frame_def evolves_other_def)
        obtain chunks out where c2: "concat chunks = drop ?n input"
          "list_all (\<lambda>c. c \<noteq> [] \<and> length c \<le> maximumAtomicInputBytes) chunks"
          "framed out (map (input_frame t) chunks)" "cs_controlPipe s' = cs_controlPipe s1 @ out"
          using IH(2) o by blast
        show ?thesis
          using c c2 o1 framed_append [OF framed_single [OF o1(1)] c2(3)]
          by (intro exI [of _ "take ?n input # chunks"] exI [of _ "out1 @ out"]) simp
      qed
      with ev show ?thesis by blast
    qed
  qed
qed


lemma resize_evolves:
  assumes "control_resize k before window t cols rows s = Some (err, s')" "number_ok t"
    and "atomic_control k" "window_ok before" "window_ok window"
  shows "evolves s s'"
proof (cases "encodeControl (newResizeControl t cols rows)")
  case (Inr kp)
  obtain kind payload where kp: "kp = (kind, payload)" by fastforce
  have ok: "is_ok (decodeControl \<lparr>wf_kind = kind, wf_payload = payload\<rparr>)"
    using decodeControl_encodeControl [of "newResizeControl t cols rows" kind payload] Inr kp assms(2)
    by (simp add: newResizeControl_def)
  show ?thesis
  proof (cases "openForSend s")
    case True
    then have "writeOpenFrame k window kind payload (before s) = Some (err, s')"
      using assms(1) Inr kp by (simp add: control_resize_def sendFrame_def)
    from writeOpenFrame_evolves(1) [OF this assms(3,5) ok] window_evolves [OF assms(4), of s]
    show ?thesis using evolves_trans by (auto simp: evolves_other_def)
  qed (use assms(1) Inr kp in \<open>auto simp: control_resize_def sendFrame_def\<close>)
qed (use assms(1) in \<open>auto simp: control_resize_def\<close>)

lemma close_evolves:
  "2 \<le> rank (cs_state s) \<Longrightarrow>
     evolves s (s\<lparr>cs_control := False, cs_cancellation := False, cs_wake := False, cs_state := controlClosed\<rparr>)"
  by (cases "cs_state s") (auto simp: evolves_def control_inv_def)

lemma teardownErr_evolves: "evolves s (s\<lparr>cs_teardownErr := err\<rparr>)"
  by (simp add: evolves_def control_inv_def)

lemma teardown_evolves:
  assumes "control_teardown closeErrs before after s = (errs, s')" "window_ok before" "window_ok after"
  shows "evolves s s' \<and> cs_state s' = controlClosed"
proof -
  let ?t = "before (control_stop s)"
  let ?c = "?t\<lparr>cs_control := False, cs_cancellation := False, cs_wake := False, cs_state := controlClosed\<rparr>"
  have stop: "evolves s (control_stop s)" and w: "evolves (control_stop s) ?t" "evolves ?c (after ?c)"
    using stop_evolves window_evolves assms(2,3) by (auto simp: evolves_other_def)
  have st: "evolves s ?t" using stop w(1) by (rule evolves_trans)
  have r: "2 \<le> rank (cs_state ?t)"
    using w(1) stop_rank [of s] by (auto simp: evolves_def elim: le_trans)
  have tc: "evolves s (after ?c)"
    by (rule evolves_trans [OF st evolves_trans [OF close_evolves [OF r] w(2)]])
  have "cs_state (after ?c) = controlClosed"
    using w(2) by (simp add: evolves_def)
  then show ?thesis
    using assms(1) st tc evolves_trans [OF tc teardownErr_evolves]
    by (auto simp: control_teardown_def Let_def split: if_splits)
qed

lemma control_step_evolves: "control_step s s' \<Longrightarrow> evolves s s'"
proof (induction rule: control_step.induct)
  case (step_input ks t input s err s')
  then show ?case
    using write_input_chunks_evolves by (auto simp: control_writeInput_def split: if_splits)
qed (auto simp: evolves_other_def dest: other_step_evolves teardown_evolves intro: resize_evolves)

lemma control_steps_evolve: "control_step\<^sup>*\<^sup>* s s' \<Longrightarrow> evolves s s'"
  by (induction rule: rtranclp_induct) (simp, blast intro: evolves_trans control_step_evolves)

lemma new_control_inv: "control_inv newControlSender"
  by (simp add: control_inv_def newControlSender_def exI [of _ "[]"])

lemmas reachable_control_inv =
  control_steps_evolve [of newControlSender, unfolded evolves_def, THEN conjunct1, THEN mp, OF _ new_control_inv]


section \<open>Properties\<close>


lemma demo_cancel:
  assumes "cs_state s = controlOpen" "validCancellation reason"
  shows "cs_state (snd (control_cancel (9, None) reason s)) = controlCancelling"
    "cs_cancelPipe (snd (control_cancel (9, None) reason s)) \<noteq> []"
proof -
  obtain bs where e: "encodeFrame frameCancel [reason] = Inr bs" by (simp add: encodeFrame_def maximumWirePayload_def)
  then have "length bs = 9" using encodeFrame_length by (fastforce simp: wireHeaderBytes_def)
  with e show "cs_state (snd (control_cancel (9, None) reason s)) = controlCancelling"
    "cs_cancelPipe (snd (control_cancel (9, None) reason s)) \<noteq> []"
    using assms by (auto simp: control_cancel_def writeCancellation_def encodeCancellation_def Let_def)
qed




text \<open>
  terminal input is delivered byte for byte.  When \<open>writeInput\<close> reports no error and the
  sender is still open afterwards, the control pipe grew by input frames for that transfer
  whose bytes, concatenated, are the input, each frame within the size the kernel writes
  atomically.
\<close>

theorem written_input_is_byte_exact:
  assumes "control_writeInput ks t input s = Some (None, s')" "cs_state s' = controlOpen" "number_ok t"
    and "list_all (\<lambda>(k, before, window). atomic_control k \<and> window_ok before \<and> window_ok window) ks"
  shows "\<exists>chunks out fs. concat chunks = input \<and> cs_controlPipe s' = cs_controlPipe s @ out \<and>
    read_frames (length fs) out = Inr (fs, []) \<and> map_r decodeControl fs = Inr (map (Input t) chunks) \<and>
    list_all (\<lambda>c. length c \<le> 4087) chunks"
proof -
  have "write_input_chunks ks t input s = Some (None, s')"
    using assms(1) by (auto simp: control_writeInput_def split: if_splits)
  from write_input_chunks_evolves [OF this assms(3,4)] assms(2)
  obtain chunks out where c: "concat chunks = input" "list_all (\<lambda>c. c \<noteq> [] \<and> length c \<le> maximumAtomicInputBytes) chunks"
    "framed out (map (input_frame t) chunks)" "cs_controlPipe s' = cs_controlPipe s @ out"
    by blast
  have "map_r decodeControl (map (input_frame t) chunks) = Inr (map (Input t) chunks)"
    using c(2) input_frame_control [OF assms(3)] by (induction chunks) auto
  moreover have "list_all (\<lambda>c. length c \<le> 4087) chunks"
    using c(2) by (simp add: list_all_iff maximumAtomicInputBytes_def pipeAtomicFrameBytes_def wireHeaderBytes_def)
  ultimately show ?thesis
    using c framed_read [OF c(3), of "[]"]
    by (intro exI [of _ chunks] exI [of _ out] exI [of _ "map (input_frame t) chunks"]) simp
qed

definition demo_control_kernel :: control_kernel where
  "demo_control_kernel = \<lparr>ck_nonblock = None, ck_nonblockWake = None,
     ck_writes = [\<lambda>_. (0, Some EAGAIN), \<lambda>bs. (length bs, None)], ck_waits = [CWritable]\<rparr>"

theorem written_input_is_byte_exact_witness:
  "\<exists>s' chunks. control_writeInput [(demo_control_kernel, \<lambda>s. s, \<lambda>s. s)] (Number 3) [13, 10] newControlSender = Some (None, s') \<and>
     concat chunks = ([13, 10] :: byte list) \<and> cs_state s' = controlOpen"
proof -
  obtain encoded where e: "encodeFrame frameInput [3, 13, 10] = Inr encoded" "encoded \<noteq> []" "length encoded \<le> pipeAtomicFrameBytes"
    by (simp add: encodeFrame_def maximumWirePayload_def wireMagic_def pipeAtomicFrameBytes_def to_bytes_def)
  have "write_control_bytes (ck_writes demo_control_kernel) (ck_waits demo_control_kernel) True encoded = Some (Inr (), encoded)"
    using e(2) by (cases encoded) (auto simp: demo_control_kernel_def Let_def)
  then have w: "writeAtomicControlFile demo_control_kernel frameInput [3, 13, 10] = Some (Inr (), encoded)"
    using e by (simp add: writeAtomicControlFile_def writeControlFile_def demo_control_kernel_def)
  let ?s = "newControlSender\<lparr>cs_controlPipe := encoded\<rparr>"
  have "write_input_chunks [(demo_control_kernel, \<lambda>s. s, \<lambda>s. s)] (Number 3) [13, 10] newControlSender = Some (None, ?s)"
    using w by (subst write_input_chunks.simps)
      (simp add: openForSend_def newControlSender_def writeOpenFrame_def Let_def maximumAtomicInputBytes_def
        pipeAtomicFrameBytes_def wireHeaderBytes_def write_input_chunks.simps [of "[]"])
  then have i: "control_writeInput [(demo_control_kernel, \<lambda>s. s, \<lambda>s. s)] (Number 3) [13, 10] newControlSender = Some (None, ?s)"
    by (simp add: control_writeInput_def maximumWirePayload_def)
  have "number_ok (Number 3)" by (simp add: number_ok_def num_def transfer_maximum_def)
  moreover have "atomic_control demo_control_kernel" by (auto simp: atomic_control_def demo_control_kernel_def)
  moreover have "window_ok (\<lambda>s. s)" by (simp add: window_ok_def)
  moreover have "cs_state ?s = controlOpen" by (simp add: newControlSender_def)
  ultimately show ?thesis using written_input_is_byte_exact [OF i] i by auto
qed

end
