(* ===== verification/Supervisor_Session.thy ===== *)
theory Supervisor_Session
  imports Supervisor_Control
begin

text \<open>
  The supervisor's end of a run (\<open>internal/runsupervisor/cancellation.go\<close>, \<open>session.go\<close> and
  \<open>supervisor.go\<close>): who cancelled, the handshake, the call of the work and the single final
  result.  Messages of errors that come from the operating system or from other packages are
  parameters.  The goroutine that reads cancellations runs beside the session: it enters as
  a function on the cancellation state, applied while the session waits for the commit frame
  and again while the work runs, and may be any sequence of \<open>record\<close> calls.
\<close>

section \<open>Cancellation\<close>

record session_cancellation =
  sc_reason :: byte
  sc_diagnostic :: string
  sc_frozen :: bool
  sc_cancelled :: bool

definition new_cancellation :: session_cancellation where
  "new_cancellation = \<lparr>sc_reason = CancelNone, sc_diagnostic = [], sc_frozen = False, sc_cancelled = False\<rparr>"

text \<open>\<open>record\<close>; \<open>sc_cancelled\<close> is the effect of calling the context's cancel function.\<close>

definition record_cancel :: "byte \<Rightarrow> string \<Rightarrow> session_cancellation \<Rightarrow> session_cancellation" where
  "record_cancel reason diagnostic s =
     (if sc_frozen s then s
      else
        (if sc_reason s = CancelNone \<or> reason = CancelInternal \<or>
            (sc_reason s = CancelLifeline \<and> reason \<noteq> CancelLifeline)
         then s\<lparr>sc_reason := reason, sc_diagnostic := normalizeDiagnostic diagnostic\<rparr>
         else s)\<lparr>sc_cancelled := True\<rparr>)"

definition freeze :: "session_cancellation \<Rightarrow> (byte \<times> string) \<times> session_cancellation" where
  "freeze s = ((sc_reason s, sc_diagnostic s), s\<lparr>sc_frozen := True\<rparr>)"

text \<open>\<open>errors.Is(err, io.EOF)\<close> on the errors of \<open>readFrame\<close>, which wraps those of the payload.\<close>

fun is_EOF :: "frame_error \<Rightarrow> bool" where
  "is_EOF FrameEOF = True"
| "is_EOF (PayloadRead e) = is_EOF e"
| "is_EOF _ = False"

definition readCancellation ::
  "(frame_error \<Rightarrow> string) \<Rightarrow> (control_error \<Rightarrow> string) \<Rightarrow> byte list \<Rightarrow> session_cancellation \<Rightarrow> session_cancellation" where
  "readCancellation frameText controlText reader s =
     (case readFrame reader of
        Inl e \<Rightarrow>
          if is_EOF e then record_cancel CancelLifeline [] s
          else record_cancel CancelInternal (''read supervisor cancellation: '' @ frameText e) s
      | Inr (frame, _) \<Rightarrow>
          (case decodeCancellation frame of
             Inl e \<Rightarrow> record_cancel CancelInternal (''decode supervisor cancellation: '' @ controlText e) s
           | Inr reason \<Rightarrow> record_cancel reason [] s))"

definition recordControlReadFailure ::
  "(frame_error \<Rightarrow> string) \<Rightarrow> frame_error \<Rightarrow> session_cancellation \<Rightarrow> session_cancellation" where
  "recordControlReadFailure frameText e s =
     record_cancel CancelInternal
       (if is_EOF e then ''supervisor control reached EOF before final''
        else ''read supervisor control: '' @ frameText e) s"

definition applyCancellation :: "final \<Rightarrow> byte \<times> string \<Rightarrow> final" where
  "applyCancellation f snapshot =
     (let f = (if validCancellation (fst snapshot) then f\<lparr>fi_Cancelled := True, fi_Reason := fst snapshot\<rparr> else f)
      in f\<lparr>fi_InternalError := joinDiagnostic (fi_InternalError f) (snd snapshot)\<rparr>)"

section \<open>The handshake\<close>

definition ValidateStartRequestSize :: "int \<Rightarrow> bool" where
  "ValidateStartRequestSize n \<longleftrightarrow> \<not> (n < 0 \<or> n > int maximumWirePayload)"

definition ValidateStartRequest :: "byte list \<Rightarrow> bool" where
  "ValidateStartRequest request = ValidateStartRequestSize (int (length request))"

definition StartRequestCapacity :: nat where
  "StartRequestCapacity = maximumWirePayload"

text \<open>
  \<open>waitForCommit\<close>: \<open>done\<close> is the branch the select takes, which is the context's only when
  it is cancelled.  Second component: the control stream that is left.
\<close>

definition waitForCommit ::
  "(frame_error \<Rightarrow> string) \<Rightarrow> bool \<Rightarrow> byte list \<Rightarrow> session_cancellation \<Rightarrow> bool \<times> byte list \<times> session_cancellation" where
  "waitForCommit frameText done control s =
     (if done \<and> sc_cancelled s then (False, control, s)
      else (case readFrame control of
              Inl e \<Rightarrow> (False, after_read_error e control, recordControlReadFailure frameText e s)
            | Inr (frame, rest) \<Rightarrow>
                if wf_kind frame \<noteq> frameCommit \<or> length (wf_payload frame) \<noteq> 0
                then (False, rest, record_cancel CancelInternal ''supervisor commit frame is invalid'' s)
                else (True, rest, s)))"

text \<open>
  \<open>readControls\<close>: the controls handed over, in order, until the stream fails, a frame is not
  a control or, after \<open>n\<close> of them, the cancelled context stops it.
\<close>

fun readControls ::
  "(frame_error \<Rightarrow> string) \<Rightarrow> (control_error \<Rightarrow> string) \<Rightarrow> nat \<Rightarrow> byte list \<Rightarrow> session_cancellation \<Rightarrow>
     control list \<times> session_cancellation"
where
  "readControls frameText controlText 0 reader s = ([], s)"
| "readControls frameText controlText (Suc n) reader s =
     (case readFrame reader of
        Inl e \<Rightarrow> ([], recordControlReadFailure frameText e s)
      | Inr (frame, rest) \<Rightarrow>
          (case decodeControl frame of
             Inl e \<Rightarrow> ([], record_cancel CancelInternal (''decode supervisor control: '' @ controlText e) s)
           | Inr c \<Rightarrow>
               (case readControls frameText controlText n rest s of (cs, s') \<Rightarrow> (c # cs, s'))))"

section \<open>The session\<close>

text \<open>
  What the work does with the run it is given: it sends output and status events, may take
  the source, and returns a result or panics with a message.
\<close>

record work_outcome =
  wo_result :: "string + final"
  wo_sender :: event_sender
  wo_tookSource :: bool

definition empty_final :: final where
  "empty_final = \<lparr>fi_Cancelled = False, fi_Reason = CancelNone, fi_InternalError = [], fi_RunError = [],
     fi_CleanupError = [], fi_Source = None, fi_Transfers = []\<rparr>"

definition callWork :: "string + final \<Rightarrow> final" where
  "callWork r =
     (case r of
        Inr f \<Rightarrow> f
      | Inl p \<Rightarrow> empty_final\<lparr>fi_Cancelled := True, fi_Reason := CancelInternal,
          fi_InternalError := normalizeDiagnostic (''supervisor work panic: '' @ p)\<rparr>)"

record session_env =
  se_ready :: kernel
  se_accepted :: kernel
  se_final :: kernel
  se_control :: "byte list"
  se_before :: "session_cancellation \<Rightarrow> session_cancellation"
  se_ctxDone :: bool
  se_during :: "session_cancellation \<Rightarrow> session_cancellation"
  se_closeErr :: "string option"
  se_hasSource :: bool
  se_frameText :: "frame_error \<Rightarrow> string"
  se_finalText :: "final_error \<Rightarrow> string"

datatype session_error =
    SessionSend send_error
  | ErrHandshake
  | HandshakeRead frame_error
  | SourceClose string

text \<open>
  \<open>sr_closed\<close> counts how often the session or the run closed the source; \<open>sr_taken\<close> is
  whether the work took it over.
\<close>

record session_result =
  sr_errors :: "session_error list"
  sr_sender :: event_sender
  sr_closed :: nat
  sr_taken :: bool

text \<open>The deferred \<open>closeSource\<close> joins its error to the result; an absent source is no error.\<close>

definition close_source :: "session_env \<Rightarrow> bool \<Rightarrow> session_error list \<times> nat" where
  "close_source env present =
     (if present then (map SourceClose (opt_list (se_closeErr env)), 1) else ([], 0))"

definition send_errors :: "send_error + unit \<Rightarrow> session_error list" where
  "send_errors r = (case r of Inl e \<Rightarrow> [SessionSend e] | Inr _ \<Rightarrow> [])"

definition early :: "session_env \<Rightarrow> session_error list \<Rightarrow> event_sender \<Rightarrow> session_result" where
  "early env errs s =
     (case close_source env (se_hasSource env) of (cerrs, n) \<Rightarrow>
        \<lparr>sr_errors = errs @ cerrs, sr_sender = s, sr_closed = n, sr_taken = False\<rparr>)"

text \<open>The part after the source handoff was acknowledged.\<close>

definition serve_accepted ::
  "session_env \<Rightarrow> (byte list \<Rightarrow> event_sender \<Rightarrow> work_outcome) \<Rightarrow> byte list \<Rightarrow> byte list \<Rightarrow> event_sender \<Rightarrow> session_result option"
where
  "serve_accepted env work request control s =
     (case waitForCommit (se_frameText env) (se_ctxDone env) control (se_before env new_cancellation) of
        (False, _, c) \<Rightarrow>
          let closeErr = (if se_hasSource env then se_closeErr env else None);
              f = empty_final\<lparr>fi_CleanupError := diagnosticFor ''close accepted supervisor source'' closeErr\<rparr>
          in map_option (\<lambda>(r, s'). \<lparr>sr_errors = send_errors r, sr_sender = s',
                 sr_closed = (if se_hasSource env then 1 else 0), sr_taken = False\<rparr>)
               (sendSessionFinal (se_final env) (se_finalText env) (applyCancellation f (fst (freeze c))) s)
      | (True, _, c) \<Rightarrow>
          let w = work request s;
              untaken = se_hasSource env \<and> \<not> wo_tookSource w;
              closeErr = (if untaken then se_closeErr env else None);
              f = callWork (wo_result w);
              f = f\<lparr>fi_CleanupError := joinDiagnostic (fi_CleanupError f)
                      (diagnosticFor ''close untaken supervisor source'' closeErr)\<rparr>
          in map_option (\<lambda>(r, s'). \<lparr>sr_errors = send_errors r, sr_sender = s',
                 sr_closed = (if untaken then 1 else 0), sr_taken = (se_hasSource env \<and> wo_tookSource w)\<rparr>)
               (sendSessionFinal (se_final env) (se_finalText env)
                 (applyCancellation f (fst (freeze (se_during env c)))) (wo_sender w)))"

definition serve ::
  "session_env \<Rightarrow> (byte list \<Rightarrow> event_sender \<Rightarrow> work_outcome) \<Rightarrow> event_sender \<Rightarrow> session_result option" where
  "serve env work s =
     (case send_event (se_ready env) frameReady [] s of
        None \<Rightarrow> None
      | Some (Inl e, s) \<Rightarrow> Some (early env [SessionSend e] s)
      | Some (Inr _, s) \<Rightarrow>
          (case readFrame (se_control env) of
             Inl e \<Rightarrow> Some (early env [ErrHandshake, HandshakeRead e] s)
           | Inr (start, control) \<Rightarrow>
               if wf_kind start \<noteq> frameStart \<or> \<not> ValidateStartRequest (wf_payload start)
               then Some (early env [ErrHandshake] s)
               else
                 (case send_event (se_accepted env) frameAccepted [] s of
                    None \<Rightarrow> None
                  | Some (Inl e, s) \<Rightarrow> Some (early env [SessionSend e] s)
                  | Some (Inr _, s) \<Rightarrow> serve_accepted env work (wf_payload start) control s)))"


section \<open>The parent's view of the handshake\<close>

text \<open>\<open>validateRunSupervisorHandshake\<close> of \<open>launch.go\<close>: what the parent read in place of a handshake frame.\<close>

definition validateRunSupervisorHandshake :: "frame_error + wire_frame \<Rightarrow> frameKind \<Rightarrow> bool" where
  "validateRunSupervisorHandshake r expected =
     (case r of Inl _ \<Rightarrow> False | Inr f \<Rightarrow> wf_kind f = expected \<and> length (wf_payload f) = 0)"

datatype precommit_failure =
    PrecommitRead frame_error
  | PrecommitKind frameKind
  | PrecommitDecode final_error
  | PrecommitReported string
  | PrecommitNotCancelled

definition preCommitFinalError :: "bool \<Rightarrow> byte list \<Rightarrow> precommit_failure list" where
  "preCommitFinalError accepted events =
     (if \<not> accepted then []
      else (case readFrame events of
              Inl e \<Rightarrow> [PrecommitRead e]
            | Inr (frame, _) \<Rightarrow>
                if wf_kind frame \<noteq> frameFinal then [PrecommitKind (wf_kind frame)]
                else (case decodeFinal (wf_payload frame) of
                        Inl e \<Rightarrow> [PrecommitDecode e]
                      | Inr f \<Rightarrow>
                          map PrecommitReported (filter (\<lambda>m. m \<noteq> []) [fi_InternalError f, fi_RunError f, fi_CleanupError f]) @
                          (if \<not> fi_Cancelled f then [PrecommitNotCancelled] else []))))"

section \<open>Who cancelled\<close>

definition record_all :: "(byte \<times> string) list \<Rightarrow> session_cancellation \<Rightarrow> session_cancellation" where
  "record_all rs s = fold (\<lambda>(reason, diagnostic). record_cancel reason diagnostic) rs s"

text \<open>
  The specification: the last internal failure, else the first cause that is not the loss of
  the parent, else that loss, else nothing.
\<close>

definition cancellation_spec :: "(byte \<times> string) list \<Rightarrow> byte \<times> string" where
  "cancellation_spec rs =
     (case rev (filter (\<lambda>(r, _). r = CancelInternal) rs) of
        (r, d) # _ \<Rightarrow> (r, normalizeDiagnostic d)
      | [] \<Rightarrow>
          (case filter (\<lambda>(r, _). r \<noteq> CancelLifeline) rs @ rs of
             (r, d) # _ \<Rightarrow> (r, normalizeDiagnostic d)
           | [] \<Rightarrow> (CancelNone, [])))"

lemmas reason_defs = CancelNone_def CancelUser_def CancelTerminate_def CancelHangup_def CancelLifeline_def CancelInternal_def

lemma valid_not_none: "validCancellation r \<Longrightarrow> r \<noteq> CancelNone"
  by (auto simp: validCancellation_def reason_defs)

lemma cancellation_spec_snoc:
  assumes "list_all (\<lambda>(r, _). validCancellation r) rs" "validCancellation r"
  shows "cancellation_spec (rs @ [(r, d)]) =
    (if fst (cancellation_spec rs) = CancelNone \<or> r = CancelInternal \<or>
        (fst (cancellation_spec rs) = CancelLifeline \<and> r \<noteq> CancelLifeline)
     then (r, normalizeDiagnostic d) else cancellation_spec rs)"
proof -
  let ?int = "rev (filter (\<lambda>(r, _). r = CancelInternal) rs)" and ?other = "filter (\<lambda>(r, _). r \<noteq> CancelLifeline) rs"
  have ne: "CancelLifeline \<noteq> CancelInternal" "CancelNone \<noteq> CancelLifeline" "CancelNone \<noteq> CancelInternal"
    by (simp_all add: reason_defs)
  show ?thesis
  proof (cases ?int)
    case (Cons z zs)
    then have "z \<in> set ?int" by simp
    then obtain d' where "z = (CancelInternal, d')" by auto
    with Cons ne show ?thesis by (auto simp: cancellation_spec_def)
  next
    case noint: Nil
    show ?thesis
    proof (cases ?other)
      case (Cons y ys)
      obtain r' d' where y: "y = (r', d')" by fastforce
      have "y \<in> set ?other" using Cons by simp
      then have "r' \<noteq> CancelLifeline" "r' \<noteq> CancelNone"
        using assms(1) y by (auto simp: list_all_iff dest: valid_not_none)
      with noint Cons ne y show ?thesis by (auto simp: cancellation_spec_def)
    next
      case Nil
      then have "\<forall>(r, _) \<in> set rs. r = CancelLifeline" by (auto simp: filter_empty_conv)
      with noint Nil ne valid_not_none [OF assms(2)] show ?thesis
        by (cases rs) (auto simp: cancellation_spec_def)
    qed
  qed
qed

lemma record_all_spec:
  "list_all (\<lambda>(r, _). validCancellation r) rs \<Longrightarrow>
     record_all rs new_cancellation =
       \<lparr>sc_reason = fst (cancellation_spec rs), sc_diagnostic = snd (cancellation_spec rs), sc_frozen = False,
        sc_cancelled = (rs \<noteq> [])\<rparr>"
proof (induction rs rule: rev_induct)
  case (snoc x rs)
  obtain r d where x: "x = (r, d)" by fastforce
  have "record_all (rs @ [(r, d)]) new_cancellation = record_cancel r d (record_all rs new_cancellation)"
    by (simp add: record_all_def)
  with snoc x show ?case by (auto simp: cancellation_spec_snoc record_cancel_def)
qed (simp add: record_all_def cancellation_spec_def new_cancellation_def)

lemma record_frozen: "sc_frozen s \<Longrightarrow> record_all rs s = s"
  unfolding record_all_def by (induction rs arbitrary: s) (auto simp: record_cancel_def)


section \<open>Facts on sessions\<close>

lemma accepting_send:
  assumes "es_fd s \<ge> 0" "\<not> es_finalSent s" "kind \<in> {frameReady, frameAccepted}"
  shows "\<exists>bs. send_event (accepting n) kind [] s = Some (Inr (), s\<lparr>es_pipe := es_pipe s @ bs\<rparr>) \<and>
    frame_bytes \<lparr>wf_kind = kind, wf_payload = []\<rparr> = Inr bs"
proof -
  obtain encoded where e: "encodeEventFrame kind [] = Inr encoded"
    using assms(3) by (auto simp: encodeEventFrame_def allowedOnEventPipe_def encodeFrame_def)
  have "send_event (accepting n) kind [] s = Some (Inr (), s\<lparr>es_pipe := es_pipe s @ encoded\<rparr>)"
    using assms accepting_writes by (auto simp: send_event_def e sendLocked_def)
  with encodeEventFrame_Inr(1) [OF e] show ?thesis by blast
qed

lemma accepting_final:
  assumes "es_fd s \<ge> 0" "\<not> es_finalSent s"
  shows "\<exists>bs p. sendSessionFinal (accepting n) text f s = Some (Inr (), s\<lparr>es_pipe := es_pipe s @ bs, es_finalSent := True\<rparr>) \<and>
    readFrame bs = Inr (\<lparr>wf_kind = frameFinal, wf_payload = p\<rparr>, []) \<and> decodeFinal p = Inr (delivered_final text f)"
proof -
  obtain p encoded where p: "sendSessionFinal (accepting n) text f s = send_event (accepting n) frameFinal p s"
    "decodeEvent \<lparr>wf_kind = frameFinal, wf_payload = p\<rparr> = Inr (FinalEvent (delivered_final text f))"
    "encodeEventFrame frameFinal p = Inr encoded"
    using sendSessionFinal_send by metis
  have "send_event (accepting n) frameFinal p s = Some (Inr (), s\<lparr>es_pipe := es_pipe s @ encoded, es_finalSent := True\<rparr>)"
    using assms accepting_writes by (simp add: send_event_def p sendLocked_def)
  moreover have "readFrame encoded = Inr (\<lparr>wf_kind = frameFinal, wf_payload = p\<rparr>, [])"
    using encodeEventFrame_Inr(1) [OF p(3)] readFrame_encodeFrame [of frameFinal p encoded "[]"]
    by (simp add: frame_bytes_def)
  moreover have "decodeFinal p = Inr (delivered_final text f)"
    using p(2) by (auto simp: decodeEvent_def lift_final_def bind_r_Inr_iff split: if_splits sum.splits)
  ultimately show ?thesis using p(1) by auto
qed

lemma cancelled_cause_valid:
  assumes "list_all (\<lambda>(r, _). validCancellation r) rs" "rs \<noteq> []"
  shows "validCancellation (fst (cancellation_spec rs))"
proof -
  have "\<exists>d. (fst (cancellation_spec rs), d) \<in> set rs"
  proof -
    consider (a) y ys where "rev (filter (\<lambda>(r, _). r = CancelInternal) rs) = y # ys"
      | (b) "filter (\<lambda>(r, _). r = CancelInternal) rs = []" by (metis list.exhaust rev_is_Nil_conv)
    then show ?thesis
    proof cases
      case a
      then have "y \<in> set (rev (filter (\<lambda>(r, _). r = CancelInternal) rs))" by simp
      then have "y \<in> set rs" by auto
      with a show ?thesis by (cases y) (auto simp: cancellation_spec_def)
    next
      case b
      obtain y ys where y: "filter (\<lambda>(r, _). r \<noteq> CancelLifeline) rs @ rs = y # ys"
        using assms(2) by (cases "filter (\<lambda>(r, _). r \<noteq> CancelLifeline) rs @ rs") auto
      then have "y \<in> set (filter (\<lambda>(r, _). r \<noteq> CancelLifeline) rs @ rs)" by simp
      then have "y \<in> set rs" by auto
      with b y show ?thesis by (cases y) (auto simp: cancellation_spec_def)
    qed
  qed
  with assms(1) show ?thesis by (auto simp: list_all_iff)
qed

lemma delivered_cancelled:
  "validCancellation (fst snapshot) \<Longrightarrow> fi_Cancelled (delivered_final text (applyCancellation f snapshot))"
  by (simp add: delivered_final_def normalized_def finalEncodingFallback_def applyCancellation_def Let_def split: sum.splits)

lemma apply_empty_delivered:
  assumes "validCancellation (fst snapshot)"
  shows "delivered_final text (applyCancellation (empty_final\<lparr>fi_CleanupError := m\<rparr>) snapshot) =
    normalized (applyCancellation (empty_final\<lparr>fi_CleanupError := m\<rparr>) snapshot)"
proof -
  let ?f = "applyCancellation (empty_final\<lparr>fi_CleanupError := m\<rparr>) snapshot"
  have "validateFinal (normalized ?f) = Inr ()"
    using assms by (simp add: validateFinal_iff normalized_def normalizeDiagnostic_ok applyCancellation_def Let_def
        empty_final_def)
  then obtain p where "encodeFinal ?f = Inr p" by (simp add: encodeFinal_Inr_iff)
  then show ?thesis by (simp add: delivered_final_def)
qed


section \<open>Properties\<close>

text \<open>
  C17: the recorded cause of a cancellation follows a fixed priority, whatever the order in
  which the causes arrive: the last internal failure wins, else the first cause other than
  the loss of the parent, else that loss; the context is cancelled as soon as there is one;
  and after \<open>freeze\<close> nothing changes it.
\<close>

theorem recorded_cause_follows_priority:
  assumes "list_all (\<lambda>(r, _). validCancellation r) rs"
  shows "fst (freeze (record_all rs new_cancellation)) = cancellation_spec rs \<and>
    sc_cancelled (record_all rs new_cancellation) = (rs \<noteq> []) \<and>
    record_all late (snd (freeze (record_all rs new_cancellation))) = snd (freeze (record_all rs new_cancellation))"
proof -
  have "record_all late (snd (freeze (record_all rs new_cancellation))) = snd (freeze (record_all rs new_cancellation))"
    by (rule record_frozen) (simp add: freeze_def)
  then show ?thesis by (simp add: record_all_spec [OF assms] freeze_def)
qed

theorem recorded_cause_follows_priority_witness:
  "fst (freeze (record_all [(CancelLifeline, []), (CancelUser, []), (CancelHangup, [])] new_cancellation)) = (CancelUser, [])"
proof -
  have "list_all (\<lambda>(r, _). validCancellation r) [(CancelLifeline, []), (CancelUser, []), (CancelHangup, [])]"
    by (simp add: validCancellation_def reason_defs)
  moreover have "cancellation_spec [(CancelLifeline, []), (CancelUser, []), (CancelHangup, [])] = (CancelUser, [])"
    using normalizeDiagnostic_id [of "[]"]
    by (simp add: cancellation_spec_def reason_defs diagnostic_ok_def ValidString_def to_bytes_def)
  ultimately show ?thesis using recorded_cause_follows_priority by metis
qed

text \<open>An environment whose kernel takes every frame, with the given causes of cancellation.\<close>

definition healthy_env ::
  "nat \<Rightarrow> byte list \<Rightarrow> (byte \<times> string) list \<Rightarrow> bool \<Rightarrow> (byte \<times> string) list \<Rightarrow> bool \<Rightarrow> (final_error \<Rightarrow> string) \<Rightarrow> session_env" where
  "healthy_env n control rs1 done rs2 has text =
     \<lparr>se_ready = accepting n, se_accepted = accepting n, se_final = accepting n, se_control = control,
      se_before = record_all rs1, se_ctxDone = done, se_during = record_all rs2, se_closeErr = None,
      se_hasSource = has, se_frameText = (\<lambda>_. []), se_finalText = text\<rparr>"



text \<open>
  C19: a committed session reports what its work returned.  When the parent sends a start
  request of acceptable size and the commit, and the kernel takes the frames, the work runs
  once on exactly that request after the ready and accepted frames, and the session ends
  without error after one final frame; the final is marked cancelled whenever a cancellation
  was recorded, and otherwise exactly when the work's own result is.
\<close>

theorem committed_session_reports_its_work:
  assumes "list_all (\<lambda>(r, _). validCancellation r) (rs1 @ rs2)"
    and "encodeFrame frameStart request = Inr start" "encodeFrame frameCommit [] = Inr commit"
    and "\<And>req t. es_fd (wo_sender (work req t)) = es_fd t \<and> es_finalSent (wo_sender (work req t)) = es_finalSent t"
    and "fd \<ge> 0"
  shows "\<exists>r hello w p g bs. serve (healthy_env n (start @ commit @ rest) rs1 False rs2 has msg) work (new_sender fd) = Some r \<and> sr_errors r = [] \<and>
    read_frames 2 hello = Inr ([\<lparr>wf_kind = frameReady, wf_payload = []\<rparr>, \<lparr>wf_kind = frameAccepted, wf_payload = []\<rparr>], []) \<and>
    w = work request ((new_sender fd)\<lparr>es_pipe := hello\<rparr>) \<and> es_pipe (sr_sender r) = es_pipe (wo_sender w) @ bs \<and>
    readFrame bs = Inr (\<lparr>wf_kind = frameFinal, wf_payload = p\<rparr>, []) \<and> decodeFinal p = Inr g \<and>
    fi_Cancelled g = (rs1 @ rs2 \<noteq> [] \<or> fi_Cancelled (callWork (wo_result w)))"
proof -
  let ?s0 = "new_sender fd" and ?env = "healthy_env n (start @ commit @ rest) rs1 False rs2 has msg"
  obtain b1 where b1: "send_event (accepting n) frameReady [] ?s0 = Some (Inr (), ?s0\<lparr>es_pipe := b1\<rparr>)"
    "frame_bytes \<lparr>wf_kind = frameReady, wf_payload = []\<rparr> = Inr b1"
    using accepting_send [of ?s0 frameReady n] assms(5) by (auto simp: new_sender_def)
  let ?s1 = "?s0\<lparr>es_pipe := b1\<rparr>"
  obtain b2 where b2: "send_event (accepting n) frameAccepted [] ?s1 = Some (Inr (), ?s1\<lparr>es_pipe := b1 @ b2\<rparr>)"
    "frame_bytes \<lparr>wf_kind = frameAccepted, wf_payload = []\<rparr> = Inr b2"
    using accepting_send [of ?s1 frameAccepted n] assms(5) by (auto simp: new_sender_def)
  let ?s2 = "?s0\<lparr>es_pipe := b1 @ b2\<rparr>"
  have hello: "read_frames 2 (b1 @ b2) = Inr ([\<lparr>wf_kind = frameReady, wf_payload = []\<rparr>, \<lparr>wf_kind = frameAccepted, wf_payload = []\<rparr>], [])"
    using framed_read [OF framed_append [OF framed_single [OF b1(2)] framed_single [OF b2(2)]], of "[]"]
    by (simp add: numeral_2_eq_2)
  have start: "readFrame (start @ commit @ rest) = Inr (\<lparr>wf_kind = frameStart, wf_payload = request\<rparr>, commit @ rest)"
    and commit: "readFrame (commit @ rest) = Inr (\<lparr>wf_kind = frameCommit, wf_payload = []\<rparr>, rest)"
    using readFrame_encodeFrame assms(2,3) by auto
  have size: "ValidateStartRequest request"
    using assms(2) by (auto simp: ValidateStartRequest_def ValidateStartRequestSize_def encodeFrame_Inr_iff)
  let ?w = "work request ?s2"
  let ?u = "has \<and> \<not> wo_tookSource ?w"
  let ?f = "(callWork (wo_result ?w))\<lparr>fi_CleanupError := joinDiagnostic (fi_CleanupError (callWork (wo_result ?w)))
     (diagnosticFor ''close untaken supervisor source'' None)\<rparr>"
  have snap: "fst (freeze (record_all rs2 (record_all rs1 new_cancellation))) = cancellation_spec (rs1 @ rs2)"
    using record_all_spec [OF assms(1)] by (simp add: record_all_def freeze_def)
  let ?g = "applyCancellation ?f (cancellation_spec (rs1 @ rs2))"
  obtain bs p where f: "sendSessionFinal (accepting n) msg ?g (wo_sender ?w) =
      Some (Inr (), (wo_sender ?w)\<lparr>es_pipe := es_pipe (wo_sender ?w) @ bs, es_finalSent := True\<rparr>)"
    "readFrame bs = Inr (\<lparr>wf_kind = frameFinal, wf_payload = p\<rparr>, [])" "decodeFinal p = Inr (delivered_final msg ?g)"
    using accepting_final [of "wo_sender ?w" n msg ?g] assms(4,5) by (auto simp: new_sender_def)
  have flag: "fi_Cancelled (delivered_final msg ?g) = (rs1 @ rs2 \<noteq> [] \<or> fi_Cancelled (callWork (wo_result ?w)))"
  proof (cases "rs1 @ rs2 = []")
    case True
    then show ?thesis
      by (simp add: delivered_final_def normalized_def finalEncodingFallback_def applyCancellation_def Let_def
          cancellation_spec_def validCancellation_def reason_defs split: sum.splits)
  qed (use delivered_cancelled cancelled_cause_valid [OF assms(1)] in blast)
  have acc: "serve_accepted ?env work request (commit @ rest) ?s2 =
      Some \<lparr>sr_errors = [], sr_sender = (wo_sender ?w)\<lparr>es_pipe := es_pipe (wo_sender ?w) @ bs, es_finalSent := True\<rparr>,
        sr_closed = (if ?u then 1 else 0), sr_taken = (has \<and> wo_tookSource ?w)\<rparr>"
    by (simp add: serve_accepted_def waitForCommit_def healthy_env_def commit Let_def snap f(1) send_errors_def)
  have "serve ?env work ?s0 = serve_accepted ?env work request (commit @ rest) ?s2"
    using b1(1) b2(1) by (simp add: serve_def healthy_env_def start size new_sender_def)
  with acc hello f(2,3) flag show ?thesis by auto
qed


definition demo_work :: "byte list \<Rightarrow> event_sender \<Rightarrow> work_outcome" where
  "demo_work request s = \<lparr>wo_result = Inr empty_final, wo_sender = s, wo_tookSource = True\<rparr>"

theorem committed_session_reports_its_work_witness:
  "\<exists>start commit r. encodeFrame frameStart [1] = Inr start \<and> encodeFrame frameCommit [] = Inr commit \<and>
     serve (healthy_env 1 (start @ commit @ []) [] False [(CancelHangup, [])] True (\<lambda>_. [])) demo_work (new_sender 3) = Some r \<and>
     sr_errors r = []"
proof -
  obtain start commit where e: "encodeFrame frameStart [1] = Inr start" "encodeFrame frameCommit [] = Inr commit"
    by (simp add: encodeFrame_def maximumWirePayload_def)
  have v: "list_all (\<lambda>(r, _). validCancellation r) ([] @ [(CancelHangup, [])])"
    by (simp add: validCancellation_def reason_defs)
  have w: "es_fd (wo_sender (demo_work req t)) = es_fd t \<and> es_finalSent (wo_sender (demo_work req t)) = es_finalSent t" for req t
    by (simp add: demo_work_def)
  have "(0 :: int) \<le> 3" by simp
  from committed_session_reports_its_work [where work = demo_work, OF v e w this, of 1 "[]" True "\<lambda>_. []"] e show ?thesis by blast
qed

text \<open>
  an aborted handoff is clean on both sides.  When the parent gives up before the commit
  by closing the cancellation pipe, the supervisor records the loss of the parent, closes
  the source it accepted, and sends one final frame in which the parent's
  \<open>preCommitFinalError\<close> finds nothing to complain about: it is cancelled and carries no error.
\<close>

theorem aborted_handoff_is_clean:
  assumes "es_fd s \<ge> 0" "\<not> es_finalSent s"
  shows "readCancellation ft ct [] new_cancellation = record_all [(CancelLifeline, [])] new_cancellation \<and>
    (\<exists>r bs. serve_accepted (healthy_env n control [(CancelLifeline, [])] True rs2 has msg) work request control s = Some r \<and>
      sr_errors r = [] \<and> sr_closed r = (if has then 1 else 0) \<and> \<not> sr_taken r \<and>
      es_pipe (sr_sender r) = es_pipe s @ bs \<and> preCommitFinalError True bs = [])"
proof -
  let ?rs = "[(CancelLifeline, [])]" and ?env = "healthy_env n control [(CancelLifeline, [])] True rs2 has msg"
  have nd: "normalizeDiagnostic [] = []"
    using normalizeDiagnostic_id [of "[]"] by (simp add: diagnostic_ok_def ValidString_def to_bytes_def)
  have v: "list_all (\<lambda>(r, _). validCancellation r) ?rs" "validCancellation CancelLifeline"
    by (simp_all add: validCancellation_def reason_defs)
  have spec: "cancellation_spec ?rs = (CancelLifeline, [])"
    by (simp add: cancellation_spec_def nd reason_defs)
  note rec = record_all_spec [OF v(1), unfolded spec]
  let ?f = "empty_final\<lparr>fi_CleanupError := diagnosticFor ''close accepted supervisor source'' None\<rparr>"
  let ?g = "applyCancellation ?f (CancelLifeline, [])"
  obtain bs p where f: "sendSessionFinal (accepting n) msg ?g s = Some (Inr (), s\<lparr>es_pipe := es_pipe s @ bs, es_finalSent := True\<rparr>)"
    "readFrame bs = Inr (\<lparr>wf_kind = frameFinal, wf_payload = p\<rparr>, [])" "decodeFinal p = Inr (delivered_final msg ?g)"
    using accepting_final [OF assms] by blast
  have d: "delivered_final msg ?g = normalized ?g" using apply_empty_delivered v(2) by simp
  have j: "joinDiagnostic [] [] = []"
    by (simp add: joinDiagnostic_def truncateDiagnostic_def ToValidUTF8_id ValidString_def to_bytes_def)
  have g: "fi_InternalError (delivered_final msg ?g) = []" "fi_RunError (delivered_final msg ?g) = []"
    "fi_CleanupError (delivered_final msg ?g) = []" "fi_Cancelled (delivered_final msg ?g)"
    using v(2) unfolding d
    by (simp_all add: normalized_def applyCancellation_def Let_def empty_final_def diagnosticFor_def nd j)
  have "preCommitFinalError True bs = []"
    unfolding preCommitFinalError_def f(2) by (simp add: f(3) g del: diagnosticFor_def)
  moreover have "serve_accepted ?env work request control s =
      Some \<lparr>sr_errors = [], sr_sender = s\<lparr>es_pipe := es_pipe s @ bs, es_finalSent := True\<rparr>,
        sr_closed = (if has then 1 else 0), sr_taken = False\<rparr>"
    using f(1) by (simp add: serve_accepted_def waitForCommit_def healthy_env_def rec freeze_def Let_def send_errors_def)
  moreover have "readCancellation ft ct [] new_cancellation = record_all ?rs new_cancellation"
    by (simp add: readCancellation_def readFrame_def ReadFull_def wireHeaderBytes_def record_all_def)
  ultimately show ?thesis by auto
qed

theorem aborted_handoff_is_clean_witness:
  "\<exists>r bs. serve_accepted (healthy_env 2 [] [(CancelLifeline, [])] True [] True (\<lambda>_. [])) demo_work [1] [] (new_sender 3) = Some r \<and>
     sr_closed r = 1 \<and> es_pipe (sr_sender r) = bs \<and> preCommitFinalError True bs = []"
  using aborted_handoff_is_clean [of "new_sender 3" "\<lambda>_. []" "\<lambda>_. []" 2 "[]" "[]" True "\<lambda>_. []" demo_work "[1]"]
  by (auto simp: new_sender_def)

end
