(* ===== verification/Run_Request.thy ===== *)
theory Run_Request
  imports Transfer_Start Supervisor_Session
begin

text \<open>
  The application's run intent (\<open>internal/runcommand/request.go\<close>, \<open>request_validation.go\<close>
  and \<open>start_request.go\<close>): ordered validation of the parsed command line, the conversion
  into the private start request, and the capacity check made before anything is started.
  A failure carries the reason and the evidence the code stores; its English text is not
  modelled.
\<close>

section \<open>Failures\<close>

datatype RequestValidationReason =
    RequestSourcePathInvalid
  | RequestNetworkCountInvalid
  | RequestManualMeasureOverride
  | RequestNetworkWeightSyntaxInvalid
  | RequestNetworkAddressContainsNUL
  | RequestNetworkAddressSyntaxInvalid
  | RequestAutomaticNetworkCountInvalid
  | RequestAutomaticExplicitWeightInvalid
  | RequestNetworkAddressInvalid
  | RequestNetworkRepeated
  | RequestManualNetworkWeightInvalid
  | RequestMeasureSettingsInvalid
  | RequestDNSCountInvalid
  | RequestDNSAddressSyntaxInvalid
  | RequestDNSAddressInvalid
  | RequestChildArgumentCountInvalid
  | RequestChildArgumentContainsNUL
  | RequestChildPlaceholderCountInvalid
  | RequestLogDirectoryInvalid

record request_failure =
  rf_reason :: RequestValidationReason
  rf_networkIndex :: int
  rf_resolverIndex :: int
  rf_address :: addr
  rf_maximum :: int

definition requestValidation :: "RequestValidationReason \<Rightarrow> request_failure" where
  "requestValidation reason =
     \<lparr>rf_reason = reason, rf_networkIndex = -1, rf_resolverIndex = -1, rf_address = NoAddr, rf_maximum = 0\<rparr>"

definition requestNetworkValidation :: "RequestValidationReason \<Rightarrow> nat \<Rightarrow> addr \<Rightarrow> request_failure" where
  "requestNetworkValidation reason index address =
     \<lparr>rf_reason = reason, rf_networkIndex = int index, rf_resolverIndex = -1, rf_address = address, rf_maximum = 0\<rparr>"

definition requestMaximumValidation :: "RequestValidationReason \<Rightarrow> nat \<Rightarrow> request_failure" where
  "requestMaximumValidation reason maximum =
     \<lparr>rf_reason = reason, rf_networkIndex = -1, rf_resolverIndex = -1, rf_address = NoAddr, rf_maximum = int maximum\<rparr>"

definition requestResolverValidation :: "RequestValidationReason \<Rightarrow> nat \<Rightarrow> addr \<Rightarrow> request_failure" where
  "requestResolverValidation reason index address =
     \<lparr>rf_reason = reason, rf_networkIndex = -1, rf_resolverIndex = int index, rf_address = address, rf_maximum = 0\<rparr>"

definition failure_NetworkIndex :: "request_failure \<Rightarrow> (int \<times> bool)" where
  "failure_NetworkIndex f = (if rf_networkIndex f < 0 then (0, False) else (rf_networkIndex f, True))"

definition failure_ResolverIndex :: "request_failure \<Rightarrow> (int \<times> bool)" where
  "failure_ResolverIndex f = (if rf_resolverIndex f < 0 then (0, False) else (rf_resolverIndex f, True))"

section \<open>The request\<close>

record run_manual_network =
  rmn_localIP :: addr
  rmn_weight :: u64

record network_selections =
  ns_manual :: "run_manual_network list"
  ns_automatic :: "addr list"
  ns_settings :: settings

definition ns_AutomaticWeight :: "network_selections \<Rightarrow> bool" where
  "ns_AutomaticWeight s \<longleftrightarrow> length (ns_automatic s) \<noteq> 0"

record display_options =
  do_noTUI :: bool
  do_mouse :: bool

record network_argument =
  na_localIP :: addr
  na_normalizedWeight :: u64
  na_explicitWeight :: bool
  na_weightTextInvalid :: bool
  na_addressTextContainsNUL :: bool

record run_request =
  rr_sourcePath :: string
  rr_networks :: network_selections
  rr_dns :: "addr list"
  rr_childArgv :: "string list"
  rr_logDirectory :: string
  rr_display :: display_options
  rr_followSymlinks :: bool

text \<open>The loop over the network arguments: the result is \<open>hasExplicitWeight\<close>.\<close>

fun check_arguments :: "nat \<Rightarrow> addr list \<Rightarrow> bool \<Rightarrow> network_argument list \<Rightarrow> request_failure + bool" where
  "check_arguments index seen explicit [] = Inr explicit"
| "check_arguments index seen explicit (a # as) =
     (if na_weightTextInvalid a then Inl (requestNetworkValidation RequestNetworkWeightSyntaxInvalid index (na_localIP a))
      else if na_addressTextContainsNUL a then Inl (requestNetworkValidation RequestNetworkAddressContainsNUL index (na_localIP a))
      else if \<not> IsValid (na_localIP a) then Inl (requestNetworkValidation RequestNetworkAddressSyntaxInvalid index (na_localIP a))
      else if \<not> Is4 (na_localIP a) then Inl (requestNetworkValidation RequestNetworkAddressInvalid index (na_localIP a))
      else if na_localIP a \<in> set seen then Inl (requestNetworkValidation RequestNetworkRepeated index (na_localIP a))
      else check_arguments (Suc index) (na_localIP a # seen) (explicit \<or> na_explicitWeight a) as)"

fun check_resolvers :: "nat \<Rightarrow> addr list \<Rightarrow> request_failure + unit" where
  "check_resolvers index [] = Inr ()"
| "check_resolvers index (a # as) =
     (if \<not> IsValid a then Inl (requestResolverValidation RequestDNSAddressSyntaxInvalid index a)
      else if IsUnspecified a \<or> IsMulticast a \<or> IsLoopback a
      then Inl (requestResolverValidation RequestDNSAddressInvalid index a)
      else check_resolvers (Suc index) as)"

definition validateChildArgv :: "string list \<Rightarrow> request_failure + unit" where
  "validateChildArgv argv =
     (if length argv = 0 \<or> length argv > 65535 then Inl (requestValidation RequestChildArgumentCountInvalid)
      else if list_ex has_nul argv then Inl (requestValidation RequestChildArgumentContainsNUL)
      else if length (filter (\<lambda>a. a = ''{}'') argv) \<noteq> 1 then Inl (requestValidation RequestChildPlaceholderCountInvalid)
      else Inr ())"

fun manual_networks :: "nat \<Rightarrow> network_argument list \<Rightarrow> request_failure + run_manual_network list" where
  "manual_networks index [] = Inr []"
| "manual_networks index (a # as) =
     (if na_normalizedWeight a = 0
      then Inl (requestNetworkValidation RequestManualNetworkWeightInvalid index (na_localIP a))
      else bind_r (manual_networks (Suc index) as) (\<lambda>ms.
        Inr (\<lparr>rmn_localIP = na_localIP a, rmn_weight = na_normalizedWeight a\<rparr> # ms)))"

definition newNetworkSelections ::
  "bool \<Rightarrow> network_argument list \<Rightarrow> settings \<Rightarrow> request_failure + network_selections" where
  "newNetworkSelections automatic arguments settings =
     (if automatic then
        Inr \<lparr>ns_manual = [], ns_automatic = map na_localIP arguments, ns_settings = settings\<rparr>
      else bind_r (manual_networks 0 arguments) (\<lambda>manual.
        Inr \<lparr>ns_manual = manual, ns_automatic = [], ns_settings = no_settings\<rparr>))"

definition run_NewRequest ::
  "string \<Rightarrow> bool \<Rightarrow> network_argument list \<Rightarrow> bool \<Rightarrow> settings \<Rightarrow> addr list \<Rightarrow> string list \<Rightarrow> string option \<Rightarrow>
     display_options \<Rightarrow> bool \<Rightarrow> request_failure + run_request" where
  "run_NewRequest sourcePath automatic arguments measureOverrides settings dns childArgv logDirectory display followSymlinks =
     (if \<not> cleanAbsolute sourcePath \<or> sourcePath = ''/'' then Inl (requestValidation RequestSourcePathInvalid)
      else if length arguments < 1 \<or> length arguments > transfer_maximum
      then Inl (requestMaximumValidation RequestNetworkCountInvalid transfer_maximum)
      else if \<not> automatic \<and> (measureOverrides \<or> settings_Valid settings)
      then Inl (requestValidation RequestManualMeasureOverride)
      else bind_r (check_arguments 0 [] False arguments) (\<lambda>hasExplicitWeight.
        if automatic \<and> hasExplicitWeight then Inl (requestValidation RequestAutomaticExplicitWeightInvalid)
        else if automatic \<and> length arguments < 2 then Inl (requestValidation RequestAutomaticNetworkCountInvalid)
        else if automatic \<and> \<not> settings_Valid settings then Inl (requestValidation RequestMeasureSettingsInvalid)
        else if length dns > maximumDNSResolvers
        then Inl (requestMaximumValidation RequestDNSCountInvalid maximumDNSResolvers)
        else bind_r (check_resolvers 0 dns) (\<lambda>_.
          if (case logDirectory of None \<Rightarrow> False | Some d \<Rightarrow> \<not> cleanAbsolute d)
          then Inl (requestValidation RequestLogDirectoryInvalid)
          else bind_r (validateChildArgv childArgv) (\<lambda>_.
            bind_r (newNetworkSelections automatic arguments settings) (\<lambda>networks.
              Inr \<lparr>rr_sourcePath = sourcePath, rr_networks = networks, rr_dns = dns, rr_childArgv = childArgv,
                   rr_logDirectory = (case logDirectory of None \<Rightarrow> [] | Some d \<Rightarrow> d), rr_display = display,
                   rr_followSymlinks = followSymlinks\<rparr>)))))"

section \<open>The private start request\<close>

definition NewStartRequest :: "run_request \<Rightarrow> command_io \<Rightarrow> start_error + start_request" where
  "NewStartRequest request commandIO =
     (let networks = rr_networks request in
      if ns_AutomaticWeight networks then
        NewAutomaticRequest (rr_sourcePath request) (ns_automatic networks) (ns_settings networks) (rr_dns request)
          (rr_childArgv request) commandIO (rr_followSymlinks request)
      else bind_r (map_r (\<lambda>n. NewManualNetwork (rmn_localIP n) (rmn_weight n)) (ns_manual networks)) (\<lambda>wireNetworks.
        NewManualRequest (rr_sourcePath request) wireNetworks (rr_dns request) (rr_childArgv request) commandIO
          (rr_followSymlinks request)))"

datatype capacity_error = CapacityPTY child_error | CapacityConstruct start_error | CapacitySize start_error | CapacityExceeded

definition check_form :: "(url \<Rightarrow> string) \<Rightarrow> run_request \<Rightarrow> command_io \<Rightarrow> capacity_error + unit" where
  "check_form url_string request commandIO =
     (case NewStartRequest request commandIO of
        Inl e \<Rightarrow> Inl (CapacityConstruct e)
      | Inr start \<Rightarrow>
          (case start_EncodedSize url_string start of
             Inl e \<Rightarrow> Inl (CapacitySize e)
           | Inr n \<Rightarrow> if \<not> ValidateStartRequestSize (int n) then Inl CapacityExceeded else Inr ()))"

definition CheckStartRequestCapacity :: "(url \<Rightarrow> string) \<Rightarrow> run_request \<Rightarrow> capacity_error + unit" where
  "CheckStartRequestCapacity url_string request =
     (case NewPTY 65535 65535 of
        Inl e \<Rightarrow> Inl (CapacityPTY e)
      | Inr maximumPTY \<Rightarrow>
          bind_r (check_form url_string request Pipes) (\<lambda>_. check_form url_string request maximumPTY))"


section \<open>Facts\<close>

lemma Is4_IsValid: "Is4 a \<Longrightarrow> IsValid a"
  by (cases a) (simp_all add: Is4_def IsValid_def)

definition argument_ok :: "network_argument \<Rightarrow> bool" where
  "argument_ok a \<longleftrightarrow> \<not> na_weightTextInvalid a \<and> \<not> na_addressTextContainsNUL a \<and> Is4 (na_localIP a)"

lemma check_arguments_Inr_iff:
  "check_arguments i seen ex as = Inr h \<longleftrightarrow>
     list_all argument_ok as \<and> distinct (map na_localIP as) \<and> set (map na_localIP as) \<inter> set seen = {} \<and>
     h = (ex \<or> list_ex na_explicitWeight as)"
  by (induction as arbitrary: i seen ex) (auto simp: argument_ok_def Is4_IsValid)

lemma check_resolvers_Inr_iff: "check_resolvers i dns = Inr () \<longleftrightarrow> list_all (\<lambda>a. \<not> dns_bad a) dns"
  by (induction dns arbitrary: i) (auto simp: dns_bad_def)

lemma manual_networks_Inr_iff:
  "manual_networks i as = Inr ms \<longleftrightarrow> list_all (\<lambda>a. na_normalizedWeight a \<noteq> 0) as \<and>
     ms = map (\<lambda>a. \<lparr>rmn_localIP = na_localIP a, rmn_weight = na_normalizedWeight a\<rparr>) as"
  by (induction as arbitrary: i ms) (auto simp: bind_r_Inr_iff)

lemma validateChildArgv_iff:
  "validateChildArgv argv = Inr () \<longleftrightarrow> argv \<noteq> [] \<and> length argv \<le> 65535 \<and> list_all (\<lambda>a. \<not> has_nul a) argv \<and>
     length (filter (\<lambda>a. a = ''{}'') argv) = 1"
  by (auto simp: validateChildArgv_def list_all_iff list_ex_iff linorder_not_less)

definition selected_networks :: "bool \<Rightarrow> network_argument list \<Rightarrow> settings \<Rightarrow> network_selections" where
  "selected_networks automatic as settings =
     (if automatic then \<lparr>ns_manual = [], ns_automatic = map na_localIP as, ns_settings = settings\<rparr>
      else \<lparr>ns_manual = map (\<lambda>a. \<lparr>rmn_localIP = na_localIP a, rmn_weight = na_normalizedWeight a\<rparr>) as,
            ns_automatic = [], ns_settings = no_settings\<rparr>)"

lemma newNetworkSelections_Inr_iff:
  "newNetworkSelections automatic as settings = Inr n \<longleftrightarrow>
     (automatic \<or> list_all (\<lambda>a. na_normalizedWeight a \<noteq> 0) as) \<and> n = selected_networks automatic as settings"
  by (auto simp: newNetworkSelections_def selected_networks_def bind_r_Inr_iff manual_networks_Inr_iff)

text \<open>What a mode asks of its arguments.\<close>

definition mode_ok :: "bool \<Rightarrow> network_argument list \<Rightarrow> bool \<Rightarrow> settings \<Rightarrow> bool" where
  "mode_ok automatic as overrides settings \<longleftrightarrow>
     (if automatic then 2 \<le> length as \<and> settings_Valid settings \<and> \<not> list_ex na_explicitWeight as
      else \<not> overrides \<and> \<not> settings_Valid settings \<and> list_all (\<lambda>a. na_normalizedWeight a \<noteq> 0) as)"

lemma run_NewRequest_Inr_iff:
  "run_NewRequest path automatic as overrides settings dns argv logs display follow = Inr r \<longleftrightarrow>
     cleanAbsolute path \<and> path \<noteq> ''/'' \<and> as \<noteq> [] \<and> length as \<le> transfer_maximum \<and>
     list_all argument_ok as \<and> distinct (map na_localIP as) \<and> mode_ok automatic as overrides settings \<and>
     length dns \<le> maximumDNSResolvers \<and> list_all (\<lambda>a. \<not> dns_bad a) dns \<and>
     (\<forall>d. logs = Some d \<longrightarrow> cleanAbsolute d) \<and> validateChildArgv argv = Inr () \<and>
     r = \<lparr>rr_sourcePath = path, rr_networks = selected_networks automatic as settings, rr_dns = dns,
          rr_childArgv = argv, rr_logDirectory = (case logs of None \<Rightarrow> [] | Some d \<Rightarrow> d), rr_display = display,
          rr_followSymlinks = follow\<rparr>"
  by (cases automatic; cases logs)
    (auto simp: run_NewRequest_def mode_ok_def bind_r_Inr_iff check_arguments_Inr_iff check_resolvers_Inr_iff
      newNetworkSelections_Inr_iff linorder_not_less)

text \<open>The start request that a run request stands for.\<close>

definition start_of :: "run_request \<Rightarrow> command_io \<Rightarrow> start_request" where
  "start_of r io =
     \<lparr>sr_sourceLabel = rr_sourcePath r,
      sr_manual = map (\<lambda>n. \<lparr>mn_localIP = rmn_localIP n, mn_weight = rmn_weight n\<rparr>) (ns_manual (rr_networks r)),
      sr_automatic = ns_automatic (rr_networks r),
      sr_settings = (if ns_AutomaticWeight (rr_networks r) then ns_settings (rr_networks r) else no_settings),
      sr_dns = rr_dns r, sr_childArgv = rr_childArgv r, sr_commandIO = io, sr_followSymlinks = rr_followSymlinks r\<rparr>"

text \<open>A request that never mixes the two modes, as every accepted one.\<close>

definition one_mode :: "run_request \<Rightarrow> bool" where
  "one_mode r \<longleftrightarrow> ns_automatic (rr_networks r) = [] \<or> ns_manual (rr_networks r) = []"

lemma manual_wire_networks:
  "map_r (\<lambda>n. NewManualNetwork (rmn_localIP n) (rmn_weight n)) ns = Inr ms \<longleftrightarrow>
     list_all (\<lambda>n. Is4 (rmn_localIP n) \<and> rmn_weight n \<noteq> 0) ns \<and>
     ms = map (\<lambda>n. \<lparr>mn_localIP = rmn_localIP n, mn_weight = rmn_weight n\<rparr>) ns"
  by (induction ns arbitrary: ms) (auto simp: NewManualNetwork_def bind_r_Inr_iff)

lemma NewStartRequest_Inr_iff:
  assumes "one_mode r"
  shows "NewStartRequest r io = Inr start \<longleftrightarrow> start = start_of r io \<and> start_validate (start_of r io) = Inr ()"
proof (cases "ns_AutomaticWeight (rr_networks r)")
  case True
  with assms show ?thesis
    by (auto simp: NewStartRequest_def NewAutomaticRequest_def start_of_def bind_r_Inr_iff Let_def one_mode_def ns_AutomaticWeight_def)
next
  case False
  then have a: "ns_automatic (rr_networks r) = []" by (simp add: ns_AutomaticWeight_def)
  have "list_all (\<lambda>n. Is4 (rmn_localIP n) \<and> rmn_weight n \<noteq> 0) (ns_manual (rr_networks r))"
    if "start_validate (start_of r io) = Inr ()"
    using that a by (auto simp: start_validate_iff manual_mode_def automatic_mode_def start_of_def manual_ok_def list_all_iff)
  then show ?thesis
    using False a
    by (auto simp: NewStartRequest_def NewManualRequest_def start_of_def bind_r_Inr_iff Let_def manual_wire_networks)
qed


lemma accepted_one_mode:
  "run_NewRequest path automatic as overrides settings dns argv logs display follow = Inr r \<Longrightarrow> one_mode r"
  by (auto simp: run_NewRequest_Inr_iff one_mode_def selected_networks_def)

lemma start_of_valid_io:
  assumes "start_validate (start_of r io) = Inr ()" "io_valid io'"
  shows "start_validate (start_of r io') = Inr ()"
  using assms by (simp add: start_validate_iff common_valid_def manual_mode_def automatic_mode_def start_of_def)

lemma length_payload_io:
  "length (start_payload u (start_of r io)) = length (start_payload u (start_of r io'))"
  by (simp add: start_payload_eq start_of_def endpoint_text_def AutomaticWeight_def networkCount_def start_wireMagic_def)

lemma accepted_start_valid:
  assumes "run_NewRequest path automatic as overrides settings dns argv logs display follow = Inr r"
    and "io_valid io" "length path \<le> 65535" "list_all (\<lambda>a. length a \<le> 65535) argv"
  shows "start_validate (start_of r io) = Inr ()"
proof -
  note a = assms(1) [unfolded run_NewRequest_Inr_iff]
  have "common_valid (start_of r io)"
    using a assms(2-4)
    by (auto simp: common_valid_def start_of_def cleanAbsolute_def validText_def validateChildArgv_iff list_all_iff)
  moreover have "manual_mode (start_of r io) \<or> automatic_mode (start_of r io)"
    using a by (cases automatic)
      (auto simp: manual_mode_def automatic_mode_def start_of_def selected_networks_def mode_ok_def manual_ok_def
        ns_AutomaticWeight_def argument_ok_def list_all_iff o_def settings_Valid_def no_settings_def minimumDuration_def)
  ultimately show ?thesis by (simp add: start_validate_iff)
qed

section \<open>Properties\<close>

text \<open>
  C20: a run request is accepted exactly when every rule of the command line holds, and it
  then carries exactly what was asked for: a clean absolute source other than the root, 1 to
  35 distinct IPv4 networks, the rules of the chosen weight mode, at most 255 usable
  resolvers, a clean absolute log directory if any, and a command with exactly one \<open>{}\<close>.
\<close>

theorem run_requests_are_accepted_exactly:
  "run_NewRequest path automatic as overrides settings dns argv logs display follow = Inr r \<longleftrightarrow>
     cleanAbsolute path \<and> path \<noteq> ''/'' \<and> as \<noteq> [] \<and> length as \<le> 35 \<and> list_all argument_ok as \<and>
     distinct (map na_localIP as) \<and> mode_ok automatic as overrides settings \<and>
     length dns \<le> 255 \<and> list_all (\<lambda>a. \<not> dns_bad a) dns \<and>
     (case logs of None \<Rightarrow> True | Some d \<Rightarrow> cleanAbsolute d) \<and>
     argv \<noteq> [] \<and> length argv \<le> 65535 \<and> list_all (\<lambda>a. \<not> has_nul a) argv \<and>
     length (filter (\<lambda>a. a = ''{}'') argv) = 1 \<and>
     r = \<lparr>rr_sourcePath = path, rr_networks = selected_networks automatic as settings, rr_dns = dns,
          rr_childArgv = argv, rr_logDirectory = (case logs of None \<Rightarrow> [] | Some d \<Rightarrow> d), rr_display = display,
          rr_followSymlinks = follow\<rparr>"
  unfolding run_NewRequest_Inr_iff validateChildArgv_iff transfer_maximum_def maximumDNSResolvers_def
  by (auto split: option.splits)

text \<open>
  C21: the capacity check made before anything starts is enough.  For an accepted request
  that passes it, every command I/O form (pipes, or a terminal of any size) gives a start
  request that encodes, whose payload the supervisor accepts, and which fits one frame; and
  an accepted request whose source path and arguments are at most 65535 bytes long can only
  fail the check by its total size.
\<close>

theorem capacity_check_is_enough:
  assumes "run_NewRequest path automatic as overrides settings dns argv logs display follow = Inr r" "io_valid io"
  shows "(CheckStartRequestCapacity url_string r = Inr () \<longrightarrow>
      (\<exists>payload frame. NewStartRequest r io = Inr (start_of r io) \<and> start_Encode url_string (start_of r io) = Inr payload \<and>
         ValidateStartRequest payload \<and> encodeFrame frameStart payload = Inr frame)) \<and>
    (length path \<le> 65535 \<and> list_all (\<lambda>a. length a \<le> 65535) argv \<longrightarrow>
      CheckStartRequestCapacity url_string r \<in> {Inr (), Inl CapacityExceeded})"
proof -
  have one: "one_mode r" using assms(1) by (rule accepted_one_mode)
  obtain pty where pty: "NewPTY 65535 65535 = Inr pty" "io_valid pty"
    by (simp add: NewPTY_def NewTerminalSize_def maximumTerminalSize_def io_valid_def)
  have pipes: "io_valid Pipes" by (simp add: Pipes_def io_valid_def no_terminal_def)
  have form: "check_form url_string r io' =
      (if length (start_payload url_string (start_of r io)) \<le> maximumWirePayload then Inr () else Inl CapacityExceeded)"
    if "start_validate (start_of r io') = Inr ()" for io'
  proof -
    have "NewStartRequest r io' = Inr (start_of r io')" using NewStartRequest_Inr_iff [OF one] that by blast
    then show ?thesis
      using length_start_payload [OF that] length_payload_io [of url_string r io' io]
      by (simp add: check_form_def start_EncodedSize_def ValidateStartRequestSize_def)
  qed
  have ok: "start_validate (start_of r Pipes) = Inr () \<Longrightarrow> CheckStartRequestCapacity url_string r =
      (if length (start_payload url_string (start_of r io)) \<le> maximumWirePayload then Inr () else Inl CapacityExceeded)"
    using form start_of_valid_io pty pipes by (simp add: CheckStartRequestCapacity_def)
  have "\<exists>payload frame. NewStartRequest r io = Inr (start_of r io) \<and> start_Encode url_string (start_of r io) = Inr payload \<and>
         ValidateStartRequest payload \<and> encodeFrame frameStart payload = Inr frame"
    if c: "CheckStartRequestCapacity url_string r = Inr ()"
  proof -
    have v: "start_validate (start_of r Pipes) = Inr ()"
      using c pty(1) NewStartRequest_Inr_iff [OF one]
      by (auto simp: CheckStartRequestCapacity_def bind_r_Inr_iff check_form_def split: sum.splits)
    then have vio: "start_validate (start_of r io) = Inr ()" using assms(2) by (rule start_of_valid_io)
    have "length (start_payload url_string (start_of r io)) \<le> maximumWirePayload"
      using ok [OF v] c by (auto split: if_splits)
    then show ?thesis
      using NewStartRequest_Inr_iff [OF one] vio start_Encode_eq [OF vio]
      by (simp add: ValidateStartRequest_def ValidateStartRequestSize_def encodeFrame_def)
  qed
  then show ?thesis using ok accepted_start_valid [OF assms(1) pipes] by auto
qed

definition demo_argument :: network_argument where
  "demo_argument = \<lparr>na_localIP = V4 192 0 2 1, na_normalizedWeight = 1, na_explicitWeight = False,
     na_weightTextInvalid = False, na_addressTextContainsNUL = False\<rparr>"

definition demo_display :: display_options where
  "demo_display = \<lparr>do_noTUI = True, do_mouse = False\<rparr>"


lemma demo_run_accepted:
  "\<exists>r. run_NewRequest ''/data/src'' False [demo_argument] False no_settings [] [''cp'', ''{}''] None demo_display False = Inr r \<and>
     CheckStartRequestCapacity demo_url_string r = Inr ()"
proof -
  have p: "cleanAbsolute ''/data/src''"
    by (simp add: cleanAbsolute_def IsAbs_def Clean_def clean_step_def has_nul_def)
  have m: "mode_ok False [demo_argument] False no_settings" "list_all argument_ok [demo_argument]"
    by (simp_all add: mode_ok_def demo_argument_def argument_ok_def Is4_def)
  have v: "validateChildArgv [''cp'', ''{}''] = Inr ()"
    by (simp add: validateChildArgv_iff has_nul_def)
  obtain r where r: "run_NewRequest ''/data/src'' False [demo_argument] False no_settings [] [''cp'', ''{}''] None demo_display False = Inr r"
    and rr: "rr_sourcePath r = ''/data/src''" "rr_networks r = selected_networks False [demo_argument] no_settings"
      "rr_dns r = []" "rr_childArgv r = [''cp'', ''{}'']"
    using p m v by (auto simp: run_NewRequest_Inr_iff transfer_maximum_def)
  have io: "io_valid Pipes" by (simp add: Pipes_def io_valid_def no_terminal_def)
  have a: "length (addr_string (V4 192 0 2 1)) = 9" by code_simp
  have st: "start_validate (start_of r Pipes) = Inr ()"
    using accepted_start_valid [OF r io] by simp
  then have n: "NewStartRequest r io' = Inr (start_of r io') \<and> start_validate (start_of r io') = Inr ()" if "io_valid io'" for io'
    using NewStartRequest_Inr_iff [OF accepted_one_mode [OF r]] start_of_valid_io that by blast
  have len: "length (start_payload demo_url_string (start_of r io')) \<le> maximumWirePayload" for io'
    using a rr by (simp add: start_payload_eq start_of_def selected_networks_def demo_argument_def manual_bytes_def
        text_bytes_def endpoint_text_def AutomaticWeight_def start_wireMagic_def maximumWirePayload_def)
  have f: "check_form demo_url_string r io' = Inr ()" if "io_valid io'" for io'
    using n [OF that] len length_start_payload
    by (simp add: check_form_def start_EncodedSize_def ValidateStartRequestSize_def linorder_not_less)
  obtain pty where "NewPTY 65535 65535 = Inr pty" "io_valid pty"
    by (simp add: NewPTY_def NewTerminalSize_def maximumTerminalSize_def io_valid_def)
  with r f io show ?thesis by (simp add: CheckStartRequestCapacity_def)
qed

theorem capacity_check_is_enough_witness:
  "\<exists>r payload. run_NewRequest ''/data/src'' False [demo_argument] False no_settings [] [''cp'', ''{}''] None demo_display False = Inr r \<and>
     start_Encode demo_url_string (start_of r Pipes) = Inr payload \<and> ValidateStartRequest payload"
proof -
  obtain r where r: "run_NewRequest ''/data/src'' False [demo_argument] False no_settings [] [''cp'', ''{}''] None demo_display False = Inr r"
    "CheckStartRequestCapacity demo_url_string r = Inr ()"
    using demo_run_accepted by blast
  have "io_valid Pipes" by (simp add: Pipes_def io_valid_def no_terminal_def)
  from capacity_check_is_enough [OF r(1) this, of demo_url_string] r show ?thesis by blast
qed

end
