(* ===== verification/Command_Line.thy ===== *)
theory Command_Line
  imports Run_Request
begin


text \<open>
  The command line (\<open>internal/cli/parse.go\<close>, \<open>options.go\<close>, \<open>validate.go\<close>), with the probe
  endpoint and the list request it builds (\<open>internal/probe/endpoint.go\<close>, \<open>egress.go\<close>,
  \<open>internal/listnetworks/types.go\<close>).  \<open>url.Parse\<close> and \<open>time.ParseDuration\<close> are parameters; a
  \<open>big.Int\<close> is a \<open>nat\<close>, being never negative here.  An error is the message with the values
  it prints.
\<close>

section \<open>Probe endpoints and list requests\<close>

definition maximumProbeEndpointBytes :: nat where
  "maximumProbeEndpointBytes = 2048"

datatype endpoint_error =
    ProbeLengthOrEncoding | ProbeFragment | ProbeParse string | ProbeScheme | ProbeHost | ProbeUserinfo

definition validateEndpointURL :: "url \<Rightarrow> endpoint_error + unit" where
  "validateEndpointURL endpoint =
     (if url_scheme endpoint \<noteq> ''http'' \<and> url_scheme endpoint \<noteq> ''https'' then Inl ProbeScheme
      else if url_host endpoint = [] then Inl ProbeHost
      else if url_user endpoint then Inl ProbeUserinfo
      else if url_fragment endpoint \<noteq> [] \<or> url_rawFragment endpoint \<noteq> [] then Inl ProbeFragment
      else Inr ())"

definition parseEndpointURL :: "(string \<Rightarrow> string + url) \<Rightarrow> string \<Rightarrow> endpoint_error + url" where
  "parseEndpointURL url_parse raw =
     (if CHR ''#'' \<in> set raw then Inl ProbeFragment
      else case url_parse raw of
        Inl e \<Rightarrow> Inl (ProbeParse e)
      | Inr parsed \<Rightarrow> bind_r (validateEndpointURL parsed) (\<lambda>_. Inr parsed))"

definition NewEndpoint :: "(string \<Rightarrow> string + url) \<Rightarrow> string \<Rightarrow> endpoint_error + url" where
  "NewEndpoint url_parse raw =
     (if length raw = 0 \<or> length raw > maximumProbeEndpointBytes \<or> \<not> ValidString raw \<or> has_nul raw
      then Inl ProbeLengthOrEncoding
      else parseEndpointURL url_parse raw)"

definition ProbeDefaultEndpointURL :: string where
  "ProbeDefaultEndpointURL = ''https://ipwho.is/?fields=ip,success,connection''"

definition DefaultEndpoint :: "(string \<Rightarrow> string + url) \<Rightarrow> url" where
  "DefaultEndpoint url_parse =
     (case NewEndpoint url_parse ProbeDefaultEndpointURL of Inl _ \<Rightarrow> no_url | Inr endpoint \<Rightarrow> endpoint)"

definition endpoint_Valid :: "url \<Rightarrow> bool" where
  "endpoint_Valid endpoint \<longleftrightarrow> validateEndpointURL endpoint = Inr ()"

record list_request =
  lr_explicitRaw :: "string list"
  lr_all :: bool
  lr_probe :: "url option"
  lr_measure :: "settings option"

record validated_request =
  vr_explicit :: "addr list"
  vr_all :: bool
  vr_probe :: "url option"
  vr_measure :: "settings option"

datatype list_usage =
    AllWithExplicit | NetworkNotValidIPv4 string | NetworkIsRepeated addr | ProbeEndpointInvalid | MeasureWindowInvalid

fun check_explicit :: "addr list \<Rightarrow> string list \<Rightarrow> list_usage + addr list" where
  "check_explicit seen [] = Inr []"
| "check_explicit seen (raw # rest) =
     (case ParseAddr raw of
        Inl _ \<Rightarrow> Inl (NetworkNotValidIPv4 raw)
      | Inr address \<Rightarrow>
          if \<not> Is4 address then Inl (NetworkNotValidIPv4 raw)
          else if address \<in> set seen then Inl (NetworkIsRepeated address)
          else bind_r (check_explicit (address # seen) rest) (\<lambda>as. Inr (address # as)))"

definition validateRequest :: "list_request \<Rightarrow> list_usage + validated_request" where
  "validateRequest request =
     (if lr_all request \<and> length (lr_explicitRaw request) \<noteq> 0 then Inl AllWithExplicit
      else bind_r (check_explicit [] (lr_explicitRaw request)) (\<lambda>explicit.
        if (case lr_probe request of None \<Rightarrow> False | Some p \<Rightarrow> \<not> endpoint_Valid p) then Inl ProbeEndpointInvalid
        else if (case lr_measure request of None \<Rightarrow> False | Some m \<Rightarrow> \<not> settings_Valid m) then Inl MeasureWindowInvalid
        else Inr \<lparr>vr_explicit = explicit, vr_all = lr_all request, vr_probe = lr_probe request, vr_measure = lr_measure request\<rparr>))"

definition list_NewRequest ::
  "string list \<Rightarrow> bool \<Rightarrow> url option \<Rightarrow> settings option \<Rightarrow> list_usage + list_request" where
  "list_NewRequest explicit all probe window =
     (let request = \<lparr>lr_explicitRaw = explicit, lr_all = all, lr_probe = probe, lr_measure = window\<rparr>
      in bind_r (validateRequest request) (\<lambda>_. Inr request))"

section \<open>Results and errors\<close>

datatype HelpPage = RootHelpPage | ListHelpPage | RunHelpPage

datatype cli_result = Help HelpPage | Version | List_Command list_request | Run_Command run_request

datatype run_message =
    MessageSource | MessageNetworkCount int | MessageManualOverride | MessageAutomaticCount | MessageAutomaticExplicit
  | MessageNotIPv4 string | MessageRepeats addr | MessageMeasureSettings | MessageDNSCount int | MessageDNSAddress string
  | MessageLogDirectory | MessageArgumentCount | MessageArgumentNUL | MessagePlaceholder

datatype usage_error =
    SubcommandRequired
  | UnknownSubcommand string
  | UnknownListOption string
  | UnknownRunOption string
  | OptionRequiresValue string
  | DuplicateOption string
  | ProbeURLRequiresProbe
  | OverridesRequireMeasure
  | ParseProbeURL endpoint_error
  | ParseMeasureDuration string
  | ConstructMeasure settings_error
  | ConstructListRequest list_usage
  | SourceRequired
  | ConstructAutomaticMeasure settings_error
  | InvalidNetworkWeight
  | NetworkContainsNUL
  | NetworkNotIPv4 string
  | ResolverNotUsable string
  | UsageWithCause run_message request_failure

record list_options =
  lo_networks :: "string list"
  lo_all :: bool
  lo_probe :: bool
  lo_probeURL :: string
  lo_probeURLSet :: bool
  lo_measure :: bool
  lo_measureURL :: string
  lo_measureURLSet :: bool
  lo_duration :: string
  lo_durationSet :: bool

record run_options =
  ro_source :: string
  ro_sourceSet :: bool
  ro_networks :: "string list"
  ro_auto :: bool
  ro_measureURL :: string
  ro_measureURLSet :: bool
  ro_duration :: string
  ro_durationSet :: bool
  ro_dns :: "string list"
  ro_logDir :: string
  ro_logDirSet :: bool
  ro_noTUI :: bool
  ro_mouse :: bool
  ro_followSymlinks :: bool
  ro_argv :: "string list"

section \<open>Parsing\<close>

definition duplicateOption :: "string \<Rightarrow> usage_error" where
  "duplicateOption name = DuplicateOption name"

text \<open>\<open>optionValue\<close>: the arguments after the option, cut after its value.\<close>

definition optionValue :: "string \<Rightarrow> string list \<Rightarrow> usage_error + string \<times> string list" where
  "optionValue name rest =
     (if rest = [] \<or> hd rest = ''--'' then Inl (OptionRequiresValue name) else Inr (hd rest, tl rest))"

lemma optionValue_shorter: "optionValue name rest = Inr x \<Longrightarrow> (v, rest') = x \<Longrightarrow> length rest' < Suc (length rest)"
  by (cases rest) (auto simp: optionValue_def split: if_splits)

definition no_list_options :: list_options where
  "no_list_options = \<lparr>lo_networks = [], lo_all = False, lo_probe = False, lo_probeURL = [], lo_probeURLSet = False,
     lo_measure = False, lo_measureURL = [], lo_measureURLSet = False, lo_duration = [], lo_durationSet = False\<rparr>"

definition no_run_options :: "string list \<Rightarrow> run_options" where
  "no_run_options child = \<lparr>ro_source = [], ro_sourceSet = False, ro_networks = [], ro_auto = False, ro_measureURL = [],
     ro_measureURLSet = False, ro_duration = [], ro_durationSet = False, ro_dns = [], ro_logDir = [], ro_logDirSet = False,
     ro_noTUI = False, ro_mouse = False, ro_followSymlinks = False, ro_argv = child\<rparr>"

text \<open>The loop of \<open>parseList\<close>; \<open>None\<close> is the help page.\<close>

function list_loop :: "list_options \<Rightarrow> string list \<Rightarrow> usage_error + list_options option" where
  "list_loop o1 [] = Inr (Some o1)"
| "list_loop o1 (name # rest) =
     (if name = ''-h'' \<or> name = ''--help'' then Inr None
      else if name = ''--all'' then
        (if lo_all o1 then Inl (duplicateOption name) else list_loop (o1\<lparr>lo_all := True\<rparr>) rest)
      else if name = ''--probe'' then
        (if lo_probe o1 then Inl (duplicateOption name) else list_loop (o1\<lparr>lo_probe := True\<rparr>) rest)
      else if name = ''--measure'' then
        (if lo_measure o1 then Inl (duplicateOption name) else list_loop (o1\<lparr>lo_measure := True\<rparr>) rest)
      else if name = ''--network'' then
        (case optionValue name rest of
           Inl e \<Rightarrow> Inl e
         | Inr (v, rest') \<Rightarrow> list_loop (o1\<lparr>lo_networks := lo_networks o1 @ [v]\<rparr>) rest')
      else if name = ''--probe-url'' then
        (case optionValue name rest of
           Inl e \<Rightarrow> Inl e
         | Inr (v, rest') \<Rightarrow>
             if lo_probeURLSet o1 then Inl (duplicateOption name)
             else list_loop (o1\<lparr>lo_probeURL := v, lo_probeURLSet := True\<rparr>) rest')
      else if name = ''--measure-url'' then
        (case optionValue name rest of
           Inl e \<Rightarrow> Inl e
         | Inr (v, rest') \<Rightarrow>
             if lo_measureURLSet o1 then Inl (duplicateOption name)
             else list_loop (o1\<lparr>lo_measureURL := v, lo_measureURLSet := True\<rparr>) rest')
      else if name = ''--measure-duration'' then
        (case optionValue name rest of
           Inl e \<Rightarrow> Inl e
         | Inr (v, rest') \<Rightarrow>
             if lo_durationSet o1 then Inl (duplicateOption name)
             else list_loop (o1\<lparr>lo_duration := v, lo_durationSet := True\<rparr>) rest')
      else Inl (UnknownListOption name))"
  by pat_completeness auto
termination
  by (relation "measure (\<lambda>(o1, rest). length rest)", rule wf_measure)
    (simp only: in_measure split_conv list.size lessI add_Suc_right add_0_right; (erule (1) optionValue_shorter)?)+

definition runOptionArity :: "string \<Rightarrow> nat option" where
  "runOptionArity name =
     (if name \<in> {''--auto-weight'', ''--no-tui'', ''--mouse'', ''--follow-symlinks''} then Some 0
      else if name \<in> {''--source'', ''--network'', ''--measure-url'', ''--measure-duration'', ''--dns'', ''--log-dir''} then Some 1
      else None)"

text \<open>The loop of \<open>splitRunCommand\<close>: \<open>before\<close> is \<open>argv[:index]\<close>.\<close>

function split_from :: "string list \<Rightarrow> string list \<Rightarrow> usage_error + string list \<times> string list \<times> bool" where
  "split_from before [] = Inr (before, [], False)"
| "split_from before (argument # rest) =
     (if argument = ''--'' then Inr (before, rest, False)
      else if take 1 argument \<noteq> ''-'' then Inr (before, argument # rest, False)
      else if argument = ''-h'' \<or> argument = ''--help'' then Inr ([], [], True)
      else (case runOptionArity argument of
              None \<Rightarrow> Inl (UnknownRunOption argument)
            | Some arity \<Rightarrow>
                if arity = 1 \<and> (rest = [] \<or> hd rest = ''--'') then Inl (OptionRequiresValue argument)
                else split_from (before @ argument # take arity rest) (drop arity rest)))"
  by pat_completeness auto
termination by (relation "measure (\<lambda>(before, rest). length rest)") auto

definition splitRunCommand :: "string list \<Rightarrow> usage_error + string list \<times> string list \<times> bool" where
  "splitRunCommand argv = split_from [] argv"

definition set_value :: "string \<Rightarrow> string \<Rightarrow> run_options \<Rightarrow> usage_error + run_options" where
  "set_value name v o1 =
     (if name = ''--source'' then
        (if ro_sourceSet o1 then Inl (duplicateOption name) else Inr (o1\<lparr>ro_source := v, ro_sourceSet := True\<rparr>))
      else if name = ''--network'' then Inr (o1\<lparr>ro_networks := ro_networks o1 @ [v]\<rparr>)
      else if name = ''--measure-url'' then
        (if ro_measureURLSet o1 then Inl (duplicateOption name) else Inr (o1\<lparr>ro_measureURL := v, ro_measureURLSet := True\<rparr>))
      else if name = ''--measure-duration'' then
        (if ro_durationSet o1 then Inl (duplicateOption name) else Inr (o1\<lparr>ro_duration := v, ro_durationSet := True\<rparr>))
      else if name = ''--dns'' then Inr (o1\<lparr>ro_dns := ro_dns o1 @ [v]\<rparr>)
      else
        (if ro_logDirSet o1 then Inl (duplicateOption name) else Inr (o1\<lparr>ro_logDir := v, ro_logDirSet := True\<rparr>)))"

function run_loop :: "run_options \<Rightarrow> string list \<Rightarrow> usage_error + run_options" where
  "run_loop o1 [] = Inr o1"
| "run_loop o1 (name # rest) =
     (if name = ''--auto-weight'' then
        (if ro_auto o1 then Inl (duplicateOption name) else run_loop (o1\<lparr>ro_auto := True\<rparr>) rest)
      else if name = ''--no-tui'' then
        (if ro_noTUI o1 then Inl (duplicateOption name) else run_loop (o1\<lparr>ro_noTUI := True\<rparr>) rest)
      else if name = ''--mouse'' then
        (if ro_mouse o1 then Inl (duplicateOption name) else run_loop (o1\<lparr>ro_mouse := True\<rparr>) rest)
      else if name = ''--follow-symlinks'' then
        (if ro_followSymlinks o1 then Inl (duplicateOption name) else run_loop (o1\<lparr>ro_followSymlinks := True\<rparr>) rest)
      else if name \<in> {''--source'', ''--network'', ''--measure-url'', ''--measure-duration'', ''--dns'', ''--log-dir''} then
        (case optionValue name rest of
           Inl e \<Rightarrow> Inl e
         | Inr (v, rest') \<Rightarrow> (case set_value name v o1 of Inl e \<Rightarrow> Inl e | Inr o2 \<Rightarrow> run_loop o2 rest'))
      else Inl (UnknownRunOption name))"
  by pat_completeness auto
termination
  by (relation "measure (\<lambda>(o1, rest). length rest)", rule wf_measure)
    (simp only: in_measure split_conv list.size lessI add_Suc_right add_0_right; (erule (1) optionValue_shorter)?)+


section \<open>Network weights\<close>

record decimal_weight =
  dw_coefficient :: nat
  dw_scale :: nat

record parsed_network_selection =
  ps_addressText :: string
  ps_localIP :: addr
  ps_weight :: "decimal_weight option"
  ps_normalizedWeight :: u64
  ps_explicitWeight :: bool
  ps_weightTextInvalid :: bool
  ps_addressTextContainsNUL :: bool

definition asciiDigits :: "string \<Rightarrow> bool" where
  "asciiDigits v \<longleftrightarrow> v \<noteq> [] \<and> list_all (\<lambda>c. CHR ''0'' \<le> c \<and> c \<le> CHR ''9'') v"

text \<open>\<open>SetString\<close> in base 10 reads every text of digits.\<close>

definition parseWeight :: "string \<Rightarrow> decimal_weight option" where
  "parseWeight raw =
     (case str_cut (CHR ''.'') raw of (whole, fraction, point) \<Rightarrow>
        if \<not> asciiDigits whole \<or> point \<and> \<not> asciiDigits fraction then None
        else if decimal_value (whole @ fraction) \<le> 0 then None
        else Some \<lparr>dw_coefficient = decimal_value (whole @ fraction), dw_scale = length fraction\<rparr>)"

definition parse_selection :: "string \<Rightarrow> parsed_network_selection" where
  "parse_selection raw =
     (case str_cut (CHR ''@'') raw of (addressText, weightText, explicit) \<Rightarrow>
        let weight = (if explicit then parseWeight weightText else None) in
        \<lparr>ps_addressText = addressText,
         ps_localIP = (case ParseAddr addressText of Inl _ \<Rightarrow> NoAddr | Inr a \<Rightarrow> a),
         ps_weight = weight, ps_normalizedWeight = 0, ps_explicitWeight = explicit,
         ps_weightTextInvalid = (explicit \<and> weight = None),
         ps_addressTextContainsNUL = has_nul addressText\<rparr>)"

definition weight_coefficient :: "parsed_network_selection \<Rightarrow> nat" where
  "weight_coefficient s = (case ps_weight s of None \<Rightarrow> 1 | Some w \<Rightarrow> dw_coefficient w)"

definition weight_scale :: "parsed_network_selection \<Rightarrow> nat" where
  "weight_scale s = (case ps_weight s of None \<Rightarrow> 0 | Some w \<Rightarrow> dw_scale w)"

definition max_scale :: "parsed_network_selection list \<Rightarrow> nat" where
  "max_scale parsed =
     foldl (\<lambda>m s. case ps_weight s of None \<Rightarrow> m | Some w \<Rightarrow> if dw_scale w > m then dw_scale w else m) 0 parsed"

definition decimal_values :: "parsed_network_selection list \<Rightarrow> nat list" where
  "decimal_values parsed =
     map (\<lambda>s. weight_coefficient s * 10 ^ (max_scale parsed - weight_scale s)) parsed"

definition normalizeNetworkWeights :: "parsed_network_selection list \<Rightarrow> u64 list" where
  "normalizeNetworkWeights parsed =
     (if list_ex ps_weightTextInvalid parsed then replicate (length parsed) 0
      else
        let values = decimal_values parsed; common = foldl gcd 0 values in
        map (\<lambda>v. let weight = v div common in
               if weight < 2 ^ 64 \<and> weight > 0 then word_of_nat weight else 0) values)"

definition parseNetworkSelections :: "string list \<Rightarrow> parsed_network_selection list" where
  "parseNetworkSelections values =
     (let result = map parse_selection values
      in map (\<lambda>(s, w). s\<lparr>ps_normalizedWeight := w\<rparr>) (zip result (normalizeNetworkWeights result)))"

definition networkArguments :: "parsed_network_selection list \<Rightarrow> network_argument list" where
  "networkArguments parsed =
     map (\<lambda>s. \<lparr>na_localIP = ps_localIP s, na_normalizedWeight = ps_normalizedWeight s,
                na_explicitWeight = ps_explicitWeight s, na_weightTextInvalid = ps_weightTextInvalid s,
                na_addressTextContainsNUL = ps_addressTextContainsNUL s\<rparr>) parsed"

section \<open>Building the requests\<close>

text \<open>What the code takes from the standard library.\<close>

record library =
  url_Parse :: "string \<Rightarrow> string + url"
  ParseDuration :: "string \<Rightarrow> string + int"

definition defaultMeasureDuration :: int where
  "defaultMeasureDuration = 3 * 1000000000"

definition DefaultEndpointURL :: string where
  "DefaultEndpointURL = ''https://speed.cloudflare.com/__up''"

definition parseDuration :: "library \<Rightarrow> string \<Rightarrow> bool \<Rightarrow> usage_error + int" where
  "parseDuration lib raw is_set =
     (if \<not> is_set then Inr defaultMeasureDuration
      else (case ParseDuration lib raw of Inl e \<Rightarrow> Inl (ParseMeasureDuration e) | Inr d \<Rightarrow> Inr d))"

definition parseResolvers :: "string list \<Rightarrow> addr list" where
  "parseResolvers values = map (\<lambda>raw. case ParseAddr raw of Inl _ \<Rightarrow> NoAddr | Inr a \<Rightarrow> a) values"

definition list_probe :: "library \<Rightarrow> list_options \<Rightarrow> usage_error + url option" where
  "list_probe lib options =
     (if \<not> lo_probe options then Inr None
      else if lo_probeURLSet options then
        (case NewEndpoint (url_Parse lib) (lo_probeURL options) of
           Inl e \<Rightarrow> Inl (ParseProbeURL e) | Inr parsed \<Rightarrow> Inr (Some parsed))
      else Inr (Some (DefaultEndpoint (url_Parse lib))))"

definition list_measure :: "library \<Rightarrow> list_options \<Rightarrow> usage_error + settings option" where
  "list_measure lib options =
     (if \<not> lo_measure options then Inr None
      else bind_r (parseDuration lib (lo_duration options) (lo_durationSet options)) (\<lambda>duration.
        case NewSettings (url_Parse lib)
               (if lo_measureURLSet options then lo_measureURL options else DefaultEndpointURL) duration of
          Inl e \<Rightarrow> Inl (ConstructMeasure e) | Inr window \<Rightarrow> Inr (Some window)))"

definition buildList :: "library \<Rightarrow> list_options \<Rightarrow> usage_error + cli_result" where
  "buildList lib options =
     (if lo_probeURLSet options \<and> \<not> lo_probe options then Inl ProbeURLRequiresProbe
      else if (lo_measureURLSet options \<or> lo_durationSet options) \<and> \<not> lo_measure options then Inl OverridesRequireMeasure
      else bind_r (list_probe lib options) (\<lambda>probe.
        bind_r (list_measure lib options) (\<lambda>window.
          case list_NewRequest (lo_networks options) (lo_all options) probe window of
            Inl e \<Rightarrow> Inl (ConstructListRequest e)
          | Inr request \<Rightarrow> Inr (List_Command request))))"

definition networkAddressText :: "request_failure \<Rightarrow> parsed_network_selection list \<Rightarrow> string" where
  "networkAddressText failure selections =
     (case failure_NetworkIndex failure of (index, exists) \<Rightarrow>
        if exists \<and> index < int (length selections) then ps_addressText (selections ! nat index)
        else (case find (\<lambda>s. ps_localIP s = rf_address failure) selections of
                Some s \<Rightarrow> ps_addressText s
              | None \<Rightarrow> addr_string (rf_address failure)))"

definition resolverAddressText :: "request_failure \<Rightarrow> string list \<Rightarrow> string" where
  "resolverAddressText failure values =
     (case failure_ResolverIndex failure of (index, exists) \<Rightarrow>
        if exists \<and> index < int (length values) then values ! nat index
        else addr_string (rf_address failure))"

definition runRequestUsageError ::
  "request_failure \<Rightarrow> parsed_network_selection list \<Rightarrow> string list \<Rightarrow> usage_error option \<Rightarrow> usage_error" where
  "runRequestUsageError failure selections resolverTexts settingsError =
     (let caused = (\<lambda>m. UsageWithCause m failure) in
      case rf_reason failure of
        RequestSourcePathInvalid \<Rightarrow> caused MessageSource
      | RequestNetworkCountInvalid \<Rightarrow> caused (MessageNetworkCount (rf_maximum failure))
      | RequestManualMeasureOverride \<Rightarrow> caused MessageManualOverride
      | RequestNetworkWeightSyntaxInvalid \<Rightarrow> InvalidNetworkWeight
      | RequestManualNetworkWeightInvalid \<Rightarrow> InvalidNetworkWeight
      | RequestNetworkAddressContainsNUL \<Rightarrow> NetworkContainsNUL
      | RequestNetworkAddressSyntaxInvalid \<Rightarrow> NetworkNotIPv4 (networkAddressText failure selections)
      | RequestAutomaticNetworkCountInvalid \<Rightarrow> caused MessageAutomaticCount
      | RequestAutomaticExplicitWeightInvalid \<Rightarrow> caused MessageAutomaticExplicit
      | RequestNetworkAddressInvalid \<Rightarrow> caused (MessageNotIPv4 (networkAddressText failure selections))
      | RequestNetworkRepeated \<Rightarrow> caused (MessageRepeats (rf_address failure))
      | RequestMeasureSettingsInvalid \<Rightarrow>
          (case settingsError of Some e \<Rightarrow> e | None \<Rightarrow> caused MessageMeasureSettings)
      | RequestDNSCountInvalid \<Rightarrow> caused (MessageDNSCount (rf_maximum failure))
      | RequestDNSAddressSyntaxInvalid \<Rightarrow> ResolverNotUsable (resolverAddressText failure resolverTexts)
      | RequestDNSAddressInvalid \<Rightarrow> caused (MessageDNSAddress (resolverAddressText failure resolverTexts))
      | RequestLogDirectoryInvalid \<Rightarrow> caused MessageLogDirectory
      | RequestChildArgumentCountInvalid \<Rightarrow> caused MessageArgumentCount
      | RequestChildArgumentContainsNUL \<Rightarrow> caused MessageArgumentNUL
      | RequestChildPlaceholderCountInvalid \<Rightarrow> caused MessagePlaceholder)"

text \<open>The settings of an automatic run, or the error kept for later.\<close>

definition run_settings :: "library \<Rightarrow> run_options \<Rightarrow> settings \<times> usage_error option" where
  "run_settings lib options =
     (if \<not> ro_auto options then (no_settings, None)
      else (case parseDuration lib (ro_duration options) (ro_durationSet options) of
              Inl e \<Rightarrow> (no_settings, Some e)
            | Inr duration \<Rightarrow>
                (case NewSettings (url_Parse lib)
                        (if ro_measureURLSet options then ro_measureURL options else DefaultEndpointURL) duration of
                   Inl e \<Rightarrow> (no_settings, Some (ConstructAutomaticMeasure e))
                 | Inr s \<Rightarrow> (s, None))))"

definition buildRun :: "library \<Rightarrow> run_options \<Rightarrow> usage_error + cli_result" where
  "buildRun lib options =
     (if \<not> ro_sourceSet options then Inl SourceRequired
      else
        let selections = parseNetworkSelections (ro_networks options) in
        case run_settings lib options of (settings, settingsError) \<Rightarrow>
        case run_NewRequest (ro_source options) (ro_auto options) (networkArguments selections)
               (ro_measureURLSet options \<or> ro_durationSet options) settings (parseResolvers (ro_dns options))
               (ro_argv options) (if ro_logDirSet options then Some (ro_logDir options) else None)
               \<lparr>do_noTUI = ro_noTUI options, do_mouse = ro_mouse options\<rparr> (ro_followSymlinks options) of
          Inl failure \<Rightarrow> Inl (runRequestUsageError failure selections (ro_dns options) settingsError)
        | Inr request \<Rightarrow> Inr (Run_Command request))"

section \<open>The two subcommands\<close>

definition parseList :: "library \<Rightarrow> string list \<Rightarrow> usage_error + cli_result" where
  "parseList lib argv =
     bind_r (list_loop no_list_options argv) (\<lambda>r.
       case r of None \<Rightarrow> Inr (Help ListHelpPage) | Some options \<Rightarrow> buildList lib options)"

definition parseRun :: "library \<Rightarrow> string list \<Rightarrow> usage_error + cli_result" where
  "parseRun lib argv =
     bind_r (splitRunCommand argv) (\<lambda>(optionArgs, child, help).
       if help then Inr (Help RunHelpPage)
       else bind_r (run_loop (no_run_options child) optionArgs) (buildRun lib))"

definition Parse :: "library \<Rightarrow> string list \<Rightarrow> usage_error + cli_result" where
  "Parse lib argv =
     (if length argv = 1 \<and> (argv ! 0 = ''-h'' \<or> argv ! 0 = ''--help'') then Inr (Help RootHelpPage)
      else if length argv = 1 \<and> argv ! 0 = ''--version'' then Inr Version
      else if length argv = 0 then Inl SubcommandRequired
      else if argv ! 0 = ''list'' then parseList lib (drop 1 argv)
      else if argv ! 0 = ''run'' then parseRun lib (drop 1 argv)
      else Inl (UnknownSubcommand (argv ! 0)))"


section \<open>The grammar of a run command line\<close>

datatype run_flag = AutoWeight | NoTUI | Mouse | FollowSymlinks
datatype run_value = Source | Network | MeasureURL | MeasureDuration | DNS | LogDir
datatype run_item = Flag run_flag | Value run_value string

fun flag_name :: "run_flag \<Rightarrow> string" where
  "flag_name AutoWeight = ''--auto-weight''"
| "flag_name NoTUI = ''--no-tui''"
| "flag_name Mouse = ''--mouse''"
| "flag_name FollowSymlinks = ''--follow-symlinks''"

fun value_name :: "run_value \<Rightarrow> string" where
  "value_name Source = ''--source''"
| "value_name Network = ''--network''"
| "value_name MeasureURL = ''--measure-url''"
| "value_name MeasureDuration = ''--measure-duration''"
| "value_name DNS = ''--dns''"
| "value_name LogDir = ''--log-dir''"

fun item_words :: "run_item \<Rightarrow> string list" where
  "item_words (Flag f) = [flag_name f]"
| "item_words (Value k v) = [value_name k, v]"

definition item_ok :: "run_item \<Rightarrow> bool" where
  "item_ok i = (case i of Flag _ \<Rightarrow> True | Value _ v \<Rightarrow> v \<noteq> ''--'')"

fun flags_of :: "run_item list \<Rightarrow> run_flag list" where
  "flags_of [] = []"
| "flags_of (Flag f # is) = f # flags_of is"
| "flags_of (Value k v # is) = flags_of is"

fun values_of :: "run_value \<Rightarrow> run_item list \<Rightarrow> string list" where
  "values_of k [] = []"
| "values_of k (Flag f # is) = values_of k is"
| "values_of k (Value j v # is) = (if j = k then v # values_of k is else values_of k is)"

text \<open>Every option but \<open>--network\<close> and \<open>--dns\<close> may be given once.\<close>

definition items_once :: "run_item list \<Rightarrow> bool" where
  "items_once is \<longleftrightarrow> distinct (flags_of is) \<and>
     (\<forall>k \<in> {Source, MeasureURL, MeasureDuration, LogDir}. length (values_of k is) \<le> 1)"

definition options_of :: "run_item list \<Rightarrow> string list \<Rightarrow> run_options" where
  "options_of is child =
     \<lparr>ro_source = concat (values_of Source is), ro_sourceSet = (values_of Source is \<noteq> []),
      ro_networks = values_of Network is, ro_auto = (AutoWeight \<in> set (flags_of is)),
      ro_measureURL = concat (values_of MeasureURL is), ro_measureURLSet = (values_of MeasureURL is \<noteq> []),
      ro_duration = concat (values_of MeasureDuration is), ro_durationSet = (values_of MeasureDuration is \<noteq> []),
      ro_dns = values_of DNS is,
      ro_logDir = concat (values_of LogDir is), ro_logDirSet = (values_of LogDir is \<noteq> []),
      ro_noTUI = (NoTUI \<in> set (flags_of is)), ro_mouse = (Mouse \<in> set (flags_of is)),
      ro_followSymlinks = (FollowSymlinks \<in> set (flags_of is)), ro_argv = child\<rparr>"

text \<open>
  The child command follows \<open>--\<close>, or begins with the first word that does not look like an
  option, or is missing.
\<close>

definition separated :: "string list \<Rightarrow> string list \<Rightarrow> bool" where
  "separated sep child \<longleftrightarrow> sep = [''--''] \<or> sep = [] \<and> (child = [] \<or> take 1 (hd child) \<noteq> ''-'')"

lemma flags_append [simp]: "flags_of (is @ js) = flags_of is @ flags_of js"
  by (induction "is" rule: flags_of.induct) auto

lemma values_append [simp]: "values_of k (is @ js) = values_of k is @ values_of k js"
  by (induction k "is" rule: values_of.induct) auto

lemma flag_names: "{''--auto-weight'', ''--no-tui'', ''--mouse'', ''--follow-symlinks''} = range flag_name"
proof -
  have u: "UNIV = {AutoWeight, NoTUI, Mouse, FollowSymlinks}" using run_flag.exhaust by blast
  show ?thesis by (simp only: u image_insert image_empty flag_name.simps)
qed

lemma value_names:
  "{''--source'', ''--network'', ''--measure-url'', ''--measure-duration'', ''--dns'', ''--log-dir''} = range value_name"
proof -
  have u: "UNIV = {Source, Network, MeasureURL, MeasureDuration, DNS, LogDir}" using run_value.exhaust by blast
  show ?thesis by (simp only: u image_insert image_empty value_name.simps)
qed

lemma flag_not_value: "flag_name f \<noteq> value_name k"
  by (cases f; cases k) simp_all

lemma runOptionArity_names:
  "runOptionArity n = (if n \<in> range flag_name then Some 0 else if n \<in> range value_name then Some 1 else None)"
  by (simp only: runOptionArity_def flag_names value_names)

lemma name_arity [simp]:
  "runOptionArity (flag_name f) = Some 0" "runOptionArity (value_name k) = Some (Suc 0)"
  using flag_not_value [of _ k, symmetric] by (auto simp: runOptionArity_names)

lemma name_facts [simp]:
  "flag_name f \<noteq> ''--''" "take (Suc 0) (flag_name f) = ''-''" "flag_name f \<noteq> ''-h''" "flag_name f \<noteq> ''--help''"
  "value_name k \<noteq> ''--''" "take (Suc 0) (value_name k) = ''-''" "value_name k \<noteq> ''-h''" "value_name k \<noteq> ''--help''"
  by (cases f; simp)+ (cases k; simp)+

lemma split_items:
  "list_all item_ok is \<Longrightarrow>
     split_from before (concat (map item_words is) @ tail) = split_from (before @ concat (map item_words is)) tail"
proof (induction "is" arbitrary: before)
  case (Cons i "is")
  then show ?case by (cases i) (simp_all add: item_ok_def)
qed simp

lemma split_separated: "separated sep child \<Longrightarrow> split_from before (sep @ child) = Inr (before, child, False)"
  by (cases child) (auto simp: separated_def)

lemma split_shape:
  "split_from before argv = Inr (opts, child, False) \<Longrightarrow>
     \<exists>is sep. argv = concat (map item_words is) @ sep @ child \<and> opts = before @ concat (map item_words is) \<and>
       list_all item_ok is \<and> separated sep child"
proof (induction before argv rule: split_from.induct)
  case (1 before)
  then have "opts = before \<and> child = []" by simp
  then show ?case by (intro exI [of _ "[]"]) (simp add: separated_def)
next
  case (2 before argument rest)
  consider (dashes) "argument = ''--''" | (word) "argument \<noteq> ''--''" "take 1 argument \<noteq> ''-''"
    | (option) arity where "argument \<noteq> ''--''" "take 1 argument = ''-''" "\<not> (argument = ''-h'' \<or> argument = ''--help'')"
        "runOptionArity argument = Some arity" "\<not> (arity = 1 \<and> (rest = [] \<or> hd rest = ''--''))"
        "split_from (before @ argument # take arity rest) (drop arity rest) = Inr (opts, child, False)"
    using "2.prems" by (auto split: if_splits option.splits)
  then show ?case
  proof cases
    case dashes
    then have "opts = before \<and> child = rest" using "2.prems" by simp
    then show ?thesis using dashes by (intro exI [of _ "[]"] exI [of _ "[''--'']"]) (simp add: separated_def)
  next
    case word
    then have "opts = before \<and> child = argument # rest" using "2.prems" by simp
    then show ?thesis using word by (intro exI [of _ "[]"]) (simp add: separated_def)
  next
    case option
    obtain "is" sep where r: "drop arity rest = concat (map item_words is) @ sep @ child"
        "opts = before @ argument # take arity rest @ concat (map item_words is)" "list_all item_ok is" "separated sep child"
      using "2.IH" [OF option(1) _ option(3-6)] option(2) by auto
    obtain i where i: "argument # take arity rest = item_words i" "item_ok i"
    proof (cases "argument \<in> range flag_name")
      case True
      then obtain f where "argument = flag_name f" by blast
      then show thesis using option(4) that [of "Flag f"] by (simp add: item_ok_def)
    next
      case False
      then obtain k where k: "argument = value_name k" "arity = 1"
        using option(4) by (auto simp: runOptionArity_names split: if_splits)
      then show thesis using option(5) that [of "Value k (hd rest)"] by (cases rest) (simp_all add: item_ok_def)
    qed
    have "argument # rest = item_words i @ drop arity rest" unfolding i(1) [symmetric] by simp
    then show ?thesis using r i by (intro exI [of _ "i # is"] exI [of _ sep]) simp
  qed
qed


lemma run_loop_flag:
  "run_loop (options_of before child) (flag_name f # rest) =
     (if f \<in> set (flags_of before) then Inl (DuplicateOption (flag_name f))
      else run_loop (options_of (before @ [Flag f]) child) rest)"
  by (cases f) (simp_all add: options_of_def duplicateOption_def)

lemma run_loop_value:
  assumes "v \<noteq> ''--''"
  shows "run_loop (options_of before child) (value_name k # v # rest) =
     (if k \<in> {Source, MeasureURL, MeasureDuration, LogDir} \<and> values_of k before \<noteq> []
      then Inl (DuplicateOption (value_name k))
      else run_loop (options_of (before @ [Value k v]) child) rest)"
  by (cases k) (simp_all add: options_of_def duplicateOption_def optionValue_def set_value_def assms)

lemma items_once_step:
  "items_once (before @ [Flag f]) \<longleftrightarrow> items_once before \<and> f \<notin> set (flags_of before)"
  "items_once (before @ [Value k v]) \<longleftrightarrow>
     items_once before \<and> \<not> (k \<in> {Source, MeasureURL, MeasureDuration, LogDir} \<and> values_of k before \<noteq> [])"
  by (auto simp: items_once_def)

lemma items_once_prefix: "items_once (before @ is) \<Longrightarrow> items_once before"
  by (auto simp: items_once_def)

lemma run_loop_items:
  "list_all item_ok is \<Longrightarrow> items_once before \<Longrightarrow>
     run_loop (options_of before child) (concat (map item_words is)) = Inr o1 \<longleftrightarrow>
       items_once (before @ is) \<and> o1 = options_of (before @ is) child"
proof (induction "is" arbitrary: before)
  case (Cons i "is")
  have "\<not> items_once (before @ [i]) \<Longrightarrow> \<not> items_once (before @ i # is)"
    using items_once_prefix [of "before @ [i]" "is"] by auto
  then show ?case
    using Cons.prems Cons.IH [of "before @ [i]"]
    by (cases i) (auto simp: run_loop_flag run_loop_value items_once_step item_ok_def simp del: run_loop.simps)
qed auto

lemma no_run_options_of: "no_run_options child = options_of [] child"
  by (simp add: no_run_options_def options_of_def)

section \<open>Weights\<close>

lemma max_scale_ge: "s \<in> set parsed \<Longrightarrow> weight_scale s \<le> max_scale parsed"
proof -
  have "m \<le> foldl (\<lambda>m s. case ps_weight s of None \<Rightarrow> m | Some w \<Rightarrow> if dw_scale w > m then dw_scale w else m) m ss \<and>
      (\<forall>s \<in> set ss. weight_scale s \<le> foldl (\<lambda>m s. case ps_weight s of None \<Rightarrow> m | Some w \<Rightarrow> if dw_scale w > m then dw_scale w else m) m ss)"
    for m ss
  proof (induction ss arbitrary: m)
    case (Cons s ss)
    let ?m = "case ps_weight s of None \<Rightarrow> m | Some w \<Rightarrow> if dw_scale w > m then dw_scale w else m"
    have "m \<le> ?m" "weight_scale s \<le> ?m" by (auto simp: weight_scale_def split: option.splits)
    then show ?case using Cons.IH [of ?m] by (auto intro: order_trans)
  qed simp
  then show "s \<in> set parsed \<Longrightarrow> ?thesis" unfolding max_scale_def by blast
qed

lemma scaled_value:
  assumes "s \<in> set parsed"
  shows "weight_coefficient s * 10 ^ (max_scale parsed - weight_scale s) * 10 ^ weight_scale s =
    weight_coefficient s * 10 ^ max_scale parsed"
  using max_scale_ge [OF assms] by (simp add: power_add [symmetric])

lemma parse_selection_positive: "0 < weight_coefficient (parse_selection raw)"
  by (auto simp: weight_coefficient_def parse_selection_def parseWeight_def Let_def split: prod.splits option.splits if_splits)

text \<open>The decimal number a \<open>--network\<close> value asks for, as a coefficient over a power of ten.\<close>

definition requested_weight :: "string \<Rightarrow> nat \<times> nat" where
  "requested_weight raw = (weight_coefficient (parse_selection raw), 10 ^ weight_scale (parse_selection raw))"

definition weights_of :: "string list \<Rightarrow> nat list" where
  "weights_of raws = map (\<lambda>s. unat (ps_normalizedWeight s)) (parseNetworkSelections raws)"

lemma length_normalize [simp]: "length (normalizeNetworkWeights parsed) = length parsed"
  by (simp add: normalizeNetworkWeights_def Let_def decimal_values_def)

lemma weights_of_normalize: "weights_of raws = map unat (normalizeNetworkWeights (map parse_selection raws))"
proof -
  have "map (\<lambda>s. unat (ps_normalizedWeight s)) (map (\<lambda>(s, w). s\<lparr>ps_normalizedWeight := w\<rparr>) (zip ss ws)) = map unat ws"
    if "length ss = length ws" for ss ws
    using that by (induction ss ws rule: list_induct2) auto
  from this [of "map parse_selection raws" "normalizeNetworkWeights (map parse_selection raws)"]
  show ?thesis by (simp add: weights_of_def parseNetworkSelections_def Let_def)
qed

lemma exact_weights:
  assumes "raws \<noteq> []" "list_all (\<lambda>w. w \<noteq> 0) (weights_of raws)"
  shows "\<exists>common > 0. map (\<lambda>w. w * common) (weights_of raws) = decimal_values (map parse_selection raws) \<and>
    common = Gcd (set (decimal_values (map parse_selection raws)))"
proof -
  let ?ps = "map parse_selection raws"
  let ?vs = "decimal_values ?ps" and ?d = "foldl gcd 0 (decimal_values (map parse_selection raws))"
  have g: "?d = Gcd (set ?vs)" by (simp add: foldl_gcd)
  have pos: "\<forall>v \<in> set ?vs. 0 < v" using parse_selection_positive by (auto simp: decimal_values_def)
  moreover have ne: "?vs \<noteq> []" using assms(1) by (simp add: decimal_values_def)
  ultimately have d: "0 < ?d" using g by (metis Gcd_0_iff gr0I less_numeral_extra(3) list.set_intros(1) neq_Nil_conv singletonD subsetD)
  have inv: "\<not> list_ex ps_weightTextInvalid ?ps"
  proof
    assume "list_ex ps_weightTextInvalid ?ps"
    then have "weights_of raws = replicate (length raws) 0"
      by (simp add: weights_of_normalize normalizeNetworkWeights_def)
    then show False using assms by (cases raws) auto
  qed
  have w: "weights_of raws = map (\<lambda>v. unat (if v div ?d < 2 ^ 64 \<and> v div ?d > 0 then word_of_nat (v div ?d) else 0 :: u64)) ?vs"
    using inv by (simp add: weights_of_normalize normalizeNetworkWeights_def Let_def)
  have "unat (if v div ?d < 2 ^ 64 \<and> v div ?d > 0 then word_of_nat (v div ?d) else 0 :: u64) * ?d = v" if v: "v \<in> set ?vs" for v
  proof -
    have "unat (if v div ?d < 2 ^ 64 \<and> v div ?d > 0 then word_of_nat (v div ?d) else 0 :: u64) \<noteq> 0"
      using assms(2) v unfolding w by (auto simp: list_all_iff)
    then have "v div ?d < 2 ^ 64" by (auto split: if_splits)
    moreover have "v div ?d * ?d = v" using g v by (simp add: Gcd_dvd)
    moreover have "0 < v div ?d" using calculation(2) pos v by (cases "v div ?d") auto
    ultimately show ?thesis by (simp add: unat_of_nat take_bit_nat_eq_self)
  qed
  then show ?thesis using d g by (intro exI [of _ ?d]) (simp add: w map_idI)
qed


lemma parse_run: "Parse lib (''run'' # argv) = parseRun lib argv"
  by (simp add: Parse_def)

lemma buildRun_kind: "buildRun lib options = Inr res \<Longrightarrow> \<exists>r. res = Run_Command r"
  by (auto simp: buildRun_def Let_def split: if_splits prod.splits sum.splits)

lemma parseNetworkSelections_ips: "map ps_localIP (parseNetworkSelections raws) = map (\<lambda>raw. ps_localIP (parse_selection raw)) raws"
proof -
  have "map ps_localIP (map (\<lambda>(s, w). s\<lparr>ps_normalizedWeight := w\<rparr>) (zip ss ws)) = map ps_localIP ss"
    if "length ss = length ws" for ss ws
    using that by (induction ss ws rule: list_induct2) auto
  from this [of "map parse_selection raws" "normalizeNetworkWeights (map parse_selection raws)"]
  show ?thesis by (simp add: parseNetworkSelections_def Let_def comp_def)
qed

lemma weight_cross:
  assumes "0 < d" "map (\<lambda>w. w * d) (weights_of raws) = decimal_values (map parse_selection raws)"
    and "i < length raws" "j < length raws"
  shows "weights_of raws ! i * (fst (requested_weight (raws ! j)) * snd (requested_weight (raws ! i))) =
    weights_of raws ! j * (fst (requested_weight (raws ! i)) * snd (requested_weight (raws ! j)))"
proof -
  let ?M = "10 ^ max_scale (map parse_selection raws) :: nat"
  have len: "length (weights_of raws) = length raws" by (simp add: weights_of_normalize)
  have each: "weights_of raws ! k * d * snd (requested_weight (raws ! k)) = fst (requested_weight (raws ! k)) * ?M"
    if k: "k < length raws" for k
  proof -
    have "weights_of raws ! k * d = decimal_values (map parse_selection raws) ! k"
      using assms(2) len k by (metis (no_types, lifting) nth_map)
    then show ?thesis
      using k scaled_value [of "parse_selection (raws ! k)" "map parse_selection raws"]
      by (simp add: decimal_values_def requested_weight_def)
  qed
  have "d * (weights_of raws ! i * (fst (requested_weight (raws ! j)) * snd (requested_weight (raws ! i)))) =
      (weights_of raws ! i * d * snd (requested_weight (raws ! i))) * fst (requested_weight (raws ! j))" by simp
  also have "\<dots> = (weights_of raws ! j * d * snd (requested_weight (raws ! j))) * fst (requested_weight (raws ! i))"
    unfolding each [OF assms(3)] each [OF assms(4)] by simp
  also have "\<dots> = d * (weights_of raws ! j * (fst (requested_weight (raws ! i)) * snd (requested_weight (raws ! j))))" by simp
  finally show ?thesis using assms(1) by simp
qed

lemma demo_arguments:
  "networkArguments (parseNetworkSelections [''10.0.0.1@1.5'', ''10.0.0.2'']) =
     [\<lparr>na_localIP = V4 10 0 0 1, na_normalizedWeight = 3, na_explicitWeight = True, na_weightTextInvalid = False,
       na_addressTextContainsNUL = False\<rparr>,
      \<lparr>na_localIP = V4 10 0 0 2, na_normalizedWeight = 2, na_explicitWeight = False, na_weightTextInvalid = False,
       na_addressTextContainsNUL = False\<rparr>]"
proof -
  have p: "parse_selection ''10.0.0.1@1.5'' = \<lparr>ps_addressText = ''10.0.0.1'', ps_localIP = V4 10 0 0 1,
       ps_weight = Some \<lparr>dw_coefficient = 15, dw_scale = 1\<rparr>, ps_normalizedWeight = 0, ps_explicitWeight = True,
       ps_weightTextInvalid = False, ps_addressTextContainsNUL = False\<rparr>"
    "parse_selection ''10.0.0.2'' = \<lparr>ps_addressText = ''10.0.0.2'', ps_localIP = V4 10 0 0 2,
       ps_weight = None, ps_normalizedWeight = 0, ps_explicitWeight = False,
       ps_weightTextInvalid = False, ps_addressTextContainsNUL = False\<rparr>"
    by code_simp+
  have "gcd 15 (10 :: nat) = 5" by (simp add: gcd_non_0_nat)
  then show ?thesis
    by (simp add: parseNetworkSelections_def networkArguments_def p normalizeNetworkWeights_def decimal_values_def
        max_scale_def weight_coefficient_def weight_scale_def)
qed

lemma demo_buildRun:
  "\<exists>r. buildRun \<lparr>url_Parse = (\<lambda>_. Inl []), ParseDuration = (\<lambda>_. Inl [])\<rparr>
      (options_of [Value Source ''/data'', Value Network ''10.0.0.1@1.5'', Value Network ''10.0.0.2''] [''scp'', ''{}'']) = Inr (Run_Command r)"
proof -
  have p: "cleanAbsolute ''/data''" by (simp add: cleanAbsolute_def IsAbs_def Clean_def clean_step_def has_nul_def)
  have v: "validateChildArgv [''scp'', ''{}''] = Inr ()" by (simp add: validateChildArgv_iff has_nul_def)
  have "\<exists>r. run_NewRequest ''/data'' False (networkArguments (parseNetworkSelections [''10.0.0.1@1.5'', ''10.0.0.2''])) False
      no_settings [] [''scp'', ''{}''] None \<lparr>do_noTUI = False, do_mouse = False\<rparr> False = Inr r"
    using p v by (simp add: run_NewRequest_Inr_iff demo_arguments transfer_maximum_def argument_ok_def mode_ok_def Is4_def)
  then show ?thesis by (auto simp: buildRun_def options_of_def run_settings_def parseResolvers_def)
qed

section \<open>Properties\<close>

text \<open>
  C24: a \<open>run\<close> command line is accepted exactly when it follows the grammar: options in any
  order, each followed by its value where it takes one, a value never being \<open>--\<close>; every
  option but \<open>--network\<close> and \<open>--dns\<close> at most once; then the child command, after \<open>--\<close> or
  from the first word that does not begin with a dash; and the request built from those
  options (the values of the repeatable ones in the order given, the child command word for
  word) is valid.
\<close>

theorem run_command_lines_follow_the_grammar:
  "Parse lib (''run'' # argv) = Inr (Run_Command r) \<longleftrightarrow>
     (\<exists>is sep child. argv = concat (map item_words is) @ sep @ child \<and> list_all item_ok is \<and>
        separated sep child \<and> items_once is \<and> buildRun lib (options_of is child) = Inr (Run_Command r))"
proof -
  have "parseRun lib argv = Inr (Run_Command r) \<longleftrightarrow>
      (\<exists>opts child o1. splitRunCommand argv = Inr (opts, child, False) \<and>
         run_loop (options_of [] child) opts = Inr o1 \<and> buildRun lib o1 = Inr (Run_Command r))"
    by (auto simp: parseRun_def bind_r_Inr_iff no_run_options_of split: if_splits)
  also have "\<dots> \<longleftrightarrow> (\<exists>is sep child. argv = concat (map item_words is) @ sep @ child \<and> list_all item_ok is \<and>
        separated sep child \<and> items_once is \<and> buildRun lib (options_of is child) = Inr (Run_Command r))"
    (is "?parsed \<longleftrightarrow> ?grammar")
  proof
    assume ?parsed
    then obtain opts child o1 where p: "split_from [] argv = Inr (opts, child, False)"
        "run_loop (options_of [] child) opts = Inr o1" "buildRun lib o1 = Inr (Run_Command r)"
      by (auto simp: splitRunCommand_def)
    obtain "is" sep where s: "argv = concat (map item_words is) @ sep @ child" "opts = concat (map item_words is)"
        "list_all item_ok is" "separated sep child"
      using split_shape [OF p(1)] by auto
    have "items_once is \<and> o1 = options_of is child"
      using p(2) run_loop_items [OF s(3), of "[]" child o1] by (simp add: s(2) items_once_def)
    then show ?grammar using s p(3) by blast
  next
    assume ?grammar
    then obtain "is" sep child where g: "argv = concat (map item_words is) @ sep @ child" "list_all item_ok is"
        "separated sep child" "items_once is" "buildRun lib (options_of is child) = Inr (Run_Command r)"
      by blast
    have "splitRunCommand argv = Inr (concat (map item_words is), child, False)"
      by (simp add: splitRunCommand_def g(1) split_items [OF g(2)] split_separated [OF g(3)])
    moreover have "run_loop (options_of [] child) (concat (map item_words is)) = Inr (options_of is child)"
      using run_loop_items [OF g(2), of "[]" child "options_of is child"] g(4) by (simp add: items_once_def)
    ultimately show ?parsed using g(5) by blast
  qed
  finally show ?thesis by (simp add: parse_run)
qed

text \<open>
  C25: the manual weights of an accepted request are the decimal weights of the command line
  in lowest terms: there is one network per \<open>--network\<close> value, in order and with the address
  before its \<open>@\<close>, the 64-bit weights stand in exactly the ratio of the decimal numbers given
  (one where none is given), and they have no common divisor.
\<close>

theorem manual_weights_keep_the_requested_ratio:
  assumes "buildRun lib options = Inr (Run_Command r)" "\<not> ro_auto options"
  shows "map rmn_localIP (ns_manual (rr_networks r)) = map (\<lambda>raw. ps_localIP (parse_selection raw)) (ro_networks options) \<and>
    Gcd (set (map (\<lambda>n. unat (rmn_weight n)) (ns_manual (rr_networks r)))) = 1 \<and>
    (\<forall>i < length (ro_networks options). \<forall>j < length (ro_networks options).
       unat (rmn_weight (ns_manual (rr_networks r) ! i)) *
         (fst (requested_weight (ro_networks options ! j)) * snd (requested_weight (ro_networks options ! i))) =
       unat (rmn_weight (ns_manual (rr_networks r) ! j)) *
         (fst (requested_weight (ro_networks options ! i)) * snd (requested_weight (ro_networks options ! j))))"
proof -
  let ?raws = "ro_networks options" and ?ps = "map parse_selection (ro_networks options)"
  let ?args = "networkArguments (parseNetworkSelections ?raws)"
  have n: "ns_manual (rr_networks r) = map (\<lambda>a. \<lparr>rmn_localIP = na_localIP a, rmn_weight = na_normalizedWeight a\<rparr>) ?args"
      "?args \<noteq> []" "list_all (\<lambda>a. na_normalizedWeight a \<noteq> 0) ?args"
    using assms
    by (auto simp: buildRun_def Let_def run_NewRequest_Inr_iff mode_ok_def selected_networks_def split: if_splits prod.splits sum.splits)
  have w: "map (\<lambda>n. unat (rmn_weight n)) (ns_manual (rr_networks r)) = weights_of ?raws"
    by (simp add: n(1) networkArguments_def weights_of_def)
  have len: "length (weights_of ?raws) = length ?raws" by (simp add: weights_of_normalize)
  have ne: "?raws \<noteq> []" using n(2) by (auto simp: networkArguments_def parseNetworkSelections_def)
  have nz: "list_all (\<lambda>w. w \<noteq> 0) (weights_of ?raws)"
    using n(3) by (auto simp: networkArguments_def weights_of_def list_all_iff unat_gt_0)
  obtain d where d: "0 < d" "map (\<lambda>w. w * d) (weights_of ?raws) = decimal_values ?ps" "d = Gcd (set (decimal_values ?ps))"
    using exact_weights [OF ne nz] by auto
  have ips: "map rmn_localIP (ns_manual (rr_networks r)) = map (\<lambda>raw. ps_localIP (parse_selection raw)) ?raws"
    by (simp add: n(1) networkArguments_def parseNetworkSelections_ips [symmetric] comp_def)
  have ws: "weights_of ?raws = map (\<lambda>v. v div d) (decimal_values ?ps)"
    using d(1) unfolding d(2) [symmetric] by (simp add: comp_def)
  have "Gcd (set (weights_of ?raws)) = 1"
    using Gcd_div_Gcd [of "decimal_values ?ps"] ne parse_selection_positive
    by (simp add: ws d(3)) (auto simp: decimal_values_def)
  moreover have "weights_of ?raws ! i * (fst (requested_weight (?raws ! j)) * snd (requested_weight (?raws ! i))) =
      weights_of ?raws ! j * (fst (requested_weight (?raws ! i)) * snd (requested_weight (?raws ! j)))"
    if i: "i < length ?raws" and j: "j < length ?raws" for i j
    using weight_cross [OF d(1,2) i j] .
  moreover have "unat (rmn_weight (ns_manual (rr_networks r) ! i)) = weights_of ?raws ! i" if "i < length ?raws" for i
    using w len that by (metis length_map nth_map)
  ultimately show ?thesis using ips w by simp
qed

theorem manual_weights_keep_the_requested_ratio_witness:
  "\<exists>r. buildRun \<lparr>url_Parse = (\<lambda>_. Inl []), ParseDuration = (\<lambda>_. Inl [])\<rparr>
      (options_of [Value Source ''/data'', Value Network ''10.0.0.1@1.5'', Value Network ''10.0.0.2''] [''scp'', ''{}'']) = Inr (Run_Command r) \<and>
    unat (rmn_weight (ns_manual (rr_networks r) ! 0)) * (fst (requested_weight ''10.0.0.2'') * snd (requested_weight ''10.0.0.1@1.5'')) =
    unat (rmn_weight (ns_manual (rr_networks r) ! 1)) * (fst (requested_weight ''10.0.0.1@1.5'') * snd (requested_weight ''10.0.0.2''))"
proof -
  let ?o = "options_of [Value Source ''/data'', Value Network ''10.0.0.1@1.5'', Value Network ''10.0.0.2''] [''scp'', ''{}'']"
  let ?lib = "\<lparr>url_Parse = (\<lambda>_. Inl []), ParseDuration = (\<lambda>_. Inl [])\<rparr>"
  obtain r where r: "buildRun ?lib ?o = Inr (Run_Command r)" using demo_buildRun by blast
  have o: "\<not> ro_auto ?o" "0 < length (ro_networks ?o)" "1 < length (ro_networks ?o)"
    "ro_networks ?o ! 0 = ''10.0.0.1@1.5''" "ro_networks ?o ! 1 = ''10.0.0.2''"
    by (simp_all add: options_of_def)
  from manual_weights_keep_the_requested_ratio [OF r o(1), THEN conjunct2, THEN conjunct2, rule_format, OF o(2,3)]
  show ?thesis unfolding o(4,5) using r by blast
qed

end
