(* ===== verification/Network_Catalog.thy ===== *)
theory Network_Catalog
  imports Netip "HOL-Library.Product_Lexorder"
begin

text \<open>
  The network catalog (\<open>networkcatalog/types.go\<close>, \<open>snapshot.go\<close>, \<open>resolve.go\<close>): a snapshot
  of links, addresses, policy rules and routes, its canonical order, the local addresses and
  default candidates, and the resolution of a source address to the route that policy
  routing selects for it.

  The main theorem compares the resolution with policy routing as Linux does it: rules in
  the order of their priorities, in any order among equal ones, with any outcome of the
  selectors the catalog cannot decide and any choice among equally good default routes.
\<close>

section \<open>More of net/netip\<close>

definition BitLen :: "addr \<Rightarrow> nat" where
  "BitLen ip = (case ip of NoAddr \<Rightarrow> 0 | V4 _ _ _ _ \<Rightarrow> 32 | V6 _ _ _ _ _ _ _ _ _ \<Rightarrow> 128)"

definition addr_fields :: "addr \<Rightarrow> nat list" where
  "addr_fields ip =
     (case ip of
        NoAddr \<Rightarrow> []
      | V4 a b c d \<Rightarrow> map unat [a, b, c, d]
      | V6 a b c d e f g h _ \<Rightarrow> map unat [a, b, c, d, e, f, g, h])"

definition zone_of :: "addr \<Rightarrow> string" where
  "zone_of ip = (case ip of V6 _ _ _ _ _ _ _ _ z \<Rightarrow> z | _ \<Rightarrow> [])"

text \<open>\<open>cmp.Compare\<close> and \<open>Addr.Compare\<close>.\<close>

definition cmp :: "'a::linorder \<Rightarrow> 'a \<Rightarrow> int" where
  "cmp l r = (if l < r then - 1 else if r < l then 1 else 0)"

definition addr_key :: "addr \<Rightarrow> nat \<times> nat list \<times> string" where
  "addr_key ip = (BitLen ip, addr_fields ip, zone_of ip)"

definition Compare :: "addr \<Rightarrow> addr \<Rightarrow> int" where
  "Compare l r = cmp (addr_key l) (addr_key r)"

lemma addr_key_inj [simp]: "addr_key l = addr_key r \<longleftrightarrow> l = r"
  by (cases l; cases r) (auto simp: addr_key_def BitLen_def addr_fields_def zone_of_def simp flip: word_unat_eq_iff)

lemma cmp_simps [simp]: "cmp l r < 0 \<longleftrightarrow> l < r" "cmp l r = 0 \<longleftrightarrow> l = r"
  by (auto simp: cmp_def)

definition IsLinkLocalUnicast :: "addr \<Rightarrow> bool" where
  "IsLinkLocalUnicast ip =
     (case Unmap ip of
        NoAddr \<Rightarrow> False
      | V4 a b _ _ \<Rightarrow> a = 169 \<and> b = 254
      | V6 a _ _ _ _ _ _ _ _ \<Rightarrow> a AND 0xffc0 = 0xfe80)"

definition IsGlobalUnicast :: "addr \<Rightarrow> bool" where
  "IsGlobalUnicast ip \<longleftrightarrow>
     ip \<noteq> NoAddr \<and> \<not> (Unmap ip = V4 0 0 0 0 \<or> Unmap ip = V4 255 255 255 255) \<and>
     \<not> IsUnspecified ip \<and> \<not> IsLoopback ip \<and> \<not> IsMulticast ip \<and> \<not> IsLinkLocalUnicast ip"

text \<open>A \<open>netip.Prefix\<close>: \<open>Bits\<close> is -1 when it is not valid.\<close>

record prefix =
  pf_Addr :: addr
  pf_Bits :: int

definition no_prefix :: prefix where
  "no_prefix = \<lparr>pf_Addr = NoAddr, pf_Bits = - 1\<rparr>"

definition pf_IsValid :: "prefix \<Rightarrow> bool" where
  "pf_IsValid p \<longleftrightarrow> 0 \<le> pf_Bits p"

definition addr_word :: "addr \<Rightarrow> 128 word" where
  "addr_word ip =
     (case ip of
        NoAddr \<Rightarrow> 0
      | V4 a b c d \<Rightarrow> unbe [a, b, c, d]
      | V6 a b c d e f g h _ \<Rightarrow> unbe (concat (map be16 [a, b, c, d, e, f, g, h])))"

definition Contains :: "prefix \<Rightarrow> addr \<Rightarrow> bool" where
  "Contains p ip \<longleftrightarrow>
     pf_IsValid p \<and> zone_of ip = [] \<and> BitLen (pf_Addr p) \<noteq> 0 \<and> BitLen (pf_Addr p) = BitLen ip \<and>
     drop_bit (BitLen ip - nat (pf_Bits p)) (addr_word ip XOR addr_word (pf_Addr p)) = 0"

definition prefix_string :: "prefix \<Rightarrow> string" where
  "prefix_string p =
     (if pf_IsValid p then addr_string (pf_Addr p) @ ''/'' @ int_text (pf_Bits p) else ''invalid Prefix'')"

section \<open>Facts\<close>

record link_observation =
  ln_index :: int
  ln_name :: string
  ln_kind :: string
  ln_mtu :: int
  ln_flags :: u64
  ln_masterIndex :: int
  ln_operationalState :: string

text \<open>\<open>Interface\<close> is the public copy of a link, with the same fields.\<close>

type_synonym interface_value = link_observation

record local_address =
  la_ip :: addr
  la_prefixBits :: int
  la_interfaceValue :: interface_value
  la_exclusionReason :: string

record egress =
  eg_localIP :: addr
  eg_interfaceValue :: interface_value
  eg_table :: int
  eg_gateway :: addr
  eg_hasGateway :: bool
  eg_runnable :: bool
  eg_reason :: string
  eg_diagnostics :: "string list"

record address_observation =
  ao_linkIndex :: int
  ao_prefix :: prefix

text \<open>\<open>ruleOther\<close> is the value 255 of an action that the decoder of rules does not know.\<close>

datatype ruleAction = ruleLookup | ruleBlackhole | ruleUnreachable | ruleProhibit | ruleContinue | ruleOther

definition inputInterfaceUnresolved :: byte where "inputInterfaceUnresolved = 1"
definition inputInterfaceAttached :: byte where "inputInterfaceAttached = 2"
definition inputInterfaceDetached :: byte where "inputInterfaceDetached = 3"

record input_selector =
  is_name :: string
  is_state :: byte
  is_index :: int
  is_isL3Master :: bool

definition outputInterfaceAttached :: byte where "outputInterfaceAttached = 1"
definition outputInterfaceDetached :: byte where "outputInterfaceDetached = 2"

record output_selector =
  os_name :: string
  os_state :: byte

definition ruleSelectorTypeOfService :: byte where "ruleSelectorTypeOfService = 1"
definition ruleSelectorFirewallMark :: byte where "ruleSelectorFirewallMark = 2"
definition ruleSelectorUIDRange :: byte where "ruleSelectorUIDRange = 3"
definition ruleSelectorTransport :: byte where "ruleSelectorTransport = 4"
definition ruleSelectorL3Master :: byte where "ruleSelectorL3Master = 5"
definition ruleSelectorTunnelID :: byte where "ruleSelectorTunnelID = 6"
definition ruleSelectorFlowRealm :: byte where "ruleSelectorFlowRealm = 7"
definition ruleSelectorUnknownAttribute :: byte where "ruleSelectorUnknownAttribute = 8"

record unresolved_selector =
  us_kind :: byte
  us_attribute :: u16
  us_value :: string

definition ruleEffectRouteSuppression :: byte where "ruleEffectRouteSuppression = 1"
definition ruleEffectGoto :: byte where "ruleEffectGoto = 2"
definition ruleEffectHeaderFlags :: byte where "ruleEffectHeaderFlags = 3"

record unsupported_effect =
  ue_kind :: byte
  ue_attribute :: u16
  ue_value :: string
  ue_flags :: u32

record policy_rule =
  pr_priority :: int
  pr_table :: int
  pr_source :: prefix
  pr_destination :: prefix
  pr_inputInterface :: input_selector
  pr_outputInterface :: output_selector
  pr_unresolvedSelectors :: "unresolved_selector list"
  pr_unsupportedEffects :: "unsupported_effect list"
  pr_inverted :: bool
  pr_action :: ruleAction

datatype routeKind =
  routeUnicast | routeThrow | routeUnreachable | routeBlackhole | routeProhibit | routeUnsupported

record fib_route =
  rt_table :: int
  rt_destination :: prefix
  rt_kind :: routeKind
  rt_linkIndex :: int
  rt_gateway :: addr
  rt_hasGateway :: bool
  rt_metric :: int
  rt_unsupported :: string

record snapshot =
  sn_links :: "link_observation list"
  sn_addresses :: "address_observation list"
  sn_rules :: "policy_rule list"
  sn_routes :: "fib_route list"

definition no_input :: input_selector where
  "no_input = \<lparr>is_name = [], is_state = 0, is_index = 0, is_isL3Master = False\<rparr>"

definition no_output :: output_selector where
  "no_output = \<lparr>os_name = [], os_state = 0\<rparr>"

definition no_link :: link_observation where
  "no_link = \<lparr>ln_index = 0, ln_name = [], ln_kind = [], ln_mtu = 0, ln_flags = 0, ln_masterIndex = 0, ln_operationalState = []\<rparr>"

fun action_number :: "ruleAction \<Rightarrow> nat" where
  "action_number ruleLookup = 0" | "action_number ruleBlackhole = 1" | "action_number ruleUnreachable = 2"
| "action_number ruleProhibit = 3" | "action_number ruleContinue = 4"
| "action_number ruleOther = 255"

fun kind_number :: "routeKind \<Rightarrow> nat" where
  "kind_number routeUnicast = 0" | "kind_number routeThrow = 1" | "kind_number routeUnreachable = 2"
| "kind_number routeBlackhole = 3" | "kind_number routeProhibit = 4" | "kind_number routeUnsupported = 5"

text \<open>\<open>String\<close> is only called for the three refusing actions; the array has no entry for 255.\<close>

fun action_String :: "ruleAction \<Rightarrow> string" where
  "action_String ruleLookup = ''lookup''"
| "action_String ruleBlackhole = ''blackhole''"
| "action_String ruleUnreachable = ''unreachable''"
| "action_String ruleProhibit = ''prohibit''"
| "action_String ruleContinue = ''continue''"
| "action_String ruleOther = []"

fun kind_String :: "routeKind \<Rightarrow> string" where
  "kind_String routeUnicast = ''unicast''"
| "kind_String routeThrow = ''throw''"
| "kind_String routeUnreachable = ''unreachable''"
| "kind_String routeBlackhole = ''blackhole''"
| "kind_String routeProhibit = ''prohibit''"
| "kind_String routeUnsupported = ''unsupported''"

section \<open>The canonical order of a snapshot\<close>

text \<open>\<open>sort.SliceStable\<close>: each element goes before the first that is not less than it.\<close>

fun insert_by :: "('a \<Rightarrow> 'a \<Rightarrow> bool) \<Rightarrow> 'a \<Rightarrow> 'a list \<Rightarrow> 'a list" where
  "insert_by lt x [] = [x]"
| "insert_by lt x (y # ys) = (if lt y x then y # insert_by lt x ys else x # y # ys)"

definition SliceStable :: "('a \<Rightarrow> 'a \<Rightarrow> bool) \<Rightarrow> 'a list \<Rightarrow> 'a list" where
  "SliceStable lt xs = foldr (insert_by lt) xs []"

fun firstRuleDifference :: "int list \<Rightarrow> int" where
  "firstRuleDifference [] = 0"
| "firstRuleDifference (v # vs) = (if v \<noteq> 0 then v else firstRuleDifference vs)"

text \<open>\<open>slices.CompareFunc\<close>.\<close>

fun CompareFunc :: "('a \<Rightarrow> 'a \<Rightarrow> int) \<Rightarrow> 'a list \<Rightarrow> 'a list \<Rightarrow> int" where
  "CompareFunc f [] [] = 0"
| "CompareFunc f [] (y # ys) = - 1"
| "CompareFunc f (x # xs) [] = 1"
| "CompareFunc f (x # xs) (y # ys) = (if f x y \<noteq> 0 then f x y else CompareFunc f xs ys)"

definition boolValue :: "bool \<Rightarrow> nat" where
  "boolValue b = (if b then 1 else 0)"

definition comparePrefix :: "prefix \<Rightarrow> prefix \<Rightarrow> int" where
  "comparePrefix l r = cmp (prefix_string l) (prefix_string r)"

definition compareInputInterface :: "input_selector \<Rightarrow> input_selector \<Rightarrow> int" where
  "compareInputInterface l r = firstRuleDifference
     [cmp (is_name l) (is_name r), cmp (is_state l) (is_state r), cmp (is_index l) (is_index r),
      cmp (boolValue (is_isL3Master l)) (boolValue (is_isL3Master r))]"

definition compareOutputInterface :: "output_selector \<Rightarrow> output_selector \<Rightarrow> int" where
  "compareOutputInterface l r = firstRuleDifference [cmp (os_name l) (os_name r), cmp (os_state l) (os_state r)]"

definition compareUnresolvedSelector :: "unresolved_selector \<Rightarrow> unresolved_selector \<Rightarrow> int" where
  "compareUnresolvedSelector l r = firstRuleDifference
     [cmp (us_kind l) (us_kind r), cmp (us_attribute l) (us_attribute r), cmp (us_value l) (us_value r)]"

definition compareUnsupportedEffect :: "unsupported_effect \<Rightarrow> unsupported_effect \<Rightarrow> int" where
  "compareUnsupportedEffect l r = firstRuleDifference
     [cmp (ue_kind l) (ue_kind r), cmp (ue_attribute l) (ue_attribute r), cmp (ue_value l) (ue_value r),
      cmp (ue_flags l) (ue_flags r)]"

definition comparePolicyRules :: "policy_rule \<Rightarrow> policy_rule \<Rightarrow> int" where
  "comparePolicyRules l r =
     (let result = firstRuleDifference
        [cmp (pr_priority l) (pr_priority r), cmp (pr_table l) (pr_table r),
         comparePrefix (pr_source l) (pr_source r), comparePrefix (pr_destination l) (pr_destination r),
         compareInputInterface (pr_inputInterface l) (pr_inputInterface r),
         compareOutputInterface (pr_outputInterface l) (pr_outputInterface r),
         cmp (boolValue (pr_inverted l)) (boolValue (pr_inverted r)),
         cmp (action_number (pr_action l)) (action_number (pr_action r))] in
      if result \<noteq> 0 then result
      else
        let result = CompareFunc compareUnresolvedSelector (pr_unresolvedSelectors l) (pr_unresolvedSelectors r) in
        if result \<noteq> 0 then result
        else CompareFunc compareUnsupportedEffect (pr_unsupportedEffects l) (pr_unsupportedEffects r))"

definition lessLink :: "link_observation \<Rightarrow> link_observation \<Rightarrow> bool" where
  "lessLink l r \<longleftrightarrow> (if ln_index l \<noteq> ln_index r then ln_index l < ln_index r else ln_name l < ln_name r)"

definition lessAddress :: "address_observation \<Rightarrow> address_observation \<Rightarrow> bool" where
  "lessAddress l r \<longleftrightarrow>
     (let comparison = Compare (pf_Addr (ao_prefix l)) (pf_Addr (ao_prefix r)) in
      if comparison \<noteq> 0 then comparison < 0
      else if ao_linkIndex l \<noteq> ao_linkIndex r then ao_linkIndex l < ao_linkIndex r
      else pf_Bits (ao_prefix l) < pf_Bits (ao_prefix r))"

definition lessRule :: "policy_rule \<Rightarrow> policy_rule \<Rightarrow> bool" where
  "lessRule l r \<longleftrightarrow> comparePolicyRules l r < 0"

definition lessRoute :: "fib_route \<Rightarrow> fib_route \<Rightarrow> bool" where
  "lessRoute l r \<longleftrightarrow>
     (if rt_table l \<noteq> rt_table r then rt_table l < rt_table r
      else if pf_Bits (rt_destination l) \<noteq> pf_Bits (rt_destination r)
        then pf_Bits (rt_destination l) > pf_Bits (rt_destination r)
      else if rt_metric l \<noteq> rt_metric r then rt_metric l < rt_metric r
      else if rt_kind l \<noteq> rt_kind r then kind_number (rt_kind l) < kind_number (rt_kind r)
      else rt_linkIndex l < rt_linkIndex r)"

definition clone_rule :: "policy_rule \<Rightarrow> policy_rule" where
  "clone_rule r = r\<lparr>
     pr_unresolvedSelectors := SliceStable (\<lambda>a b. compareUnresolvedSelector a b < 0) (pr_unresolvedSelectors r),
     pr_unsupportedEffects := SliceStable (\<lambda>a b. compareUnsupportedEffect a b < 0) (pr_unsupportedEffects r)\<rparr>"

definition cloneRules :: "policy_rule list \<Rightarrow> policy_rule list" where
  "cloneRules rules = map clone_rule rules"

definition sortFacts :: "snapshot \<Rightarrow> snapshot" where
  "sortFacts s = s\<lparr>
     sn_links := SliceStable lessLink (sn_links s),
     sn_addresses := SliceStable lessAddress (sn_addresses s),
     sn_rules := SliceStable lessRule (sn_rules s),
     sn_routes := SliceStable lessRoute (sn_routes s)\<rparr>"

definition newSnapshot ::
  "link_observation list \<Rightarrow> address_observation list \<Rightarrow> policy_rule list \<Rightarrow> fib_route list \<Rightarrow> snapshot" where
  "newSnapshot links addresses rules routes = sortFacts
     \<lparr>sn_links = links, sn_addresses = addresses, sn_rules = cloneRules rules, sn_routes = routes\<rparr>"


section \<open>Local addresses\<close>

definition FlagUp :: u64 where "FlagUp = 1"
definition FlagLoopback :: u64 where "FlagLoopback = 4"

definition has_flag :: "u64 \<Rightarrow> link_observation \<Rightarrow> bool" where
  "has_flag f link \<longleftrightarrow> ln_flags link AND f \<noteq> 0"

definition linkIndex :: "snapshot \<Rightarrow> int \<rightharpoonup> link_observation" where
  "linkIndex s = map_of (rev (map (\<lambda>l. (ln_index l, l)) (sn_links s)))"

definition unavailableInterfaceReason :: "link_observation \<Rightarrow> string \<Rightarrow> string" where
  "unavailableInterfaceReason link subject =
     (if \<not> has_flag FlagUp link then subject @ '' is administratively down''
      else if ln_operationalState link \<in> {[], ''up'', ''unknown''} then []
      else subject @ '' operational state is '' @ ln_operationalState link)"

definition defaultExclusion :: "link_observation option \<Rightarrow> (int \<rightharpoonup> link_observation) \<Rightarrow> string" where
  "defaultExclusion found links =
     (case found of
        None \<Rightarrow> ''address refers to a missing interface''
      | Some link \<Rightarrow>
          let reason = unavailableInterfaceReason link ''interface'' in
          if reason \<noteq> [] then reason
          else if has_flag FlagLoopback link then ''interface is loopback''
          else if ln_kind link = ''bridge'' then ''interface is a bridge''
          else if ln_kind link = ''veth'' then ''interface is a veth endpoint''
          else case links (ln_masterIndex link) of
            Some master \<Rightarrow>
              if ln_kind master = ''bridge'' then ''interface is attached to bridge '' @ ln_name master else []
          | None \<Rightarrow> [])"

definition publicInterface :: "link_observation \<Rightarrow> interface_value" where
  "publicInterface link = link"

definition publicAddress :: "address_observation \<Rightarrow> link_observation \<Rightarrow> string \<Rightarrow> local_address" where
  "publicAddress a link reason =
     \<lparr>la_ip = pf_Addr (ao_prefix a), la_prefixBits = pf_Bits (ao_prefix a),
      la_interfaceValue = publicInterface link, la_exclusionReason = reason\<rparr>"

definition Interfaces :: "snapshot \<Rightarrow> interface_value list" where
  "Interfaces s = map publicInterface (sn_links s)"

definition local_address_of :: "(int \<rightharpoonup> link_observation) \<Rightarrow> address_observation \<Rightarrow> local_address" where
  "local_address_of links a =
     (let found = links (ao_linkIndex a) in
      publicAddress a (case found of Some link \<Rightarrow> link | None \<Rightarrow> no_link) (defaultExclusion found links))"

definition LocalAddresses :: "snapshot \<Rightarrow> local_address list" where
  "LocalAddresses s = (let links = linkIndex s in map (local_address_of links) (sn_addresses s))"

definition IncludedByDefault :: "local_address \<Rightarrow> bool" where
  "IncludedByDefault a \<longleftrightarrow> la_exclusionReason a = []"

definition defaultGroupCandidate :: "local_address list \<Rightarrow> local_address option" where
  "defaultGroupCandidate grp =
     (let first = hd grp in
      if \<not> IncludedByDefault first \<or> \<not> IsGlobalUnicast (la_ip first) then None
      else if \<exists>current \<in> set (tl grp). \<not> IncludedByDefault current \<or>
          la_interfaceValue current \<noteq> la_interfaceValue first \<or> la_prefixBits current \<noteq> la_prefixBits first
        then None
      else Some first)"

text \<open>The loop of \<open>DefaultCandidates\<close>; \<open>addressGroupEnd\<close> ends the group of equal addresses.\<close>

definition address_group :: "local_address \<Rightarrow> local_address list \<Rightarrow> local_address list \<times> local_address list" where
  "address_group a as = (a # takeWhile (\<lambda>x. la_ip x = la_ip a) as, dropWhile (\<lambda>x. la_ip x = la_ip a) as)"

function default_groups :: "local_address list \<Rightarrow> local_address list" where
  "default_groups [] = []"
| "default_groups (a # as) =
     (case address_group a as of (grp, rest) \<Rightarrow>
        (case defaultGroupCandidate grp of Some candidate \<Rightarrow> [candidate] | None \<Rightarrow> []) @ default_groups rest)"
  by pat_completeness auto
termination
  by (relation "measure length") (auto simp: address_group_def length_dropWhile_le less_Suc_eq_le)

definition DefaultCandidates :: "snapshot \<Rightarrow> local_address list" where
  "DefaultCandidates s = default_groups (LocalAddresses s)"

section \<open>Resolution\<close>

definition localIPv4OutputInputInterfaceIndex :: int where
  "localIPv4OutputInputInterfaceIndex = 1"

datatype localOutputRuleMatch =
  ruleDoesNotMatchLocalOutput | ruleMatchesLocalOutput | ruleMayMatchLocalOutput

definition fail_egress :: "egress \<Rightarrow> string \<Rightarrow> egress" where
  "fail_egress e reason = e\<lparr>eg_reason := reason\<rparr>"

definition add_diagnostics :: "egress \<Rightarrow> string list \<Rightarrow> egress" where
  "add_diagnostics e ds = e\<lparr>eg_diagnostics := eg_diagnostics e @ ds\<rparr>"

text \<open>\<open>localAddress\<close>: the reason, or the address and its diagnostics.\<close>

definition localAddress :: "snapshot \<Rightarrow> addr \<Rightarrow> string + address_observation \<times> string list" where
  "localAddress s source =
     (case filter (\<lambda>a. pf_Addr (ao_prefix a) = source) (sn_addresses s) of
        [] \<Rightarrow> Inl (''selected source '' @ addr_string source @ '' is not a local address'')
      | first # matches \<Rightarrow>
          if \<exists>m \<in> set matches. ao_linkIndex m \<noteq> ao_linkIndex first \<or> pf_Bits (ao_prefix m) \<noteq> pf_Bits (ao_prefix first)
          then Inl (''selected source '' @ addr_string source @ '' has conflicting facts on multiple interfaces or prefixes'')
          else Inr (first,
            if matches = [] then []
            else let link = (case linkIndex s (ao_linkIndex first) of Some l \<Rightarrow> l | None \<Rightarrow> no_link) in
              [''duplicate address observation on '' @ ln_name link @ ''(ifindex='' @ int_text (ln_index link) @ '')'']))"

definition unsupportedAddressTopology :: "snapshot \<Rightarrow> address_observation \<Rightarrow> string" where
  "unsupportedAddressTopology s a =
     (case linkIndex s (ao_linkIndex a) of
        None \<Rightarrow> ''local address refers to missing interface index '' @ int_text (ao_linkIndex a)
      | Some link \<Rightarrow>
          let reason = unavailableInterfaceReason link (''local interface '' @ ln_name link) in
          if reason \<noteq> [] then reason
          else if has_flag FlagLoopback link then ''local interface '' @ ln_name link @ '' is loopback''
          else if ln_kind link = ''vrf'' then ''local interface '' @ ln_name link @ '' uses unsupported VRF topology''
          else case linkIndex s (ln_masterIndex link) of
            Some master \<Rightarrow>
              if ln_kind master = ''vrf''
              then ''local interface '' @ ln_name link @ '' is attached to unsupported VRF '' @ ln_name master else []
          | None \<Rightarrow> [])"

definition inputInterfaceMatchesLocalOutput :: "input_selector \<Rightarrow> bool \<times> bool" where
  "inputInterfaceMatchesLocalOutput sel =
     (if is_isL3Master sel then (False, False)
      else if is_state sel = inputInterfaceAttached then
        (if is_index sel \<le> 0 then (False, False)
         else (is_index sel = localIPv4OutputInputInterfaceIndex, True))
      else if is_state sel = inputInterfaceDetached then
        (if is_index sel \<noteq> - 1 then (False, False) else (False, True))
      else (False, False))"

definition appendUniqueDescription :: "string list \<Rightarrow> string \<Rightarrow> string list" where
  "appendUniqueDescription values v = (if v \<in> set values then values else values @ [v])"

definition selector_description :: "unresolved_selector \<Rightarrow> string" where
  "selector_description sel =
     (if us_kind sel = ruleSelectorTypeOfService then ''type-of-service''
      else if us_kind sel = ruleSelectorFirewallMark then ''fwmark''
      else if us_kind sel = ruleSelectorUIDRange then ''UID range''
      else if us_kind sel = ruleSelectorTransport then ''transport selector''
      else if us_kind sel = ruleSelectorL3Master then ''VRF/l3mdev''
      else if us_kind sel = ruleSelectorTunnelID then ''tunnel ID''
      else if us_kind sel = ruleSelectorFlowRealm then ''flow realm''
      else ''rule attribute '' @ decimal (unat (us_attribute sel)))"

definition effect_description :: "unsupported_effect \<Rightarrow> string" where
  "effect_description eff =
     (if ue_kind eff = ruleEffectRouteSuppression then ''route suppression''
      else if ue_kind eff = ruleEffectGoto then ''goto''
      else if ue_kind eff = ruleEffectHeaderFlags then ''rule flags 0x'' @ digits 16 (unat (ue_flags eff))
      else ''unknown rule effect'')"

text \<open>The parts of \<open>matchLocalOutputRule\<close>: the input interface decides, or adds to \<open>undecidable\<close>.\<close>

definition input_nonmatching :: "policy_rule \<Rightarrow> bool" where
  "input_nonmatching rule \<longleftrightarrow>
     is_name (pr_inputInterface rule) \<noteq> [] \<and> inputInterfaceMatchesLocalOutput (pr_inputInterface rule) = (False, True)"

definition undecidable_selectors :: "policy_rule \<Rightarrow> string list" where
  "undecidable_selectors rule =
     foldl appendUniqueDescription
       ((if pf_IsValid (pr_destination rule) \<and> pf_Bits (pr_destination rule) > 0
         then [''destination prefix '' @ prefix_string (pr_destination rule)] else []) @
        (if is_name (pr_inputInterface rule) \<noteq> [] then
           (if snd (inputInterfaceMatchesLocalOutput (pr_inputInterface rule)) then []
            else [''input interface '' @ is_name (pr_inputInterface rule)])
         else if pr_inputInterface rule \<noteq> no_input then [''invalid input interface identity''] else []) @
        (if os_name (pr_outputInterface rule) \<noteq> [] then [''output interface '' @ os_name (pr_outputInterface rule)]
         else if pr_outputInterface rule \<noteq> no_output then [''invalid output interface identity''] else []))
       (map selector_description (pr_unresolvedSelectors rule))"

definition matchLocalOutputRule :: "policy_rule \<Rightarrow> addr \<Rightarrow> localOutputRuleMatch \<times> string list" where
  "matchLocalOutputRule rule source =
     (let nonmatching = (pf_IsValid (pr_source rule) \<and> \<not> Contains (pr_source rule) source) \<or> input_nonmatching rule;
          undecidable = undecidable_selectors rule in
      if nonmatching then
        (if pr_inverted rule then ruleMatchesLocalOutput else ruleDoesNotMatchLocalOutput, [])
      else if undecidable \<noteq> [] then (ruleMayMatchLocalOutput, undecidable)
      else if pr_inverted rule then (ruleDoesNotMatchLocalOutput, [])
      else (ruleMatchesLocalOutput, []))"

definition equivalentRules :: "policy_rule list \<Rightarrow> bool" where
  "equivalentRules rules \<longleftrightarrow> (\<forall>rule \<in> set (tl rules). comparePolicyRules rule (hd rules) = 0)"

definition defaultRoutes :: "snapshot \<Rightarrow> int \<Rightarrow> fib_route list" where
  "defaultRoutes s table =
     filter (\<lambda>r. rt_table r = table \<and> pf_IsValid (rt_destination r) \<and> pf_Bits (rt_destination r) = 0) (sn_routes s)"

definition equalMetricRoutes :: "fib_route list \<Rightarrow> fib_route list" where
  "equalMetricRoutes routes = takeWhile (\<lambda>r. rt_metric r = rt_metric (hd routes)) routes"

definition equivalentRoutes :: "fib_route list \<Rightarrow> bool" where
  "equivalentRoutes routes \<longleftrightarrow>
     (\<forall>r \<in> set (tl routes). rt_kind r = rt_kind (hd routes) \<and> rt_linkIndex r = rt_linkIndex (hd routes) \<and>
        rt_gateway r = rt_gateway (hd routes) \<and> rt_hasGateway r = rt_hasGateway (hd routes))"

definition invalidGateway :: "addr \<Rightarrow> bool" where
  "invalidGateway a \<longleftrightarrow>
     \<not> Is4 a \<or> IsUnspecified a \<or> IsLoopback a \<or> IsMulticast a \<or> a = V4 255 255 255 255"

definition runnableRoute :: "snapshot \<Rightarrow> egress \<Rightarrow> fib_route \<Rightarrow> egress" where
  "runnableRoute s e route =
     (case linkIndex s (rt_linkIndex route) of
        None \<Rightarrow> fail_egress e (''default route output interface index '' @ int_text (rt_linkIndex route) @ '' is unavailable'')
      | Some link \<Rightarrow>
          if ln_index link \<le> 0 \<or> ln_name link = [] then
            fail_egress e (''default route output interface index '' @ int_text (rt_linkIndex route) @ '' is unavailable'')
          else
            let reason = unavailableInterfaceReason link (''default route output interface '' @ ln_name link) in
            if reason \<noteq> [] then fail_egress e reason
            else if ln_kind link = ''vrf'' then
              fail_egress e (''default route uses unsupported VRF interface '' @ ln_name link)
            else
              let attached = (case linkIndex s (ln_masterIndex link) of
                                Some master \<Rightarrow> if ln_kind master = ''vrf'' then Some (ln_name master) else None
                              | None \<Rightarrow> None) in
              case attached of
                Some name \<Rightarrow>
                  fail_egress e (''default route interface '' @ ln_name link @ '' is attached to unsupported VRF '' @ name)
              | None \<Rightarrow>
                  if rt_hasGateway route \<and> invalidGateway (rt_gateway route) then
                    fail_egress e (''default route gateway '' @ addr_string (rt_gateway route) @ '' is invalid'')
                  else e\<lparr>eg_interfaceValue := publicInterface link, eg_table := rt_table route,
                         eg_gateway := rt_gateway route, eg_hasGateway := rt_hasGateway route, eg_runnable := True\<rparr>)"

definition applyRoute :: "snapshot \<Rightarrow> egress \<Rightarrow> fib_route \<Rightarrow> egress \<times> bool" where
  "applyRoute s e route =
     (let e = add_diagnostics e
        [''default route table='' @ int_text (rt_table route) @ '' metric='' @ int_text (rt_metric route) @
         '' type='' @ kind_String (rt_kind route)] in
      case rt_kind route of
        routeThrow \<Rightarrow> (e, False)
      | routeUnicast \<Rightarrow> (runnableRoute s e route, True)
      | routeUnsupported \<Rightarrow>
          (fail_egress e (''default route is unsupported'' @
             (if rt_unsupported route \<noteq> [] then '': '' @ rt_unsupported route else [])), True)
      | _ \<Rightarrow> (fail_egress e (''default route action is '' @ kind_String (rt_kind route)), True))"

definition lookupTable :: "snapshot \<Rightarrow> egress \<Rightarrow> int \<Rightarrow> egress \<times> bool" where
  "lookupTable s e table =
     (let candidates = defaultRoutes s table in
      if candidates = [] then
        (add_diagnostics e [''table '' @ int_text table @ '' has no default route''], False)
      else
        let best = equalMetricRoutes candidates in
        if length best > 1 \<and> \<not> equivalentRoutes best then
          (fail_egress e (''table '' @ int_text table @ '' has ambiguous equal-cost default routes''), True)
        else applyRoute s e (hd best))"

definition rule_diagnostic :: "policy_rule \<Rightarrow> string" where
  "rule_diagnostic rule =
     ''policy rule priority='' @ int_text (pr_priority rule) @ '' table='' @ int_text (pr_table rule)"

text \<open>\<open>strings.Join(values, \", \")\<close>.\<close>

fun join_comma :: "string list \<Rightarrow> string" where
  "join_comma [] = []"
| "join_comma [v] = v"
| "join_comma (v # vs) = v @ '', '' @ join_comma vs"

definition applyRule :: "snapshot \<Rightarrow> egress \<Rightarrow> policy_rule \<Rightarrow> egress \<times> bool" where
  "applyRule s e rule =
     (let e = add_diagnostics e [rule_diagnostic rule] in
      if pr_unsupportedEffects rule \<noteq> [] then
        (fail_egress e (''policy rule has unsupported effect: '' @
           join_comma (map effect_description (pr_unsupportedEffects rule))), True)
      else case pr_action rule of
        ruleContinue \<Rightarrow> (e, False)
      | ruleLookup \<Rightarrow> lookupTable s e (pr_table rule)
      | ruleOther \<Rightarrow> (fail_egress e ''policy rule has unsupported action'', True)
      | _ \<Rightarrow> (fail_egress e (''policy rule action is '' @ action_String (pr_action rule)), True))"

text \<open>
  The inner loop of \<open>resolveRules\<close> over one grp of equal priority: the first rule that may
  match with its undecidable selectors, or the applicable rules.
\<close>

fun applicable_rules ::
  "addr \<Rightarrow> policy_rule list \<Rightarrow> policy_rule list \<Rightarrow> (policy_rule \<times> string list) + policy_rule list" where
  "applicable_rules source acc [] = Inr acc"
| "applicable_rules source acc (rule # rules) =
     (case matchLocalOutputRule rule source of
        (ruleMayMatchLocalOutput, undecidable) \<Rightarrow> Inl (rule, undecidable)
      | (ruleMatchesLocalOutput, _) \<Rightarrow> applicable_rules source (acc @ [rule]) rules
      | (ruleDoesNotMatchLocalOutput, _) \<Rightarrow> applicable_rules source acc rules)"

function rules_from :: "snapshot \<Rightarrow> addr \<Rightarrow> egress \<Rightarrow> policy_rule list \<Rightarrow> egress" where
  "rules_from s source e [] = fail_egress e ''no usable default route for selected source''"
| "rules_from s source e (rule # rules) =
     (case applicable_rules source []
             (rule # takeWhile (\<lambda>r. pr_priority r = pr_priority rule) rules) of
        Inl (r, undecidable) \<Rightarrow>
          fail_egress (add_diagnostics e [rule_diagnostic r])
            (''policy rule depends on selector not determined for local output: '' @ join_comma undecidable)
      | Inr applicable \<Rightarrow>
          if length applicable > 1 \<and> \<not> equivalentRules applicable then
            fail_egress e (''multiple policy rules at priority '' @ int_text (pr_priority (hd applicable)) @ '' are ambiguous'')
          else
            let rest = dropWhile (\<lambda>r. pr_priority r = pr_priority rule) rules in
            if applicable = [] then rules_from s source e rest
            else
              let (e', finished) = applyRule s e (hd applicable) in
              if finished then e' else rules_from s source e' rest)"
  by pat_completeness auto
termination
  by (relation "measure (\<lambda>(_, _, _, rules). length rules)") (auto simp: length_dropWhile_le less_Suc_eq_le)

definition resolveRules :: "snapshot \<Rightarrow> egress \<Rightarrow> addr \<Rightarrow> egress" where
  "resolveRules s e source = rules_from s source e (sn_rules s)"

definition new_egress :: "addr \<Rightarrow> egress" where
  "new_egress source =
     \<lparr>eg_localIP = source, eg_interfaceValue = no_link, eg_table = 0, eg_gateway = NoAddr, eg_hasGateway = False,
      eg_runnable = False, eg_reason = [], eg_diagnostics = []\<rparr>"

definition resolveOne :: "snapshot \<Rightarrow> addr \<Rightarrow> egress" where
  "resolveOne s source =
     (let e = new_egress source in
      if \<not> Is4 source then fail_egress e (''selected source '' @ addr_string source @ '' is not IPv4'')
      else case localAddress s source of
        Inl reason \<Rightarrow> fail_egress e reason
      | Inr (a, diagnostics) \<Rightarrow>
          let e = add_diagnostics e diagnostics; reason = unsupportedAddressTopology s a in
          if reason \<noteq> [] then fail_egress e reason else resolveRules s e source)"

definition Resolve :: "snapshot \<Rightarrow> addr list \<Rightarrow> egress list" where
  "Resolve s sources = map (resolveOne s) sources"


section \<open>Sorting\<close>

lemma mset_insert_by [simp]: "mset (insert_by lt x ys) = add_mset x (mset ys)"
  by (induction ys) auto

lemma mset_SliceStable [simp]: "mset (SliceStable lt xs) = mset xs"
  by (induction xs) (simp_all add: SliceStable_def)

lemma set_SliceStable [simp]: "set (SliceStable lt xs) = set xs"
  by (metis mset_SliceStable set_mset_mset)

lemma SliceStable_Nil_iff [simp]: "SliceStable lt xs = [] \<longleftrightarrow> xs = []"
  by (metis set_SliceStable set_empty)

lemma set_insert_by [simp]: "set (insert_by lt x ys) = insert x (set ys)"
  by (metis mset_insert_by set_mset_add_mset_insert set_mset_mset)

lemma sorted_SliceStable:
  fixes key :: "'a \<Rightarrow> 'k::linorder"
  assumes "\<And>a b. lt a b \<Longrightarrow> key a \<le> key b" "\<And>a b. \<not> lt a b \<Longrightarrow> key b \<le> key a"
  shows "sorted (map key (SliceStable lt xs))"
proof -
  have "sorted (map key ys) \<Longrightarrow> sorted (map key (insert_by lt x ys))" for x ys
  proof (induction ys)
    case (Cons y ys)
    then show ?case using assms by (fastforce intro: order_trans)
  qed simp
  then show ?thesis by (induction xs) (simp_all add: SliceStable_def)
qed

lemma firstRuleDifference_0: "firstRuleDifference vs = 0 \<longleftrightarrow> (\<forall>v \<in> set vs. v = 0)"
  by (induction vs) auto

lemma lessRule_priority:
  "lessRule l r \<Longrightarrow> pr_priority l \<le> pr_priority r"
  "\<not> lessRule l r \<Longrightarrow> pr_priority r \<le> pr_priority l"
  by (cases "pr_priority l" "pr_priority r" rule: linorder_cases;
      simp add: lessRule_def comparePolicyRules_def cmp_def Let_def split: if_splits)+

lemma lessRoute_metric:
  "lessRoute l r \<Longrightarrow> (rt_table l, - pf_Bits (rt_destination l), rt_metric l) \<le> (rt_table r, - pf_Bits (rt_destination r), rt_metric r)"
  "\<not> lessRoute l r \<Longrightarrow> (rt_table r, - pf_Bits (rt_destination r), rt_metric r) \<le> (rt_table l, - pf_Bits (rt_destination l), rt_metric l)"
  by (auto simp: lessRoute_def split: if_splits)

lemma lessAddress_key:
  "lessAddress l r \<Longrightarrow> addr_key (pf_Addr (ao_prefix l)) \<le> addr_key (pf_Addr (ao_prefix r))"
  "\<not> lessAddress l r \<Longrightarrow> addr_key (pf_Addr (ao_prefix r)) \<le> addr_key (pf_Addr (ao_prefix l))"
  by (auto simp: lessAddress_def Compare_def Let_def not_less split: if_splits)

lemma snapshot_sorted:
  "sorted (map pr_priority (sn_rules (newSnapshot ls as rs ts)))"
  "sorted (map (\<lambda>r. (rt_table r, - pf_Bits (rt_destination r), rt_metric r)) (sn_routes (newSnapshot ls as rs ts)))"
  "sorted (map (\<lambda>a. addr_key (pf_Addr (ao_prefix a))) (sn_addresses (newSnapshot ls as rs ts)))"
  unfolding newSnapshot_def sortFacts_def
  by (simp del: less_eq_prod_simp; rule sorted_SliceStable; erule lessRule_priority lessRoute_metric lessAddress_key)+

lemma snapshot_sets [simp]:
  "set (sn_rules (newSnapshot ls as rs ts)) = clone_rule ` set rs"
  "set (sn_routes (newSnapshot ls as rs ts)) = set ts"
  "set (sn_addresses (newSnapshot ls as rs ts)) = set as"
  "set (sn_links (newSnapshot ls as rs ts)) = set ls"
  by (simp_all add: newSnapshot_def sortFacts_def cloneRules_def)

section \<open>Policy routing\<close>

text \<open>
  Policy routing of a packet with a given source that only a default route matches.
  \<open>others rule\<close> tells whether the selectors of a rule that the catalog cannot decide (the
  destination, marks, ports, other interfaces) match the packet.  A rule applies when its
  selectors match, or when they do not and the rule is inverted.
\<close>

definition undetermined :: "policy_rule \<Rightarrow> bool" where
  "undetermined rule \<longleftrightarrow>
     (pf_IsValid (pr_destination rule) \<and> pf_Bits (pr_destination rule) > 0) \<or>
     (if is_name (pr_inputInterface rule) \<noteq> [] then \<not> snd (inputInterfaceMatchesLocalOutput (pr_inputInterface rule))
      else pr_inputInterface rule \<noteq> no_input) \<or>
     pr_outputInterface rule \<noteq> no_output \<or> pr_unresolvedSelectors rule \<noteq> []"

definition selectors_match :: "(policy_rule \<Rightarrow> bool) \<Rightarrow> addr \<Rightarrow> policy_rule \<Rightarrow> bool" where
  "selectors_match others source rule \<longleftrightarrow>
     (pf_IsValid (pr_source rule) \<longrightarrow> Contains (pr_source rule) source) \<and>
     (is_name (pr_inputInterface rule) \<noteq> [] \<longrightarrow> snd (inputInterfaceMatchesLocalOutput (pr_inputInterface rule)) \<longrightarrow>
        fst (inputInterfaceMatchesLocalOutput (pr_inputInterface rule))) \<and>
     (undetermined rule \<longrightarrow> others rule)"

definition rule_applies :: "(policy_rule \<Rightarrow> bool) \<Rightarrow> addr \<Rightarrow> policy_rule \<Rightarrow> bool" where
  "rule_applies others source rule \<longleftrightarrow> selectors_match others source rule \<noteq> pr_inverted rule"

definition default_route :: "fib_route list \<Rightarrow> int \<Rightarrow> fib_route \<Rightarrow> bool" where
  "default_route routes table r \<longleftrightarrow>
     r \<in> set routes \<and> rt_table r = table \<and> pf_IsValid (rt_destination r) \<and> pf_Bits (rt_destination r) = 0"

definition best_route :: "fib_route list \<Rightarrow> int \<Rightarrow> fib_route \<Rightarrow> bool" where
  "best_route routes table r \<longleftrightarrow>
     default_route routes table r \<and> (\<forall>r'. default_route routes table r' \<longrightarrow> rt_metric r \<le> rt_metric r')"

datatype verdict = Via fib_route | Refused

inductive policy_routes ::
  "(policy_rule \<Rightarrow> bool) \<Rightarrow> fib_route list \<Rightarrow> addr \<Rightarrow> policy_rule list \<Rightarrow> verdict \<Rightarrow> bool"
  for others routes source where
  no_rule: "policy_routes others routes source [] Refused"
| other: "\<not> rule_applies others source rule \<Longrightarrow> policy_routes others routes source rules v \<Longrightarrow>
    policy_routes others routes source (rule # rules) v"
| effect: "rule_applies others source rule \<Longrightarrow> pr_unsupportedEffects rule \<noteq> [] \<or> pr_action rule = ruleOther \<Longrightarrow>
    policy_routes others routes source (rule # rules) v"
| nop: "rule_applies others source rule \<Longrightarrow> pr_unsupportedEffects rule = [] \<Longrightarrow> pr_action rule = ruleContinue \<Longrightarrow>
    policy_routes others routes source rules v \<Longrightarrow> policy_routes others routes source (rule # rules) v"
| drop: "rule_applies others source rule \<Longrightarrow> pr_unsupportedEffects rule = [] \<Longrightarrow>
    pr_action rule \<in> {ruleBlackhole, ruleUnreachable, ruleProhibit} \<Longrightarrow>
    policy_routes others routes source (rule # rules) Refused"
| empty: "rule_applies others source rule \<Longrightarrow> pr_unsupportedEffects rule = [] \<Longrightarrow> pr_action rule = ruleLookup \<Longrightarrow>
    (\<And>r. \<not> default_route routes (pr_table rule) r) \<Longrightarrow> policy_routes others routes source rules v \<Longrightarrow>
    policy_routes others routes source (rule # rules) v"
| throw: "rule_applies others source rule \<Longrightarrow> pr_unsupportedEffects rule = [] \<Longrightarrow> pr_action rule = ruleLookup \<Longrightarrow>
    best_route routes (pr_table rule) r \<Longrightarrow> rt_kind r = routeThrow \<Longrightarrow> policy_routes others routes source rules v \<Longrightarrow>
    policy_routes others routes source (rule # rules) v"
| refuse: "rule_applies others source rule \<Longrightarrow> pr_unsupportedEffects rule = [] \<Longrightarrow> pr_action rule = ruleLookup \<Longrightarrow>
    best_route routes (pr_table rule) r \<Longrightarrow> rt_kind r \<in> {routeUnreachable, routeBlackhole, routeProhibit} \<Longrightarrow>
    policy_routes others routes source (rule # rules) Refused"
| unicast: "rule_applies others source rule \<Longrightarrow> pr_unsupportedEffects rule = [] \<Longrightarrow> pr_action rule = ruleLookup \<Longrightarrow>
    best_route routes (pr_table rule) r \<Longrightarrow> rt_kind r = routeUnicast \<Longrightarrow>
    policy_routes others routes source (rule # rules) (Via r)"
| unknown: "rule_applies others source rule \<Longrightarrow> pr_unsupportedEffects rule = [] \<Longrightarrow> pr_action rule = ruleLookup \<Longrightarrow>
    best_route routes (pr_table rule) r \<Longrightarrow> rt_kind r = routeUnsupported \<Longrightarrow>
    policy_routes others routes source (rule # rules) v"

inductive_cases policy_routes_ConsE: "policy_routes others routes source (rule # rules) v"

lemma policy_routes_skip:
  assumes "policy_routes others routes source (ks @ ks') v" "\<And>k. k \<in> set ks \<Longrightarrow> \<not> rule_applies others source k"
  shows "policy_routes others routes source ks' v"
  using assms by (induction ks) (auto elim: policy_routes_ConsE)


lemma clone_rule_simps [simp]:
  "pr_priority (clone_rule r) = pr_priority r" "pr_table (clone_rule r) = pr_table r"
  "pr_source (clone_rule r) = pr_source r" "pr_destination (clone_rule r) = pr_destination r"
  "pr_inputInterface (clone_rule r) = pr_inputInterface r" "pr_outputInterface (clone_rule r) = pr_outputInterface r"
  "pr_inverted (clone_rule r) = pr_inverted r" "pr_action (clone_rule r) = pr_action r"
  "pr_unsupportedEffects (clone_rule r) = [] \<longleftrightarrow> pr_unsupportedEffects r = []"
  "pr_unresolvedSelectors (clone_rule r) = [] \<longleftrightarrow> pr_unresolvedSelectors r = []"
  by (simp_all add: clone_rule_def)

lemma foldl_appendUnique_Nil [simp]:
  "foldl appendUniqueDescription vs ws = [] \<longleftrightarrow> vs = [] \<and> ws = []"
proof (induction ws arbitrary: vs)
  case (Cons w ws)
  have "appendUniqueDescription vs w \<noteq> []" by (cases vs) (simp_all add: appendUniqueDescription_def)
  then show ?case by (simp add: Cons.IH)
qed simp

lemma undecidable_iff: "undecidable_selectors rule = [] \<longleftrightarrow> \<not> undetermined rule"
proof -
  have "os_name (pr_outputInterface rule) \<noteq> [] \<Longrightarrow> pr_outputInterface rule \<noteq> no_output"
    by (auto simp: no_output_def)
  then show ?thesis
    by (auto simp: undecidable_selectors_def undetermined_def)
qed

lemma undetermined_clone [simp]: "undetermined (clone_rule r) = undetermined r"
  by (simp add: undetermined_def)

lemma match_clone:
  "fst (matchLocalOutputRule (clone_rule r) source) = ruleMatchesLocalOutput \<Longrightarrow> rule_applies others source r"
  "fst (matchLocalOutputRule (clone_rule r) source) = ruleDoesNotMatchLocalOutput \<Longrightarrow> \<not> rule_applies others source r"
  by (cases "inputInterfaceMatchesLocalOutput (pr_inputInterface r)";
      auto simp: matchLocalOutputRule_def Let_def undecidable_iff rule_applies_def selectors_match_def
        input_nonmatching_def split: if_splits)+

lemma applicable_rules_Inr:
  "applicable_rules source acc rules = Inr app \<Longrightarrow>
     (\<forall>r \<in> set rules. fst (matchLocalOutputRule r source) \<noteq> ruleMayMatchLocalOutput) \<and>
     app = acc @ filter (\<lambda>r. fst (matchLocalOutputRule r source) = ruleMatchesLocalOutput) rules"
  by (induction source acc rules rule: applicable_rules.induct)
    (auto split: prod.splits localOutputRuleMatch.splits)

lemma sorted_group:
  fixes f :: "'a \<Rightarrow> 'k::linorder"
  assumes "sorted (map f xs)" "\<And>x. x \<in> set xs \<Longrightarrow> p \<le> f x"
  shows "takeWhile (\<lambda>x. f x = p) xs = filter (\<lambda>x. f x = p) xs"
    and "dropWhile (\<lambda>x. f x = p) xs = filter (\<lambda>x. f x \<noteq> p) xs"
proof -
  have "takeWhile (\<lambda>x. f x = p) xs = filter (\<lambda>x. f x = p) xs \<and>
        dropWhile (\<lambda>x. f x = p) xs = filter (\<lambda>x. f x \<noteq> p) xs"
    using assms
  proof (induction xs)
    case (Cons x xs)
    show ?case
    proof (cases "f x = p")
      case False
      then have "y \<in> set xs \<Longrightarrow> f y \<noteq> p" for y using Cons.prems by force
      then show ?thesis using False by (auto simp: filter_empty_conv filter_id_conv [THEN iffD2] intro: sym)
    qed (use Cons in simp)
  qed simp
  then show "takeWhile (\<lambda>x. f x = p) xs = filter (\<lambda>x. f x = p) xs"
    and "dropWhile (\<lambda>x. f x = p) xs = filter (\<lambda>x. f x \<noteq> p) xs" by auto
qed

section \<open>Default routes\<close>

definition routes_sorted :: "snapshot \<Rightarrow> bool" where
  "routes_sorted s \<longleftrightarrow> sorted (map (\<lambda>r. (rt_table r, - pf_Bits (rt_destination r), rt_metric r)) (sn_routes s))"

lemma set_defaultRoutes: "set (defaultRoutes s table) = Collect (default_route (sn_routes s) table)"
  by (auto simp: defaultRoutes_def default_route_def)

lemma sorted_defaultRoutes:
  assumes "routes_sorted s"
  shows "sorted (map rt_metric (defaultRoutes s table))"
proof -
  have "sorted (map (\<lambda>r. (rt_table r, - pf_Bits (rt_destination r), rt_metric r)) (defaultRoutes s table))"
    using assms unfolding routes_sorted_def defaultRoutes_def by (rule sorted_filter)
  then have "sorted_wrt (\<lambda>a b. (rt_table a, - pf_Bits (rt_destination a), rt_metric a)
      \<le> (rt_table b, - pf_Bits (rt_destination b), rt_metric b)) (defaultRoutes s table)"
    by (simp only: sorted_wrt_map)
  then have "sorted_wrt (\<lambda>a b. rt_metric a \<le> rt_metric b) (defaultRoutes s table)"
    by (rule sorted_wrt_mono_rel [rotated]) (auto simp: set_defaultRoutes default_route_def)
  then show ?thesis by (simp only: sorted_wrt_map)
qed

lemma set_best_routes:
  assumes "routes_sorted s" "defaultRoutes s table \<noteq> []"
  shows "set (equalMetricRoutes (defaultRoutes s table)) = Collect (best_route (sn_routes s) table)"
proof -
  define c where "c = defaultRoutes s table"
  have sorted: "sorted (map rt_metric c)" and "c \<noteq> []"
    using assms sorted_defaultRoutes by (auto simp: c_def)
  then have least: "r \<in> set c \<Longrightarrow> rt_metric (hd c) \<le> rt_metric r" for r
    by (cases c) auto
  have "set (equalMetricRoutes c) = {r \<in> set c. rt_metric r = rt_metric (hd c)}"
    using sorted_group(1) [OF sorted least] by (simp add: equalMetricRoutes_def)
  also have "\<dots> = {r \<in> set c. \<forall>r' \<in> set c. rt_metric r \<le> rt_metric r'}"
    using least \<open>c \<noteq> []\<close> by (auto intro!: antisym)
  also have "\<dots> = Collect (best_route (sn_routes s) table)"
    by (auto simp: c_def set_defaultRoutes best_route_def)
  finally show ?thesis by (simp add: c_def)
qed

lemma equivalentRoutes_all:
  assumes "\<not> (1 < length best \<and> \<not> equivalentRoutes best)" "r \<in> set best"
  shows "rt_kind r = rt_kind (hd best) \<and> rt_linkIndex r = rt_linkIndex (hd best) \<and>
    rt_gateway r = rt_gateway (hd best) \<and> rt_hasGateway r = rt_hasGateway (hd best)"
  using assms by (cases best) (auto simp: equivalentRoutes_def)


section \<open>Soundness of the resolution\<close>

text \<open>The verdict is a best default route, and the egress names its table, link and gateway.\<close>

definition link_usable :: "snapshot \<Rightarrow> link_observation \<Rightarrow> bool" where
  "link_usable s link \<longleftrightarrow>
     ln_name link \<noteq> [] \<and> unavailableInterfaceReason link (''default route output interface '' @ ln_name link) = [] \<and>
     ln_kind link \<noteq> ''vrf'' \<and> (\<forall>master. linkIndex s (ln_masterIndex link) = Some master \<longrightarrow> ln_kind master \<noteq> ''vrf'')"

definition leaves_by :: "snapshot \<Rightarrow> egress \<Rightarrow> verdict \<Rightarrow> bool" where
  "leaves_by s e v \<longleftrightarrow>
     (\<exists>route link. v = Via route \<and> best_route (sn_routes s) (rt_table route) route \<and> rt_kind route = routeUnicast \<and>
        linkIndex s (rt_linkIndex route) = Some link \<and> link_usable s link \<and> eg_interfaceValue e = publicInterface link \<and>
        eg_table e = rt_table route \<and> eg_hasGateway e = rt_hasGateway route \<and> eg_gateway e = rt_gateway route)"

lemma fail_simps [simp]:
  "eg_runnable (fail_egress e r) = eg_runnable e" "eg_localIP (fail_egress e r) = eg_localIP e"
  "eg_runnable (add_diagnostics e ds) = eg_runnable e" "eg_localIP (add_diagnostics e ds) = eg_localIP e"
  by (simp_all add: fail_egress_def add_diagnostics_def)

lemma runnableRoute_cases:
  "(\<exists>reason. runnableRoute s e route = fail_egress e reason) \<or>
   (\<exists>link. linkIndex s (rt_linkIndex route) = Some link \<and> link_usable s link \<and>
      runnableRoute s e route = e\<lparr>eg_interfaceValue := publicInterface link, eg_table := rt_table route,
        eg_gateway := rt_gateway route, eg_hasGateway := rt_hasGateway route, eg_runnable := True\<rparr>)"
proof (cases "linkIndex s (rt_linkIndex route)")
  case None
  then show ?thesis unfolding runnableRoute_def by auto
next
  case (Some link)
  show ?thesis
    unfolding runnableRoute_def Some option.case Let_def link_usable_def
    by (cases "linkIndex s (ln_masterIndex link)") auto
qed

lemma runnableRoute_runnable:
  assumes "eg_runnable (runnableRoute s e route)" "\<not> eg_runnable e"
  shows "\<exists>link. linkIndex s (rt_linkIndex route) = Some link \<and> link_usable s link \<and>
    eg_interfaceValue (runnableRoute s e route) = publicInterface link \<and>
    eg_table (runnableRoute s e route) = rt_table route \<and>
    eg_hasGateway (runnableRoute s e route) = rt_hasGateway route \<and> eg_gateway (runnableRoute s e route) = rt_gateway route"
  using runnableRoute_cases [of s e route] assms by auto

lemma applyRoute_cases:
  assumes "applyRoute s e route = (e', finished)" "\<not> eg_runnable e"
  shows "\<not> finished \<Longrightarrow> rt_kind route = routeThrow \<and> \<not> eg_runnable e'"
    and "finished \<Longrightarrow> eg_runnable e' \<Longrightarrow> rt_kind route = routeUnicast \<and>
      (\<exists>e0. e' = runnableRoute s e0 route \<and> \<not> eg_runnable e0)"
  using assms unfolding applyRoute_def Let_def by (auto split: routeKind.splits)

lemma lookupTable_pass:
  assumes "lookupTable s e table = (e', False)" "\<not> eg_runnable e" "routes_sorted s"
  shows "\<not> eg_runnable e'"
    and "(\<forall>r. \<not> default_route (sn_routes s) table r) \<or> (\<forall>r. best_route (sn_routes s) table r \<longrightarrow> rt_kind r = routeThrow)"
proof -
  show "\<not> eg_runnable e'"
    using assms applyRoute_cases(1) by (auto simp: lookupTable_def Let_def split: if_splits)
  show "(\<forall>r. \<not> default_route (sn_routes s) table r) \<or> (\<forall>r. best_route (sn_routes s) table r \<longrightarrow> rt_kind r = routeThrow)"
  proof (cases "defaultRoutes s table = []")
    case True
    then show ?thesis using set_defaultRoutes [of s table] by auto
  next
    case False
    define best where "best = equalMetricRoutes (defaultRoutes s table)"
    from assms(1) False have eq: "\<not> (1 < length best \<and> \<not> equivalentRoutes best)" and "applyRoute s e (hd best) = (e', False)"
      by (auto simp: lookupTable_def Let_def best_def split: if_splits)
    then have "rt_kind (hd best) = routeThrow" using applyRoute_cases(1) assms(2) by blast
    then show ?thesis
      using equivalentRoutes_all [OF eq] set_best_routes [OF assms(3) False] by (auto simp: best_def)
  qed
qed

lemma lookupTable_stop:
  assumes "lookupTable s e table = (e', True)" "\<not> eg_runnable e" "eg_runnable e'" "routes_sorted s"
  shows "\<exists>r. default_route (sn_routes s) table r"
    and "best_route (sn_routes s) table r \<Longrightarrow> rt_kind r = routeUnicast \<and> leaves_by s e' (Via r)"
proof -
  define best where "best = equalMetricRoutes (defaultRoutes s table)"
  from assms have ne: "defaultRoutes s table \<noteq> []" and eq: "\<not> (1 < length best \<and> \<not> equivalentRoutes best)"
    and app: "applyRoute s e (hd best) = (e', True)"
    by (auto simp: lookupTable_def Let_def best_def split: if_splits)
  show "\<exists>r. default_route (sn_routes s) table r"
    using ne set_defaultRoutes [of s table] by (metis list.set_sel(1) mem_Collect_eq)
  assume best: "best_route (sn_routes s) table r"
  then have "r \<in> set best" using set_best_routes [OF assms(4) ne] by (simp add: best_def)
  then have same: "rt_kind r = rt_kind (hd best)" "rt_linkIndex r = rt_linkIndex (hd best)"
    "rt_gateway r = rt_gateway (hd best)" "rt_hasGateway r = rt_hasGateway (hd best)"
    using equivalentRoutes_all [OF eq] by auto
  have "hd best \<in> set best" using \<open>r \<in> set best\<close> by (cases best) auto
  then have hd: "rt_table (hd best) = table" "rt_table r = table"
    using best set_best_routes [OF assms(4) ne] by (auto simp: best_def best_route_def default_route_def)
  obtain e0 where "rt_kind (hd best) = routeUnicast" "e' = runnableRoute s e0 (hd best)" "\<not> eg_runnable e0"
    using applyRoute_cases(2) [OF app assms(2)] assms(3) by auto
  then show "rt_kind r = routeUnicast \<and> leaves_by s e' (Via r)"
    using runnableRoute_runnable [of s e0 "hd best"] assms(3) same hd best by (auto simp: leaves_by_def)
qed

lemma applyRule_pass:
  assumes "applyRule s e rule = (e', False)" "\<not> eg_runnable e" "routes_sorted s"
    and "pr_table k = pr_table rule" "pr_action k = pr_action rule"
    and "pr_unsupportedEffects k = [] \<longleftrightarrow> pr_unsupportedEffects rule = []"
  shows "\<not> eg_runnable e'"
    and "policy_routes others (sn_routes s) source (k # ks) v \<Longrightarrow> policy_routes others (sn_routes s) source ks v"
proof -
  have e: "pr_unsupportedEffects rule = []" and act: "pr_action rule = ruleContinue \<or> pr_action rule = ruleLookup"
    using assms(1) by (auto simp: applyRule_def Let_def split: if_splits ruleAction.splits)
  have look: "lookupTable s (add_diagnostics e [rule_diagnostic rule]) (pr_table rule) = (e', False)"
    if "pr_action rule = ruleLookup"
    using assms(1) e that by (simp add: applyRule_def Let_def)
  show "\<not> eg_runnable e'"
    using act assms(1,2) e lookupTable_pass(1) [OF look _ assms(3)] by (auto simp: applyRule_def Let_def)
  have thr: "(\<forall>r. \<not> default_route (sn_routes s) (pr_table k) r) \<or>
      (\<forall>r. best_route (sn_routes s) (pr_table k) r \<longrightarrow> rt_kind r = routeThrow)" if "pr_action k = ruleLookup"
    using lookupTable_pass(2) [OF look _ assms(3)] assms(2,4,5) that by simp
  show "policy_routes others (sn_routes s) source ks v" if "policy_routes others (sn_routes s) source (k # ks) v"
    using that e act assms(5,6) thr by (cases) (auto simp: best_route_def)
qed

lemma applyRule_stop:
  assumes "applyRule s e rule = (e', True)" "\<not> eg_runnable e" "eg_runnable e'" "routes_sorted s"
    and "pr_table k = pr_table rule" "pr_action k = pr_action rule"
    and "pr_unsupportedEffects k = [] \<longleftrightarrow> pr_unsupportedEffects rule = []"
    and "rule_applies others source k" "policy_routes others (sn_routes s) source (k # ks) v"
  shows "leaves_by s e' v"
proof -
  have e: "pr_unsupportedEffects rule = []" and act: "pr_action rule = ruleLookup"
    and look: "lookupTable s (add_diagnostics e [rule_diagnostic rule]) (pr_table rule) = (e', True)"
    using assms(1-3) by (auto simp: applyRule_def Let_def split: if_splits ruleAction.splits)
  note stop = lookupTable_stop [OF look _ assms(3,4)]
  show ?thesis
    using assms(9) e act assms(2,5-8) stop by (cases) auto
qed


lemma policy_routes_pass:
  assumes "policy_routes others routes source (ks @ ks') v"
    and "\<And>k ls. k \<in> set ks \<Longrightarrow> rule_applies others source k \<Longrightarrow> policy_routes others routes source (k # ls) v \<Longrightarrow>
      policy_routes others routes source ls v"
  shows "policy_routes others routes source ks' v"
  using assms
proof (induction ks)
  case (Cons k ks)
  have "policy_routes others routes source (ks @ ks') v"
  proof (cases "rule_applies others source k")
    case True
    then show ?thesis using Cons.prems(1) Cons.prems(2) [of k "ks @ ks'"] by simp
  next
    case False
    with Cons.prems(1) show ?thesis by (auto elim: policy_routes_ConsE)
  qed
  then show ?case by (rule Cons.IH) (use Cons.prems(2) in auto)
qed simp

lemma policy_routes_stop:
  assumes "policy_routes others routes source (ks @ ks') v" "\<exists>k \<in> set ks. rule_applies others source k"
    and "\<And>k ls. k \<in> set ks \<Longrightarrow> rule_applies others source k \<Longrightarrow> policy_routes others routes source (k # ls) v \<Longrightarrow> P"
  shows P
  using assms
proof (induction ks)
  case (Cons k ks)
  show ?case
  proof (cases "rule_applies others source k")
    case True
    then show ?thesis using Cons.prems(3) [of k "ks @ ks'"] Cons.prems(1) by simp
  next
    case False
    with Cons.prems(1) have "policy_routes others routes source (ks @ ks') v" by (auto elim: policy_routes_ConsE)
    then show ?thesis using Cons False by auto
  qed
qed simp

lemma CompareFunc_0_Nil: "CompareFunc f xs ys = 0 \<Longrightarrow> xs = [] \<longleftrightarrow> ys = []"
  by (cases xs; cases ys) auto

lemma action_number_inj: "action_number a = action_number b \<Longrightarrow> a = b"
  by (cases a; cases b) auto

lemma comparePolicyRules_0:
  assumes "comparePolicyRules l r = 0"
  shows "pr_table l = pr_table r" "pr_action l = pr_action r"
    "pr_unsupportedEffects l = [] \<longleftrightarrow> pr_unsupportedEffects r = []"
  using assms CompareFunc_0_Nil [of compareUnsupportedEffect "pr_unsupportedEffects l" "pr_unsupportedEffects r"]
  by (auto simp: comparePolicyRules_def Let_def firstRuleDifference_0 action_number_inj split: if_split_asm)

lemma equivalentRules_all:
  assumes "\<not> (1 < length app \<and> \<not> equivalentRules app)" "r \<in> set app"
  shows "pr_table r = pr_table (hd app) \<and> pr_action r = pr_action (hd app) \<and>
    (pr_unsupportedEffects r = [] \<longleftrightarrow> pr_unsupportedEffects (hd app) = [])"
proof (cases app)
  case (Cons a as)
  show ?thesis
  proof (cases "r = a")
    case False
    then have "comparePolicyRules r a = 0"
      using assms Cons by (cases as) (auto simp: equivalentRules_def)
    then show ?thesis using comparePolicyRules_0 [of r a] Cons by simp
  qed (simp add: Cons)
qed (use assms in simp)

text \<open>One group of equal priority, seen from the rules as captured.\<close>

lemma group_applies:
  assumes "applicable_rules source [] g = Inr app" "clone_rule k \<in> set g"
  shows "rule_applies others source k \<longleftrightarrow> clone_rule k \<in> set app"
  using applicable_rules_Inr [OF assms(1)] assms(2) match_clone [of k source others]
  by (cases "fst (matchLocalOutputRule (clone_rule k) source)") auto

lemma sorted_split:
  assumes "sorted (map pr_priority ks)" "\<And>k. k \<in> set ks \<Longrightarrow> p \<le> pr_priority k"
  shows "ks = filter (\<lambda>k. pr_priority k = p) ks @ filter (\<lambda>k. pr_priority k \<noteq> p) ks"
  using sorted_group [OF assms] takeWhile_dropWhile_id [of "\<lambda>k. pr_priority k = p" ks] by simp

lemma priority_group:
  assumes "sorted (map pr_priority (rule # rules))" "sorted (map pr_priority ks)"
    and "clone_rule ` set ks = set (rule # rules)"
  defines "p \<equiv> pr_priority rule"
  obtains kg kr where "ks = kg @ kr" "sorted (map pr_priority kr)"
    "clone_rule ` set kg = set (rule # takeWhile (\<lambda>r. pr_priority r = p) rules)"
    "clone_rule ` set kr = set (dropWhile (\<lambda>r. pr_priority r = p) rules)"
    "sorted (map pr_priority (dropWhile (\<lambda>r. pr_priority r = p) rules))"
proof
  define g where "g = filter (\<lambda>r. pr_priority r = p) (rule # rules)"
  define rest where "rest = filter (\<lambda>r. pr_priority r \<noteq> p) (rule # rules)"
  have ge: "r \<in> set (rule # rules) \<Longrightarrow> p \<le> pr_priority r" for r using assms(1) by (auto simp: p_def)
  have gek: "k \<in> set ks \<Longrightarrow> p \<le> pr_priority k" for k
    using ge [of "clone_rule k"] assms(3) by fastforce
  have g: "rule # takeWhile (\<lambda>r. pr_priority r = p) rules = g" and rest: "dropWhile (\<lambda>r. pr_priority r = p) rules = rest"
    using sorted_group [of pr_priority "rule # rules" p, OF assms(1) ge] by (simp_all add: g_def rest_def p_def)
  show "ks = filter (\<lambda>k. pr_priority k = p) ks @ filter (\<lambda>k. pr_priority k \<noteq> p) ks"
    by (rule sorted_split [OF assms(2) gek])
  show "clone_rule ` set (filter (\<lambda>k. pr_priority k = p) ks) = set (rule # takeWhile (\<lambda>r. pr_priority r = p) rules)"
    "clone_rule ` set (filter (\<lambda>k. pr_priority k \<noteq> p) ks) = set (dropWhile (\<lambda>r. pr_priority r = p) rules)"
    unfolding g rest g_def rest_def set_filter assms(3) [symmetric] by auto
  show "sorted (map pr_priority (filter (\<lambda>k. pr_priority k \<noteq> p) ks))" by (rule sorted_filter [OF assms(2)])
  show "sorted (map pr_priority (dropWhile (\<lambda>r. pr_priority r = p) rules))"
    unfolding rest rest_def by (rule sorted_filter [OF assms(1)])
qed

lemma rules_from_runnable:
  assumes "eg_runnable (rules_from s source e (rule # rules))" "\<not> eg_runnable e"
  obtains app where "applicable_rules source [] (rule # takeWhile (\<lambda>r. pr_priority r = pr_priority rule) rules) = Inr app"
    "\<not> (1 < length app \<and> \<not> equivalentRules app)"
  using assms
  by (auto simp: Let_def simp del: applicable_rules.simps split: sum.split_asm if_split_asm)

lemma rules_from_Cons:
  assumes "applicable_rules source [] (rule # takeWhile (\<lambda>r. pr_priority r = pr_priority rule) rules) = Inr app"
    "\<not> (1 < length app \<and> \<not> equivalentRules app)"
  shows "rules_from s source e (rule # rules) =
    (let rest = dropWhile (\<lambda>r. pr_priority r = pr_priority rule) rules in
     if app = [] then rules_from s source e rest
     else let (e', finished) = applyRule s e (hd app) in if finished then e' else rules_from s source e' rest)"
  unfolding rules_from.simps assms(1) sum.case if_not_P [OF assms(2)] ..

lemma rules_from_sound:
  assumes "eg_runnable (rules_from s source e rs)" "\<not> eg_runnable e" "routes_sorted s"
    "sorted (map pr_priority rs)" "sorted (map pr_priority ks)" "clone_rule ` set ks = set rs"
    "policy_routes others (sn_routes s) source ks v"
  shows "leaves_by s (rules_from s source e rs) v"
  using assms
proof (induction s source e rs arbitrary: ks rule: rules_from.induct)
  case (2 s source e rule rules)
  define rest where "rest = dropWhile (\<lambda>r. pr_priority r = pr_priority rule) rules"
  obtain app where app: "applicable_rules source [] (rule # takeWhile (\<lambda>r. pr_priority r = pr_priority rule) rules) = Inr app"
    and eqv: "\<not> (1 < length app \<and> \<not> equivalentRules app)"
    using rules_from_runnable [OF "2.prems"(1,2)] by blast
  obtain kg kr where ks: "ks = kg @ kr" "sorted (map pr_priority kr)" "sorted (map pr_priority rest)"
    and sg: "clone_rule ` set kg = set (rule # takeWhile (\<lambda>r. pr_priority r = pr_priority rule) rules)"
    and sr: "clone_rule ` set kr = set rest"
    using priority_group [OF "2.prems"(4-6)] unfolding rest_def by blast
  note step = rules_from_Cons [OF app eqv, folded rest_def] and IH = "2.IH" [OF app eqv rest_def]
  have routes: "policy_routes others (sn_routes s) source (kg @ kr) v" using "2.prems"(7) ks(1) by simp
  have applies: "rule_applies others source k \<longleftrightarrow> clone_rule k \<in> set app" if "k \<in> set kg" for k
    using group_applies [OF app] sg that by blast
  have same: "pr_table k = pr_table (hd app)" "pr_action k = pr_action (hd app)"
    "pr_unsupportedEffects k = [] \<longleftrightarrow> pr_unsupportedEffects (hd app) = []"
    if "k \<in> set kg" "rule_applies others source k" for k
    using equivalentRules_all [OF eqv, of "clone_rule k"] applies that by auto
  obtain e' finished where ap: "applyRule s e (hd app) = (e', finished)" by fastforce
  consider "app = []" | "app \<noteq> []" finished | "app \<noteq> []" "\<not> finished" by blast
  then show ?case
  proof cases
    case 1
    then have "policy_routes others (sn_routes s) source kr v"
      using policy_routes_skip [OF routes] applies by simp
    then show ?thesis using IH(1) "2.prems"(1-3) ks sr step 1 by simp
  next
    case 2
    have "hd app \<in> clone_rule ` set kg"
      using applicable_rules_Inr [OF app] 2(1) sg by (metis append_Nil filter_is_subset hd_in_set subsetD)
    then obtain k where "k \<in> set kg" "clone_rule k = hd app" by auto
    then have "\<exists>k \<in> set kg. rule_applies others source k" using applies 2(1) by (metis hd_in_set)
    then have "leaves_by s e' v"
      by (rule policy_routes_stop [OF routes])
        (rule applyRule_stop [OF _ "2.prems"(2) _ "2.prems"(3) same], use ap 2 "2.prems"(1) step in auto)
    then show ?thesis using step ap 2 by simp
  next
    case 3
    have "policy_routes others (sn_routes s) source kr v"
      by (rule policy_routes_pass [OF routes])
        (rule applyRule_pass(2) [OF _ "2.prems"(2,3) same], use ap 3 in auto)
    then show ?thesis
      using IH(2) [OF 3(1)] applyRule_pass(1) [OF _ "2.prems"(2,3)] ap 3 "2.prems"(1,3) ks sr step by auto
  qed
qed simp

lemma policy_routes_total: "\<exists>v. policy_routes others routes source ks v"
proof (induction ks)
  case (Cons k ks)
  then obtain v where v: "policy_routes others routes source ks v" ..
  consider "\<And>r. \<not> default_route routes (pr_table k) r" | r where "best_route routes (pr_table k) r"
  proof (cases "\<exists>r. default_route routes (pr_table k) r")
    case True
    define D where "D = Collect (default_route routes (pr_table k))"
    have "finite D" by (rule finite_subset [of _ "set routes"]) (auto simp: D_def default_route_def)
    moreover have "D \<noteq> {}" using True by (simp add: D_def)
    ultimately obtain r where "r \<in> D" "\<And>r'. r' \<in> D \<Longrightarrow> rt_metric r \<le> rt_metric r'"
      by (metis arg_min_if_finite(1) arg_min_least)
    then have "default_route routes (pr_table k) r" "\<And>r'. default_route routes (pr_table k) r' \<Longrightarrow> rt_metric r \<le> rt_metric r'"
      by (simp_all add: D_def)
    then show ?thesis using that(2) by (auto simp: best_route_def)
  qed (use that in blast)
  then show ?case
  proof cases
    case 1
    then show ?thesis using v by (cases "pr_action k"; blast intro: policy_routes.intros)
  next
    case (2 r)
    then show ?thesis using v by (cases "pr_action k"; cases "rt_kind r"; blast intro: policy_routes.intros)
  qed
qed (blast intro: policy_routes.intros)


lemma policy_routes_cong:
  assumes "set routes = set routes'" "policy_routes others routes source ks v"
  shows "policy_routes others routes' source ks v"
proof -
  have eq: "default_route routes = default_route routes'" using assms(1) by (intro ext) (simp add: default_route_def)
  then have eq': "best_route routes = best_route routes'" by (intro ext) (simp add: best_route_def)
  show ?thesis
    using assms(2)
    by (induction rule: policy_routes.induct; (simp only: eq eq')?; blast intro: policy_routes.intros)
qed

lemma resolveOne_runnable:
  assumes "eg_runnable (resolveOne s source)"
  obtains e where "resolveOne s source = rules_from s source e (sn_rules s)" "\<not> eg_runnable e"
proof -
  have *: "\<not> eg_runnable (new_egress source)" by (simp add: new_egress_def)
  show ?thesis
    using assms that unfolding resolveOne_def resolveRules_def Let_def
    by (auto simp: * split: if_split_asm sum.split_asm prod.split_asm)
qed

section \<open>Default candidates\<close>

definition address_key :: "local_address \<Rightarrow> nat \<times> nat list \<times> string" where
  "address_key a = addr_key (la_ip a)"

lemma address_key_eq: "address_key a = address_key b \<longleftrightarrow> la_ip a = la_ip b"
  by (simp add: address_key_def)

lemma address_group_sorted:
  assumes "sorted (map address_key (a # as))"
  shows "address_group a as = (filter (\<lambda>x. la_ip x = la_ip a) (a # as), filter (\<lambda>x. la_ip x \<noteq> la_ip a) (a # as))"
proof -
  have "x \<in> set (a # as) \<Longrightarrow> address_key a \<le> address_key x" for x using assms by auto
  from sorted_group [OF assms this] show ?thesis by (simp add: address_group_def address_key_eq)
qed

lemma defaultGroupCandidate_ip: "defaultGroupCandidate g = Some c \<Longrightarrow> c = hd g"
  by (auto simp: defaultGroupCandidate_def Let_def split: if_splits)

lemma default_groups_sorted:
  assumes "sorted (map address_key xs)"
  shows "distinct (map la_ip (default_groups xs)) \<and> set (map la_ip (default_groups xs)) \<subseteq> la_ip ` set xs \<and>
    (\<forall>c. c \<in> set (default_groups xs) \<longleftrightarrow>
      (\<exists>x \<in> set xs. defaultGroupCandidate (filter (\<lambda>y. la_ip y = la_ip x) xs) = Some c))"
  using assms
proof (induction xs rule: default_groups.induct)
  case (2 a as)
  define g where "g = filter (\<lambda>x. la_ip x = la_ip a) (a # as)"
  define rest where "rest = filter (\<lambda>x. la_ip x \<noteq> la_ip a) (a # as)"
  have grp: "address_group a as = (g, rest)" unfolding g_def rest_def by (rule address_group_sorted [OF 2(2)])
  have srt: "sorted (map address_key rest)" unfolding rest_def by (rule sorted_filter [OF 2(2)])
  have IH: "distinct (map la_ip (default_groups rest))" "set (map la_ip (default_groups rest)) \<subseteq> la_ip ` set rest"
    "\<And>c. c \<in> set (default_groups rest) \<longleftrightarrow>
      (\<exists>x \<in> set rest. defaultGroupCandidate (filter (\<lambda>y. la_ip y = la_ip x) rest) = Some c)"
    using 2(1) [OF grp [symmetric] srt] by blast+
  have eq: "default_groups (a # as) = (case defaultGroupCandidate g of Some c \<Rightarrow> [c] | None \<Rightarrow> []) @ default_groups rest"
    by (simp add: grp)
  have hd: "defaultGroupCandidate g = Some c \<Longrightarrow> la_ip c = la_ip a" for c
    by (drule defaultGroupCandidate_ip) (simp add: g_def)
  have other: "filter (\<lambda>y. la_ip y = la_ip x) rest = filter (\<lambda>y. la_ip y = la_ip x) (a # as)" if "x \<in> set rest" for x
    using that unfolding rest_def filter_filter by (intro filter_cong) auto
  have cases: "x \<in> set (a # as) \<Longrightarrow> x \<in> set rest \<or> filter (\<lambda>y. la_ip y = la_ip x) (a # as) = g" for x
    by (auto simp: g_def rest_def)
  have sub: "set rest \<subseteq> set (a # as)" "\<And>x. x \<in> set rest \<Longrightarrow> la_ip x \<noteq> la_ip a" by (auto simp: rest_def)
  have "c \<in> set (default_groups (a # as)) \<longleftrightarrow>
      (\<exists>x \<in> set (a # as). defaultGroupCandidate (filter (\<lambda>y. la_ip y = la_ip x) (a # as)) = Some c)" for c
    unfolding eq using cases sub(1) other IH(3) [of c] g_def
    by (auto split: option.splits) (metis list.set_intros(1) option.inject option.distinct(1))+
  moreover have "distinct (map la_ip (default_groups (a # as))) \<and>
      set (map la_ip (default_groups (a # as))) \<subseteq> la_ip ` set (a # as)"
  proof (cases "defaultGroupCandidate g")
    case None
    then show ?thesis unfolding eq using IH(1,2) sub(1) by auto
  next
    case (Some c)
    have "la_ip a \<notin> set (map la_ip (default_groups rest))" using IH(2) sub(2) by (metis imageE subsetD)
    moreover have "la_ip c = la_ip a" by (rule hd [OF Some])
    ultimately show ?thesis unfolding eq using IH(1,2) sub(1) Some by auto
  qed
  ultimately show ?case by blast
qed simp


text \<open>An interface whose addresses are selected without being named.\<close>

definition default_link :: "snapshot \<Rightarrow> int \<Rightarrow> bool" where
  "default_link s i =
     (case linkIndex s i of
        None \<Rightarrow> False
      | Some link \<Rightarrow>
          has_flag FlagUp link \<and> ln_operationalState link \<in> {[], ''up'', ''unknown''} \<and> \<not> has_flag FlagLoopback link \<and>
          ln_kind link \<noteq> ''bridge'' \<and> ln_kind link \<noteq> ''veth'' \<and>
          (case linkIndex s (ln_masterIndex link) of Some master \<Rightarrow> ln_kind master \<noteq> ''bridge'' | None \<Rightarrow> True))"

lemma unavailableInterfaceReason_Nil:
  "subject \<noteq> [] \<Longrightarrow> unavailableInterfaceReason link subject = [] \<longleftrightarrow>
     has_flag FlagUp link \<and> ln_operationalState link \<in> {[], ''up'', ''unknown''}"
  unfolding unavailableInterfaceReason_def by (simp del: insert_iff)

lemma defaultExclusion_Nil: "defaultExclusion (linkIndex s i) (linkIndex s) = [] \<longleftrightarrow> default_link s i"
proof (cases "linkIndex s i")
  case (Some link)
  have "(CHR ''i'' # t) \<noteq> []" for t :: string by simp
  then show ?thesis
    unfolding default_link_def defaultExclusion_def Some option.case Let_def
    by (cases "linkIndex s (ln_masterIndex link)") (auto simp: unavailableInterfaceReason_Nil simp del: insert_iff)
qed (simp add: default_link_def defaultExclusion_def)

lemma linkIndex_index: "linkIndex s i = Some link \<Longrightarrow> ln_index link = i"
  by (auto simp: linkIndex_def dest!: map_of_SomeD)

lemma local_address_simps [simp]:
  "la_ip (local_address_of links a) = pf_Addr (ao_prefix a)"
  "la_prefixBits (local_address_of links a) = pf_Bits (ao_prefix a)"
  by (simp_all add: local_address_of_def publicAddress_def Let_def)

lemma included_iff: "IncludedByDefault (local_address_of (linkIndex s) a) \<longleftrightarrow> default_link s (ao_linkIndex a)"
  by (simp add: IncludedByDefault_def local_address_of_def publicAddress_def Let_def defaultExclusion_Nil)

lemma default_link_found: "default_link s i \<Longrightarrow> \<exists>l. linkIndex s i = Some l"
  by (cases "linkIndex s i") (simp_all add: default_link_def)

lemma interface_eq_iff:
  assumes "default_link s (ao_linkIndex a)" "default_link s (ao_linkIndex b)"
  shows "la_interfaceValue (local_address_of (linkIndex s) a) = la_interfaceValue (local_address_of (linkIndex s) b) \<longleftrightarrow>
    ao_linkIndex a = ao_linkIndex b"
proof -
  obtain la lb where "linkIndex s (ao_linkIndex a) = Some la" "linkIndex s (ao_linkIndex b) = Some lb"
    using assms [THEN default_link_found] by blast
  then show ?thesis
    using linkIndex_index [of s "ao_linkIndex a" la] linkIndex_index [of s "ao_linkIndex b" lb]
    by (auto simp: local_address_of_def publicAddress_def publicInterface_def)
qed

lemma defaultGroupCandidate_iff:
  "g \<noteq> [] \<Longrightarrow> (\<exists>c. defaultGroupCandidate g = Some c) \<longleftrightarrow>
     IsGlobalUnicast (la_ip (hd g)) \<and> (\<forall>x \<in> set g. \<forall>y \<in> set g. IncludedByDefault x \<and>
       la_interfaceValue x = la_interfaceValue y \<and> la_prefixBits x = la_prefixBits y)"
  by (cases g) (auto simp: defaultGroupCandidate_def Let_def)

lemma sorted_LocalAddresses: "sorted (map address_key (LocalAddresses (newSnapshot ls as rs ts)))"
  using snapshot_sorted(3) [of ls as rs ts] by (simp add: LocalAddresses_def o_def address_key_def)

lemma candidate_ip_iff:
  assumes "sorted (map address_key xs)"
  defines "grp \<equiv> \<lambda>ip. filter (\<lambda>y. la_ip y = ip) xs"
  shows "ip \<in> set (map la_ip (default_groups xs)) \<longleftrightarrow> grp ip \<noteq> [] \<and> (\<exists>c. defaultGroupCandidate (grp ip) = Some c)"
proof -
  note groups = default_groups_sorted [OF assms(1)]
  have ip: "defaultGroupCandidate (grp (la_ip x)) = Some c \<Longrightarrow> x \<in> set xs \<Longrightarrow> la_ip c = la_ip x" for x c
    unfolding grp_def
    by (drule defaultGroupCandidate_ip) (metis (mono_tags, lifting) filter_empty_conv hd_in_set mem_Collect_eq set_filter)
  show ?thesis
  proof (intro iffI conjI)
    assume "ip \<in> set (map la_ip (default_groups xs))"
    then obtain c x where c: "la_ip c = ip" and x: "x \<in> set xs" "defaultGroupCandidate (grp (la_ip x)) = Some c"
      using groups by (auto simp: grp_def)
    have "la_ip x = ip" using ip [OF x(2,1)] c by simp
    then show "grp ip \<noteq> []" "\<exists>c. defaultGroupCandidate (grp ip) = Some c"
      using x by (auto simp: grp_def filter_empty_conv)
  next
    assume "grp ip \<noteq> [] \<and> (\<exists>c. defaultGroupCandidate (grp ip) = Some c)"
    then obtain x c where x: "x \<in> set xs" "la_ip x = ip" and c: "defaultGroupCandidate (grp (la_ip x)) = Some c"
      by (auto simp: grp_def filter_empty_conv)
    then have "c \<in> set (default_groups xs)" using groups by (auto simp: grp_def)
    then show "ip \<in> set (map la_ip (default_groups xs))" using ip [OF c x(1)] x(2) by (metis image_eqI set_map)
  qed
qed

text \<open>
  C29: a runnable egress is the route that policy routing takes.  When the catalog calls a
  source runnable, then policy routing has a verdict for the captured rules in every order
  that respects their priorities, whatever the undecided selectors are, and every verdict is
  a best unicast default route with the table, the usable output interface and the gateway
  that the catalog reports.
\<close>

theorem runnable_egress_follows_policy_routing:
  assumes "eg_runnable (resolveOne (newSnapshot links addresses rules routes) source)"
    and "mset order = mset rules" "sorted (map pr_priority order)"
  shows "(\<exists>v. policy_routes others routes source order v) \<and>
    (\<forall>v. policy_routes others routes source order v \<longrightarrow>
       leaves_by (newSnapshot links addresses rules routes)
         (resolveOne (newSnapshot links addresses rules routes) source) v)"
proof (intro conjI allI impI)
  define s where "s = newSnapshot links addresses rules routes"
  show "\<exists>v. policy_routes others routes source order v" by (rule policy_routes_total)
  fix v assume "policy_routes others routes source order v"
  then have v: "policy_routes others (sn_routes s) source order v"
    by (rule policy_routes_cong [rotated]) (simp add: s_def)
  have sets: "clone_rule ` set order = set (sn_rules s)"
    using assms(2) by (metis s_def set_mset_mset snapshot_sets(1))
  obtain e where e: "resolveOne s source = rules_from s source e (sn_rules s)" "\<not> eg_runnable e"
    using resolveOne_runnable assms(1) unfolding s_def by blast
  show "leaves_by (newSnapshot links addresses rules routes)
         (resolveOne (newSnapshot links addresses rules routes) source) v"
    using rules_from_sound [OF _ e(2) _ _ assms(3) sets v] assms(1) snapshot_sorted e(1)
    by (simp add: s_def routes_sorted_def del: less_eq_prod_simp)
qed

text \<open>
  C30: the networks selected without being named are exactly the unambiguous ones.  An address
  is a default candidate once if it is a global unicast address and all captured facts on it
  name one usable interface and one prefix length, and otherwise never.
\<close>

theorem default_candidates_are_unambiguous:
  fixes links addresses rules routes
  defines "s \<equiv> newSnapshot links addresses rules routes"
  shows "distinct (map la_ip (DefaultCandidates s)) \<and>
    (ip \<in> set (map la_ip (DefaultCandidates s)) \<longleftrightarrow>
       IsGlobalUnicast ip \<and> (\<exists>a \<in> set addresses. pf_Addr (ao_prefix a) = ip) \<and>
       (\<forall>a \<in> set addresses. \<forall>b \<in> set addresses. pf_Addr (ao_prefix a) = ip \<and> pf_Addr (ao_prefix b) = ip \<longrightarrow>
          default_link s (ao_linkIndex a) \<and> ao_linkIndex a = ao_linkIndex b \<and>
          pf_Bits (ao_prefix a) = pf_Bits (ao_prefix b)))"
proof -
  define grp where "grp = filter (\<lambda>y. la_ip y = ip) (LocalAddresses s)"
  note groups = default_groups_sorted [OF sorted_LocalAddresses [of links addresses rules routes], folded s_def]
  have set_grp: "set grp = local_address_of (linkIndex s) ` {a \<in> set addresses. pf_Addr (ao_prefix a) = ip}"
    by (auto simp: grp_def LocalAddresses_def s_def)
  have "ip \<in> set (map la_ip (DefaultCandidates s)) \<longleftrightarrow> grp \<noteq> [] \<and> (\<exists>c. defaultGroupCandidate grp = Some c)"
    using candidate_ip_iff [OF sorted_LocalAddresses] by (simp add: grp_def DefaultCandidates_def s_def)
  also have "\<dots> \<longleftrightarrow> IsGlobalUnicast ip \<and> (\<exists>a \<in> set addresses. pf_Addr (ao_prefix a) = ip) \<and>
       (\<forall>a \<in> set addresses. \<forall>b \<in> set addresses. pf_Addr (ao_prefix a) = ip \<and> pf_Addr (ao_prefix b) = ip \<longrightarrow>
          default_link s (ao_linkIndex a) \<and> ao_linkIndex a = ao_linkIndex b \<and>
          pf_Bits (ao_prefix a) = pf_Bits (ao_prefix b))"
  proof (cases "grp = []")
    case True
    then show ?thesis using set_grp by auto
  next
    case False
    then have hd: "la_ip (hd grp) = ip" using hd_in_set [OF False] by (simp add: grp_def)
    define A where "A = {a \<in> set addresses. pf_Addr (ao_prefix a) = ip}"
    have "A \<noteq> {}" using False set_grp by (metis A_def image_is_empty set_empty)
    have "(\<forall>x \<in> set grp. \<forall>y \<in> set grp. IncludedByDefault x \<and> la_interfaceValue x = la_interfaceValue y \<and>
          la_prefixBits x = la_prefixBits y) \<longleftrightarrow>
        (\<forall>a \<in> A. \<forall>b \<in> A. default_link s (ao_linkIndex a) \<and>
          la_interfaceValue (local_address_of (linkIndex s) a) = la_interfaceValue (local_address_of (linkIndex s) b) \<and>
          pf_Bits (ao_prefix a) = pf_Bits (ao_prefix b))"
      by (simp add: set_grp A_def included_iff)
    also have "\<dots> \<longleftrightarrow> (\<forall>a \<in> A. \<forall>b \<in> A. default_link s (ao_linkIndex a) \<and> ao_linkIndex a = ao_linkIndex b \<and>
          pf_Bits (ao_prefix a) = pf_Bits (ao_prefix b))"
      using interface_eq_iff by blast
    finally show ?thesis
      using False \<open>A \<noteq> {}\<close> unfolding defaultGroupCandidate_iff [OF False] hd by (auto simp: A_def)
  qed
  finally show ?thesis using groups by (simp add: DefaultCandidates_def)
qed


definition example_link :: link_observation where
  "example_link = \<lparr>ln_index = 2, ln_name = ''eth0'', ln_kind = ''device'', ln_mtu = 1500, ln_flags = 1, ln_masterIndex = 0,
     ln_operationalState = ''up''\<rparr>"

definition example_address :: address_observation where
  "example_address = \<lparr>ao_linkIndex = 2, ao_prefix = \<lparr>pf_Addr = V4 10 0 0 2, pf_Bits = 24\<rparr>\<rparr>"

definition example_rule :: "int \<Rightarrow> int \<Rightarrow> policy_rule" where
  "example_rule priority table = \<lparr>pr_priority = priority, pr_table = table, pr_source = no_prefix, pr_destination = no_prefix,
     pr_inputInterface = no_input, pr_outputInterface = no_output, pr_unresolvedSelectors = [], pr_unsupportedEffects = [],
     pr_inverted = False, pr_action = ruleLookup\<rparr>"

definition example_route :: fib_route where
  "example_route = \<lparr>rt_table = 254, rt_destination = \<lparr>pf_Addr = V4 0 0 0 0, pf_Bits = 0\<rparr>, rt_kind = routeUnicast, rt_linkIndex = 2,
     rt_gateway = V4 10 0 0 1, rt_hasGateway = True, rt_metric = 100, rt_unsupported = []\<rparr>"

lemma example_runnable:
  "eg_runnable (resolveOne (newSnapshot [example_link] [example_address] [example_rule 9 254, example_rule 0 255] [example_route]) (V4 10 0 0 2))"
  by code_simp

theorem runnable_egress_follows_policy_routing_witness:
  "\<exists>v. policy_routes (\<lambda>_. False) [example_route] (V4 10 0 0 2) [example_rule 0 255, example_rule 9 254] v \<and>
     leaves_by (newSnapshot [example_link] [example_address] [example_rule 9 254, example_rule 0 255] [example_route])
       (resolveOne (newSnapshot [example_link] [example_address] [example_rule 9 254, example_rule 0 255] [example_route]) (V4 10 0 0 2)) v"
  using runnable_egress_follows_policy_routing [OF example_runnable, of "[example_rule 0 255, example_rule 9 254]" "\<lambda>_. False"]
  by (auto simp: example_rule_def)

theorem default_candidates_are_unambiguous_witness:
  "V4 10 0 0 2 \<in> set (map la_ip (DefaultCandidates (newSnapshot [example_link] [example_address] [] [])))"
proof -
  have "IsGlobalUnicast (V4 10 0 0 2)" by code_simp
  moreover have "default_link (newSnapshot [example_link] [example_address] [] []) (ao_linkIndex example_address)" by code_simp
  ultimately show ?thesis
    using default_candidates_are_unambiguous [of "[example_link]" "[example_address]" "[]" "[]" "V4 10 0 0 2"]
    by (simp add: example_address_def)
qed

end
