(* ===== verification/Network_Rules.thy ===== *)
theory Network_Rules
  imports Network_Catalog
begin

text \<open>
  Decoding of the policy rules that netlink delivers (\<open>networkcatalog/rules_linux.go\<close>).  The
  netlink package is a parameter: \<open>nl_DeserializeRtMsg\<close> reads the fixed header, \<open>nl_ParseRouteAttr\<close>
  splits the attributes and \<open>nl_Uint32\<close> reads an integer in the byte order of the machine.
  The constants are those of the kernel interface.

  The main theorem says that the decoder hides nothing: a rule that the catalog takes as
  decided comes from a message whose every attribute is accounted for.
\<close>

section \<open>The kernel interface\<close>

definition AF_INET :: byte where "AF_INET = 2"
definition SizeofRtMsg :: nat where "SizeofRtMsg = 12"
definition IFNAMSIZ :: nat where "IFNAMSIZ = 16"
definition RT_TABLE_UNSPEC :: byte where "RT_TABLE_UNSPEC = 0"
definition RT_TABLE_COMPAT :: byte where "RT_TABLE_COMPAT = 252"

definition FIB_RULE_PERMANENT :: u32 where "FIB_RULE_PERMANENT = 1"
definition FIB_RULE_INVERT :: u32 where "FIB_RULE_INVERT = 2"
definition FIB_RULE_IIF_DETACHED :: u32 where "FIB_RULE_IIF_DETACHED = 8"
definition FIB_RULE_OIF_DETACHED :: u32 where "FIB_RULE_OIF_DETACHED = 16"

definition NLA_TYPE_MASK :: u16 where "NLA_TYPE_MASK = 0x3fff"

datatype rule_attribute =
    FRA_UNSPEC | FRA_DST | FRA_SRC | FRA_IIFNAME | FRA_GOTO | FRA_UNUSED2 | FRA_PRIORITY | FRA_UNUSED3 | FRA_UNUSED4
  | FRA_UNUSED5 | FRA_FWMARK | FRA_FLOW | FRA_TUN_ID | FRA_SUPPRESS_IFGROUP | FRA_SUPPRESS_PREFIXLEN | FRA_TABLE | FRA_FWMASK
  | FRA_OIFNAME | FRA_PAD | FRA_L3MDEV | FRA_UID_RANGE | FRA_PROTOCOL | FRA_IP_PROTO | FRA_SPORT_RANGE | FRA_DPORT_RANGE
  | FRA_OTHER

definition attribute_table :: "rule_attribute list" where
  "attribute_table =
     [FRA_UNSPEC, FRA_DST, FRA_SRC, FRA_IIFNAME, FRA_GOTO, FRA_UNUSED2, FRA_PRIORITY, FRA_UNUSED3, FRA_UNUSED4,
      FRA_UNUSED5, FRA_FWMARK, FRA_FLOW, FRA_TUN_ID, FRA_SUPPRESS_IFGROUP, FRA_SUPPRESS_PREFIXLEN, FRA_TABLE, FRA_FWMASK,
      FRA_OIFNAME, FRA_PAD, FRA_L3MDEV, FRA_UID_RANGE, FRA_PROTOCOL, FRA_IP_PROTO, FRA_SPORT_RANGE, FRA_DPORT_RANGE]"

definition attribute_of :: "u16 \<Rightarrow> rule_attribute" where
  "attribute_of kind = (if unat kind < length attribute_table then attribute_table ! unat kind else FRA_OTHER)"

record rt_msg =
  rm_Family :: byte
  rm_Dst_len :: byte
  rm_Src_len :: byte
  rm_Tos :: byte
  rm_Table :: byte
  rm_Type :: byte
  rm_Flags :: u32

record netlink =
  nl_DeserializeRtMsg :: "byte list \<Rightarrow> rt_msg"
  nl_ParseRouteAttr :: "byte list \<Rightarrow> string + (u16 \<times> byte list) list"
  nl_Uint32 :: "byte list \<Rightarrow> u32"

datatype rule_error =
    RuleTruncated | RuleHeader | RuleAttributes string | RuleRepeats u16 | RuleSourceMissing | RuleDestinationMissing
  | RuleInputMissing | RuleOutputMissing | RuleTableMissing | RulePadding | RuleSource rule_error | RuleDestination rule_error
  | RuleInput rule_error | RuleOutput rule_error | RulePrefix | RuleName | RuleLength nat nat | RuleTableConflict u32 byte

section \<open>Decoding\<close>

definition requireRuleBytes :: "byte list \<Rightarrow> nat \<Rightarrow> rule_error + unit" where
  "requireRuleBytes v width = (if length v \<noteq> width then Inl (RuleLength (length v) width) else Inr ())"

definition ruleUint32 :: "netlink \<Rightarrow> byte list \<Rightarrow> rule_error + u32" where
  "ruleUint32 nl v = bind_r (requireRuleBytes v 4) (\<lambda>_. Inr (nl_Uint32 nl v))"

definition hasNonzeroByte :: "byte list \<Rightarrow> bool" where
  "hasNonzeroByte v \<longleftrightarrow> (\<exists>b \<in> set v. b \<noteq> 0)"

definition has_bits :: "u32 \<Rightarrow> u32 \<Rightarrow> bool" where
  "has_bits flags m \<longleftrightarrow> flags AND m \<noteq> 0"

definition linuxRuleAction :: "byte \<Rightarrow> ruleAction" where
  "linuxRuleAction v =
     (if v = 1 then ruleLookup else if v = 6 then ruleBlackhole else if v = 7 then ruleUnreachable
      else if v = 8 then ruleProhibit else if v = 3 then ruleContinue else ruleOther)"

text \<open>\<open>PrefixFrom(AddrFrom4(raw), bits).Masked()\<close>.\<close>

definition masked4 :: "nat \<Rightarrow> byte list \<Rightarrow> prefix" where
  "masked4 bits v =
     (let w = be32 (push_bit (32 - bits) (drop_bit (32 - bits) (unbe v))) in
      \<lparr>pf_Addr = V4 (w ! 0) (w ! 1) (w ! 2) (w ! 3), pf_Bits = int bits\<rparr>)"

definition rulePrefix :: "byte \<Rightarrow> byte list \<Rightarrow> rule_error + prefix" where
  "rulePrefix bits v = (if length v \<noteq> 4 \<or> bits > 32 then Inl RulePrefix else Inr (masked4 (unat bits) v))"

definition map_error :: "('e \<Rightarrow> 'f) \<Rightarrow> 'e + 'a \<Rightarrow> 'f + 'a" where
  "map_error f r = (case r of Inl e \<Rightarrow> Inl (f e) | Inr x \<Rightarrow> Inr x)"

definition ruleInterfaceName :: "byte list \<Rightarrow> rule_error + string" where
  "ruleInterfaceName v =
     (if length v < 2 \<or> length v > IFNAMSIZ \<or> last v \<noteq> 0 then Inl RuleName
      else let name = to_string (butlast v) in
        if name = [] \<or> has_nul name then Inl RuleName else Inr name)"

definition appendRuleSelector :: "byte \<Rightarrow> u16 \<Rightarrow> byte list \<Rightarrow> policy_rule \<Rightarrow> policy_rule" where
  "appendRuleSelector sel kind v rule = rule\<lparr>pr_unresolvedSelectors := pr_unresolvedSelectors rule @
     [\<lparr>us_kind = sel, us_attribute = kind, us_value = to_string v\<rparr>]\<rparr>"

definition add_effect :: "unsupported_effect \<Rightarrow> policy_rule \<Rightarrow> policy_rule" where
  "add_effect eff rule = rule\<lparr>pr_unsupportedEffects := pr_unsupportedEffects rule @ [eff]\<rparr>"

definition decodeRuleSource :: "byte \<Rightarrow> byte list \<Rightarrow> policy_rule \<Rightarrow> rule_error + policy_rule" where
  "decodeRuleSource bits v rule =
     bind_r (map_error RuleSource (rulePrefix bits v)) (\<lambda>p. Inr (rule\<lparr>pr_source := p\<rparr>))"

definition decodeRuleDestination :: "byte \<Rightarrow> byte list \<Rightarrow> policy_rule \<Rightarrow> rule_error + policy_rule" where
  "decodeRuleDestination bits v rule =
     bind_r (map_error RuleDestination (rulePrefix bits v)) (\<lambda>p. Inr (rule\<lparr>pr_destination := p\<rparr>))"

definition decodeRuleTable :: "netlink \<Rightarrow> rt_msg \<Rightarrow> byte list \<Rightarrow> policy_rule \<Rightarrow> rule_error + policy_rule" where
  "decodeRuleTable nl header v rule =
     bind_r (ruleUint32 nl v) (\<lambda>table.
       if rm_Table header \<noteq> RT_TABLE_UNSPEC \<and> rm_Table header \<noteq> RT_TABLE_COMPAT \<and> ucast (rm_Table header) \<noteq> table
       then Inl (RuleTableConflict table (rm_Table header))
       else Inr (rule\<lparr>pr_table := uint table\<rparr>))"

definition decodeRuleInputInterface :: "u32 \<Rightarrow> byte list \<Rightarrow> policy_rule \<Rightarrow> rule_error + policy_rule" where
  "decodeRuleInputInterface flags v rule =
     bind_r (map_error RuleInput (ruleInterfaceName v)) (\<lambda>name.
       let (state, index) = (if has_bits flags FIB_RULE_IIF_DETACHED then (inputInterfaceDetached, - 1)
                             else (inputInterfaceUnresolved, 0)) in
       Inr (rule\<lparr>pr_inputInterface := \<lparr>is_name = name, is_state = state, is_index = index, is_isL3Master = False\<rparr>\<rparr>))"

definition decodeRuleOutputInterface :: "u32 \<Rightarrow> byte list \<Rightarrow> policy_rule \<Rightarrow> rule_error + policy_rule" where
  "decodeRuleOutputInterface flags v rule =
     bind_r (map_error RuleOutput (ruleInterfaceName v)) (\<lambda>name.
       Inr (rule\<lparr>pr_outputInterface := \<lparr>os_name = name,
         os_state = (if has_bits flags FIB_RULE_OIF_DETACHED then outputInterfaceDetached else outputInterfaceAttached)\<rparr>\<rparr>))"

definition decodeRuleL3Master :: "u16 \<Rightarrow> byte list \<Rightarrow> policy_rule \<Rightarrow> rule_error + policy_rule" where
  "decodeRuleL3Master kind v rule =
     bind_r (requireRuleBytes v 1) (\<lambda>_.
       Inr (if hd v \<noteq> 0 then appendRuleSelector ruleSelectorL3Master kind v rule else rule))"

definition decodeRuleSuppression :: "netlink \<Rightarrow> u16 \<Rightarrow> byte list \<Rightarrow> policy_rule \<Rightarrow> rule_error + policy_rule" where
  "decodeRuleSuppression nl kind v rule =
     bind_r (ruleUint32 nl v) (\<lambda>decoded.
       Inr (if decoded \<noteq> NOT 0 then
              add_effect \<lparr>ue_kind = ruleEffectRouteSuppression, ue_attribute = kind, ue_value = to_string v, ue_flags = 0\<rparr> rule
            else rule))"

definition decodeRuleGoto :: "u16 \<Rightarrow> byte list \<Rightarrow> policy_rule \<Rightarrow> rule_error + policy_rule" where
  "decodeRuleGoto kind v rule =
     bind_r (requireRuleBytes v 4) (\<lambda>_.
       Inr (add_effect \<lparr>ue_kind = ruleEffectGoto, ue_attribute = kind, ue_value = to_string v, ue_flags = 0\<rparr> rule))"

definition decodeRuleFixedSelector :: "byte \<Rightarrow> u16 \<Rightarrow> byte list \<Rightarrow> nat \<Rightarrow> policy_rule \<Rightarrow> rule_error + policy_rule" where
  "decodeRuleFixedSelector sel kind v width rule =
     bind_r (requireRuleBytes v width) (\<lambda>_. Inr (appendRuleSelector sel kind v rule))"

definition decodeRuleAttribute :: "netlink \<Rightarrow> rt_msg \<Rightarrow> u16 \<Rightarrow> byte list \<Rightarrow> policy_rule \<Rightarrow> rule_error + policy_rule" where
  "decodeRuleAttribute nl header kind v rule =
     (case attribute_of kind of
        FRA_SRC \<Rightarrow> decodeRuleSource (rm_Src_len header) v rule
      | FRA_DST \<Rightarrow> decodeRuleDestination (rm_Dst_len header) v rule
      | FRA_TABLE \<Rightarrow> decodeRuleTable nl header v rule
      | FRA_PRIORITY \<Rightarrow> bind_r (ruleUint32 nl v) (\<lambda>decoded. Inr (rule\<lparr>pr_priority := uint decoded\<rparr>))
      | FRA_PROTOCOL \<Rightarrow> bind_r (requireRuleBytes v 1) (\<lambda>_. Inr rule)
      | FRA_IIFNAME \<Rightarrow> decodeRuleInputInterface (rm_Flags header) v rule
      | FRA_L3MDEV \<Rightarrow> decodeRuleL3Master kind v rule
      | FRA_SUPPRESS_IFGROUP \<Rightarrow> decodeRuleSuppression nl kind v rule
      | FRA_SUPPRESS_PREFIXLEN \<Rightarrow> decodeRuleSuppression nl kind v rule
      | FRA_GOTO \<Rightarrow> decodeRuleGoto kind v rule
      | FRA_FWMARK \<Rightarrow> decodeRuleFixedSelector ruleSelectorFirewallMark kind v 4 rule
      | FRA_FWMASK \<Rightarrow> decodeRuleFixedSelector ruleSelectorFirewallMark kind v 4 rule
      | FRA_OIFNAME \<Rightarrow> decodeRuleOutputInterface (rm_Flags header) v rule
      | FRA_UID_RANGE \<Rightarrow> decodeRuleFixedSelector ruleSelectorUIDRange kind v 8 rule
      | FRA_IP_PROTO \<Rightarrow> decodeRuleFixedSelector ruleSelectorTransport kind v 1 rule
      | FRA_SPORT_RANGE \<Rightarrow> decodeRuleFixedSelector ruleSelectorTransport kind v 4 rule
      | FRA_DPORT_RANGE \<Rightarrow> decodeRuleFixedSelector ruleSelectorTransport kind v 4 rule
      | FRA_TUN_ID \<Rightarrow> decodeRuleFixedSelector ruleSelectorTunnelID kind v 8 rule
      | FRA_FLOW \<Rightarrow> decodeRuleFixedSelector ruleSelectorFlowRealm kind v 4 rule
      | FRA_PAD \<Rightarrow> if hasNonzeroByte v then Inl RulePadding else Inr rule
      | FRA_OTHER \<Rightarrow> Inr (appendRuleSelector ruleSelectorUnknownAttribute kind v rule)
      | _ \<Rightarrow> Inr (if hasNonzeroByte v then appendRuleSelector ruleSelectorUnknownAttribute kind v rule else rule))"

definition hasRuleAttribute :: "u16 list \<Rightarrow> rule_attribute \<Rightarrow> bool" where
  "hasRuleAttribute seen kind \<longleftrightarrow> kind \<in> attribute_of ` set seen"

definition validateRuleAttributes :: "rt_msg \<Rightarrow> u16 list \<Rightarrow> rule_error + unit" where
  "validateRuleAttributes header seen =
     (if rm_Src_len header > 0 \<and> \<not> hasRuleAttribute seen FRA_SRC then Inl RuleSourceMissing
      else if rm_Dst_len header > 0 \<and> \<not> hasRuleAttribute seen FRA_DST then Inl RuleDestinationMissing
      else if has_bits (rm_Flags header) FIB_RULE_IIF_DETACHED \<and> \<not> hasRuleAttribute seen FRA_IIFNAME then Inl RuleInputMissing
      else if has_bits (rm_Flags header) FIB_RULE_OIF_DETACHED \<and> \<not> hasRuleAttribute seen FRA_OIFNAME then Inl RuleOutputMissing
      else if rm_Table header = RT_TABLE_COMPAT \<and> \<not> hasRuleAttribute seen FRA_TABLE then Inl RuleTableMissing
      else Inr ())"

text \<open>The loop of \<open>decodeRuleAttributes\<close> with the attribute kinds seen so far.\<close>

fun decode_attributes ::
  "netlink \<Rightarrow> rt_msg \<Rightarrow> u16 list \<Rightarrow> (u16 \<times> byte list) list \<Rightarrow> policy_rule \<Rightarrow> rule_error + u16 list \<times> policy_rule" where
  "decode_attributes nl header seen [] rule = Inr (seen, rule)"
| "decode_attributes nl header seen ((raw, v) # attributes) rule =
     (let kind = raw AND NLA_TYPE_MASK in
      if kind \<in> set seen \<and> attribute_of kind \<noteq> FRA_PAD then Inl (RuleRepeats kind)
      else bind_r (decodeRuleAttribute nl header kind v rule)
        (decode_attributes nl header (seen @ [kind]) attributes))"

definition decodeRuleAttributes ::
  "netlink \<Rightarrow> rt_msg \<Rightarrow> (u16 \<times> byte list) list \<Rightarrow> policy_rule \<Rightarrow> rule_error + policy_rule" where
  "decodeRuleAttributes nl header attributes rule =
     bind_r (decode_attributes nl header [] attributes rule) (\<lambda>(seen, rule).
       bind_r (validateRuleAttributes header seen) (\<lambda>_. Inr rule))"

definition understood :: u32 where
  "understood = FIB_RULE_PERMANENT OR FIB_RULE_INVERT OR FIB_RULE_IIF_DETACHED OR FIB_RULE_OIF_DETACHED"

definition decodeRuleHeader :: "rt_msg \<Rightarrow> policy_rule \<Rightarrow> policy_rule" where
  "decodeRuleHeader header rule =
     (let rule = (if rm_Tos header \<noteq> 0 then appendRuleSelector ruleSelectorTypeOfService 0 [rm_Tos header] rule else rule);
          flags = rm_Flags header AND NOT understood in
      if flags \<noteq> 0 then
        add_effect \<lparr>ue_kind = ruleEffectHeaderFlags, ue_attribute = 0, ue_value = [], ue_flags = flags\<rparr> rule
      else rule)"

definition defaultPrefix :: prefix where
  "defaultPrefix = \<lparr>pf_Addr = V4 0 0 0 0, pf_Bits = 0\<rparr>"

definition header_rule :: "rt_msg \<Rightarrow> policy_rule" where
  "header_rule header =
     \<lparr>pr_priority = 0, pr_table = uint (rm_Table header), pr_source = defaultPrefix, pr_destination = defaultPrefix,
      pr_inputInterface = no_input, pr_outputInterface = no_output, pr_unresolvedSelectors = [], pr_unsupportedEffects = [],
      pr_inverted = has_bits (rm_Flags header) FIB_RULE_INVERT, pr_action = linuxRuleAction (rm_Type header)\<rparr>"

definition decodePolicyRule :: "netlink \<Rightarrow> byte list \<Rightarrow> rule_error + policy_rule" where
  "decodePolicyRule nl message =
     (if length message < SizeofRtMsg then Inl RuleTruncated
      else let header = nl_DeserializeRtMsg nl message in
        if rm_Family header \<noteq> AF_INET \<or> rm_Src_len header > 32 \<or> rm_Dst_len header > 32 then Inl RuleHeader
        else bind_r (map_error RuleAttributes (nl_ParseRouteAttr nl (drop SizeofRtMsg message))) (\<lambda>attributes.
          decodeRuleAttributes nl header attributes (decodeRuleHeader header (header_rule header))))"


section \<open>Prefixes\<close>

lemma drop_bit_eq_0_xor: "drop_bit k (a XOR b) = 0 \<longleftrightarrow> drop_bit k a = drop_bit k (b :: 'a::len word)"
  by (auto simp: bit_eq_iff bit_simps)

lemma unbe_ucast:
  "8 * length bs \<le> LENGTH('b) \<Longrightarrow> LENGTH('b) \<le> LENGTH('a) \<Longrightarrow> (unbe bs :: 'a::len word) = ucast (unbe bs :: 'b::len word)"
proof (induction bs rule: rev_induct)
  case (snoc b bs)
  show ?case
  proof (rule bit_word_eqI)
    fix n assume "n < LENGTH('a)"
    have "bit (unbe bs :: 'b word) (n - 8) \<Longrightarrow> 8 \<le> n \<Longrightarrow> n < LENGTH('b)"
      using bit_unbe_less [of bs "n - 8", where ?'a = 'b] snoc.prems by simp
    moreover have "bit b n \<Longrightarrow> n < LENGTH('b)"
      using bit_imp_le_length [of b n] snoc.prems by simp
    ultimately show "bit (unbe (bs @ [b]) :: 'a word) n = bit (ucast (unbe (bs @ [b]) :: 'b word) :: 'a word) n"
      using snoc by (auto simp: unbe_snoc bit_simps)
  qed
qed simp

lemma drop_bit_ucast_eq:
  "drop_bit k (ucast (a :: u32) :: 128 word) = drop_bit k (ucast b) \<longleftrightarrow> drop_bit k a = drop_bit k b"
proof -
  have "drop_bit k (ucast (a :: u32) :: 128 word) = ucast (drop_bit k a)" for a
    by (rule bit_word_eqI) (auto simp: bit_simps dest: bit_imp_le_length)
  moreover have "ucast (ucast x :: 128 word) = (x :: u32)" for x by (rule bit_word_eqI) (simp add: bit_simps)
  ultimately show ?thesis by metis
qed

lemma drop_push_drop: "k \<le> 32 \<Longrightarrow> drop_bit k (push_bit k (drop_bit k w)) = drop_bit k (w :: u32)"
  by (rule bit_word_eqI) (auto simp: bit_simps dest: bit_imp_le_length)

lemma list4: "length xs = 4 \<Longrightarrow> [xs ! 0, xs ! 1, xs ! 2, xs ! 3] = xs"
  by (simp add: list_eq_iff_nth_eq less_Suc_eq numeral_eq_Suc)

text \<open>A masked prefix contains the addresses that share its first bits.\<close>

definition same_network :: "nat \<Rightarrow> byte list \<Rightarrow> addr \<Rightarrow> bool" where
  "same_network bits v ip =
     (case ip of V4 a b c d \<Rightarrow> drop_bit (32 - bits) (unbe [a, b, c, d] :: u32) = drop_bit (32 - bits) (unbe v) | _ \<Rightarrow> False)"

lemma Contains_masked4:
  assumes "bits \<le> 32" "length v = 4"
  shows "Contains (masked4 bits v) ip \<longleftrightarrow> same_network bits v ip"
proof (cases ip)
  case (V4 a b c d)
  define w where "w = (push_bit (32 - bits) (drop_bit (32 - bits) (unbe v)) :: u32)"
  have eq: "[be32 w ! 0, be32 w ! 1, be32 w ! 2, be32 w ! 3] = be32 w" by (rule list4) simp
  have addr: "addr_word (pf_Addr (masked4 bits v)) = ucast w"
    using eq by (simp add: masked4_def Let_def addr_word_def w_def [symmetric] unbe_ucast [where ?'a = 128 and ?'b = 32])
  have "drop_bit (32 - bits) (addr_word ip XOR addr_word (pf_Addr (masked4 bits v))) = 0 \<longleftrightarrow>
      drop_bit (32 - bits) (ucast (unbe [a, b, c, d] :: u32) :: 128 word) = drop_bit (32 - bits) (ucast w)"
    unfolding drop_bit_eq_0_xor addr by (simp add: addr_word_def V4 unbe_ucast [where ?'a = 128 and ?'b = 32])
  also have "\<dots> \<longleftrightarrow> drop_bit (32 - bits) (unbe [a, b, c, d] :: u32) = drop_bit (32 - bits) w"
    by (rule drop_bit_ucast_eq)
  finally show ?thesis
    using assms(1) by (simp add: Contains_def V4 same_network_def masked4_def Let_def pf_IsValid_def zone_of_def BitLen_def
        w_def drop_push_drop)
qed (simp_all add: Contains_def same_network_def masked4_def Let_def BitLen_def)

section \<open>Accounting\<close>

definition recorded :: "policy_rule \<Rightarrow> u16 \<Rightarrow> byte list \<Rightarrow> bool" where
  "recorded rule kind v \<longleftrightarrow>
     (\<exists>sel \<in> set (pr_unresolvedSelectors rule). us_attribute sel = kind \<and> us_value sel = to_string v)"

definition refused :: "policy_rule \<Rightarrow> u16 \<Rightarrow> byte list \<Rightarrow> bool" where
  "refused rule kind v \<longleftrightarrow>
     (\<exists>eff \<in> set (pr_unsupportedEffects rule). ue_attribute eff = kind \<and> ue_value eff = to_string v)"

definition accounted :: "netlink \<Rightarrow> rt_msg \<Rightarrow> policy_rule \<Rightarrow> u16 \<Rightarrow> byte list \<Rightarrow> bool" where
  "accounted nl header rule kind v =
     (case attribute_of kind of
        FRA_SRC \<Rightarrow> length v = 4 \<and> pr_source rule = masked4 (unat (rm_Src_len header)) v
      | FRA_DST \<Rightarrow> length v = 4 \<and> pr_destination rule = masked4 (unat (rm_Dst_len header)) v
      | FRA_TABLE \<Rightarrow> pr_table rule = uint (nl_Uint32 nl v)
      | FRA_PRIORITY \<Rightarrow> pr_priority rule = uint (nl_Uint32 nl v)
      | FRA_IIFNAME \<Rightarrow> is_name (pr_inputInterface rule) \<noteq> [] \<and> v = to_bytes (is_name (pr_inputInterface rule)) @ [0]
      | FRA_OIFNAME \<Rightarrow> os_name (pr_outputInterface rule) \<noteq> [] \<and> v = to_bytes (os_name (pr_outputInterface rule)) @ [0]
      | FRA_L3MDEV \<Rightarrow> v = [0] \<or> recorded rule kind v
      | FRA_SUPPRESS_IFGROUP \<Rightarrow> nl_Uint32 nl v = NOT 0 \<or> refused rule kind v
      | FRA_SUPPRESS_PREFIXLEN \<Rightarrow> nl_Uint32 nl v = NOT 0 \<or> refused rule kind v
      | FRA_GOTO \<Rightarrow> refused rule kind v
      | FRA_PROTOCOL \<Rightarrow> length v = 1
      | a \<Rightarrow> (if a \<in> {FRA_PAD, FRA_UNSPEC, FRA_UNUSED2, FRA_UNUSED3, FRA_UNUSED4, FRA_UNUSED5} then \<not> hasNonzeroByte v else False)
          \<or> recorded rule kind v)"

lemma attribute_of_inj: "attribute_of k = attribute_of k' \<Longrightarrow> attribute_of k \<noteq> FRA_OTHER \<Longrightarrow> k = k'"
proof -
  assume eq: "attribute_of k = attribute_of k'" and ne: "attribute_of k \<noteq> FRA_OTHER"
  have d: "distinct attribute_table" by code_simp
  from ne have "unat k < length attribute_table" by (auto simp: attribute_of_def split: if_splits)
  moreover from eq ne have "unat k' < length attribute_table" by (auto simp: attribute_of_def split: if_splits)
  ultimately show "k = k'" using eq d by (simp add: attribute_of_def nth_eq_iff_index_eq word_unat_eq_iff)
qed

lemmas decode_defs = decodeRuleSource_def decodeRuleDestination_def decodeRuleTable_def decodeRuleInputInterface_def
  decodeRuleOutputInterface_def decodeRuleL3Master_def decodeRuleSuppression_def decodeRuleGoto_def
  decodeRuleFixedSelector_def ruleUint32_def requireRuleBytes_def rulePrefix_def map_error_def appendRuleSelector_def add_effect_def

lemma decode_frame:
  assumes "decodeRuleAttribute nl header kind v rule = Inr rule'"
  shows "attribute_of kind \<noteq> FRA_SRC \<Longrightarrow> pr_source rule' = pr_source rule"
    and "attribute_of kind \<noteq> FRA_DST \<Longrightarrow> pr_destination rule' = pr_destination rule"
    and "attribute_of kind \<noteq> FRA_TABLE \<Longrightarrow> pr_table rule' = pr_table rule"
    and "attribute_of kind \<noteq> FRA_PRIORITY \<Longrightarrow> pr_priority rule' = pr_priority rule"
    and "attribute_of kind \<noteq> FRA_IIFNAME \<Longrightarrow> pr_inputInterface rule' = pr_inputInterface rule"
    and "attribute_of kind \<noteq> FRA_OIFNAME \<Longrightarrow> pr_outputInterface rule' = pr_outputInterface rule"
    and "set (pr_unresolvedSelectors rule) \<subseteq> set (pr_unresolvedSelectors rule')"
    and "set (pr_unsupportedEffects rule) \<subseteq> set (pr_unsupportedEffects rule')"
    and "pr_inverted rule' = pr_inverted rule" "pr_action rule' = pr_action rule"
  using assms unfolding decodeRuleAttribute_def
  by (cases "attribute_of kind"; auto simp: decode_defs result_simps Let_def split: if_splits sum.splits)+


lemma ruleInterfaceName_Inr:
  assumes "ruleInterfaceName v = Inr name"
  shows "name \<noteq> [] \<and> v = to_bytes name @ [0]"
proof -
  from assms have v: "v \<noteq> []" "last v = 0" and n: "name = to_string (butlast v)" "name \<noteq> []"
    by (auto simp: ruleInterfaceName_def Let_def split: if_splits)
  then show ?thesis by (metis append_butlast_last_id to_bytes_to_string)
qed

lemma recorded_append [simp]: "recorded (rule\<lparr>pr_unresolvedSelectors := sels @ [\<lparr>us_kind = s, us_attribute = k, us_value = to_string v\<rparr>]\<rparr>) k v"
  by (simp add: recorded_def)

lemma refused_append [simp]:
  "refused (rule\<lparr>pr_unsupportedEffects := effs @ [\<lparr>ue_kind = s, ue_attribute = k, ue_value = to_string v, ue_flags = f\<rparr>]\<rparr>) k v"
  by (simp add: refused_def)

lemma decode_accounted:
  assumes "decodeRuleAttribute nl header kind v rule = Inr rule'"
  shows "accounted nl header rule' kind v"
  using assms unfolding decodeRuleAttribute_def accounted_def
  by (cases "attribute_of kind"; simp add: decode_defs result_simps Let_def split: if_splits sum.splits;
      (cases v; simp)?; (auto dest: ruleInterfaceName_Inr)?)

lemma accounted_kept:
  assumes "decodeRuleAttribute nl header kind v rule = Inr rule'" "accounted nl header rule k w"
    and "k \<noteq> kind \<or> attribute_of k = FRA_PAD"
  shows "accounted nl header rule' k w"
proof -
  have rec: "recorded rule k w \<Longrightarrow> recorded rule' k w" and ref: "refused rule k w \<Longrightarrow> refused rule' k w"
    using decode_frame(7,8) [OF assms(1)] by (auto simp: recorded_def refused_def)
  have ne: "attribute_of k \<noteq> attribute_of kind \<or> attribute_of k \<in> {FRA_OTHER, FRA_PAD}"
    using assms(3) attribute_of_inj by blast
  note frame = decode_frame(1-6) [OF assms(1)]
  show ?thesis
    using assms(2) ne frame rec ref unfolding accounted_def by (cases "attribute_of k") auto
qed

definition decoded_to :: "policy_rule \<Rightarrow> u16 list \<Rightarrow> policy_rule \<Rightarrow> bool" where
  "decoded_to rule kinds rule' \<longleftrightarrow>
     set (pr_unresolvedSelectors rule) \<subseteq> set (pr_unresolvedSelectors rule') \<and>
     set (pr_unsupportedEffects rule) \<subseteq> set (pr_unsupportedEffects rule') \<and>
     pr_inverted rule' = pr_inverted rule \<and> pr_action rule' = pr_action rule \<and>
     (FRA_SRC \<notin> attribute_of ` set kinds \<longrightarrow> pr_source rule' = pr_source rule)"

lemma decode_attributes_accounted:
  assumes "decode_attributes nl header seen attributes rule = Inr (seen', rule')"
  shows "seen' = seen @ map (\<lambda>(raw, v). raw AND NLA_TYPE_MASK) attributes \<and>
    (\<forall>(raw, v) \<in> set attributes. accounted nl header rule' (raw AND NLA_TYPE_MASK) v) \<and>
    (\<forall>k w. k \<in> set seen \<and> accounted nl header rule k w \<longrightarrow> accounted nl header rule' k w) \<and>
    decoded_to rule (map (\<lambda>(raw, v). raw AND NLA_TYPE_MASK) attributes) rule'"
  using assms
proof (induction nl header seen attributes rule arbitrary: seen' rule' rule: decode_attributes.induct)
  case (2 nl header seen raw v attributes rule)
  define kind where "kind = raw AND NLA_TYPE_MASK"
  have new: "\<not> (kind \<in> set seen \<and> attribute_of kind \<noteq> FRA_PAD)"
    using "2.prems" unfolding kind_def by (auto simp: Let_def split: if_splits)
  then obtain rule1 where one: "decodeRuleAttribute nl header kind v rule = Inr rule1"
    and rest: "decode_attributes nl header (seen @ [kind]) attributes rule1 = Inr (seen', rule')"
    using "2.prems" by (auto simp: kind_def Let_def result_simps split: if_splits)
  note IH = "2.IH" [OF kind_def new one rest]
  have "accounted nl header rule' kind v" using IH decode_accounted [OF one] by simp
  moreover have "accounted nl header rule' k w" if "k \<in> set seen" "accounted nl header rule k w" for k w
    using IH accounted_kept [OF one that(2)] new that(1) by auto
  moreover have "decoded_to rule [kind] rule1"
    using decode_frame [OF one] by (auto simp: decoded_to_def)
  ultimately show ?case using IH by (auto simp: decoded_to_def kind_def)
qed (simp add: decoded_to_def)

lemma header_facts:
  defines "rule \<equiv> \<lambda>header. decodeRuleHeader header (header_rule header)"
  shows "pr_source (rule header) = defaultPrefix" "pr_inverted (rule header) = has_bits (rm_Flags header) FIB_RULE_INVERT"
    "pr_action (rule header) = linuxRuleAction (rm_Type header)"
    "rm_Tos header \<noteq> 0 \<Longrightarrow> pr_unresolvedSelectors (rule header) \<noteq> []"
    "rm_Flags header AND NOT understood \<noteq> 0 \<Longrightarrow> pr_unsupportedEffects (rule header) \<noteq> []"
  by (simp_all add: rule_def decodeRuleHeader_def header_rule_def appendRuleSelector_def add_effect_def Let_def)

lemma same_network_0: "same_network 0 v ip \<longleftrightarrow> Is4 ip"
proof -
  have "drop_bit 32 w = 0" for w :: u32 by (rule bit_word_eqI) (auto simp: bit_simps dest: bit_imp_le_length)
  then show ?thesis by (simp add: same_network_def Is4_def split: addr.splits)
qed

lemma same_network_Is4: "same_network bits v ip \<Longrightarrow> Is4 ip"
  by (simp add: same_network_def Is4_def split: addr.splits)

lemma Contains_defaultPrefix: "Contains defaultPrefix ip \<longleftrightarrow> Is4 ip"
proof -
  have "defaultPrefix = masked4 0 [0, 0, 0, 0]" by code_simp
  moreover have "Contains (masked4 0 [0, 0, 0, 0]) ip \<longleftrightarrow> Is4 ip"
    by (subst Contains_masked4) (simp_all add: same_network_0)
  ultimately show ?thesis by metis
qed

lemma source_network:
  assumes "\<forall>(raw, v) \<in> set attributes. accounted nl header rule (raw AND NLA_TYPE_MASK) v" "rm_Src_len header \<le> 32"
    and "(\<nexists>raw v. (raw, v) \<in> set attributes \<and> attribute_of (raw AND NLA_TYPE_MASK) = FRA_SRC) \<Longrightarrow>
      pr_source rule = defaultPrefix \<and> rm_Src_len header = 0"
  shows "Contains (pr_source rule) ip \<longleftrightarrow>
       Is4 ip \<and> (rm_Src_len header = 0 \<or>
         (\<exists>(raw, v) \<in> set attributes. attribute_of (raw AND NLA_TYPE_MASK) = FRA_SRC \<and>
            same_network (unat (rm_Src_len header)) v ip))"
proof (cases "\<exists>raw v. (raw, v) \<in> set attributes \<and> attribute_of (raw AND NLA_TYPE_MASK) = FRA_SRC")
  case True
  have bits: "unat (rm_Src_len header) \<le> 32" using assms(2) by (simp add: word_le_nat_alt)
  have all: "Contains (pr_source rule) ip \<longleftrightarrow> same_network (unat (rm_Src_len header)) v ip"
    if "(raw, v) \<in> set attributes" "attribute_of (raw AND NLA_TYPE_MASK) = FRA_SRC" for raw v
    using bspec [OF assms(1) that(1)] that(2) Contains_masked4 [OF bits] by (simp add: accounted_def)
  show ?thesis
  proof (cases "rm_Src_len header = 0")
    case True
    then show ?thesis using \<open>\<exists>raw v. _\<close> all same_network_0 by auto
  next
    case False
    then show ?thesis using True all same_network_Is4 by blast
  qed
next
  case False
  then show ?thesis using assms(3) by (auto simp: Contains_defaultPrefix)
qed

text \<open>
  C31: the decoder of policy rules hides nothing.  When a message is accepted, every attribute
  of it is accounted for in the rule: it became the prefix, table, priority or interface of
  the rule, it has its neutral value, or it is kept as a selector or effect that stops the
  catalog from deciding.  The type of service and unknown flags are kept in the same way, and
  the source of the rule contains exactly the addresses in the network of the message.
\<close>

theorem decoded_rules_account_for_every_attribute:
  assumes "decodePolicyRule nl message = Inr rule"
  shows "\<exists>header attributes. header = nl_DeserializeRtMsg nl message \<and>
    nl_ParseRouteAttr nl (drop SizeofRtMsg message) = Inr attributes \<and>
    (\<forall>(raw, v) \<in> set attributes. accounted nl header rule (raw AND NLA_TYPE_MASK) v) \<and>
    (rm_Tos header \<noteq> 0 \<longrightarrow> undetermined rule) \<and>
    (rm_Flags header AND NOT understood \<noteq> 0 \<longrightarrow> pr_unsupportedEffects rule \<noteq> []) \<and>
    pr_inverted rule = has_bits (rm_Flags header) FIB_RULE_INVERT \<and> pr_action rule = linuxRuleAction (rm_Type header) \<and>
    (\<forall>ip. Contains (pr_source rule) ip \<longleftrightarrow>
       Is4 ip \<and> (rm_Src_len header = 0 \<or>
         (\<exists>(raw, v) \<in> set attributes. attribute_of (raw AND NLA_TYPE_MASK) = FRA_SRC \<and>
            same_network (unat (rm_Src_len header)) v ip)))"
proof -
  define header where "header = nl_DeserializeRtMsg nl message"
  define rule0 where "rule0 = decodeRuleHeader header (header_rule header)"
  from assms obtain attributes seen where
    parse: "nl_ParseRouteAttr nl (drop SizeofRtMsg message) = Inr attributes" and len: "rm_Src_len header \<le> 32"
    and dec: "decode_attributes nl header [] attributes rule0 = Inr (seen, rule)"
    and ok: "validateRuleAttributes header seen = Inr ()"
    by (auto simp: decodePolicyRule_def decodeRuleAttributes_def result_simps Let_def map_error_def header_def rule0_def not_less
        split: if_splits sum.splits)
  note acc = decode_attributes_accounted [OF dec]
  have seen: "seen = map (\<lambda>(raw, v). raw AND NLA_TYPE_MASK) attributes" and to: "decoded_to rule0 seen rule"
    and all: "\<forall>(raw, v) \<in> set attributes. accounted nl header rule (raw AND NLA_TYPE_MASK) v"
    using acc by auto
  have "pr_source rule = defaultPrefix \<and> rm_Src_len header = 0"
    if none: "\<nexists>raw v. (raw, v) \<in> set attributes \<and> attribute_of (raw AND NLA_TYPE_MASK) = FRA_SRC"
  proof -
    have "FRA_SRC \<notin> attribute_of ` set seen" using none by (auto simp: seen)
    then show ?thesis
      using to ok header_facts(1) [of header]
      by (auto simp: decoded_to_def rule0_def validateRuleAttributes_def hasRuleAttribute_def word_gt_0 split: if_splits)
  qed
  note source = source_network [OF all len this]
  have "rm_Tos header \<noteq> 0 \<longrightarrow> undetermined rule" "rm_Flags header AND NOT understood \<noteq> 0 \<longrightarrow> pr_unsupportedEffects rule \<noteq> []"
    using to header_facts(4,5) [of header] by (auto simp: decoded_to_def rule0_def undetermined_def)
  moreover have "pr_inverted rule = has_bits (rm_Flags header) FIB_RULE_INVERT" "pr_action rule = linuxRuleAction (rm_Type header)"
    using to header_facts(2,3) [of header] by (auto simp: decoded_to_def rule0_def)
  ultimately show ?thesis using parse all source header_def by blast
qed


definition example_netlink :: netlink where
  "example_netlink =
     \<lparr>nl_DeserializeRtMsg = (\<lambda>m. \<lparr>rm_Family = m ! 0, rm_Dst_len = m ! 1, rm_Src_len = m ! 2, rm_Tos = m ! 3, rm_Table = m ! 4,
        rm_Type = m ! 7, rm_Flags = unbe (rev (take 4 (drop 8 m)))\<rparr>),
      nl_ParseRouteAttr = (\<lambda>bs. if length bs = 8 then Inr [(unbe (rev (take 2 (drop 2 bs))), drop 4 bs)] else Inl ''truncated''),
      nl_Uint32 = (\<lambda>v. unbe (rev v))\<rparr>"

definition example_message :: "byte list" where
  "example_message = [2, 0, 24, 0, 254, 0, 0, 1, 0, 0, 0, 0, 8, 0, 2, 0, 10, 0, 0, 7]"

theorem decoded_rules_account_for_every_attribute_witness:
  "\<exists>rule attributes. decodePolicyRule example_netlink example_message = Inr rule \<and>
    nl_ParseRouteAttr example_netlink (drop SizeofRtMsg example_message) = Inr attributes \<and>
    (\<forall>(raw, v) \<in> set attributes. accounted example_netlink (nl_DeserializeRtMsg example_netlink example_message) rule
       (raw AND NLA_TYPE_MASK) v)"
proof -
  have "is_ok (decodePolicyRule example_netlink example_message)" by code_simp
  then obtain rule where rule: "decodePolicyRule example_netlink example_message = Inr rule" by (auto simp: is_ok_iff)
  from decoded_rules_account_for_every_attribute [OF this] rule show ?thesis by metis
qed

end
