(* ===== verification/Network_Capture.thy ===== *)
theory Network_Capture
  imports Network_Rules
begin

text \<open>
  Capture of a snapshot (\<open>networkcatalog/capture_linux.go\<close>).  The reader of the kernel's
  tables is the interface \<open>linuxNetworkReader\<close> of the code: five calls that take and return
  the state of the world, so that two reads of the same table may differ.  The capture
  resolves the input interfaces of the rules, observes every referenced link and its
  masters, reads the rules and links a second time and keeps only what did not change.

  \<open>None\<close> is a capture that does not return: the chain of masters is followed as long as the
  reader reports new ones.  The netlink values that \<open>decodeRoute\<close> and \<open>linuxIPv4Prefix\<close>
  read are records with the fields the code uses.
\<close>

section \<open>Netlink values\<close>

text \<open>\<open>net.IPNet\<close>, \<open>netip.AddrFromSlice\<close> and \<open>net.IPMask.Size\<close>.\<close>

record ip_net =
  in_IP :: "byte list"
  in_Mask :: "byte list"

definition AddrFromSlice :: "byte list \<Rightarrow> addr option" where
  "AddrFromSlice bs =
     (if length bs = 4 then Some (V4 (bs ! 0) (bs ! 1) (bs ! 2) (bs ! 3))
      else if length bs = 16 then
        (let g = (\<lambda>i. unbe [bs ! (2 * i), bs ! (2 * i + 1)]) in Some (V6 (g 0) (g 1) (g 2) (g 3) (g 4) (g 5) (g 6) (g 7) []))
      else None)"

definition mask_bits :: "byte list \<Rightarrow> bool list" where
  "mask_bits m = concat (map (\<lambda>b. map (bit b) (rev [0..<8])) m)"

definition mask_Size :: "byte list \<Rightarrow> nat \<times> nat" where
  "mask_Size m =
     (let bs = mask_bits m; ones = length (takeWhile id bs) in
      if True \<in> set (drop ones bs) then (0, 0) else (ones, 8 * length m))"

datatype address_error = AddressEmpty | AddressNotIPv4 | AddressMask int nat

definition linuxIPv4Prefix :: "ip_net option \<Rightarrow> address_error + prefix" where
  "linuxIPv4Prefix net =
     (case net of
        None \<Rightarrow> Inl AddressEmpty
      | Some n \<Rightarrow>
          (case AddrFromSlice (in_IP n) of
             None \<Rightarrow> Inl AddressNotIPv4
           | Some a \<Rightarrow>
               if \<not> Is4 (Unmap a) then Inl AddressNotIPv4
               else
                 let (ones, bits) = mask_Size (in_Mask n);
                     (ones, bits) = (if bits = 128 \<and> Is4In6 a then (int ones - 96, 32) else (int ones, bits)) in
                 if bits \<noteq> 32 \<or> ones < 0 \<or> ones > 32 then Inl (AddressMask ones bits)
                 else Inr \<lparr>pf_Addr = Unmap a, pf_Bits = ones\<rparr>))"

definition linuxRouteKind :: "int \<Rightarrow> routeKind" where
  "linuxRouteKind kind =
     (if kind = 1 then routeUnicast else if kind = 9 then routeThrow else if kind = 7 then routeUnreachable
      else if kind = 6 then routeBlackhole else if kind = 8 then routeProhibit else routeUnsupported)"

record netlink_route =
  nr_Table :: int
  nr_Dst :: "ip_net option"
  nr_Type :: int
  nr_LinkIndex :: int
  nr_Priority :: int
  nr_MultiPath :: nat
  nr_Tos :: int
  nr_ILinkIndex :: int
  nr_Encap :: bool
  nr_Via :: bool
  nr_NewDst :: bool
  nr_Gw :: "byte list"

datatype route_error = RouteDestination int address_error | RouteGateway int

definition masked_address :: "int \<Rightarrow> addr \<Rightarrow> addr" where
  "masked_address bits a = (case a of V4 p q r s \<Rightarrow> pf_Addr (masked4 (nat bits) [p, q, r, s]) | _ \<Rightarrow> a)"

definition route_destination :: "netlink_route \<Rightarrow> route_error + prefix" where
  "route_destination route =
     (case nr_Dst route of
        None \<Rightarrow> Inr defaultPrefix
      | Some net \<Rightarrow>
          bind_r (map_error (RouteDestination (nr_Table route)) (linuxIPv4Prefix (Some net))) (\<lambda>p.
            Inr \<lparr>pf_Addr = masked_address (pf_Bits p) (pf_Addr p), pf_Bits = pf_Bits p\<rparr>))"

definition route_kind :: "netlink_route \<Rightarrow> routeKind \<times> string" where
  "route_kind route =
     (if nr_Tos route \<noteq> 0 \<or> nr_ILinkIndex route \<noteq> 0 \<or> nr_Encap route \<or> nr_Via route \<or> nr_NewDst route then
        (routeUnsupported, ''route has selectors or encapsulation not determined by source'')
      else if nr_MultiPath route \<noteq> 0 then
        (routeUnsupported, ''multipath route requires destination-dependent selection'')
      else (linuxRouteKind (nr_Type route), []))"

definition route_gateway :: "netlink_route \<Rightarrow> route_error + addr \<times> bool" where
  "route_gateway route =
     (if nr_Gw route = [] then Inr (NoAddr, False)
      else case AddrFromSlice (nr_Gw route) of
        None \<Rightarrow> Inl (RouteGateway (nr_Table route))
      | Some a \<Rightarrow> if \<not> Is4 (Unmap a) then Inl (RouteGateway (nr_Table route)) else Inr (Unmap a, True))"

definition decodeRoute :: "netlink_route \<Rightarrow> route_error + fib_route" where
  "decodeRoute route =
     bind_r (route_destination route) (\<lambda>destination.
       let (kind, unsupported) = route_kind route in
       bind_r (route_gateway route) (\<lambda>(gateway, hasGateway).
         Inr \<lparr>rt_table = nr_Table route, rt_destination = destination, rt_kind = kind, rt_linkIndex = nr_LinkIndex route,
              rt_gateway = gateway, rt_hasGateway = hasGateway, rt_metric = nr_Priority route, rt_unsupported = unsupported\<rparr>))"

section \<open>The reader\<close>

datatype read_error =
    ReadContext string | ReadList string | ReadAddressIndex int | ReadAddress int address_error | ReadRoute route_error
  | ReadRule rule_error | ReadLink string | ReadNoAttributes

datatype capture_error =
    CaptureRead read_error | CaptureRulesChanged | CaptureIdentityChanged | CaptureNoName | CaptureInputUnavailable string
  | CaptureInputInconsistent string | CaptureInputConflict string | CaptureInputResolved string
  | CaptureIndexUnavailable int | CaptureLinkInconsistent int | CaptureInputChanged string | CaptureInputUnstable capture_error

type_synonym ('w, 'a) reading = "'w \<Rightarrow> ((capture_error + 'a) \<times> 'w) option"

record 'w reader =
  rd_readAddresses :: "'w \<Rightarrow> (read_error + address_observation list) \<times> 'w"
  rd_readPolicyRules :: "'w \<Rightarrow> (read_error + policy_rule list) \<times> 'w"
  rd_readRoutes :: "'w \<Rightarrow> (read_error + fib_route list) \<times> 'w"
  rd_readLinkByIndex :: "int \<Rightarrow> 'w \<Rightarrow> (read_error + link_observation option) \<times> 'w"
  rd_readLinkByName :: "string \<Rightarrow> 'w \<Rightarrow> (read_error + link_observation option) \<times> 'w"

definition ret_w :: "'a \<Rightarrow> ('w, 'a) reading" where
  "ret_w x w = Some (Inr x, w)"

definition fail_w :: "capture_error \<Rightarrow> ('w, 'a) reading" where
  "fail_w e w = Some (Inl e, w)"

definition bind_w :: "('w, 'a) reading \<Rightarrow> ('a \<Rightarrow> ('w, 'b) reading) \<Rightarrow> ('w, 'b) reading" where
  "bind_w m f w =
     (case m w of None \<Rightarrow> None | Some (Inl e, w') \<Rightarrow> Some (Inl e, w') | Some (Inr x, w') \<Rightarrow> f x w')"

definition read_w :: "('w \<Rightarrow> (read_error + 'a) \<times> 'w) \<Rightarrow> ('w, 'a) reading" where
  "read_w r w = Some (map_error CaptureRead (fst (r w)), snd (r w))"

section \<open>The netlink reader\<close>

text \<open>
  The netlink package and the context behind \<open>netlinkNetworkReader\<close>: each call answers from
  the state of the world and may change it.  A link is given by the attributes the code reads;
  an address by its interface index and its \<open>IPNet\<close>.
\<close>

datatype link_answer = LinkMissing | LinkFailed string | LinkNoAttributes | LinkFound link_observation

record 'w system =
  sy_Err :: "'w \<Rightarrow> string option \<times> 'w"
  sy_AddrList :: "'w \<Rightarrow> (string + (int \<times> ip_net option) list) \<times> 'w"
  sy_RuleDump :: "'w \<Rightarrow> (string + byte list list) \<times> 'w"
  sy_RouteList :: "'w \<Rightarrow> (string + netlink_route list) \<times> 'w"
  sy_LinkByIndex :: "int \<Rightarrow> 'w \<Rightarrow> link_answer \<times> 'w"
  sy_LinkByName :: "string \<Rightarrow> 'w \<Rightarrow> link_answer \<times> 'w"

text \<open>\<open>return result, ctx.Err()\<close>, and the check every observation starts with.\<close>

definition finish_read :: "'w system \<Rightarrow> 'a \<Rightarrow> 'w \<Rightarrow> (read_error + 'a) \<times> 'w" where
  "finish_read sy x w =
     (case sy_Err sy w of (Some e, w') \<Rightarrow> (Inl (ReadContext e), w') | (None, w') \<Rightarrow> (Inr x, w'))"

definition start_read :: "'w system \<Rightarrow> ('w \<Rightarrow> (read_error + 'a) \<times> 'w) \<Rightarrow> 'w \<Rightarrow> (read_error + 'a) \<times> 'w" where
  "start_read sy f w =
     (case sy_Err sy w of (Some e, w') \<Rightarrow> (Inl (ReadContext e), w') | (None, w') \<Rightarrow> f w')"

definition observe_list ::
  "'w system \<Rightarrow> ('w \<Rightarrow> (string + 'a list) \<times> 'w) \<Rightarrow> ('a \<Rightarrow> read_error + 'b) \<Rightarrow> 'w \<Rightarrow> (read_error + 'b list) \<times> 'w" where
  "observe_list sy list_call decode = start_read sy (\<lambda>w.
     case list_call w of
       (Inl e, w') \<Rightarrow> (Inl (ReadList e), w')
     | (Inr values, w') \<Rightarrow> (case map_r decode values of Inl e \<Rightarrow> (Inl e, w') | Inr result \<Rightarrow> finish_read sy result w'))"

definition decode_address :: "int \<times> ip_net option \<Rightarrow> read_error + address_observation" where
  "decode_address a =
     (if fst a \<le> 0 then Inl (ReadAddressIndex (fst a))
      else bind_r (map_error (ReadAddress (fst a)) (linuxIPv4Prefix (snd a))) (\<lambda>p.
        Inr \<lparr>ao_linkIndex = fst a, ao_prefix = p\<rparr>))"

definition observeAddresses :: "'w system \<Rightarrow> 'w \<Rightarrow> (read_error + address_observation list) \<times> 'w" where
  "observeAddresses sy = observe_list sy (sy_AddrList sy) decode_address"

definition observeRoutes :: "'w system \<Rightarrow> 'w \<Rightarrow> (read_error + fib_route list) \<times> 'w" where
  "observeRoutes sy = observe_list sy (sy_RouteList sy) (\<lambda>r. map_error ReadRoute (decodeRoute r))"

definition observePolicyRules :: "netlink \<Rightarrow> 'w system \<Rightarrow> 'w \<Rightarrow> (read_error + policy_rule list) \<times> 'w" where
  "observePolicyRules nl sy = observe_list sy (sy_RuleDump sy) (\<lambda>m. map_error ReadRule (decodePolicyRule nl m))"

definition observe_link :: "'w system \<Rightarrow> ('w \<Rightarrow> link_answer \<times> 'w) \<Rightarrow> 'w \<Rightarrow> (read_error + link_observation option) \<times> 'w" where
  "observe_link sy call = start_read sy (\<lambda>w.
     case call w of
       (LinkMissing, w') \<Rightarrow> (Inr None, w')
     | (LinkFailed e, w') \<Rightarrow> (Inl (ReadLink e), w')
     | (LinkNoAttributes, w') \<Rightarrow> (Inl ReadNoAttributes, w')
     | (LinkFound link, w') \<Rightarrow> finish_read sy (Some link) w')"

definition observeLinkByIndex :: "'w system \<Rightarrow> int \<Rightarrow> 'w \<Rightarrow> (read_error + link_observation option) \<times> 'w" where
  "observeLinkByIndex sy index = observe_link sy (sy_LinkByIndex sy index)"

definition observeLinkByName :: "'w system \<Rightarrow> string \<Rightarrow> 'w \<Rightarrow> (read_error + link_observation option) \<times> 'w" where
  "observeLinkByName sy name = observe_link sy (sy_LinkByName sy name)"

definition netlinkNetworkReader :: "netlink \<Rightarrow> 'w system \<Rightarrow> 'w reader" where
  "netlinkNetworkReader nl sy =
     \<lparr>rd_readAddresses = observeAddresses sy, rd_readPolicyRules = observePolicyRules nl sy, rd_readRoutes = observeRoutes sy,
      rd_readLinkByIndex = observeLinkByIndex sy, rd_readLinkByName = observeLinkByName sy\<rparr>"

section \<open>Capture\<close>

definition linkIsL3Master :: "link_observation \<Rightarrow> bool" where
  "linkIsL3Master link \<longleftrightarrow> ln_kind link = ''vrf''"

text \<open>The switch of \<open>resolveRuleInputInterfaces\<close> on the state of one selector.\<close>

definition resolve_selector :: "input_selector \<Rightarrow> link_observation option \<Rightarrow> capture_error + input_selector" where
  "resolve_selector sel found =
     (if is_state sel = inputInterfaceUnresolved then
        (case found of
           None \<Rightarrow> Inl (CaptureInputUnavailable (is_name sel))
         | Some link \<Rightarrow>
             if ln_index link \<le> 0 \<or> ln_name link \<noteq> is_name sel then Inl (CaptureInputInconsistent (is_name sel))
             else Inr (sel\<lparr>is_state := inputInterfaceAttached, is_index := ln_index link, is_isL3Master := linkIsL3Master link\<rparr>))
      else if is_state sel = inputInterfaceDetached then
        (if is_index sel \<noteq> - 1 \<or> found \<noteq> None then Inl (CaptureInputConflict (is_name sel)) else Inr sel)
      else Inl (CaptureInputResolved (is_name sel)))"

fun resolve_rules :: "'w reader \<Rightarrow> policy_rule list \<Rightarrow> ('w, policy_rule list) reading" where
  "resolve_rules rd [] = ret_w []"
| "resolve_rules rd (rule # rules) =
     (let sel = pr_inputInterface rule in
      if sel = no_input then bind_w (resolve_rules rd rules) (\<lambda>rs. ret_w (rule # rs))
      else if is_name sel = [] then fail_w CaptureNoName
      else bind_w (read_w (rd_readLinkByName rd (is_name sel))) (\<lambda>found.
        case resolve_selector sel found of
          Inl e \<Rightarrow> fail_w e
        | Inr sel' \<Rightarrow> bind_w (resolve_rules rd rules) (\<lambda>rs. ret_w (rule\<lparr>pr_inputInterface := sel'\<rparr> # rs))))"

definition resolveRuleInputInterfaces :: "'w reader \<Rightarrow> policy_rule list \<Rightarrow> ('w, policy_rule list) reading" where
  "resolveRuleInputInterfaces rd rules = resolve_rules rd (cloneRules rules)"

definition ruleInputInterfaceIndexes :: "policy_rule list \<Rightarrow> int list" where
  "ruleInputInterfaceIndexes rules =
     map (is_index \<circ> pr_inputInterface)
       (filter (\<lambda>r. is_state (pr_inputInterface r) = inputInterfaceAttached \<and> is_index (pr_inputInterface r) > 0) rules)"

definition sortedPositiveIndexes :: "int list \<Rightarrow> int list" where
  "sortedPositiveIndexes values = sort (remdups (filter (\<lambda>v. v > 0) values))"

definition referencedLinkIndexes :: "address_observation list \<Rightarrow> fib_route list \<Rightarrow> policy_rule list \<Rightarrow> int list" where
  "referencedLinkIndexes addresses routes rules = sortedPositiveIndexes
     (map ao_linkIndex addresses @ map rt_linkIndex routes @
      map (is_index \<circ> pr_inputInterface) (filter (\<lambda>r. is_state (pr_inputInterface r) = inputInterfaceAttached) rules))"

text \<open>The loop of \<open>observeReferencedLinks\<close>: \<open>pending\<close> is \<open>indexes[next:]\<close>.\<close>

partial_function (option) observe_loop ::
  "'w reader \<Rightarrow> int list \<Rightarrow> int list \<Rightarrow> int list \<Rightarrow> link_observation list \<Rightarrow> 'w \<Rightarrow> ((capture_error + link_observation list) \<times> 'w) option" where
  "observe_loop rd required pending queued result w =
     (case pending of
        [] \<Rightarrow> Some (Inr result, w)
      | i # rest \<Rightarrow>
          (case rd_readLinkByIndex rd i w of
             (Inl e, w') \<Rightarrow> Some (Inl (CaptureRead e), w')
           | (Inr None, w') \<Rightarrow>
               if i \<in> set required then Some (Inl (CaptureIndexUnavailable i), w')
               else observe_loop rd required rest queued result w'
           | (Inr (Some link), w') \<Rightarrow>
               if ln_index link \<noteq> i \<or> ln_name link = [] then Some (Inl (CaptureLinkInconsistent i), w')
               else if ln_masterIndex link > 0 \<and> ln_masterIndex link \<notin> set queued then
                 observe_loop rd required (rest @ [ln_masterIndex link]) (queued @ [ln_masterIndex link]) (result @ [link]) w'
               else observe_loop rd required rest queued (result @ [link]) w'))"

declare observe_loop.simps [code]

definition observeReferencedLinks :: "'w reader \<Rightarrow> int list \<Rightarrow> int list \<Rightarrow> ('w, link_observation list) reading" where
  "observeReferencedLinks rd requested required =
     bind_w (observe_loop rd required requested requested []) (\<lambda>result. ret_w (SliceStable lessLink result))"

definition link_by_index :: "link_observation list \<Rightarrow> int \<rightharpoonup> link_observation" where
  "link_by_index links = map_of (rev (map (\<lambda>l. (ln_index l, l)) links))"

definition input_link_ok :: "link_observation list \<Rightarrow> input_selector \<Rightarrow> bool" where
  "input_link_ok links sel \<longleftrightarrow> is_state sel \<noteq> inputInterfaceAttached \<or>
     (case link_by_index links (is_index sel) of
        None \<Rightarrow> False
      | Some link \<Rightarrow> ln_name link = is_name sel \<and> linkIsL3Master link = is_isL3Master sel)"

definition validateRuleInputInterfaces :: "policy_rule list \<Rightarrow> link_observation list \<Rightarrow> capture_error option" where
  "validateRuleInputInterfaces rules links =
     map_option (\<lambda>r. CaptureInputChanged (is_name (pr_inputInterface r)))
       (find (\<lambda>r. \<not> input_link_ok links (pr_inputInterface r)) rules)"

definition requireStableRuleInputInterfaces :: "policy_rule list \<Rightarrow> link_observation list \<Rightarrow> capture_error option" where
  "requireStableRuleInputInterfaces rules links = map_option CaptureInputUnstable (validateRuleInputInterfaces rules links)"

definition resolveRulesAndObserveLinks ::
  "'w reader \<Rightarrow> address_observation list \<Rightarrow> policy_rule list \<Rightarrow> fib_route list \<Rightarrow> ('w, policy_rule list \<times> link_observation list) reading" where
  "resolveRulesAndObserveLinks rd addresses rules routes =
     bind_w (resolveRuleInputInterfaces rd rules) (\<lambda>resolved.
       bind_w (observeReferencedLinks rd (referencedLinkIndexes addresses routes resolved) (ruleInputInterfaceIndexes resolved)) (\<lambda>links.
         case validateRuleInputInterfaces resolved links of
           Some e \<Rightarrow> fail_w e
         | None \<Rightarrow> ret_w (resolved, links)))"

definition samePolicyRules :: "policy_rule list \<Rightarrow> policy_rule list \<Rightarrow> bool" where
  "samePolicyRules left right \<longleftrightarrow>
     list_all2 (\<lambda>l r. comparePolicyRules l r = 0) (SliceStable lessRule (cloneRules left)) (SliceStable lessRule (cloneRules right))"

definition stableLinkFacts ::
  "link_observation list \<Rightarrow> address_observation list \<Rightarrow> link_observation list \<Rightarrow> link_observation list \<times> address_observation list" where
  "stableLinkFacts before addresses after =
     (let stable = filter (\<lambda>l. (case link_by_index after (ln_index l) of Some l' \<Rightarrow> l' | None \<Rightarrow> no_link) = l) before in
      (stable, filter (\<lambda>a. ao_linkIndex a \<in> ln_index ` set stable) addresses))"

definition captureLinuxNetwork :: "'w reader \<Rightarrow> ('w, snapshot) reading" where
  "captureLinuxNetwork rd =
     bind_w (read_w (rd_readAddresses rd)) (\<lambda>addresses.
     bind_w (read_w (rd_readPolicyRules rd)) (\<lambda>rules.
     bind_w (read_w (rd_readRoutes rd)) (\<lambda>routes.
     bind_w (resolveRulesAndObserveLinks rd addresses rules routes) (\<lambda>(resolved, links).
     bind_w (read_w (rd_readPolicyRules rd)) (\<lambda>confirmedRaw.
       if \<not> samePolicyRules rules confirmedRaw then fail_w CaptureRulesChanged
       else
         bind_w (resolveRulesAndObserveLinks rd addresses confirmedRaw routes) (\<lambda>(confirmedRules, confirmedLinks).
           if \<not> samePolicyRules resolved confirmedRules then fail_w CaptureIdentityChanged
           else
             let (stableLinks, stableAddresses) = stableLinkFacts links addresses confirmedLinks in
             case requireStableRuleInputInterfaces resolved stableLinks of
               Some e \<Rightarrow> fail_w e
             | None \<Rightarrow> ret_w (newSnapshot stableLinks stableAddresses resolved routes)))))))"

definition capture :: "netlink \<Rightarrow> 'w system \<Rightarrow> ('w, snapshot) reading" where
  "capture nl sy = captureLinuxNetwork (netlinkNetworkReader nl sy)"


section \<open>Facts about reading\<close>

lemma bind_w_Inr: "bind_w m f w = Some (Inr y, w'') \<longleftrightarrow> (\<exists>x w'. m w = Some (Inr x, w') \<and> f x w' = Some (Inr y, w''))"
  by (auto simp: bind_w_def split: option.splits sum.splits)

lemma reading_simps [simp]:
  "ret_w x w = Some (Inr y, w') \<longleftrightarrow> y = x \<and> w' = w" "fail_w e w \<noteq> Some (Inr y, w')"
  by (auto simp: ret_w_def fail_w_def)

lemma bind_w_returns:
  assumes "\<exists>r. m w = Some r" "\<And>x w'. m w = Some (Inr x, w') \<Longrightarrow> \<exists>r. f x w' = Some r"
  shows "\<exists>r. bind_w m f w = Some r"
  using assms by (auto simp: bind_w_def split: sum.splits)

lemma basic_returns [intro]: "\<exists>r. ret_w x w = Some r" "\<exists>r. fail_w e w = Some r" "\<exists>r. read_w rd w = Some r"
  by (simp_all add: ret_w_def fail_w_def read_w_def)

section \<open>Links\<close>

definition links_good :: "link_observation list \<Rightarrow> bool" where
  "links_good links \<longleftrightarrow> distinct (map ln_index links) \<and> (\<forall>l \<in> set links. ln_index l > 0 \<and> ln_name l \<noteq> [])"

definition loop_inv :: "int list \<Rightarrow> int list \<Rightarrow> link_observation list \<Rightarrow> bool" where
  "loop_inv pending queued result \<longleftrightarrow>
     distinct pending \<and> set pending \<subseteq> set queued \<and> ln_index ` set result \<subseteq> set queued \<and>
     ln_index ` set result \<inter> set pending = {} \<and> (\<forall>i \<in> set pending. i > 0) \<and> links_good result"

lemma loop_inv_steps:
  "loop_inv (i # rest) queued result \<Longrightarrow> loop_inv rest queued result"
  "loop_inv (ln_index l # rest) queued result \<Longrightarrow> ln_name l \<noteq> [] \<Longrightarrow> loop_inv rest queued (result @ [l])"
  "loop_inv pending queued result \<Longrightarrow> 0 < m \<Longrightarrow> m \<notin> set queued \<Longrightarrow> loop_inv (pending @ [m]) (queued @ [m]) result"
  by (auto simp: loop_inv_def links_good_def)

lemma observe_loop_good:
  assumes "observe_loop rd required pending queued result w = Some (Inr links, w')" "loop_inv pending queued result"
  shows "links_good links"
proof -
  have "fst y = Inr links \<longrightarrow> loop_inv pending queued result \<longrightarrow> links_good links"
    if loop: "observe_loop rd required pending queued result w = Some y" for y
  proof (induction rd required pending queued result w y rule: observe_loop.raw_induct)
    case (1 loop rd required pending queued result w y)
    show ?case
    proof (cases pending)
      case Nil
      then show ?thesis using 1(2) by (auto simp: loop_inv_def)
    next
      case (Cons i rest)
      note IH = 1(1) and step = 1(2) [unfolded Cons list.case]
      obtain r w1 where r: "rd_readLinkByIndex rd i w = (r, w1)" by fastforce
      consider e where "r = Inl e" | "r = Inr None" | link where "r = Inr (Some link)"
        by (metis option.exhaust sum.exhaust)
      then show ?thesis
      proof cases
        case 1
        then show ?thesis using step r by auto
      next
        case 2
        then show ?thesis using step r IH [of rd required rest queued result w1 y] loop_inv_steps(1) unfolding Cons
          by (auto split: if_splits)
      next
        case (3 link)
        then show ?thesis
          using step r IH [of rd required rest queued "result @ [link]" w1 y]
            IH [of rd required "rest @ [ln_masterIndex link]" "queued @ [ln_masterIndex link]" "result @ [link]" w1 y]
            loop_inv_steps(2) [of link rest queued result] loop_inv_steps(3) [of rest queued "result @ [link]"]
          unfolding Cons by (auto split: if_splits)
      qed
    qed
  next
    case 2
    show ?case by (rule loop)
  qed
  then show ?thesis using assms by fastforce
qed

lemma links_good_mset: "mset xs = mset ys \<Longrightarrow> links_good xs = links_good ys"
  unfolding links_good_def by (metis mset_eq_imp_distinct_iff mset_eq_setD mset_map)

lemma links_good_filter: "links_good xs \<Longrightarrow> links_good (filter P xs)"
  by (simp add: links_good_def distinct_map_filter)

lemma sortedPositiveIndexes_props:
  "distinct (sortedPositiveIndexes vs)" "\<forall>i \<in> set (sortedPositiveIndexes vs). i > 0"
  by (simp_all add: sortedPositiveIndexes_def)

lemma observeReferencedLinks_good:
  assumes "observeReferencedLinks rd requested required w = Some (Inr links, w')"
    and "distinct requested" "\<forall>i \<in> set requested. i > 0"
  shows "links_good links"
proof -
  obtain result w1 where "observe_loop rd required requested requested [] w = Some (Inr result, w1)"
    and links: "links = SliceStable lessLink result"
    using assms(1) by (auto simp: observeReferencedLinks_def bind_w_Inr)
  moreover have "loop_inv requested requested []"
    using assms(2,3) by (simp add: loop_inv_def links_good_def)
  ultimately have "links_good result" by (auto intro: observe_loop_good)
  then show ?thesis using links_good_mset [of links result] by (simp add: links)
qed

lemma link_map_Some:
  assumes "links_good links"
  shows "map_of (rev (map (\<lambda>l. (ln_index l, l)) links)) i = Some l \<longleftrightarrow> l \<in> set links \<and> ln_index l = i"
proof -
  have d: "distinct (map fst (map (\<lambda>l. (ln_index l, l)) links))" using assms by (simp add: links_good_def o_def)
  show ?thesis unfolding map_of_rev_distinct [OF d] map_of_eq_Some_iff [OF d] by auto
qed

lemma resolve_selector_Inr:
  "resolve_selector sel found = Inr sel' \<Longrightarrow> is_name sel' = is_name sel \<and>
    (is_state sel' = inputInterfaceAttached \<and> is_index sel' > 0 \<or>
     is_state sel' = inputInterfaceDetached \<and> is_index sel' = - 1)"
  by (auto simp: resolve_selector_def split: if_splits option.splits)

lemma resolve_rules_resolved:
  assumes "resolve_rules rd rules w = Some (Inr resolved, w')" "r \<in> set resolved"
  shows "pr_inputInterface r = no_input \<or> is_name (pr_inputInterface r) \<noteq> [] \<and>
    (is_state (pr_inputInterface r) = inputInterfaceAttached \<and> is_index (pr_inputInterface r) > 0 \<or>
     is_state (pr_inputInterface r) = inputInterfaceDetached \<and> is_index (pr_inputInterface r) = - 1)"
  using assms
proof (induction rules arbitrary: w resolved)
  case (Cons rule rules)
  obtain rule' rest w1 where res: "resolved = rule' # rest" "resolve_rules rd rules w1 = Some (Inr rest, w')"
    and one: "pr_inputInterface rule' = no_input \<or>
      is_name (pr_inputInterface rule) \<noteq> [] \<and> (\<exists>found. resolve_selector (pr_inputInterface rule) found = Inr (pr_inputInterface rule'))"
  proof (cases "pr_inputInterface rule = no_input")
    case True
    then show ?thesis using Cons.prems(1) that by (auto simp: bind_w_Inr)
  next
    case False
    then obtain found w2 where "is_name (pr_inputInterface rule) \<noteq> []"
      "(case resolve_selector (pr_inputInterface rule) found of Inl e \<Rightarrow> fail_w e
        | Inr sel' \<Rightarrow> bind_w (resolve_rules rd rules) (\<lambda>rs. ret_w (rule\<lparr>pr_inputInterface := sel'\<rparr> # rs))) w2 = Some (Inr resolved, w')"
      using Cons.prems(1) by (auto simp: Let_def bind_w_Inr split: if_splits)
    then obtain sel rest w3 where "resolve_selector (pr_inputInterface rule) found = Inr sel" "is_name (pr_inputInterface rule) \<noteq> []"
      "resolve_rules rd rules w2 = Some (Inr rest, w')" "resolved = rule\<lparr>pr_inputInterface := sel\<rparr> # rest"
      by (cases "resolve_selector (pr_inputInterface rule) found") (auto simp: bind_w_Inr)
    then show ?thesis by (intro that [of "rule\<lparr>pr_inputInterface := sel\<rparr>" rest w2]) auto
  qed
  show ?case
  proof (cases "r = rule'")
    case True
    then show ?thesis using one resolve_selector_Inr by metis
  next
    case False
    then show ?thesis using Cons.IH [OF res(2)] Cons.prems(2) res(1) by simp
  qed
qed (simp add: ret_w_def)


lemma linkIndex_newSnapshot:
  "links_good links \<Longrightarrow> linkIndex (newSnapshot links as rs ts) i = Some l \<longleftrightarrow> l \<in> set links \<and> ln_index l = i"
proof -
  assume "links_good links"
  then have "links_good (SliceStable lessLink links)" by (subst links_good_mset [of _ links]) simp_all
  from link_map_Some [OF this] show ?thesis by (simp add: linkIndex_def newSnapshot_def sortFacts_def)
qed

lemma resolveRulesAndObserveLinks_Inr:
  assumes "resolveRulesAndObserveLinks rd addresses rules routes w = Some (Inr (resolved, links), w')"
  shows "links_good links \<and> (\<exists>w1 w2. resolve_rules rd (cloneRules rules) w1 = Some (Inr resolved, w2))"
proof -
  obtain w1 w2 where obs: "observeReferencedLinks rd (referencedLinkIndexes addresses routes resolved)
      (ruleInputInterfaceIndexes resolved) w1 = Some (Inr links, w2)"
    and res: "resolve_rules rd (cloneRules rules) w = Some (Inr resolved, w1)"
    using assms
    by (auto simp: resolveRulesAndObserveLinks_def resolveRuleInputInterfaces_def bind_w_Inr split: option.splits)
  show ?thesis
    using observeReferencedLinks_good [OF obs [unfolded referencedLinkIndexes_def] sortedPositiveIndexes_props] res by blast
qed

lemma validate_None:
  "validateRuleInputInterfaces rules links = None \<longleftrightarrow> (\<forall>r \<in> set rules. input_link_ok links (pr_inputInterface r))"
  by (auto simp: validateRuleInputInterfaces_def find_None_iff)

text \<open>What a snapshot owes its users.\<close>

definition input_resolved :: "snapshot \<Rightarrow> input_selector \<Rightarrow> bool" where
  "input_resolved s sel \<longleftrightarrow>
     sel = no_input \<or> is_name sel \<noteq> [] \<and>
       (is_state sel = inputInterfaceDetached \<and> is_index sel = - 1 \<or>
        is_state sel = inputInterfaceAttached \<and> (\<exists>link. linkIndex s (is_index sel) = Some link \<and>
          ln_name link = is_name sel \<and> linkIsL3Master link = is_isL3Master sel))"

definition snapshot_consistent :: "snapshot \<Rightarrow> bool" where
  "snapshot_consistent s \<longleftrightarrow>
     distinct (map ln_index (sn_links s)) \<and> (\<forall>l \<in> set (sn_links s). ln_index l > 0 \<and> ln_name l \<noteq> []) \<and>
     (\<forall>a \<in> set (sn_addresses s). linkIndex s (ao_linkIndex a) \<noteq> None) \<and>
     (\<forall>r \<in> set (sn_rules s). input_resolved s (pr_inputInterface r))"

lemma newSnapshot_consistent:
  assumes "links_good links" "\<forall>r \<in> set rules. input_link_ok links (pr_inputInterface r)"
    and "resolve_rules rd rules' w = Some (Inr rules, w')"
    and "\<forall>a \<in> set addresses. ao_linkIndex a \<in> ln_index ` set links"
  shows "snapshot_consistent (newSnapshot links addresses rules routes)"
proof -
  define s where "s = newSnapshot links addresses rules routes"
  note index = linkIndex_newSnapshot [OF assms(1), of addresses rules routes, folded s_def]
  have "links_good (sn_links s)"
    using assms(1) by (subst links_good_mset [of _ links]) (simp_all add: s_def newSnapshot_def sortFacts_def)
  moreover have "linkIndex s (ao_linkIndex a) \<noteq> None" if "a \<in> set (sn_addresses s)" for a
    using assms(4) that index by (fastforce simp: s_def)
  moreover have "input_resolved s (pr_inputInterface r)" if r: "r \<in> set (sn_rules s)" for r
  proof -
    obtain r0 where r0: "r0 \<in> set rules" "pr_inputInterface r = pr_inputInterface r0"
      using r by (auto simp: s_def)
    then have "input_link_ok links (pr_inputInterface r)" using assms(2) by simp
    then show ?thesis
      using resolve_rules_resolved [OF assms(3) r0(1)] index link_map_Some [OF assms(1)] unfolding r0(2)
      by (auto simp: input_link_ok_def input_resolved_def link_by_index_def inputInterfaceAttached_def
          inputInterfaceDetached_def split: option.splits)
  qed
  ultimately show ?thesis by (auto simp: s_def snapshot_consistent_def links_good_def)
qed

lemma captured_consistent:
  assumes "captureLinuxNetwork rd w = Some (Inr s, w')"
  shows "snapshot_consistent s"
proof -
  obtain addresses rules routes resolved links confirmed w1 w2 where
    "resolveRulesAndObserveLinks rd addresses rules routes w1 = Some (Inr (resolved, links), w2)"
    and stable: "requireStableRuleInputInterfaces resolved (fst (stableLinkFacts links addresses confirmed)) = None"
    and s: "s = newSnapshot (fst (stableLinkFacts links addresses confirmed)) (snd (stableLinkFacts links addresses confirmed))
      resolved routes"
    using assms
    by (auto simp: captureLinuxNetwork_def bind_w_Inr case_prod_unfold Let_def split: if_splits option.splits)
  then have good: "links_good links" and ex: "\<exists>w1 w2. resolve_rules rd (cloneRules rules) w1 = Some (Inr resolved, w2)"
    by (auto dest: resolveRulesAndObserveLinks_Inr)
  note ex
  moreover have "links_good (fst (stableLinkFacts links addresses confirmed))"
    using good by (simp add: stableLinkFacts_def Let_def links_good_filter)
  moreover have "\<forall>a \<in> set (snd (stableLinkFacts links addresses confirmed)).
      ao_linkIndex a \<in> ln_index ` set (fst (stableLinkFacts links addresses confirmed))"
    by (auto simp: stableLinkFacts_def Let_def)
  ultimately show ?thesis
    using stable newSnapshot_consistent unfolding s requireStableRuleInputInterfaces_def
    by (metis map_option_is_None validate_None)
qed

text \<open>
  C32: a captured snapshot is consistent, whatever the kernel answers and however its tables
  change between the reads: every interface index occurs once with a name, every address
  belongs to an interface of the snapshot, and every input interface of a rule is either
  detached or an interface of the snapshot with the recorded name and kind.
\<close>

theorem captured_snapshots_are_consistent:
  assumes "captureLinuxNetwork rd w = Some (Inr s, w')"
  shows "snapshot_consistent s"
  using assms by (rule captured_consistent)

section \<open>Termination\<close>

lemma observe_loop_returns:
  assumes "\<And>i w l w'. rd_readLinkByIndex rd i w = (Inr (Some l), w') \<Longrightarrow> ln_masterIndex l \<le> N"
  shows "\<exists>r. observe_loop rd required pending queued result w = Some r"
proof (induction "2 * card ({1..N} - set queued) + length pending" arbitrary: pending queued result w rule: less_induct)
  case less
  show ?case
  proof (cases pending)
    case Nil
    then show ?thesis by (subst observe_loop.simps) simp
  next
    case (Cons i rest)
    obtain r w1 where r: "rd_readLinkByIndex rd i w = (r, w1)" by fastforce
    have IH: "\<exists>r. observe_loop rd required rest queued result' w1 = Some r" for result'
      by (rule less) (simp add: Cons)
    have master: "\<exists>r. observe_loop rd required (rest @ [m]) (queued @ [m]) result' w1 = Some r"
      if "0 < m" "m \<le> N" "m \<notin> set queued" for m result'
    proof -
      have "m \<in> {1..N} - set queued" using that by simp
      then have "card ({1..N} - set queued - {m}) < card ({1..N} - set queued)" by (intro card_Diff1_less) simp_all
      moreover have "A - set (queued @ [m]) = A - set queued - {m}" for A by auto
      ultimately have "card ({1..N} - set (queued @ [m])) < card ({1..N} - set queued)" by (simp only:)
      then show ?thesis by (intro less) (simp add: Cons)
    qed
    show ?thesis
    proof (cases r)
      case (Inl e)
      then show ?thesis by (subst observe_loop.simps) (simp add: Cons r)
    next
      case (Inr found)
      show ?thesis
      proof (cases found)
        case None
        then show ?thesis using IH by (subst observe_loop.simps) (simp add: Cons r Inr)
      next
        case (Some link)
        then have "ln_masterIndex link \<le> N" using assms r Inr by blast
        then show ?thesis using IH master by (subst observe_loop.simps) (simp add: Cons r Inr Some)
      qed
    qed
  qed
qed

definition returns :: "('w, 'a) reading \<Rightarrow> bool" where
  "returns m \<longleftrightarrow> (\<forall>w. m w \<noteq> None)"

lemma returns_basic [simp, intro]: "returns (ret_w x)" "returns (fail_w e)" "returns (read_w rd)"
  by (simp_all add: returns_def ret_w_def fail_w_def read_w_def)

lemma returns_bind [intro]: "returns m \<Longrightarrow> (\<And>x. returns (f x)) \<Longrightarrow> returns (bind_w m f)"
  by (auto simp: returns_def bind_w_def split: option.splits sum.splits)

lemma resolve_rules_returns [simp, intro]: "returns (resolve_rules rd rules)"
  by (induction rules) (auto simp: Let_def intro!: returns_bind split: sum.split)

lemma resolveRulesAndObserveLinks_returns:
  assumes "\<And>i w l w'. rd_readLinkByIndex rd i w = (Inr (Some l), w') \<Longrightarrow> ln_masterIndex l \<le> N"
  shows "returns (resolveRulesAndObserveLinks rd addresses rules routes)"
proof -
  have "returns (observe_loop rd required pending queued result)" for required pending queued result
    using observe_loop_returns [OF assms] by (fastforce simp: returns_def)
  then show ?thesis
    unfolding resolveRulesAndObserveLinks_def resolveRuleInputInterfaces_def observeReferencedLinks_def
    by (auto intro!: returns_bind split: option.split)
qed

text \<open>
  C33: the capture returns.  When the reader only reports master indexes up to some bound, as
  the kernel does, following the masters ends and the capture gives a snapshot or an error.
\<close>

theorem capture_returns:
  assumes "\<And>i w l w'. rd_readLinkByIndex rd i w = (Inr (Some l), w') \<Longrightarrow> ln_masterIndex l \<le> N"
  shows "\<exists>r. captureLinuxNetwork rd w = Some r"
proof -
  have "returns (captureLinuxNetwork rd)"
    unfolding captureLinuxNetwork_def case_prod_unfold Let_def
    by (auto intro!: returns_bind resolveRulesAndObserveLinks_returns [OF assms] split: option.split)
  then show ?thesis by (simp add: returns_def)
qed


definition example_reader :: "unit reader" where
  "example_reader =
     \<lparr>rd_readAddresses = (\<lambda>w. (Inr [example_address], w)), rd_readPolicyRules = (\<lambda>w. (Inr [example_rule 0 255, example_rule 9 254], w)),
      rd_readRoutes = (\<lambda>w. (Inr [example_route], w)),
      rd_readLinkByIndex = (\<lambda>i w. (Inr (if i = 2 then Some example_link else None), w)),
      rd_readLinkByName = (\<lambda>n w. (Inr None, w))\<rparr>"

lemma example_captured: "\<exists>s w. captureLinuxNetwork example_reader () = Some (Inr s, w)"
proof -
  have "(case captureLinuxNetwork example_reader () of Some (Inr s, w) \<Rightarrow> True | _ \<Rightarrow> False)" by code_simp
  then show ?thesis by (auto split: option.splits prod.splits sum.splits)
qed

theorem captured_snapshots_are_consistent_witness:
  "\<exists>s w. captureLinuxNetwork example_reader () = Some (Inr s, w) \<and> snapshot_consistent s"
  using example_captured captured_snapshots_are_consistent [of example_reader "()"] by blast

theorem capture_returns_witness: "\<exists>r. captureLinuxNetwork example_reader () = Some r"
  by (rule capture_returns [of _ 0]) (auto simp: example_reader_def example_link_def split: if_splits)


section \<open>The captured addresses\<close>

lemma linuxIPv4Prefix_Is4: "linuxIPv4Prefix net = Inr p \<Longrightarrow> Is4 (pf_Addr p)"
  by (auto simp: linuxIPv4Prefix_def Let_def split: option.splits if_splits prod.splits)

lemma decode_address_Is4: "decode_address a = Inr o' \<Longrightarrow> Is4 (pf_Addr (ao_prefix o'))"
  by (auto simp: decode_address_def map_error_def bind_r_def dest!: linuxIPv4Prefix_Is4 split: if_splits sum.splits)

lemma observe_list_Inr:
  assumes "observe_list sy list_call decode w = (Inr result, w')"
  shows "\<exists>values. list_all2 (\<lambda>x y. decode x = Inr y) values result"
  using assms map_r_Inr_iff [of decode]
  by (auto simp: observe_list_def start_read_def finish_read_def split: option.splits prod.splits sum.splits)

lemma observeAddresses_Is4:
  assumes "observeAddresses sy w = (Inr addresses, w')" "a \<in> set addresses"
  shows "Is4 (pf_Addr (ao_prefix a))"
  using observe_list_Inr [OF assms(1) [unfolded observeAddresses_def]] assms(2)
  by (auto simp: list_all2_conv_all_nth in_set_conv_nth dest!: decode_address_Is4)

text \<open>A snapshot is built from facts that were read, and keeps only addresses among those read.\<close>

lemma captureLinuxNetwork_Inr:
  assumes "captureLinuxNetwork rd w = Some (Inr s, w')"
  shows "\<exists>links addresses kept rules routes v. rd_readAddresses rd w = (Inr addresses, v) \<and>
    set kept \<subseteq> set addresses \<and> s = newSnapshot links kept rules routes"
proof -
  obtain addresses v resolved routes links confirmed where "read_w (rd_readAddresses rd) w = Some (Inr addresses, v)"
    and s: "s = newSnapshot (fst (stableLinkFacts links addresses confirmed)) (snd (stableLinkFacts links addresses confirmed))
      resolved routes"
    using assms by (auto simp: captureLinuxNetwork_def bind_w_Inr case_prod_unfold Let_def split: if_splits option.splits)
  then have "rd_readAddresses rd w = (Inr addresses, v)"
    by (auto simp: read_w_def map_error_def prod_eq_iff split: sum.splits)
  moreover have "set (snd (stableLinkFacts links addresses confirmed)) \<subseteq> set addresses"
    by (auto simp: stableLinkFacts_def Let_def)
  ultimately show ?thesis using s by blast
qed

lemma capture_addresses:
  assumes "capture nl sy w = Some (Inr s, w')"
  obtains links addresses rules routes where "s = newSnapshot links addresses rules routes"
    and "\<forall>a \<in> set addresses. Is4 (pf_Addr (ao_prefix a))"
proof -
  obtain links addresses kept rules routes v where "observeAddresses sy w = (Inr addresses, v)"
    "set kept \<subseteq> set addresses" "s = newSnapshot links kept rules routes"
    using captureLinuxNetwork_Inr [OF assms [unfolded capture_def]] by (auto simp: netlinkNetworkReader_def)
  then show ?thesis using observeAddresses_Is4 [of sy w addresses] that [of links kept rules routes] by blast
qed

end
