(* ===== verification/List_Networks.thy ===== *)
theory List_Networks
  imports Command_Line Network_Capture
begin

text \<open>
  The list command (\<open>listnetworks/list.go\<close>, \<open>catalog.go\<close>): selection of local networks from
  a captured snapshot, one row per network, and the probe and measurement that annotate the
  runnable rows.  The probe of one source and the measurement of a group are parameters; the
  goroutines of the probe write different rows, so that their order does not matter.  The
  rate in Mbit/s is a floating point number for display and is left out.

  The main theorem composes the listing with the catalog: over a snapshot the internal
  consistency checks never fail, and the rows are exactly the selected networks with the
  verdict of the catalog.
\<close>

section \<open>Networks of a snapshot\<close>

record local_network =
  lw_localIP :: addr
  lw_interfaceName :: string
  lw_interfaceIndex :: int
  lw_included :: bool
  lw_exclusionReason :: string

record resolved_network =
  rw_localIP :: addr
  rw_interfaceName :: string
  rw_interfaceIndex :: int
  rw_table :: int
  rw_gateway :: addr
  rw_hasGateway :: bool
  rw_runnable :: bool
  rw_reason :: string

record captured_networks =
  cn_addresses :: "local_network list"
  cn_defaults :: "local_network list"
  cn_resolve :: "addr list \<Rightarrow> resolved_network list"

definition local_network_of :: "local_address \<Rightarrow> local_network" where
  "local_network_of a =
     \<lparr>lw_localIP = la_ip a, lw_interfaceName = ln_name (la_interfaceValue a), lw_interfaceIndex = ln_index (la_interfaceValue a),
      lw_included = IncludedByDefault a, lw_exclusionReason = la_exclusionReason a\<rparr>"

definition localNetworks :: "local_address list \<Rightarrow> local_network list" where
  "localNetworks as = map local_network_of as"

definition resolved_network_of :: "egress \<Rightarrow> resolved_network" where
  "resolved_network_of e =
     \<lparr>rw_localIP = eg_localIP e, rw_interfaceName = ln_name (eg_interfaceValue e),
      rw_interfaceIndex = ln_index (eg_interfaceValue e), rw_table = eg_table e, rw_gateway = eg_gateway e,
      rw_hasGateway = eg_hasGateway e, rw_runnable = eg_runnable e, rw_reason = eg_reason e\<rparr>"

definition resolvedNetworks :: "egress list \<Rightarrow> resolved_network list" where
  "resolvedNetworks es = map resolved_network_of es"

text \<open>\<open>captureSystemNetworks\<close> once the catalog has delivered its snapshot.\<close>

definition captured_of :: "snapshot \<Rightarrow> captured_networks" where
  "captured_of s =
     \<lparr>cn_addresses = localNetworks (LocalAddresses s), cn_defaults = localNetworks (DefaultCandidates s),
      cn_resolve = (\<lambda>sources. resolvedNetworks (Resolve s sources))\<rparr>"

definition captureSystemNetworks :: "string + snapshot \<Rightarrow> string + captured_networks" where
  "captureSystemNetworks captured = bind_r captured (\<lambda>s. Inr (captured_of s))"

section \<open>Rows\<close>

record probe_status =
  ps_attempted :: bool
  ps_publicIP :: addr
  ps_asn :: u32
  ps_organization :: string
  ps_err :: "string option"

datatype measure_error = ObservedFailure failure | NormalizeGroup weights_error

record measure_status =
  ms_attempted :: bool
  ms_bytes :: u64
  ms_duration :: int
  ms_weight :: u64
  ms_err :: "measure_error option"

record row =
  row_localIP :: addr
  row_interfaceName :: string
  row_interfaceIndex :: int
  row_table :: int
  row_gateway :: addr
  row_hasGateway :: bool
  row_includedByDefault :: bool
  row_runnable :: bool
  row_localReason :: string
  row_probe :: "probe_status option"
  row_measure :: "measure_status option"

record list_result =
  ls_rows :: "row list"
  ls_runtimeFailure :: bool

datatype list_error =
    ListUsage list_usage | ListCapture string | ListIncomplete | ListNoIPv4 | ListRepeats addr | ListEgressNoIPv4
  | ListUnknownEgress addr | ListRepeatedEgress addr | ListOmittedEgress addr | ListTarget target_error
  | ListMeasureIncomplete | ListMeasureUnknown | ListMeasureRepeats | ListMeasureMissing

section \<open>Selection\<close>

record list_selected =
  sl_address :: local_network
  sl_present :: bool

definition no_local_network :: local_network where
  "no_local_network = \<lparr>lw_localIP = NoAddr, lw_interfaceName = [], lw_interfaceIndex = 0, lw_included = False, lw_exclusionReason = []\<rparr>"

definition mergeLocalNetwork :: "list_selected \<Rightarrow> local_network \<Rightarrow> list_selected" where
  "mergeLocalNetwork sel a =
     (if \<not> sl_present sel then \<lparr>sl_address = a, sl_present = True\<rparr>
      else if \<not> lw_included a then
        sel\<lparr>sl_address := (sl_address sel)\<lparr>lw_included := False, lw_exclusionReason := lw_exclusionReason a\<rparr>\<rparr>
      else sel)"

definition findLocalNetwork :: "local_network list \<Rightarrow> addr \<Rightarrow> list_selected" where
  "findLocalNetwork addresses source =
     foldl (\<lambda>sel a. if lw_localIP a \<noteq> source then sel else mergeLocalNetwork sel a)
       \<lparr>sl_address = no_local_network, sl_present = False\<rparr> addresses"

definition select_step :: "list_selected list \<times> (addr \<rightharpoonup> nat) \<Rightarrow> local_network \<Rightarrow> list_selected list \<times> (addr \<rightharpoonup> nat)" where
  "select_step st a =
     (case st of (selected, indexes) \<Rightarrow>
        (case indexes (lw_localIP a) of
           None \<Rightarrow> (selected @ [\<lparr>sl_address = a, sl_present = True\<rparr>], indexes(lw_localIP a \<mapsto> length selected))
         | Some i \<Rightarrow> (selected[i := mergeLocalNetwork (selected ! i) a], indexes)))"

definition selectUniqueLocalNetworks :: "local_network list \<Rightarrow> list_selected list" where
  "selectUniqueLocalNetworks addresses = fst (foldl select_step ([], Map.empty) addresses)"

definition selectLocalNetworks :: "captured_networks \<Rightarrow> validated_request \<Rightarrow> list_selected list" where
  "selectLocalNetworks captured request =
     (if vr_explicit request \<noteq> [] then
        map (\<lambda>source.
          let sel = findLocalNetwork (cn_addresses captured) source in
          if sl_present sel then sel else sel\<lparr>sl_address := (sl_address sel)\<lparr>lw_localIP := source\<rparr>\<rparr>)
          (vr_explicit request)
      else selectUniqueLocalNetworks (if vr_all request then cn_addresses captured else cn_defaults captured))"

definition newRow :: "list_selected \<Rightarrow> resolved_network \<Rightarrow> row" where
  "newRow sel e =
     (let a = sl_address sel;
          (name, index) = (if rw_interfaceName e \<noteq> [] then (rw_interfaceName e, rw_interfaceIndex e)
                           else (lw_interfaceName a, lw_interfaceIndex a));
          (reason, runnable) =
            (if \<not> sl_present sel then (rw_reason e, False)
             else if \<not> lw_included a then (lw_exclusionReason a, False)
             else if \<not> rw_runnable e then (rw_reason e, False)
             else ([], True)) in
      \<lparr>row_localIP = lw_localIP a, row_interfaceName = name, row_interfaceIndex = index, row_table = rw_table e,
       row_gateway = rw_gateway e, row_hasGateway = rw_hasGateway e, row_includedByDefault = (sl_present sel \<and> lw_included a),
       row_runnable = runnable,
       row_localReason = (if \<not> runnable \<and> reason = [] then ''selected network is not runnable'' else reason),
       row_probe = None, row_measure = None\<rparr>)"

text \<open>The two loops of \<open>rowsFromSelection\<close> over the selection and over the resolved networks.\<close>

definition check_selection :: "list_selected list \<Rightarrow> list_error + addr list" where
  "check_selection selected =
     scan_seen (\<lambda>n. if \<not> Is4 (lw_localIP (sl_address n)) then Some ListNoIPv4 else None)
       (\<lambda>n. lw_localIP (sl_address n)) (\<lambda>n. ListRepeats (lw_localIP (sl_address n))) [] selected"

definition check_resolved :: "addr list \<Rightarrow> resolved_network list \<Rightarrow> list_error + addr list" where
  "check_resolved expected resolved =
     scan_seen (\<lambda>e. if \<not> Is4 (rw_localIP e) then Some ListEgressNoIPv4
                     else if rw_localIP e \<notin> set expected then Some (ListUnknownEgress (rw_localIP e)) else None)
       rw_localIP (\<lambda>e. ListRepeatedEgress (rw_localIP e)) [] resolved"

definition rowsFromSelection :: "captured_networks \<Rightarrow> list_selected list \<Rightarrow> list_error + row list" where
  "rowsFromSelection captured selected =
     (let resolved = cn_resolve captured (map (\<lambda>n. lw_localIP (sl_address n)) selected) in
      if length resolved \<noteq> length selected then Inl ListIncomplete
      else
        bind_r (check_selection selected) (\<lambda>expected.
        bind_r (check_resolved expected resolved) (\<lambda>_.
          let byLocalIP = map_of (map (\<lambda>e. (rw_localIP e, e)) resolved) in
          map_r (\<lambda>sel.
            case byLocalIP (lw_localIP (sl_address sel)) of
              None \<Rightarrow> Inl (ListOmittedEgress (lw_localIP (sl_address sel)))
            | Some e \<Rightarrow> Inr (newRow sel e)) selected)))"

definition runnableRows :: "row list \<Rightarrow> row list" where
  "runnableRows rows = filter row_runnable rows"

definition explicitSelectionFailed :: "validated_request \<Rightarrow> row list \<Rightarrow> bool" where
  "explicitSelectionFailed request rows \<longleftrightarrow> vr_explicit request \<noteq> [] \<and> (\<exists>row \<in> set rows. \<not> row_runnable row)"

definition activeRows :: "row list \<Rightarrow> nat list" where
  "activeRows rows = filter (\<lambda>i. row_runnable (rows ! i)) [0..<length rows]"

section \<open>Probe and measurement\<close>

definition idle_probe :: probe_status where
  "idle_probe = \<lparr>ps_attempted = False, ps_publicIP = NoAddr, ps_asn = 0, ps_organization = [], ps_err = None\<rparr>"

record public_observation =
  po_publicIP :: addr
  po_asn :: u32
  po_organization :: string

definition probe_status_of :: "string + public_observation \<Rightarrow> probe_status" where
  "probe_status_of r =
     (case r of
        Inl e \<Rightarrow> \<lparr>ps_attempted = True, ps_publicIP = NoAddr, ps_asn = 0, ps_organization = [], ps_err = Some e\<rparr>
      | Inr o' \<Rightarrow> \<lparr>ps_attempted = True, ps_publicIP = po_publicIP o', ps_asn = po_asn o',
            ps_organization = po_organization o', ps_err = None\<rparr>)"

definition addProbeResults ::
  "(addr \<Rightarrow> url \<Rightarrow> string + public_observation) \<Rightarrow> nat list \<Rightarrow> url \<Rightarrow> list_result \<Rightarrow> list_result" where
  "addProbeResults probeSource active endpoint result =
     (let rows = map (\<lambda>r. r\<lparr>row_probe := Some idle_probe\<rparr>) (ls_rows result);
          rows = foldl (\<lambda>rs i. rs[i := (rs ! i)\<lparr>row_probe := Some (probe_status_of (probeSource (row_localIP (rs ! i)) endpoint))\<rparr>])
                   rows active in
      \<lparr>ls_rows = rows,
       ls_runtimeFailure = (ls_runtimeFailure result \<or>
         (\<exists>i \<in> set active. \<exists>p. row_probe (rows ! i) = Some p \<and> ps_err p \<noteq> None))\<rparr>)"

record throughput_observation =
  tv_localIP :: addr
  tv_bytes :: u64
  tv_duration :: int
  tv_weight :: u64
  tv_err :: "measure_error option"

definition unweighted :: "observation \<Rightarrow> throughput_observation" where
  "unweighted r = \<lparr>tv_localIP = tg_localIP (ob_target r), tv_bytes = ob_bytes r, tv_duration = ob_duration r,
     tv_weight = 0, tv_err = map_option ObservedFailure (ob_err r)\<rparr>"

definition observeThroughputs :: "observation list \<Rightarrow> throughput_observation list" where
  "observeThroughputs results =
     (let observed = map unweighted results; indexes = index_of (\<lambda>r. tg_localIP (ob_target r)) results in
      case RelativeWeights results True of
        Inl e \<Rightarrow> map (\<lambda>o'. if tv_err o' = None then o'\<lparr>tv_err := Some (NormalizeGroup e)\<rparr> else o') observed
      | Inr None \<Rightarrow> observed
      | Inr (Some weights) \<Rightarrow>
          foldl (\<lambda>obs w. let i = (case indexes (tg_localIP (wt_target w)) of Some i \<Rightarrow> i | None \<Rightarrow> 0) in
                  obs[i := (obs ! i)\<lparr>tv_weight := wt_value w\<rparr>]) observed weights)"

definition idle_measure :: measure_status where
  "idle_measure = \<lparr>ms_attempted = False, ms_bytes = 0, ms_duration = 0, ms_weight = 0, ms_err = None\<rparr>"

definition check_measured :: "target list \<Rightarrow> throughput_observation list \<Rightarrow> list_error + addr list" where
  "check_measured targets observed =
     scan_seen (\<lambda>v. if tv_localIP v \<notin> tg_localIP ` set targets then Some ListMeasureUnknown else None)
       tv_localIP (\<lambda>v. ListMeasureRepeats) [] observed"

text \<open>The last loop of \<open>addMeasureResults\<close>.\<close>

fun set_measures :: "(addr \<rightharpoonup> throughput_observation) \<Rightarrow> nat list \<Rightarrow> list_result \<Rightarrow> list_error + list_result" where
  "set_measures byNetwork [] result = Inr result"
| "set_measures byNetwork (i # active) result =
     (let row = ls_rows result ! i in
      case byNetwork (row_localIP row) of
        None \<Rightarrow> Inl ListMeasureMissing
      | Some v \<Rightarrow>
          set_measures byNetwork active
            \<lparr>ls_rows = (ls_rows result)[i := row\<lparr>row_measure := Some \<lparr>ms_attempted = True, ms_bytes = tv_bytes v,
                ms_duration = tv_duration v, ms_weight = tv_weight v, ms_err = tv_err v\<rparr>\<rparr>],
             ls_runtimeFailure = (ls_runtimeFailure result \<or> tv_err v \<noteq> None)\<rparr>)"

definition addMeasureResults ::
  "(target list \<Rightarrow> settings \<Rightarrow> throughput_observation list) \<Rightarrow> nat list \<Rightarrow> settings \<Rightarrow> list_result \<Rightarrow> list_error + list_result" where
  "addMeasureResults measureGroup active window result =
     (let result = result\<lparr>ls_rows := map (\<lambda>r. r\<lparr>row_measure := Some idle_measure\<rparr>) (ls_rows result)\<rparr> in
      if active = [] then Inr result
      else
        bind_r (map_r (\<lambda>i. map_error ListTarget (NewSourceBoundTarget (row_localIP (ls_rows result ! i)))) active) (\<lambda>targets.
          let observed = measureGroup targets window in
          if length observed \<noteq> length targets then Inl ListMeasureIncomplete
          else
            bind_r (check_measured targets observed) (\<lambda>_.
              set_measures (map_of (map (\<lambda>v. (tv_localIP v, v)) observed)) active result)))"

record diagnostics =
  dg_probe :: "addr \<Rightarrow> url \<Rightarrow> string + public_observation"
  dg_observe :: "target list \<Rightarrow> settings \<Rightarrow> observation list"

definition listing_Run :: "diagnostics \<Rightarrow> string + captured_networks \<Rightarrow> list_request \<Rightarrow> list_error + list_result" where
  "listing_Run tools capturing request =
     bind_r (map_error ListUsage (validateRequest request)) (\<lambda>validated.
     bind_r (map_error ListCapture capturing) (\<lambda>captured.
     bind_r (rowsFromSelection captured (selectLocalNetworks captured validated)) (\<lambda>rows.
       let rows = (if vr_explicit validated = [] \<and> \<not> vr_all validated then runnableRows rows else rows);
           result = \<lparr>ls_rows = rows, ls_runtimeFailure = explicitSelectionFailed validated rows\<rparr>;
           active = activeRows rows;
           result = (case vr_probe validated of None \<Rightarrow> result
                     | Some endpoint \<Rightarrow> addProbeResults (dg_probe tools) active endpoint result) in
       case vr_measure validated of
         None \<Rightarrow> Inr result
       | Some window \<Rightarrow>
           addMeasureResults (\<lambda>targets settings. observeThroughputs (dg_observe tools targets settings)) active window result)))"


section \<open>The selection\<close>

abbreviation sel_ip :: "list_selected \<Rightarrow> addr" where
  "sel_ip n \<equiv> lw_localIP (sl_address n)"

text \<open>The facts on one address merged in order: present with the first, excluded by the last exclusion.\<close>

definition merged :: "local_network list \<Rightarrow> list_selected" where
  "merged as = foldl mergeLocalNetwork \<lparr>sl_address = no_local_network, sl_present = False\<rparr> as"

lemma foldl_filter: "foldl (\<lambda>s a. if P a then s else f s a) s as = foldl f s (filter (\<lambda>a. \<not> P a) as)"
  by (induction as arbitrary: s) auto

lemma findLocalNetwork_merged: "findLocalNetwork addresses source = merged (filter (\<lambda>a. lw_localIP a = source) addresses)"
  by (simp add: findLocalNetwork_def merged_def foldl_filter)

lemma mergeLocalNetwork_present:
  "sl_present (mergeLocalNetwork sel a)"
  "sl_present sel \<Longrightarrow> sel_ip (mergeLocalNetwork sel a) = sel_ip sel"
  "sl_present sel \<Longrightarrow> lw_included (sl_address (mergeLocalNetwork sel a)) \<longleftrightarrow> lw_included (sl_address sel) \<and> lw_included a"
  "\<not> sl_present sel \<Longrightarrow> mergeLocalNetwork sel a = \<lparr>sl_address = a, sl_present = True\<rparr>"
  by (auto simp: mergeLocalNetwork_def)

lemma merged_snoc: "merged (as @ [a]) = mergeLocalNetwork (merged as) a"
  by (simp add: merged_def)

lemma merged_Nil: "merged [] = \<lparr>sl_address = no_local_network, sl_present = False\<rparr>"
  by (simp add: merged_def)

lemma merged_props:
  "as \<noteq> [] \<Longrightarrow> sl_present (merged as) \<and> sel_ip (merged as) = lw_localIP (hd as) \<and>
     (lw_included (sl_address (merged as)) \<longleftrightarrow> (\<forall>a \<in> set as. lw_included a))"
proof (induction as rule: rev_induct)
  case (snoc a as)
  show ?case
  proof (cases "as = []")
    case True
    then show ?thesis using merged_snoc [of "[]" a] by (simp add: merged_Nil mergeLocalNetwork_def)
  next
    case False
    then show ?thesis using snoc mergeLocalNetwork_present [of "merged as" a] by (auto simp: merged_snoc)
  qed
qed simp

definition select_inv :: "local_network list \<Rightarrow> list_selected list \<times> (addr \<rightharpoonup> nat) \<Rightarrow> bool" where
  "select_inv as st \<longleftrightarrow>
     distinct (map sel_ip (fst st)) \<and> set (map sel_ip (fst st)) = lw_localIP ` set as \<and>
     (\<forall>n \<in> set (fst st). n = merged (filter (\<lambda>a. lw_localIP a = sel_ip n) as)) \<and>
     (\<forall>ip i. snd st ip = Some i \<longleftrightarrow> i < length (fst st) \<and> sel_ip (fst st ! i) = ip)"

lemma merged_single: "merged [a] = \<lparr>sl_address = a, sl_present = True\<rparr>"
  by (simp add: merged_def mergeLocalNetwork_def)

lemma select_step_inv:
  assumes "select_inv as (selected, indexes)"
  shows "select_inv (as @ [a]) (select_step (selected, indexes) a)"
proof (cases "indexes (lw_localIP a)")
  case None
  have new: "lw_localIP a \<notin> lw_localIP ` set as"
  proof
    assume "lw_localIP a \<in> lw_localIP ` set as"
    then have "lw_localIP a \<in> set (map sel_ip selected)" using assms by (simp add: select_inv_def)
    then obtain i where "i < length selected" "sel_ip (selected ! i) = lw_localIP a" by (auto simp: in_set_conv_nth)
    then have "indexes (lw_localIP a) = Some i" using assms by (simp add: select_inv_def)
    then show False using None by simp
  qed
  have "lw_localIP x \<noteq> lw_localIP a" if "x \<in> set as" for x
    using imageI [OF that, of lw_localIP] new by (cases "lw_localIP x = lw_localIP a") simp_all
  then have "filter (\<lambda>x. lw_localIP x = lw_localIP a) as = []" by simp
  moreover have "indexes (lw_localIP a) = Some i \<longleftrightarrow> i < length selected \<and> sel_ip (selected ! i) = lw_localIP a" for i
    using assms by (simp add: select_inv_def)
  then have "\<not> (i < length selected \<and> sel_ip (selected ! i) = lw_localIP a)" for i
    using None by simp
  ultimately show ?thesis
    using assms None new
    by (auto simp: select_inv_def select_step_def merged_single nth_append less_Suc_eq split: if_splits)
next
  case (Some i)
  then have i: "i < length selected" "sel_ip (selected ! i) = lw_localIP a"
    and all: "\<forall>n \<in> set selected. n = merged (filter (\<lambda>x. lw_localIP x = sel_ip n) as)"
    and d: "distinct (map sel_ip selected)" and set: "set (map sel_ip selected) = lw_localIP ` set as"
    using assms by (auto simp: select_inv_def)
  define grp where "grp = filter (\<lambda>x. lw_localIP x = lw_localIP a) as"
  have grp: "selected ! i = merged grp" using all i by (metis grp_def nth_mem)
  have "lw_localIP a \<in> lw_localIP ` set as" using i set by (metis length_map nth_map nth_mem)
  then have "grp \<noteq> []" by (auto simp: grp_def filter_empty_conv)
  then have present: "sl_present (selected ! i)" using grp merged_props by metis
  define n where "n = mergeLocalNetwork (selected ! i) a"
  have ip: "sel_ip n = lw_localIP a" using mergeLocalNetwork_present(2) [OF present] i by (simp add: n_def)
  have n: "n = merged (filter (\<lambda>x. lw_localIP x = sel_ip n) (as @ [a]))"
    using grp ip by (simp add: n_def merged_snoc grp_def)
  have map: "map sel_ip (selected[i := n]) = map sel_ip selected"
    using i ip by (simp add: map_update list_update_same_conv)
  have "m = merged (filter (\<lambda>x. lw_localIP x = sel_ip m) (as @ [a]))" if "m \<in> set (selected[i := n])" for m
  proof -
    obtain j where j: "j < length selected" "m = selected[i := n] ! j" using \<open>m \<in> _\<close> by (metis in_set_conv_nth length_list_update)
    show ?thesis
    proof (cases "j = i")
      case True
      then show ?thesis using n i(1) j by simp
    next
      case False
      then have "m = selected ! j" using j by simp
      moreover have "sel_ip (selected ! j) \<noteq> lw_localIP a" using d i j(1) False by (metis length_map nth_eq_iff_index_eq nth_map)
      ultimately show ?thesis using all j(1) by simp
    qed
  qed
  then have kept: "\<forall>m \<in> set (selected[i := n]). m = merged (filter (\<lambda>x. lw_localIP x = sel_ip m) (as @ [a]))" by blast
  have nth: "sel_ip (selected[i := n] ! k) = sel_ip (selected ! k)" if "k < length selected" for k
    using that map by (metis length_list_update nth_map)
  have "indexes ip = Some k \<longleftrightarrow> k < length (selected[i := n]) \<and> sel_ip (selected[i := n] ! k) = ip" for ip k
    using assms nth [of k] by (auto simp: select_inv_def)
  moreover have "lw_localIP ` set (as @ [a]) = lw_localIP ` set as"
    using \<open>lw_localIP a \<in> _\<close> by (simp add: insert_absorb)
  moreover have "select_step (selected, indexes) a = (selected[i := n], indexes)"
    by (simp add: select_step_def Some n_def)
  ultimately show ?thesis
    using kept map d set unfolding select_inv_def by (simp only: fst_conv snd_conv) blast
qed

lemma selectUnique_props:
  "distinct (map sel_ip (selectUniqueLocalNetworks as)) \<and> set (map sel_ip (selectUniqueLocalNetworks as)) = lw_localIP ` set as \<and>
   (\<forall>n \<in> set (selectUniqueLocalNetworks as). n = merged (filter (\<lambda>a. lw_localIP a = sel_ip n) as))"
proof -
  have "select_inv as (foldl select_step ([], Map.empty) as)"
  proof (induction as rule: rev_induct)
    case (snoc a as)
    then show ?case using select_step_inv by (metis foldl_Cons foldl_Nil foldl_append prod.collapse)
  qed (simp add: select_inv_def)
  then show ?thesis by (simp add: select_inv_def selectUniqueLocalNetworks_def)
qed


section \<open>Rows of a snapshot\<close>

lemma runnableRoute_localIP [simp]: "eg_localIP (runnableRoute s e route) = eg_localIP e"
  using runnableRoute_cases [of s e route] by auto

lemma applyRoute_localIP: "eg_localIP (fst (applyRoute s e route)) = eg_localIP e"
  unfolding applyRoute_def Let_def by (cases "rt_kind route") simp_all

lemma lookupTable_localIP: "eg_localIP (fst (lookupTable s e table)) = eg_localIP e"
  unfolding lookupTable_def Let_def by (simp add: applyRoute_localIP)

lemma applyRule_localIP: "eg_localIP (fst (applyRule s e rule)) = eg_localIP e"
  unfolding applyRule_def Let_def by (cases "pr_action rule") (simp_all add: lookupTable_localIP)

lemma rules_from_localIP: "eg_localIP (rules_from s source e rs) = eg_localIP e"
proof (induction s source e rs rule: rules_from.induct)
  case (2 s source e rule rules)
  show ?case
  proof (cases "applicable_rules source [] (rule # takeWhile (\<lambda>r. pr_priority r = pr_priority rule) rules)")
    case (Inl x)
    then show ?thesis unfolding rules_from.simps Inl by (cases x) simp
  next
    case (Inr app)
    show ?thesis
    proof (cases "1 < length app \<and> \<not> equivalentRules app")
      case True
      then show ?thesis unfolding rules_from.simps Inr sum.case if_P [OF True] by simp
    next
      case False
      obtain e' fin where ap: "applyRule s e (hd app) = (e', fin)" by fastforce
      then have "eg_localIP e' = eg_localIP e" using applyRule_localIP [of s e "hd app"] by simp
      then show ?thesis
        unfolding rules_from_Cons [OF Inr False]
        using 2(1) [OF Inr False refl] 2(2) [OF Inr False refl _ ap [symmetric]] ap by (auto simp: Let_def)
    qed
  qed
qed simp

lemma resolveOne_localIP [simp]: "eg_localIP (resolveOne s source) = source"
proof -
  have new: "eg_localIP (new_egress source) = source" by (simp add: new_egress_def)
  show ?thesis
    unfolding resolveOne_def resolveRules_def Let_def
    by (auto simp: new rules_from_localIP split: sum.split)
qed

definition row_of :: "snapshot \<Rightarrow> list_selected \<Rightarrow> row" where
  "row_of s sel = newRow sel (resolved_network_of (resolveOne s (sel_ip sel)))"

lemma row_of_simps [simp]:
  "row_localIP (row_of s sel) = sel_ip sel" "row_probe (row_of s sel) = None" "row_measure (row_of s sel) = None"
  "row_runnable (row_of s sel) \<longleftrightarrow> sl_present sel \<and> lw_included (sl_address sel) \<and> eg_runnable (resolveOne s (sel_ip sel))"
  by (simp_all add: row_of_def newRow_def Let_def case_prod_unfold resolved_network_of_def)

lemma rowsFromSelection_snapshot:
  assumes "distinct (map sel_ip selected)" "\<forall>n \<in> set selected. Is4 (sel_ip n)"
  shows "rowsFromSelection (captured_of s) selected = Inr (map (row_of s) selected)"
proof -
  define resolved where "resolved = map (\<lambda>n. resolved_network_of (resolveOne s (sel_ip n))) selected"
  have res: "cn_resolve (captured_of s) (map sel_ip selected) = resolved"
    by (simp add: captured_of_def resolvedNetworks_def Resolve_def resolved_def)
  have ips: "map rw_localIP resolved = map sel_ip selected"
    by (simp add: resolved_def resolved_network_of_def)
  have sel: "check_selection selected = Inr (rev (map sel_ip selected))"
    using assms unfolding check_selection_def scan_seen_Inr_iff by simp
  have "check_resolved (rev (map sel_ip selected)) resolved = Inr (rev (map rw_localIP resolved))"
    using assms unfolding check_resolved_def scan_seen_Inr_iff
    by (auto simp: ips) (auto simp: resolved_def resolved_network_of_def)
  moreover have "map_of (map (\<lambda>e. (rw_localIP e, e)) resolved) (sel_ip n) = Some (resolved_network_of (resolveOne s (sel_ip n)))"
    if "n \<in> set selected" for n
  proof (subst map_of_eq_Some_iff)
    have "map fst (map (\<lambda>e. (rw_localIP e, e)) resolved) = map sel_ip selected" using ips by (simp add: o_def)
    then show "distinct (map fst (map (\<lambda>e. (rw_localIP e, e)) resolved))" using assms(1) by (simp only:)
    show "(sel_ip n, resolved_network_of (resolveOne s (sel_ip n))) \<in> set (map (\<lambda>e. (rw_localIP e, e)) resolved)"
      using that by (force simp: resolved_def resolved_network_of_def)
  qed
  moreover have "length resolved = length selected" by (simp add: resolved_def)
  ultimately show ?thesis
    unfolding rowsFromSelection_def res sel Let_def
    by (simp add: map_r_total [where g = "row_of s"] row_of_def)
qed

section \<open>Updates of the active rows\<close>

lemma foldl_update_nth:
  "distinct is \<Longrightarrow> \<forall>i \<in> set is. i < length xs \<Longrightarrow>
     length (foldl (\<lambda>rs i. rs[i := f (rs ! i)]) xs is) = length xs \<and>
     (\<forall>j < length xs. foldl (\<lambda>rs i. rs[i := f (rs ! i)]) xs is ! j = (if j \<in> set is then f (xs ! j) else xs ! j))"
proof (induction "is" arbitrary: xs)
  case (Cons i "is")
  then show ?case using Cons.IH [of "xs[i := f (xs ! i)]"] by (auto simp: nth_list_update)
qed simp

lemma foldl_update_active:
  "foldl (\<lambda>rs i. rs[i := f (rs ! i)]) rows (activeRows rows0) = map (\<lambda>r. if row_runnable r then f r else r) rows"
  if "map row_runnable rows = map row_runnable rows0"
proof -
  have len: "length rows = length rows0" using that by (metis length_map)
  have act: "j \<in> set (activeRows rows0) \<longleftrightarrow> row_runnable (rows ! j)" if j: "j < length rows" for j
    using j len \<open>map _ rows = _\<close> by (auto simp: activeRows_def) (metis nth_map)+
  have "distinct (activeRows rows0)" "\<forall>i \<in> set (activeRows rows0). i < length rows"
    by (auto simp: activeRows_def len)
  from foldl_update_nth [OF this, of f] act show ?thesis by (intro nth_equalityI) auto
qed


section \<open>Diagnostics of the active rows\<close>

definition probed :: "(addr \<Rightarrow> url \<Rightarrow> string + public_observation) \<Rightarrow> url \<Rightarrow> row \<Rightarrow> row" where
  "probed probe endpoint r = r\<lparr>row_probe := Some
     (if row_runnable r then probe_status_of (probe (row_localIP r) endpoint) else idle_probe)\<rparr>"

lemma addProbeResults_rows:
  "ls_rows (addProbeResults probe (activeRows (ls_rows result)) endpoint result) = map (probed probe endpoint) (ls_rows result)"
proof -
  let ?f = "\<lambda>r. r\<lparr>row_probe := Some (probe_status_of (probe (row_localIP r) endpoint))\<rparr>"
  have "foldl (\<lambda>rs i. rs[i := ?f (rs ! i)]) (map (\<lambda>r. r\<lparr>row_probe := Some idle_probe\<rparr>) (ls_rows result)) (activeRows (ls_rows result)) =
      map (\<lambda>r. if row_runnable r then ?f r else r) (map (\<lambda>r. r\<lparr>row_probe := Some idle_probe\<rparr>) (ls_rows result))"
    by (rule foldl_update_active) simp
  then show ?thesis by (simp add: addProbeResults_def Let_def probed_def)
qed

definition measured :: "(addr \<rightharpoonup> throughput_observation) \<Rightarrow> row \<Rightarrow> row" where
  "measured by_ip r = r\<lparr>row_measure := Some
     (let v = the (by_ip (row_localIP r)) in
      \<lparr>ms_attempted = True, ms_bytes = tv_bytes v, ms_duration = tv_duration v, ms_weight = tv_weight v, ms_err = tv_err v\<rparr>)\<rparr>"

lemma set_measures_rows:
  assumes "\<forall>i \<in> set active. i < length (ls_rows result) \<and> by_ip (row_localIP (ls_rows result ! i)) \<noteq> None"
  shows "\<exists>result'. set_measures by_ip active result = Inr result' \<and>
    ls_rows result' = foldl (\<lambda>rs i. rs[i := measured by_ip (rs ! i)]) (ls_rows result) active"
  using assms
proof (induction by_ip active result rule: set_measures.induct)
  case (2 by_ip i active result)
  then obtain v where v: "by_ip (row_localIP (ls_rows result ! i)) = Some v" by auto
  have ip: "row_localIP ((ls_rows result)[i := measured by_ip (ls_rows result ! i)] ! j) = row_localIP (ls_rows result ! j)"
    if "j < length (ls_rows result)" for j
    using that by (cases "i = j") (simp_all add: measured_def)
  show ?case
    using "2.IH" [OF refl v] "2.prems" v ip by (auto simp: measured_def Let_def)
qed simp

lemma observeThroughputs_ips: "map tv_localIP (observeThroughputs results) = map (tg_localIP \<circ> ob_target) results"
proof -
  have un: "map tv_localIP (map unweighted results) = map (tg_localIP \<circ> ob_target) results" by (simp add: unweighted_def)
  have upd: "map tv_localIP (foldl (\<lambda>obs w. obs[g w := (obs ! g w)\<lparr>tv_weight := h w\<rparr>]) obs ws) = map tv_localIP obs"
    for g h and obs :: "throughput_observation list" and ws :: "weight list"
  proof (induction ws arbitrary: obs)
    case (Cons w ws)
    have "map tv_localIP (obs[g w := (obs ! g w)\<lparr>tv_weight := h w\<rparr>]) = map tv_localIP obs"
      by (cases "g w < length obs") (simp_all add: map_update list_update_same_conv list_update_beyond)
    then show ?case by (simp add: Cons.IH)
  qed simp
  show ?thesis
  proof (cases "RelativeWeights results True")
    case (Inl e)
    then show ?thesis unfolding observeThroughputs_def Let_def using un by (simp add: o_def if_distrib cong: if_cong)
  next
    case (Inr w)
    then show ?thesis unfolding observeThroughputs_def Let_def Inr using un upd by (cases w) simp_all
  qed
qed

lemma addMeasureResults_rows:
  assumes "distinct (map row_localIP (ls_rows result))" "\<forall>r \<in> set (ls_rows result). Is4 (row_localIP r)"
    and contract: "\<And>targets settings. map ob_target (observe targets settings) = targets"
  shows "\<exists>by_ip result'. addMeasureResults (\<lambda>targets settings. observeThroughputs (observe targets settings))
      (activeRows (ls_rows result)) window result = Inr result' \<and>
    ls_rows result' = map (\<lambda>r. if row_runnable r then measured by_ip r else r\<lparr>row_measure := Some idle_measure\<rparr>) (ls_rows result)"
proof -
  define rows where "rows = ls_rows result"
  define rows' where "rows' = map (\<lambda>r. r\<lparr>row_measure := Some idle_measure\<rparr>) rows"
  define active where "active = activeRows rows"
  define targets where "targets = map (\<lambda>i. \<lparr>tg_localIP = row_localIP (rows ! i), tg_transfer = no_number\<rparr>) active"
  define observed where "observed = observeThroughputs (observe targets window)"
  define by_ip where "by_ip = map_of (map (\<lambda>v. (tv_localIP v, v)) observed)"
  have act: "i < length rows" if "i \<in> set active" for i using that by (auto simp: active_def activeRows_def)
  have dist: "distinct active" by (simp add: active_def activeRows_def)
  have ips: "map tv_localIP observed = map (\<lambda>i. row_localIP (rows ! i)) active"
    unfolding observed_def observeThroughputs_ips using contract by (simp add: targets_def flip: map_map) (simp add: o_def)
  have "map_r (\<lambda>i. map_error ListTarget (NewSourceBoundTarget (row_localIP (rows' ! i)))) active = Inr targets"
    unfolding targets_def by (rule map_r_total) (use act assms(2) in \<open>simp add: rows'_def rows_def NewSourceBoundTarget_def map_error_def\<close>)
  moreover have "length observed = length targets" using ips by (metis length_map targets_def)
  moreover have "check_measured targets observed = Inr (rev (map tv_localIP observed))"
  proof -
    have "i = j" if "i < length rows" "j < length rows" "row_localIP (rows ! i) = row_localIP (rows ! j)" for i j
      using that assms(1) nth_eq_iff_index_eq [of "map row_localIP rows" i j] by (simp add: rows_def)
    then have "distinct (map tv_localIP observed)"
      unfolding ips distinct_map using dist act by (auto intro: inj_onI)
    moreover have "tv_localIP v \<in> tg_localIP ` set targets" if "v \<in> set observed" for v
    proof -
      have "tv_localIP v \<in> set (map tv_localIP observed)" using that by simp
      then show ?thesis unfolding ips by (auto simp: targets_def image_iff)
    qed
    ultimately show ?thesis unfolding check_measured_def scan_seen_Inr_iff by simp
  qed
  moreover have found: "by_ip (row_localIP (rows' ! i)) \<noteq> None" if i: "i \<in> set active" for i
  proof -
    have "row_localIP (rows ! i) \<in> set (map tv_localIP observed)" unfolding ips using i by simp
    then show ?thesis using act [OF i] by (auto simp: by_ip_def map_of_eq_None_iff rows'_def image_iff)
  qed
  moreover obtain result' where "set_measures by_ip active (result\<lparr>ls_rows := rows'\<rparr>) = Inr result'"
    "ls_rows result' = foldl (\<lambda>rs i. rs[i := measured by_ip (rs ! i)]) rows' active"
    using set_measures_rows [of active "result\<lparr>ls_rows := rows'\<rparr>" by_ip] found act by (auto simp: rows'_def)
  moreover have "foldl (\<lambda>rs i. rs[i := measured by_ip (rs ! i)]) rows' active =
      map (\<lambda>r. if row_runnable r then measured by_ip r else r) rows'"
    unfolding active_def by (rule foldl_update_active) (simp add: rows'_def)
  moreover have "\<dots> = map (\<lambda>r. if row_runnable r then measured by_ip r else r\<lparr>row_measure := Some idle_measure\<rparr>) rows"
    by (simp add: rows'_def measured_def)
  ultimately have "(if active = [] then Inr (result\<lparr>ls_rows := rows'\<rparr>)
      else set_measures by_ip active (result\<lparr>ls_rows := rows'\<rparr>)) = Inr result' \<and>
      addMeasureResults (\<lambda>targets settings. observeThroughputs (observe targets settings)) active window result =
      (if active = [] then Inr (result\<lparr>ls_rows := rows'\<rparr>) else set_measures by_ip active (result\<lparr>ls_rows := rows'\<rparr>)) \<and>
      ls_rows result' = map (\<lambda>r. if row_runnable r then measured by_ip r else r\<lparr>row_measure := Some idle_measure\<rparr>) rows"
    by (auto simp: addMeasureResults_def Let_def rows'_def rows_def observed_def by_ip_def)
  then show ?thesis unfolding active_def rows_def by metis
qed


section \<open>The listing of a snapshot\<close>

definition usable :: "snapshot \<Rightarrow> addr \<Rightarrow> bool" where
  "usable s ip \<longleftrightarrow>
     (\<exists>a \<in> set (LocalAddresses s). la_ip a = ip) \<and> (\<forall>a \<in> set (LocalAddresses s). la_ip a = ip \<longrightarrow> IncludedByDefault a) \<and>
     eg_runnable (resolveOne s ip)"

lemma check_explicit_Inr:
  "check_explicit seen raws = Inr as \<Longrightarrow> distinct as \<and> (\<forall>a \<in> set as. Is4 a \<and> a \<notin> set seen)"
  by (induction raws arbitrary: seen as) (fastforce simp: result_simps split: sum.splits if_splits)+

lemma validateRequest_explicit:
  "validateRequest request = Inr v \<Longrightarrow> distinct (vr_explicit v) \<and> (\<forall>a \<in> set (vr_explicit v). Is4 a)"
  unfolding validateRequest_def using check_explicit_Inr [of "[]"]
  by (auto simp: result_simps split: if_splits)

lemma localNetworks_simps [simp]:
  "lw_localIP ` set (localNetworks as) = la_ip ` set as"
  "set (localNetworks as) = local_network_of ` set as"
  "lw_localIP (local_network_of a) = la_ip a" "lw_included (local_network_of a) = IncludedByDefault a"
  by (auto simp: localNetworks_def local_network_of_def image_image)

lemma merged_runnable:
  assumes "sel = merged (filter (\<lambda>a. lw_localIP a = ip) (localNetworks as))" "ip \<in> la_ip ` set as"
  shows "sl_present sel \<and> sel_ip sel = ip \<and> (lw_included (sl_address sel) \<longleftrightarrow> (\<forall>a \<in> set as. la_ip a = ip \<longrightarrow> IncludedByDefault a))"
proof -
  let ?g = "filter (\<lambda>a. lw_localIP a = ip) (localNetworks as)"
  have "?g \<noteq> []" using assms(2) by (auto simp: filter_empty_conv)
  moreover have "lw_localIP (hd ?g) = ip" using hd_in_set [OF \<open>?g \<noteq> []\<close>] by simp
  ultimately show ?thesis using merged_props [of ?g] assms(1) by auto
qed

text \<open>The addresses that a request selects.\<close>

definition selects :: "snapshot \<Rightarrow> validated_request \<Rightarrow> addr set" where
  "selects s v =
     (if vr_explicit v \<noteq> [] then set (vr_explicit v)
      else la_ip ` set (if vr_all v then LocalAddresses s else DefaultCandidates s))"

lemma candidate_included:
  assumes "s = newSnapshot links addresses rules routes" "ip \<in> la_ip ` set (DefaultCandidates s)"
    and "a \<in> set (LocalAddresses s)" "la_ip a = ip"
  shows "IncludedByDefault a"
proof -
  let ?g = "filter (\<lambda>y. la_ip y = ip) (LocalAddresses s)"
  have "?g \<noteq> []" "\<exists>c. defaultGroupCandidate ?g = Some c"
    using candidate_ip_iff [OF sorted_LocalAddresses] assms(1,2) by (auto simp: DefaultCandidates_def)
  then show ?thesis using assms(3,4) by (subst (asm) defaultGroupCandidate_iff) auto
qed

lemma default_groups_subset: "set (default_groups xs) \<subseteq> set xs"
proof (induction xs rule: default_groups.induct)
  case (2 a as)
  define g where "g = a # takeWhile (\<lambda>x. la_ip x = la_ip a) as"
  define rest where "rest = dropWhile (\<lambda>x. la_ip x = la_ip a) as"
  have ag: "address_group a as = (g, rest)" by (simp add: address_group_def g_def rest_def)
  have sub: "set rest \<subseteq> set as" unfolding rest_def by (auto dest: set_dropWhileD)
  have "set (default_groups rest) \<subseteq> set rest" using 2 [OF ag [symmetric]] .
  moreover have "c = a" if "defaultGroupCandidate g = Some c" for c
    using defaultGroupCandidate_ip [OF that] by (simp add: g_def)
  ultimately show ?case using sub by (cases "defaultGroupCandidate g") (auto simp: ag)
qed simp

lemma candidates_subset: "a \<in> set (DefaultCandidates s) \<Longrightarrow> a \<in> set (LocalAddresses s)"
  using default_groups_subset by (auto simp: DefaultCandidates_def)

lemma explicit_selection:
  fixes s :: snapshot
  assumes "vr_explicit v \<noteq> []"
  defines "selected \<equiv> selectLocalNetworks (captured_of s) v"
  shows "map sel_ip selected = vr_explicit v"
    and "n \<in> set selected \<Longrightarrow> row_runnable (row_of s n) \<longleftrightarrow> usable s (sel_ip n)"
proof -
  let ?pick = "\<lambda>source. let sel = findLocalNetwork (localNetworks (LocalAddresses s)) source in
    if sl_present sel then sel else sel\<lparr>sl_address := (sl_address sel)\<lparr>lw_localIP := source\<rparr>\<rparr>"
  have sel: "selected = map ?pick (vr_explicit v)"
    using assms(1) by (simp add: selected_def selectLocalNetworks_def captured_of_def)
  have pick: "sel_ip (?pick source) = source \<and> (row_runnable (row_of s (?pick source)) \<longleftrightarrow> usable s source)" for source
  proof (cases "source \<in> la_ip ` set (LocalAddresses s)")
    case True
    have "sl_present (findLocalNetwork (localNetworks (LocalAddresses s)) source)"
      using merged_runnable [OF findLocalNetwork_merged True] by blast
    then show ?thesis
      using merged_runnable [OF findLocalNetwork_merged True] True by (auto simp: usable_def Let_def)
  next
    case False
    then have "filter (\<lambda>a. lw_localIP a = source) (localNetworks (LocalAddresses s)) = []"
      by (auto simp: filter_empty_conv)
    then have "findLocalNetwork (localNetworks (LocalAddresses s)) source = \<lparr>sl_address = no_local_network, sl_present = False\<rparr>"
      by (simp add: findLocalNetwork_merged merged_Nil)
    then show ?thesis using False by (auto simp: usable_def)
  qed
  show "map sel_ip selected = vr_explicit v" unfolding sel using pick by (simp add: o_def Let_def)
  show "row_runnable (row_of s n) \<longleftrightarrow> usable s (sel_ip n)" if n: "n \<in> set selected"
  proof -
    obtain source where "n = ?pick source" using n unfolding sel set_map by blast
    then show ?thesis using pick [of source] by (simp only:)
  qed
qed

lemma unique_selection:
  assumes "s = newSnapshot links addresses rules routes" "as = LocalAddresses s \<or> as = DefaultCandidates s"
    and "n \<in> set (selectUniqueLocalNetworks (localNetworks as))"
  shows "row_runnable (row_of s n) \<longleftrightarrow> usable s (sel_ip n)"
proof -
  have ip: "sel_ip n \<in> la_ip ` set as"
    and n: "n = merged (filter (\<lambda>a. lw_localIP a = sel_ip n) (localNetworks as))"
    using selectUnique_props [of "localNetworks as"] assms(3) by (metis image_eqI localNetworks_simps(1) set_map, blast)
  have "(\<forall>a \<in> set as. la_ip a = sel_ip n \<longrightarrow> IncludedByDefault a) \<longleftrightarrow>
      (\<forall>a \<in> set (LocalAddresses s). la_ip a = sel_ip n \<longrightarrow> IncludedByDefault a)"
    using assms(2) ip candidate_included [OF assms(1)] candidates_subset by blast
  moreover have "\<exists>a \<in> set (LocalAddresses s). la_ip a = sel_ip n"
    using assms(2) ip candidates_subset by auto
  ultimately show ?thesis using merged_runnable [OF n ip] by (auto simp: usable_def)
qed

lemma LocalAddresses_ips:
  "la_ip ` set (LocalAddresses (newSnapshot links addresses rules routes)) = (\<lambda>a. pf_Addr (ao_prefix a)) ` set addresses"
  by (auto simp: LocalAddresses_def Let_def image_image)

lemma selection_props:
  assumes "s = newSnapshot links addresses rules routes" "\<forall>a \<in> set addresses. Is4 (pf_Addr (ao_prefix a))"
    and "distinct (vr_explicit v)" "\<forall>a \<in> set (vr_explicit v). Is4 a"
  defines "selected \<equiv> selectLocalNetworks (captured_of s) v"
  shows "distinct (map sel_ip selected)" "\<forall>n \<in> set selected. Is4 (sel_ip n)" "set (map sel_ip selected) = selects s v"
    "\<And>n. n \<in> set selected \<Longrightarrow> row_runnable (row_of s n) \<longleftrightarrow> usable s (sel_ip n)"
proof -
  have ips: "distinct (map sel_ip selected) \<and> set (map sel_ip selected) = selects s v \<and>
    (\<forall>n \<in> set selected. row_runnable (row_of s n) \<longleftrightarrow> usable s (sel_ip n))"
  proof (cases "vr_explicit v = []")
    case False
    then show ?thesis using explicit_selection [OF False, where s = s] assms(3) by (auto simp: selected_def selects_def)
  next
    case True
    define as where "as = (if vr_all v then LocalAddresses s else DefaultCandidates s)"
    have "selected = selectUniqueLocalNetworks (localNetworks as)"
      using True by (simp add: selected_def selectLocalNetworks_def captured_of_def as_def)
    moreover have "as = LocalAddresses s \<or> as = DefaultCandidates s" by (simp add: as_def)
    moreover have "selects s v = la_ip ` set as" using True by (simp add: selects_def as_def)
    ultimately show ?thesis
      using selectUnique_props [of "localNetworks as"] unique_selection [OF assms(1)] by (simp add: image_image)
  qed
  have "Is4 ip" if "ip \<in> selects s v" for ip
    using that assms(2,4) LocalAddresses_ips [of links addresses rules routes] candidates_subset [of _ s]
    unfolding selects_def assms(1) by (auto split: if_splits) (metis (mono_tags, lifting) imageE imageI)+
  then have "\<forall>n \<in> set selected. Is4 (sel_ip n)" using ips by (metis image_eqI set_map)
  with ips show "distinct (map sel_ip selected)" "\<forall>n \<in> set selected. Is4 (sel_ip n)" "set (map sel_ip selected) = selects s v"
    "\<And>n. n \<in> set selected \<Longrightarrow> row_runnable (row_of s n) \<longleftrightarrow> usable s (sel_ip n)" by blast+
qed


text \<open>A row that is annotated as requested: attempted exactly when it is runnable.\<close>

definition annotated :: "snapshot \<Rightarrow> validated_request \<Rightarrow> row \<Rightarrow> bool" where
  "annotated s v r \<longleftrightarrow>
     (row_runnable r \<longleftrightarrow> usable s (row_localIP r)) \<and>
     (case row_probe r of None \<Rightarrow> vr_probe v = None | Some p \<Rightarrow> vr_probe v \<noteq> None \<and> (ps_attempted p \<longleftrightarrow> row_runnable r)) \<and>
     (case row_measure r of None \<Rightarrow> vr_measure v = None | Some m \<Rightarrow> vr_measure v \<noteq> None \<and> (ms_attempted m \<longleftrightarrow> row_runnable r))"

lemma probed_simps [simp]:
  "row_localIP (probed probe endpoint r) = row_localIP r" "row_runnable (probed probe endpoint r) = row_runnable r"
  "row_measure (probed probe endpoint r) = row_measure r"
  "\<exists>p. row_probe (probed probe endpoint r) = Some p \<and> (ps_attempted p \<longleftrightarrow> row_runnable r)"
  by (simp_all add: probed_def probe_status_of_def idle_probe_def split: sum.split)

lemma measured_simps [simp]:
  "row_localIP (measured by_ip r) = row_localIP r" "row_runnable (measured by_ip r) = row_runnable r"
  "row_probe (measured by_ip r) = row_probe r" "\<exists>m. row_measure (measured by_ip r) = Some m \<and> ms_attempted m"
  by (simp_all add: measured_def Let_def)

text \<open>The two diagnostics over rows with different IPv4 addresses.\<close>

lemma diagnose_rows:
  fixes failed' :: bool and v :: validated_request
  assumes "distinct (map row_localIP rows)" "\<forall>r \<in> set rows. Is4 (row_localIP r)"
    and plain: "\<forall>r \<in> set rows. (row_runnable r \<longleftrightarrow> usable s (row_localIP r)) \<and> row_probe r = None \<and> row_measure r = None"
    and contract: "\<And>targets settings. map ob_target (dg_observe tools targets settings) = targets"
  defines "start \<equiv> \<lparr>ls_rows = rows, ls_runtimeFailure = failed'\<rparr>"
  defines "middle \<equiv> (case vr_probe v of None \<Rightarrow> start
     | Some endpoint \<Rightarrow> addProbeResults (dg_probe tools) (activeRows rows) endpoint start)"
  shows "\<exists>result. (case vr_measure v of None \<Rightarrow> Inr middle
     | Some window \<Rightarrow> addMeasureResults (\<lambda>targets settings. observeThroughputs (dg_observe tools targets settings))
         (activeRows rows) window middle) = Inr result \<and>
    map row_localIP (ls_rows result) = map row_localIP rows \<and> (\<forall>r \<in> set (ls_rows result). annotated s v r)"
proof -
  define f where "f = (case vr_probe v of None \<Rightarrow> id | Some endpoint \<Rightarrow> probed (dg_probe tools) endpoint)"
  have f: "row_localIP (f r) = row_localIP r" "row_runnable (f r) = row_runnable r" "row_measure (f r) = row_measure r"
    "vr_probe v = None \<Longrightarrow> row_probe (f r) = row_probe r"
    "vr_probe v \<noteq> None \<Longrightarrow> \<exists>p. row_probe (f r) = Some p \<and> (ps_attempted p \<longleftrightarrow> row_runnable r)" for r
    by (auto simp: f_def split: option.splits)
  have middle: "ls_rows middle = map f rows"
    using addProbeResults_rows [of "dg_probe tools" start]
    by (simp add: middle_def f_def start_def split: option.split)
  have probe: "case row_probe (f r) of None \<Rightarrow> vr_probe v = None | Some p \<Rightarrow> vr_probe v \<noteq> None \<and> (ps_attempted p \<longleftrightarrow> row_runnable (f r))"
    if "r \<in> set rows" for r
  proof (cases "vr_probe v = None")
    case True
    then show ?thesis using f(4) [OF True, of r] plain that by simp
  next
    case False
    then show ?thesis using f(5) [OF False, of r] f(2) [of r] by auto
  qed
  show ?thesis
  proof (cases "vr_measure v")
    case None
    have "annotated s v (f r)" if "r \<in> set rows" for r
      using probe [OF that] plain that f(1-3) [of r] None by (simp add: annotated_def)
    then show ?thesis using middle None f(1) by auto
  next
    case (Some window)
    have act: "activeRows (ls_rows middle) = activeRows rows"
      unfolding activeRows_def middle by (auto simp: f(2) intro!: filter_cong)
    obtain by_ip result where result: "addMeasureResults (\<lambda>targets settings. observeThroughputs (dg_observe tools targets settings))
        (activeRows rows) window middle = Inr result"
      and rows: "ls_rows result = map (\<lambda>r. if row_runnable r then measured by_ip r else r\<lparr>row_measure := Some idle_measure\<rparr>) (map f rows)"
      using addMeasureResults_rows [of middle "dg_observe tools" window] contract assms(1,2)
      unfolding act unfolding middle by (auto simp: f(1) o_def)
    have "annotated s v (if row_runnable r then measured by_ip (f r) else (f r)\<lparr>row_measure := Some idle_measure\<rparr>)" if "r \<in> set rows" for r
    proof (cases "row_runnable r")
      case True
      obtain m where "row_measure (measured by_ip (f r)) = Some m" "ms_attempted m" using measured_simps(4) by blast
      then show ?thesis using probe [OF that] plain that f(1-3) [of r] Some True
        by (cases "row_probe (f r)") (simp_all add: annotated_def)
    next
      case False
      then show ?thesis using probe [OF that] plain that f(1-3) [of r] Some
        by (cases "row_probe (f r)") (simp_all add: annotated_def idle_measure_def)
    qed
    then have "\<forall>r \<in> set (ls_rows result). annotated s v r"
      unfolding rows by (simp only: set_map image_image ball_simps f(2)) blast
    moreover have "row_localIP (if row_runnable r then measured by_ip r else r\<lparr>row_measure := Some idle_measure\<rparr>) = row_localIP r" for r
      by simp
    then have "map row_localIP (ls_rows result) = map row_localIP rows" unfolding rows by (simp add: f(1))
    ultimately show ?thesis using result Some by simp
  qed
qed

text \<open>
  The listing is complete and faithful to the catalog.  Over any captured snapshot of IPv4
  addresses and any valid request, none of the internal consistency checks fails; the rows are
  exactly the selected networks, each once, in the requested order when they were named; a
  row is runnable exactly when all facts on its address allow it and the catalog resolves
  it; and a probe or measurement is attempted exactly for the runnable rows, when requested.
\<close>

lemma listing_reports_every_selected_network:
  assumes "s = newSnapshot links addresses rules routes" "\<forall>a \<in> set addresses. Is4 (pf_Addr (ao_prefix a))"
    and "validateRequest request = Inr v"
    and contract: "\<And>targets settings. map ob_target (dg_observe tools targets settings) = targets"
  shows "\<exists>result. listing_Run tools (captureSystemNetworks (Inr s)) request = Inr result \<and>
    distinct (map row_localIP (ls_rows result)) \<and>
    set (map row_localIP (ls_rows result)) =
      {ip \<in> selects s v. vr_explicit v \<noteq> [] \<or> vr_all v \<or> usable s ip} \<and>
    (vr_explicit v \<noteq> [] \<longrightarrow> map row_localIP (ls_rows result) = vr_explicit v) \<and>
    (\<forall>r \<in> set (ls_rows result). annotated s v r)"
proof -
  define selected where "selected = selectLocalNetworks (captured_of s) v"
  note sel = selection_props [OF assms(1,2) conjunct1 conjunct2, OF validateRequest_explicit validateRequest_explicit,
      OF assms(3,3), folded selected_def]
  define rows where "rows = (if vr_explicit v = [] \<and> \<not> vr_all v then runnableRows (map (row_of s) selected) else map (row_of s) selected)"
  have "rowsFromSelection (captured_of s) selected = Inr (map (row_of s) selected)"
    by (rule rowsFromSelection_snapshot [OF sel(1,2)])
  moreover have "distinct (map row_localIP rows)" "\<forall>r \<in> set rows. Is4 (row_localIP r)"
    using sel(1,2) by (auto simp: rows_def runnableRows_def o_def distinct_map_filter filter_map)
  moreover have "\<forall>r \<in> set rows. (row_runnable r \<longleftrightarrow> usable s (row_localIP r)) \<and> row_probe r = None \<and> row_measure r = None"
    using sel(4) by (auto simp: rows_def runnableRows_def)
  ultimately obtain result where "listing_Run tools (captureSystemNetworks (Inr s)) request = Inr result"
    and res: "map row_localIP (ls_rows result) = map row_localIP rows" "\<forall>r \<in> set (ls_rows result). annotated s v r"
    using diagnose_rows [of rows s tools "explicitSelectionFailed v rows" v, OF _ _ _ contract] assms(3)
    unfolding listing_Run_def captureSystemNetworks_def map_error_def selected_def rows_def Let_def by auto
  moreover have "set (map row_localIP rows) = {ip \<in> selects s v. vr_explicit v \<noteq> [] \<or> vr_all v \<or> usable s ip}"
    unfolding sel(3) [symmetric] using sel(4) by (auto simp: rows_def runnableRows_def filter_map image_image simp del: row_of_simps(4))
  moreover have "vr_explicit v \<noteq> [] \<Longrightarrow> map row_localIP rows = vr_explicit v"
    using explicit_selection(1) [of v s] by (simp add: rows_def selected_def o_def)
  ultimately show ?thesis using \<open>distinct (map row_localIP rows)\<close> by metis
qed


definition example_request :: list_request where
  "example_request = \<lparr>lr_explicitRaw = [], lr_all = True, lr_probe = None, lr_measure = None\<rparr>"

end
