(* ===== verification/Upload_Measure.thy ===== *)
theory Upload_Measure
  imports Throughput
begin

text \<open>
  The measurement of one target and of a group (\<open>throughput/http.go\<close>).  The network is the
  record \<open>transport\<close>: the answers of the resolver, of the preparation of the six streams and
  of the uploads of each stream in the sampling window.  A stream uploads until an answer
  ends it; \<open>None\<close> is a stream that is still uploading.  The code runs the streams and the
  targets in goroutines that write different entries, so that the model runs them in order.
\<close>

section \<open>Uploads of one stream\<close>

datatype stream_error = StreamCanceled | StreamDeadline | StreamOther string | StreamIncomplete | StreamOverflow

record upload_answer =
  ua_consumed :: int
  ua_complete :: bool
  ua_err :: "stream_error option"
  ua_ctx :: "stream_error option"

definition uploadRequestBytes :: "int list" where
  "uploadRequestBytes = [65536, 262144, 524288, 1048576, 2097152, 4194304]"

fun sampleStream :: "int \<Rightarrow> u64 \<Rightarrow> upload_answer list \<Rightarrow> (u64 \<times> stream_error) option" where
  "sampleStream n completed [] = None"
| "sampleStream n completed (a # as) =
     (case ua_err a of
        Some e \<Rightarrow> Some (completed, e)
      | None \<Rightarrow>
          if \<not> ua_complete a \<or> ua_consumed a \<noteq> n then Some (completed, StreamIncomplete)
          else case ua_ctx a of
            Some e \<Rightarrow> Some (completed, e)
          | None \<Rightarrow>
              if completed > - 1 - word_of_int (ua_consumed a) then Some (0, StreamOverflow)
              else sampleStream n (completed + word_of_int (ua_consumed a)) as)"

section \<open>One target\<close>

text \<open>\<open>sw_cause\<close> is the cancellation cause when it is neither a cancellation nor the deadline.\<close>

record sample_window =
  sw_uploads :: "upload_answer list list"
  sw_parentErr :: "string option"
  sw_cause :: "string option"

fun stream_error_text :: "stream_error \<Rightarrow> string" where
  "stream_error_text StreamCanceled = ''context canceled''"
| "stream_error_text StreamDeadline = ''context deadline exceeded''"
| "stream_error_text (StreamOther e) = e"
| "stream_error_text StreamIncomplete = ''measure endpoint did not consume complete upload''"
| "stream_error_text StreamOverflow = ''measured byte count overflows''"

text \<open>The last loop of \<open>sampleStreams\<close>.\<close>

fun tally :: "u64 \<Rightarrow> (u64 \<times> stream_error) list \<Rightarrow> string + u64" where
  "tally sum_bytes [] = Inr sum_bytes"
| "tally sum_bytes ((completed, e) # rest) =
     (if e \<noteq> StreamDeadline then Inl (stream_error_text e)
      else if sum_bytes > - 1 - completed then Inl ''measured byte count overflows''
      else tally (sum_bytes + completed) rest)"

fun run_streams :: "int list \<Rightarrow> upload_answer list list \<Rightarrow> (u64 \<times> stream_error) list option" where
  "run_streams [] uploads = Some []"
| "run_streams (n # ns) [] = None"
| "run_streams (n # ns) (as # uploads) =
     (case sampleStream n 0 as of
        None \<Rightarrow> None
      | Some r \<Rightarrow> map_option ((#) r) (run_streams ns uploads))"

definition sampleStreams :: "target \<Rightarrow> settings \<Rightarrow> sample_window \<Rightarrow> observation option" where
  "sampleStreams target settings window =
     (case run_streams uploadRequestBytes (sw_uploads window) of
        None \<Rightarrow> None
      | Some results \<Rightarrow> Some (
          let fail = failed target (set_duration settings) SampleUpload in
          case sw_parentErr window of
            Some e \<Rightarrow> fail e
          | None \<Rightarrow>
              (case sw_cause window of
                 Some e \<Rightarrow> fail e
               | None \<Rightarrow>
                   (case tally 0 results of
                      Inl e \<Rightarrow> fail e
                    | Inr sum_bytes \<Rightarrow>
                        if sum_bytes = 0 then fail ''no upload completed during measure window''
                        else \<lparr>ob_target = target, ob_bytes = sum_bytes, ob_duration = set_duration settings, ob_err = None\<rparr>))))"

record transport =
  tp_Hostname :: "url \<Rightarrow> string"
  tp_LookupNetIP :: "string \<Rightarrow> string + addr list"
  tp_prepare :: "target \<Rightarrow> settings \<Rightarrow> addr list \<Rightarrow> (FailureStage \<times> string) option"
  tp_window :: "target \<Rightarrow> settings \<Rightarrow> sample_window"

definition resolveEndpoint :: "transport \<Rightarrow> string \<Rightarrow> string + addr list" where
  "resolveEndpoint tp hostname =
     (case ParseAddr hostname of
        Inr parsed \<Rightarrow> if Is4 parsed then Inr [parsed] else Inl ''measure endpoint did not resolve to IPv4''
      | Inl _ \<Rightarrow>
          bind_r (tp_LookupNetIP tp hostname) (\<lambda>addresses.
            let result = filter Is4 addresses in
            if result = [] then Inl ''measure endpoint did not resolve to IPv4'' else Inr result))"

definition endpointPort :: "string \<Rightarrow> string \<Rightarrow> string" where
  "endpointPort scheme explicit =
     (if explicit \<noteq> [] then explicit else if scheme = ''https'' then ''443'' else ''80'')"

definition observeTarget :: "transport \<Rightarrow> target \<Rightarrow> settings \<Rightarrow> observation option" where
  "observeTarget tp target settings =
     (case resolveEndpoint tp (tp_Hostname tp (set_endpoint settings)) of
        Inl e \<Rightarrow> Some (failed target (set_duration settings) ResolveEndpoint e)
      | Inr addresses \<Rightarrow>
          (case tp_prepare tp target settings addresses of
             Some (stage, e) \<Rightarrow> Some (failed target (set_duration settings) stage e)
           | None \<Rightarrow> sampleStreams target settings (tp_window tp target settings)))"

section \<open>A group\<close>

text \<open>The loop that refuses an invalid or repeated target.\<close>

definition check_targets :: "target list \<Rightarrow> string + target list" where
  "check_targets targets =
     scan_seen (\<lambda>t. if \<not> target_valid t then Some ''throughput target is invalid'' else None)
       id (\<lambda>_. ''throughput target is repeated'') [] targets"

definition fail_all :: "target list \<Rightarrow> settings \<Rightarrow> string \<Rightarrow> observation list" where
  "fail_all targets settings e = map (\<lambda>t. failed t (set_duration settings) ResolveEndpoint e) targets"

definition Observe :: "transport \<Rightarrow> target list \<Rightarrow> settings \<Rightarrow> observation list option" where
  "Observe tp targets settings =
     (if targets = [] \<or> \<not> settings_Valid settings then Some (fail_all targets settings ''throughput inputs are invalid'')
      else case check_targets targets of
        Inl e \<Rightarrow> Some (fail_all targets settings e)
      | Inr _ \<Rightarrow> those (map (\<lambda>t. observeTarget tp t settings) targets))"

section \<open>Exact byte counts\<close>

definition upload_done :: "int \<Rightarrow> upload_answer \<Rightarrow> bool" where
  "upload_done n a \<longleftrightarrow> ua_err a = None \<and> ua_complete a \<and> ua_consumed a = n \<and> ua_ctx a = None"

definition completed_bytes :: "int \<Rightarrow> upload_answer list \<Rightarrow> nat" where
  "completed_bytes n as = nat n * length (takeWhile (upload_done n) as)"

lemma no_overflow_add: "\<not> (c > - 1 - d) \<Longrightarrow> unat (c + d) = unat c + unat (d :: u64)"
proof -
  assume "\<not> c > - 1 - d"
  then have "unat c \<le> unat (- 1 - d)" by (simp add: word_le_nat_alt not_less)
  also have "unat (- 1 - d) = 2 ^ 64 - 1 - unat d"
    by (subst unat_sub) (simp_all add: unsigned_minus_1_eq_mask mask_eq_exp_minus_1)
  finally have "unat c + unat d < 2 ^ 64" using unat_u64_less [of d] by simp
  then show ?thesis by (subst unat_add_lem [THEN iffD1]) simp_all
qed

lemma sampleStream_bytes:
  assumes "sampleStream n c as = Some (completed, e)" "e \<noteq> StreamOverflow" "0 \<le> n" "n < 2 ^ 64"
  shows "unat completed = unat c + completed_bytes n as"
  using assms
proof (induction n c as rule: sampleStream.induct)
  case (2 n c a as)
  show ?case
  proof (cases "upload_done n a \<and> \<not> c > - 1 - word_of_int n")
    case True
    then have "sampleStream n (c + word_of_int n) as = Some (completed, e)"
      using "2.prems" by (auto simp: upload_done_def)
    moreover have "unat (word_of_int n :: u64) = nat n" using "2.prems" by (simp add: unat_eq_nat_uint word_of_int_inverse)
    moreover have "unat (c + word_of_int n) = unat c + unat (word_of_int n :: u64)"
      by (rule no_overflow_add) (use True in blast)
    ultimately show ?thesis
      using "2.IH" "2.prems" True by (auto simp: upload_done_def completed_bytes_def)
  next
    case False
    then have "\<not> upload_done n a"
      using "2.prems"(1,2) by (auto simp: upload_done_def split: if_splits option.splits)
    then show ?thesis
      using "2.prems" by (auto simp: completed_bytes_def upload_done_def split: option.splits if_splits)
  qed
qed simp

lemma tally_exact:
  assumes "tally t results = Inr sum_bytes"
  shows "unat sum_bytes = unat t + sum_list (map (unat \<circ> fst) results) \<and> (\<forall>r \<in> set results. snd r = StreamDeadline)"
  using assms
proof (induction t results rule: tally.induct)
  case (2 t completed e rest)
  then have ok: "e = StreamDeadline" "\<not> t > - 1 - completed" "tally (t + completed) rest = Inr sum_bytes"
    by (auto split: if_splits)
  have "unat (t + completed) = unat t + unat completed" by (rule no_overflow_add [OF ok(2)])
  then show ?case using "2.IH" ok by simp
qed simp

lemma run_streams_bytes:
  assumes "run_streams ns uploads = Some results" "\<forall>r \<in> set results. snd r = StreamDeadline"
    and "\<forall>n \<in> set ns. 0 \<le> n \<and> n < 2 ^ 64"
  shows "map (unat \<circ> fst) results = map (\<lambda>(n, as). completed_bytes n as) (zip ns uploads)"
  using assms
proof (induction ns uploads arbitrary: results rule: run_streams.induct)
  case (3 n ns as uploads)
  then obtain c e rest where r: "sampleStream n 0 as = Some (c, e)" "run_streams ns uploads = Some rest" "results = (c, e) # rest"
    by (auto split: option.splits)
  then show ?case
    using "3.IH" "3.prems" sampleStream_bytes [OF r(1)] by simp
qed auto

text \<open>
  C34: a successful measurement is exact.  The bytes of an observation without an error are
  the bytes of the uploads that the endpoint completed within the window, summed over all
  streams without wrap-around, they are not zero, and the duration is the requested one.
\<close>

theorem measured_bytes_are_the_completed_uploads:
  assumes "observeTarget tp target settings = Some ob" "ob_err ob = None"
  shows "unat (ob_bytes ob) =
      sum_list (map (\<lambda>(n, as). completed_bytes n as) (zip uploadRequestBytes (sw_uploads (tp_window tp target settings)))) \<and>
    0 < ob_bytes ob \<and> ob_duration ob = set_duration settings \<and> ob_target ob = target"
proof -
  define window where "window = tp_window tp target settings"
  have "sampleStreams target settings window = Some ob"
    using assms by (auto simp: observeTarget_def failed_def window_def split: sum.splits option.splits)
  then obtain results where run: "run_streams uploadRequestBytes (sw_uploads window) = Some results"
    and tally: "tally 0 results = Inr (ob_bytes ob)"
    and ob: "ob_bytes ob \<noteq> 0" "ob_duration ob = set_duration settings" "ob_target ob = target"
    using assms(2) by (auto simp: sampleStreams_def failed_def Let_def split: option.splits sum.splits if_splits)
  have "\<forall>n \<in> set uploadRequestBytes. 0 \<le> n \<and> n < 2 ^ 64" by (simp add: uploadRequestBytes_def)
  then show ?thesis
    using run_streams_bytes [OF run] tally_exact [OF tally] ob by (simp add: window_def word_gt_0)
qed

lemma observeTarget_target: "observeTarget tp t settings = Some ob \<Longrightarrow> ob_target ob = t"
  by (auto simp: observeTarget_def sampleStreams_def failed_def Let_def split: sum.splits option.splits if_splits)

text \<open>The contract of a group measurement: one observation per target, in order.\<close>

lemma Observe_targets:
  assumes "Observe tp targets settings = Some obs"
  shows "map ob_target obs = targets"
proof -
  have "map ob_target (fail_all targets settings e) = targets" for e
    by (simp add: fail_all_def failed_def o_def)
  moreover have "those (map (\<lambda>t. observeTarget tp t settings) ts) = Some os \<Longrightarrow> map ob_target os = ts" for ts os
    by (induction ts arbitrary: os) (auto simp: observeTarget_target split: option.splits)
  ultimately show ?thesis
    using assms by (auto simp: Observe_def split: if_splits sum.splits)
qed

definition example_upload :: upload_answer where
  "example_upload = \<lparr>ua_consumed = 65536, ua_complete = True, ua_err = None, ua_ctx = None\<rparr>"

definition example_end :: upload_answer where
  "example_end = \<lparr>ua_consumed = 0, ua_complete = False, ua_err = Some StreamDeadline, ua_ctx = None\<rparr>"

definition example_transport :: transport where
  "example_transport =
     \<lparr>tp_Hostname = (\<lambda>_. ''192.0.2.1''), tp_LookupNetIP = (\<lambda>_. Inr []), tp_prepare = (\<lambda>_ _ _. None),
      tp_window = (\<lambda>_ _. \<lparr>sw_uploads = [example_upload, example_end] # replicate 5 [example_end],
         sw_parentErr = None, sw_cause = None\<rparr>)\<rparr>"

theorem measured_bytes_are_the_completed_uploads_witness:
  "\<exists>ob. observeTarget example_transport \<lparr>tg_localIP = V4 10 0 0 2, tg_transfer = no_number\<rparr> no_settings = Some ob \<and>
     0 < ob_bytes ob \<and> ob_duration ob = set_duration no_settings"
proof -
  let ?t = "\<lparr>tg_localIP = V4 10 0 0 2, tg_transfer = no_number\<rparr>"
  have "(case observeTarget example_transport ?t no_settings of Some ob \<Rightarrow> ob_err ob = None | None \<Rightarrow> False)" by code_simp
  then obtain ob where "observeTarget example_transport ?t no_settings = Some ob" "ob_err ob = None"
    by (auto split: option.splits)
  then show ?thesis using measured_bytes_are_the_completed_uploads [of example_transport ?t no_settings ob] by blast
qed

end
