(* ===== verification/Host_Allocation.thy ===== *)
theory Host_Allocation
  imports Network_Capture Identity "HOL-Library.Signed_Division"
begin

text \<open>
  The private network of a run (\<open>hostnetwork/allocation.go\<close>, with the link identities of
  \<open>link_owner.go\<close>, the priorities of \<open>nft.go\<close> and the inventory of \<open>firewall.go\<close>): from
  the selected egresses and an inventory of the host, a return table, a protocol, two rule
  priorities, a /30 subnet and the names and hardware addresses of one veth pair for every
  transfer.  The hash functions are parameters.

  The theorems say that nothing of the host is reused, that the subnets are disjoint from
  each other and from every known route, and that no earlier policy rule of the host takes
  the traffic of a transfer.  Go maps that serve as sets are lists of their keys.
\<close>

section \<open>More of net/netip\<close>

definition addr4 :: "u32 \<Rightarrow> addr" where
  "addr4 w = (let bs = be32 w in V4 (bs ! 0) (bs ! 1) (bs ! 2) (bs ! 3))"

definition word4 :: "addr \<Rightarrow> u32" where
  "word4 ip = (case ip of V4 a b c d \<Rightarrow> unbe [a, b, c, d] | _ \<Rightarrow> 0)"

definition Next :: "addr \<Rightarrow> addr" where
  "Next ip =
     (case ip of
        NoAddr \<Rightarrow> NoAddr
      | V4 _ _ _ _ \<Rightarrow> let w = word4 ip + 1 in if w = 0 then NoAddr else addr4 w
      | V6 _ _ _ _ _ _ _ _ z \<Rightarrow>
          let w = addr_word ip + 1; bs = be 16 w; g = (\<lambda>i. unbe [bs ! (2 * i), bs ! (2 * i + 1)]) in
          if w = 0 then NoAddr else V6 (g 0) (g 1) (g 2) (g 3) (g 4) (g 5) (g 6) (g 7) z)"

definition Overlaps :: "prefix \<Rightarrow> prefix \<Rightarrow> bool" where
  "Overlaps p q \<longleftrightarrow> pf_IsValid p \<and> pf_IsValid q \<and>
     (p = q \<or> Is4 (pf_Addr p) = Is4 (pf_Addr q) \<and>
        (let m = min (pf_Bits p) (pf_Bits q) in
         m = 0 \<or> drop_bit (BitLen (pf_Addr p) - nat m) (addr_word (pf_Addr p) XOR addr_word (pf_Addr q)) = 0))"

text \<open>\<open>Prefix.Masked\<close>; the sources only call it on IPv4 prefixes or where another prefix is refused.\<close>

definition Masked :: "prefix \<Rightarrow> prefix" where
  "Masked p = p\<lparr>pf_Addr := masked_address (pf_Bits p) (pf_Addr p)\<rparr>"

section \<open>Links\<close>

record crypto =
  cr_sha256 :: "byte list \<Rightarrow> byte list"
  cr_hmac :: "byte list \<Rightarrow> byte list \<Rightarrow> byte list"

definition linkOwnerBytes :: nat where "linkOwnerBytes = 15"

definition base64_table :: string where
  "base64_table = ''ABCDEFGHIJKLMNOPQRSTUVWXYZabcdefghijklmnopqrstuvwxyz0123456789-_''"

text \<open>\<open>base64.RawURLEncoding\<close>.\<close>

definition sextet :: "int \<Rightarrow> char" where
  "sextet n = base64_table ! nat (n mod 64)"

fun base64 :: "byte list \<Rightarrow> string" where
  "base64 [] = []"
| "base64 [a] = (let n = uint a * 16 in [sextet (n div 64), sextet n])"
| "base64 [a, b] = (let n = uint a * 1024 + uint b * 4 in [sextet (n div 4096), sextet (n div 64), sextet n])"
| "base64 (a # b # c # bs) =
     (let n = uint a * 65536 + uint b * 256 + uint c in
      sextet (n div 262144) # sextet (n div 4096) # sextet (n div 64) # sextet n # base64 bs)"

definition hostName :: "byte list \<Rightarrow> string" where
  "hostName owner = CHR ''w'' # base64 (take 10 owner)"

definition hostMAC :: "byte list \<Rightarrow> byte list" where
  "hostMAC owner = 0x02 # take 5 (drop 10 owner)"

definition keyedLinkDigest :: "crypto \<Rightarrow> byte list \<Rightarrow> string \<Rightarrow> transfer_number \<Rightarrow> byte list" where
  "keyedLinkDigest cr key domain transfer = cr_hmac cr key (to_bytes domain @ [0, num_value transfer])"

datatype host_error =
    LinkOwnerToken | PeerMACToken | OwnerTokenInvalid | SelectionCount | SelectionMissing nat | SelectionFacts nat
  | ReturnTablesExhausted | ProtocolsExhausted | PrioritiesExhausted | SubnetsExhausted | LinkNameExists string
  | NATPriorityExhausted int | NATChainIdentity nat | NATChainPriority int | NATChainDuplicate nft_identity
  | IPTablesFrontendUnknown | FirewallMissing | FirewallTableExists | OwnerCommentExists | FirewallUnsupported
and nft_identity = NftIdentity string string string

definition deriveLinkOwnerID :: "crypto \<Rightarrow> string \<Rightarrow> transfer_number \<Rightarrow> host_error + byte list" where
  "deriveLinkOwnerID cr ownerToken transfer =
     (case hex_decode ownerToken of
        None \<Rightarrow> Inl LinkOwnerToken
      | Some key \<Rightarrow>
          if length key \<noteq> 32 then Inl LinkOwnerToken
          else Inr (take linkOwnerBytes (keyedLinkDigest cr key ''transferlanes-link-owner-v1'' transfer)))"

definition derivePeerMAC :: "crypto \<Rightarrow> string \<Rightarrow> transfer_number \<Rightarrow> host_error + byte list" where
  "derivePeerMAC cr ownerToken transfer =
     (case hex_decode ownerToken of
        None \<Rightarrow> Inl PeerMACToken
      | Some key \<Rightarrow>
          if length key \<noteq> 32 then Inl PeerMACToken
          else Inr (0x06 # take 5 (keyedLinkDigest cr key ''transferlanes-link-peer-v1'' transfer)))"

text \<open>\<open>fmt.Sprintf("%02x", number)\<close> for the number of a transfer.\<close>

definition derivedPeerName :: "run_id \<Rightarrow> nat \<Rightarrow> string" where
  "derivedPeerName rid number = ''wrp'' @ take 10 (id_string rid) @ hex_encode [word_of_nat number]"

record link_allocation =
  lk_owner :: "byte list"
  lk_hostName :: string
  lk_hostMAC :: "byte list"
  lk_peerName :: string
  lk_peerMAC :: "byte list"

definition transferLinks :: "crypto \<Rightarrow> run_id \<Rightarrow> string \<Rightarrow> transfer_number \<Rightarrow> host_error + link_allocation" where
  "transferLinks cr rid ownerToken transfer =
     bind_r (deriveLinkOwnerID cr ownerToken transfer) (\<lambda>owner.
     bind_r (derivePeerMAC cr ownerToken transfer) (\<lambda>peerMAC.
       Inr \<lparr>lk_owner = owner, lk_hostName = hostName owner, lk_hostMAC = hostMAC owner,
            lk_peerName = derivedPeerName rid (num transfer), lk_peerMAC = peerMAC\<rparr>))"

definition reserveHostLinkName :: "string list \<Rightarrow> string \<Rightarrow> host_error + string list" where
  "reserveHostLinkName used name = (if name \<in> set used then Inl (LinkNameExists name) else Inr (name # used))"

definition validOwnerToken :: "string \<Rightarrow> bool" where
  "validOwnerToken v \<longleftrightarrow> length v = 64 \<and>
     (case hex_decode v of None \<Rightarrow> False | Some decoded \<Rightarrow> length decoded = 32 \<and> decoded \<noteq> replicate 32 0)"

section \<open>The inventory\<close>

definition firewallNFTables :: string where "firewallNFTables = ''nftables''"
definition firewallIPTables :: string where "firewallIPTables = ''iptables''"
definition iptablesFrontendNFT :: string where "iptablesFrontendNFT = ''nf_tables''"
definition iptablesFrontendLegacy :: string where "iptablesFrontendLegacy = ''legacy''"

definition knownIPTablesFrontend :: "string \<Rightarrow> bool" where
  "knownIPTablesFrontend v \<longleftrightarrow> v = iptablesFrontendNFT \<or> v = iptablesFrontendLegacy"

record nft_forward_chain =
  fc_Family :: string
  fc_Table :: string
  fc_Name :: string

record nft_nat_chain =
  nc_Family :: string
  nc_Table :: string
  nc_Name :: string
  nc_Priority :: int
  nc_HasRules :: bool

record firewall_inventory =
  fwl_kind :: string
  fwl_nftTableNames :: "string list"
  fwl_nftForwardChains :: "nft_forward_chain list"
  fwl_nftPostroutingNATChains :: "nft_nat_chain list"
  fwl_ownerReferences :: "string list"
  fwl_iptablesFrontend :: string
  fwl_iptablesForwardActive :: bool
  fwl_iptablesPostroutingActive :: bool

record routing_rule =
  rr_priority :: int
  rr_table :: int
  rr_action :: byte
  rr_source :: "prefix option"
  rr_destination :: "prefix option"
  rr_inputInterface :: string
  rr_inverted :: bool
  rr_unknownSelector :: bool
  rr_unknownTypes :: "u16 list"
  rr_builtinLocal :: bool
  rr_protocol :: byte

record host_inventory =
  hi_linkNames :: "string list"
  hi_firewall :: firewall_inventory
  hi_priorities :: "int list"
  hi_usedRouteTables :: "int list"
  hi_localAddresses :: "addr list"
  hi_routePrefixes :: "prefix list"
  hi_routingRules :: "routing_rule list"
  hi_usedProtocols :: "byte list"
  hi_conntrackOriginalSources :: "addr list"

section \<open>Allocation\<close>

definition firstPriority :: int where "firstPriority = 20000"
definition lastPriority :: int where "lastPriority = 29999"
definition firstReturnTable :: int where "firstReturnTable = 30000"
definition lastReturnTable :: int where "lastReturnTable = 39999"
definition firstClaimProtocol :: int where "firstClaimProtocol = 100"
definition lastClaimProtocol :: int where "lastClaimProtocol = 252"

definition temporaryRange :: prefix where
  "temporaryRange = \<lparr>pf_Addr = V4 198 18 0 0, pf_Bits = 15\<rparr>"

record egress_selection =
  hs_transfer :: transfer_number
  hs_source :: addr
  hs_providerName :: string
  hs_providerIndex :: int
  hs_routeTable :: int
  hs_gateway :: addr
  hs_hasGateway :: bool

record host_transfer =
  ht_transfer :: transfer_number
  ht_number :: nat
  ht_source :: addr
  ht_providerName :: string
  ht_providerIndex :: int
  ht_routeTable :: int
  ht_gateway :: addr
  ht_hasGateway :: bool
  ht_subnet :: prefix
  ht_hostIP :: addr
  ht_namespaceIP :: addr
  ht_outboundPriority :: int
  ht_returnPriority :: int
  ht_linkOwner :: "byte list"
  ht_hostVeth :: string
  ht_hostMAC :: "byte list"
  ht_peerVeth :: string
  ht_peerMAC :: "byte list"

record network_allocation =
  na_runID :: run_id
  na_ownerToken :: string
  na_protocol :: byte
  na_backend :: string
  na_iptablesFrontend :: string
  na_firewallTable :: string
  na_nftPostroutingPriority :: int
  na_returnTable :: int
  na_forwardChains :: "nft_forward_chain list"
  na_transfers :: "host_transfer list"

record allocation_starts =
  as_ownerToken :: string
  as_protocol :: int
  as_returnTable :: int
  as_priority :: int
  as_temporarySubnet :: int

definition startsFromOwnerToken :: "crypto \<Rightarrow> string \<Rightarrow> allocation_starts" where
  "startsFromOwnerToken cr ownerToken =
     (let digest = cr_sha256 cr (to_bytes ownerToken); u = (\<lambda>i. uint (unbe (take 4 (drop i digest)) :: u32)) in
      \<lparr>as_ownerToken = ownerToken, as_protocol = u 0, as_returnTable = u 4, as_priority = u 8, as_temporarySubnet = u 12\<rparr>)"

definition normalizedStart :: "int \<Rightarrow> int \<Rightarrow> int" where
  "normalizedStart start cnt = (let v = start smod cnt in if v < 0 then v + cnt else v)"

text \<open>\<open>for visited := 0; visited < count; visited++\<close> that returns the first value found.\<close>

function visit :: "int \<Rightarrow> int \<Rightarrow> (int \<Rightarrow> 'a option) \<Rightarrow> 'a option" where
  "visit visited cnt f =
     (if visited < cnt then (case f visited of Some x \<Rightarrow> Some x | None \<Rightarrow> visit (visited + 1) cnt f) else None)"
  by pat_completeness auto
termination by (relation "measure (\<lambda>(visited, cnt, f). nat (cnt - visited))") auto

declare visit.simps [simp del]

definition next_free :: "int \<Rightarrow> int \<Rightarrow> (int \<Rightarrow> bool) \<Rightarrow> int \<Rightarrow> int option" where
  "next_free lo hi used start =
     (let cnt = hi - lo + 1 in
      visit 0 cnt (\<lambda>visited.
        let v = lo + (normalizedStart start cnt + visited) mod cnt in if used v then None else Some v))"

definition nextPriorityFrom :: "int list \<Rightarrow> int \<Rightarrow> host_error + int" where
  "nextPriorityFrom used start =
     (case next_free firstPriority lastPriority (\<lambda>v. v \<in> set used) start of
        None \<Rightarrow> Inl PrioritiesExhausted | Some v \<Rightarrow> Inr v)"

definition nextReturnTableFrom :: "int list \<Rightarrow> int \<Rightarrow> host_error + int" where
  "nextReturnTableFrom used start =
     (case next_free firstReturnTable lastReturnTable (\<lambda>v. v \<in> set used) start of
        None \<Rightarrow> Inl ReturnTablesExhausted | Some v \<Rightarrow> Inr v)"

definition nextProtocolFrom :: "byte list \<Rightarrow> int \<Rightarrow> host_error + byte" where
  "nextProtocolFrom used start =
     (case next_free firstClaimProtocol lastClaimProtocol (\<lambda>v. word_of_int v \<in> set used) start of
        None \<Rightarrow> Inl ProtocolsExhausted | Some v \<Rightarrow> Inr (word_of_int v))"

definition addIPv4 :: "addr \<Rightarrow> u32 \<Rightarrow> addr" where
  "addIPv4 address offset = addr4 (word4 address + offset)"

definition overlapsAny :: "prefix \<Rightarrow> prefix list \<Rightarrow> bool" where
  "overlapsAny candidate used \<longleftrightarrow>
     (\<exists>p \<in> set used. pf_IsValid p \<and> Is4 (pf_Addr p) \<and> pf_Bits p > 0 \<and> Overlaps candidate (Masked p))"

definition containsAnyAddress :: "prefix \<Rightarrow> addr list \<Rightarrow> bool" where
  "containsAnyAddress p addresses \<longleftrightarrow> (\<exists>a \<in> set addresses. Contains p (Unmap a))"

definition makeTransferAllocation ::
  "egress_selection \<Rightarrow> link_allocation \<Rightarrow> prefix \<Rightarrow> int \<Rightarrow> int \<Rightarrow> host_transfer" where
  "makeTransferAllocation selected links subnet outboundPriority returnPriority =
     \<lparr>ht_transfer = hs_transfer selected, ht_number = num (hs_transfer selected), ht_source = hs_source selected,
      ht_providerName = hs_providerName selected, ht_providerIndex = hs_providerIndex selected,
      ht_routeTable = hs_routeTable selected, ht_gateway = hs_gateway selected, ht_hasGateway = hs_hasGateway selected,
      ht_subnet = subnet, ht_hostIP = Next (pf_Addr subnet), ht_namespaceIP = Next (Next (pf_Addr subnet)),
      ht_outboundPriority = outboundPriority, ht_returnPriority = returnPriority,
      ht_linkOwner = lk_owner links, ht_hostVeth = lk_hostName links, ht_hostMAC = lk_hostMAC links,
      ht_peerVeth = lk_peerName links, ht_peerMAC = lk_peerMAC links\<rparr>"

definition prefix_matches :: "prefix option \<Rightarrow> addr \<Rightarrow> bool" where
  "prefix_matches p ip = (case p of None \<Rightarrow> True | Some q \<Rightarrow> Contains q ip)"

text \<open>The body of the two loops over the rules, for a rule that precedes the allocation.\<close>

definition outbound_rule_preempts :: "host_transfer \<Rightarrow> routing_rule \<Rightarrow> bool" where
  "outbound_rule_preempts t rule =
     (let sourceMatches = prefix_matches (rr_source rule) (ht_namespaceIP t);
          interfaceMatches = rr_inputInterface rule = [] \<or> rr_inputInterface rule = ht_hostVeth t in
      if rr_inverted rule then \<not> sourceMatches \<or> \<not> interfaceMatches \<or> rr_unknownSelector rule
      else sourceMatches \<and> interfaceMatches)"

definition precedes :: "routing_rule \<Rightarrow> int \<Rightarrow> bool" where
  "precedes rule priority \<longleftrightarrow> \<not> (rr_builtinLocal rule \<or> rr_priority rule < 0 \<or> rr_priority rule \<ge> priority)"

definition hasPreemptingRule :: "host_transfer \<Rightarrow> routing_rule list \<Rightarrow> bool" where
  "hasPreemptingRule t rules \<longleftrightarrow>
     (\<exists>rule \<in> set rules. precedes rule (ht_outboundPriority t) \<and> outbound_rule_preempts t rule)"

definition returnSourceMayMatch :: "prefix option \<Rightarrow> addr list \<Rightarrow> bool" where
  "returnSourceMayMatch source localAddresses =
     (case source of
        None \<Rightarrow> True
      | Some p \<Rightarrow> if pf_Bits p \<noteq> 32 then True else pf_Addr p \<notin> set localAddresses)"

definition return_rule_preempts :: "host_transfer \<Rightarrow> addr list \<Rightarrow> routing_rule \<Rightarrow> bool" where
  "return_rule_preempts t localAddresses rule =
     (let destinationMatches = prefix_matches (rr_destination rule) (ht_namespaceIP t);
          interfaceMatches = rr_inputInterface rule = [] \<or> rr_inputInterface rule = ht_providerName t in
      if rr_inverted rule then \<not> destinationMatches \<or> \<not> interfaceMatches \<or> rr_source rule \<noteq> None \<or> rr_unknownSelector rule
      else returnSourceMayMatch (rr_source rule) localAddresses \<and> destinationMatches \<and> interfaceMatches)"

definition hasPreemptingReturnRule :: "host_transfer \<Rightarrow> routing_rule list \<Rightarrow> addr list \<Rightarrow> bool" where
  "hasPreemptingReturnRule t rules localAddresses \<longleftrightarrow>
     (\<exists>rule \<in> set rules. precedes rule (ht_returnPriority t) \<and> return_rule_preempts t localAddresses rule)"

definition candidateCount :: int where "candidateCount = 32768"

definition candidate_subnet :: "int \<Rightarrow> prefix" where
  "candidate_subnet index = \<lparr>pf_Addr = addIPv4 (pf_Addr temporaryRange) (word_of_int (index * 4)), pf_Bits = 30\<rparr>"

definition nextTemporarySubnetForTransferFrom ::
  "egress_selection \<Rightarrow> link_allocation \<Rightarrow> int \<Rightarrow> int \<Rightarrow> prefix list \<Rightarrow> routing_rule list \<Rightarrow> addr list \<Rightarrow> addr list \<Rightarrow> int \<Rightarrow>
   host_error + prefix" where
  "nextTemporarySubnetForTransferFrom selected links outboundPriority returnPriority used rules localAddresses
       conntrackSources start =
     (case visit 0 candidateCount (\<lambda>visited.
        let candidate = candidate_subnet ((normalizedStart start candidateCount + visited) mod candidateCount) in
        if overlapsAny candidate used \<or> containsAnyAddress candidate conntrackSources then None
        else
          let t = makeTransferAllocation selected links candidate outboundPriority returnPriority in
          if \<not> hasPreemptingRule t rules \<and> \<not> hasPreemptingReturnRule t rules localAddresses then Some candidate else None) of
        None \<Rightarrow> Inl SubnetsExhausted
      | Some candidate \<Rightarrow> Inr candidate)"

definition validProviderName :: "string \<Rightarrow> bool" where
  "validProviderName name \<longleftrightarrow>
     name \<noteq> [] \<and> name \<noteq> ''.'' \<and> name \<noteq> ''..'' \<and> length name \<le> 15 \<and> CHR ''/'' \<notin> set name \<and> CHR 0x00 \<notin> set name"

definition check_selected_egress :: "nat \<times> egress_selection \<Rightarrow> host_error + egress_selection" where
  "check_selected_egress iv =
     (case iv of (index, v) \<Rightarrow>
        if num (hs_transfer v) \<noteq> index + 1 then Inl (SelectionMissing (index + 1))
        else if \<not> validProviderName (hs_providerName v) \<or> \<not> Is4 (hs_source v) \<or> IsUnspecified (hs_source v) \<or>
          hs_providerIndex v \<le> 0 \<or> hs_routeTable v \<le> 0 \<or> hs_hasGateway v \<and> \<not> Is4 (hs_gateway v)
        then Inl (SelectionFacts (num (hs_transfer v)))
        else Inr v)"

definition orderedSelections :: "egress_selection list \<Rightarrow> host_error + egress_selection list" where
  "orderedSelections selected =
     (if selected = [] \<or> length selected > transfer_maximum then Inl SelectionCount
      else map_r check_selected_egress (enumerate 0 (sort_key (num \<circ> hs_transfer) selected)))"

definition nftConntrackPriority :: int where "nftConntrackPriority = - 200"
definition iptablesSourceNATPriority :: int where "iptablesSourceNATPriority = 100"

definition validateNFTNATPriority :: "int \<Rightarrow> host_error option" where
  "validateNFTNATPriority priority = (if priority \<le> nftConntrackPriority then Some (NATChainPriority priority) else None)"

definition chain_identity_ok :: "string \<Rightarrow> string \<Rightarrow> string \<Rightarrow> bool" where
  "chain_identity_ok family table name \<longleftrightarrow>
     (family = ''ip'' \<or> family = ''inet'') \<and> table \<noteq> [] \<and> name \<noteq> [] \<and> CHR 0x00 \<notin> set table \<and> CHR 0x00 \<notin> set name"

definition nat_identity :: "nft_nat_chain \<Rightarrow> nft_identity" where
  "nat_identity c = NftIdentity (nc_Family c) (nc_Table c) (nc_Name c)"

definition validateNFTPostroutingNATChains :: "nft_nat_chain list \<Rightarrow> host_error + nft_identity list" where
  "validateNFTPostroutingNATChains natChains =
     scan_seen (\<lambda>(index, c).
        if \<not> chain_identity_ok (nc_Family c) (nc_Table c) (nc_Name c) then Some (NATChainIdentity index)
        else validateNFTNATPriority (nc_Priority c))
       (nat_identity \<circ> snd) (NATChainDuplicate \<circ> nat_identity \<circ> snd) [] (enumerate 0 natChains)"

definition nextNFTPostroutingPriority :: "nft_nat_chain list \<Rightarrow> host_error + int" where
  "nextNFTPostroutingPriority natChains =
     bind_r (validateNFTPostroutingNATChains natChains) (\<lambda>_.
       let earliest = foldl (\<lambda>e c. if nc_HasRules c \<and> nc_Priority c < e then nc_Priority c else e)
             iptablesSourceNATPriority natChains in
       if earliest \<le> nftConntrackPriority + 1 then Inl (NATPriorityExhausted earliest) else Inr (earliest - 1))"

definition firewallName :: "run_id \<Rightarrow> string" where
  "firewallName rid = ''transferlanes_'' @ id_string rid"

definition rejectFirewallIdentityCollisions :: "run_id \<Rightarrow> host_inventory \<Rightarrow> host_error + unit" where
  "rejectFirewallIdentityCollisions rid inventory =
     (let fw = hi_firewall inventory in
      if fwl_kind fw = firewallNFTables then
        (if firewallName rid \<in> set (fwl_nftTableNames fw) then Inl FirewallTableExists
         else if id_string rid \<in> set (fwl_ownerReferences fw) then Inl OwnerCommentExists else Inr ())
      else if fwl_kind fw = firewallIPTables then
        (if id_string rid \<in> set (fwl_ownerReferences fw) then Inl OwnerCommentExists else Inr ())
      else Inl FirewallUnsupported)"

text \<open>The switch over the firewall backend: frontend, table, forward chains and NAT priority.\<close>

definition firewall_identity ::
  "run_id \<Rightarrow> host_inventory \<Rightarrow> network_allocation \<Rightarrow> host_error + network_allocation" where
  "firewall_identity rid inventory result =
     (let fw = hi_firewall inventory in
      if fwl_kind fw = firewallNFTables then
        bind_r (nextNFTPostroutingPriority (fwl_nftPostroutingNATChains fw)) (\<lambda>priority.
          Inr (result\<lparr>na_firewallTable := firewallName rid, na_forwardChains := fwl_nftForwardChains fw,
            na_nftPostroutingPriority := priority\<rparr>))
      else if fwl_kind fw = firewallIPTables then
        (if \<not> knownIPTablesFrontend (fwl_iptablesFrontend fw) then Inl IPTablesFrontendUnknown
         else Inr (result\<lparr>na_iptablesFrontend := fwl_iptablesFrontend fw\<rparr>))
      else Inl FirewallMissing)"

definition allocateRunNetworkIdentity ::
  "run_id \<Rightarrow> egress_selection list \<Rightarrow> host_inventory \<Rightarrow> allocation_starts \<Rightarrow> host_error + network_allocation" where
  "allocateRunNetworkIdentity rid selected inventory starts =
     bind_r (nextReturnTableFrom (map hs_routeTable selected @ hi_usedRouteTables inventory) (as_returnTable starts)) (\<lambda>returnTable.
     bind_r (nextProtocolFrom (hi_usedProtocols inventory) (as_protocol starts)) (\<lambda>protocol.
     bind_r (firewall_identity rid inventory
         \<lparr>na_runID = rid, na_ownerToken = as_ownerToken starts, na_protocol = protocol,
          na_backend = fwl_kind (hi_firewall inventory), na_iptablesFrontend = [], na_firewallTable = [],
          na_nftPostroutingPriority = 0, na_returnTable = returnTable, na_forwardChains = [], na_transfers = []\<rparr>) (\<lambda>result.
     bind_r (rejectFirewallIdentityCollisions rid inventory) (\<lambda>_. Inr result))))"

fun append_transfers ::
  "crypto \<Rightarrow> run_id \<Rightarrow> host_inventory \<Rightarrow> allocation_starts \<Rightarrow> addr list \<Rightarrow> string list \<Rightarrow> prefix list \<Rightarrow> int list \<Rightarrow>
   egress_selection list \<Rightarrow> host_error + host_transfer list" where
  "append_transfers cr rid inventory starts locals usedLinkNames usedPrefixes usedPriorities [] = Inr []"
| "append_transfers cr rid inventory starts locals usedLinkNames usedPrefixes usedPriorities (selected # rest) =
     bind_r (transferLinks cr rid (as_ownerToken starts) (hs_transfer selected)) (\<lambda>links.
     bind_r (reserveHostLinkName usedLinkNames (lk_hostName links)) (\<lambda>usedLinkNames.
     bind_r (nextPriorityFrom usedPriorities (as_priority starts)) (\<lambda>outboundPriority.
     bind_r (nextPriorityFrom (outboundPriority # usedPriorities) (as_priority starts)) (\<lambda>returnPriority.
     bind_r (nextTemporarySubnetForTransferFrom selected links outboundPriority returnPriority usedPrefixes
         (hi_routingRules inventory) locals (hi_conntrackOriginalSources inventory) (as_temporarySubnet starts)) (\<lambda>subnet.
     bind_r (append_transfers cr rid inventory starts locals usedLinkNames (usedPrefixes @ [subnet])
         (returnPriority # outboundPriority # usedPriorities) rest) (\<lambda>transfers.
       Inr (makeTransferAllocation selected links subnet outboundPriority returnPriority # transfers)))))))"

definition appendTransferAllocations ::
  "crypto \<Rightarrow> network_allocation \<Rightarrow> egress_selection list \<Rightarrow> host_inventory \<Rightarrow> allocation_starts \<Rightarrow> host_error + network_allocation" where
  "appendTransferAllocations cr result selected inventory starts =
     bind_r (append_transfers cr (na_runID result) inventory starts (map hs_source selected @ hi_localAddresses inventory)
         (hi_linkNames inventory) (hi_routePrefixes inventory) (hi_priorities inventory) selected) (\<lambda>transfers.
       Inr (result\<lparr>na_transfers := transfers\<rparr>))"

definition allocateNetworkWithStarts ::
  "crypto \<Rightarrow> run_id \<Rightarrow> egress_selection list \<Rightarrow> host_inventory \<Rightarrow> allocation_starts \<Rightarrow> host_error + network_allocation" where
  "allocateNetworkWithStarts cr rid selected inventory starts =
     bind_r (orderedSelections selected) (\<lambda>ordered.
     bind_r (allocateRunNetworkIdentity rid ordered inventory starts) (\<lambda>result.
       appendTransferAllocations cr result ordered inventory starts))"

definition allocateClaimNetwork ::
  "crypto \<Rightarrow> run_id \<Rightarrow> string \<Rightarrow> egress_selection list \<Rightarrow> host_inventory \<Rightarrow> host_error + network_allocation" where
  "allocateClaimNetwork cr rid ownerToken selected inventory =
     (if \<not> validOwnerToken ownerToken then Inl OwnerTokenInvalid
      else allocateNetworkWithStarts cr rid selected inventory (startsFromOwnerToken cr ownerToken))"


section \<open>Searching\<close>

lemma visit_Some: "visit v n f = Some x \<Longrightarrow> \<exists>i. v \<le> i \<and> i < n \<and> f i = Some x"
proof (induction v n f rule: visit.induct)
  case (1 v n f)
  show ?case
  proof (cases "f v")
    case None
    then have "v < n" "visit (v + 1) n f = Some x"
      using 1(2) by (auto simp: visit.simps [of v n f] split: if_splits)
    with 1(1) None show ?thesis by (metis add.commute add_le_same_cancel2 order_trans zero_le_one add_increasing2 dual_order.refl zle_add1_eq_le order_less_imp_le)
  next
    case (Some y)
    then show ?thesis using 1(2) by (auto simp: visit.simps [of v n f] split: if_splits)
  qed
qed

lemma visit_None: "visit v n f = None \<longleftrightarrow> (\<forall>i. v \<le> i \<longrightarrow> i < n \<longrightarrow> f i = None)"
proof (induction v n f rule: visit.induct)
  case (1 v n f)
  show ?case
  proof (cases "v < n \<and> f v = None")
    case True
    have "(\<forall>i. v \<le> i \<longrightarrow> i < n \<longrightarrow> f i = None) \<longleftrightarrow> (\<forall>i. v + 1 \<le> i \<longrightarrow> i < n \<longrightarrow> f i = None)"
      using True by (metis order_le_less zless_imp_add1_zle add1_zle_eq)
    then show ?thesis using True 1 by (simp add: visit.simps [of v n f])
  next
    case False
    then show ?thesis by (auto simp: visit.simps [of v n f] split: option.splits)
  qed
qed

lemma normalizedStart_mod:
  assumes "0 < n"
  shows "normalizedStart s n = s mod n"
  using pos_mod_sign [OF assms, of s] pos_mod_bound [OF assms, of s]
  by (cases "sgn s \<noteq> sgn n \<and> \<not> n dvd s") (auto simp: normalizedStart_def Let_def signed_modulo_int_eq_modulo_int)

text \<open>The cyclic search meets every value of the range: it fails only when all are used.\<close>

lemma next_free_Some: "next_free lo hi used s = Some v \<Longrightarrow> lo \<le> v \<and> v \<le> hi \<and> \<not> used v"
proof -
  assume a: "next_free lo hi used s = Some v"
  then obtain i where i: "0 \<le> i" "i < hi - lo + 1" "\<not> used (lo + (normalizedStart s (hi - lo + 1) + i) mod (hi - lo + 1))"
    "v = lo + (normalizedStart s (hi - lo + 1) + i) mod (hi - lo + 1)"
    by (auto simp: next_free_def Let_def dest!: visit_Some split: if_splits)
  then have "0 < hi - lo + 1" by simp
  then have "0 \<le> (normalizedStart s (hi - lo + 1) + i) mod (hi - lo + 1)"
    "(normalizedStart s (hi - lo + 1) + i) mod (hi - lo + 1) < hi - lo + 1"
    by (rule pos_mod_sign, rule pos_mod_bound)
  with i show ?thesis by simp
qed

lemma next_free_None:
  assumes "next_free lo hi used s = None" "lo \<le> v" "v \<le> hi"
  shows "used v"
proof -
  define n where "n = hi - lo + 1"
  define i where "i = (v - lo - s mod n) mod n"
  have n: "0 < n" using assms by (simp add: n_def)
  then have i: "0 \<le> i" "i < n" by (simp_all add: i_def)
  have "(normalizedStart s n + i) mod n = v - lo"
    using n assms by (simp add: normalizedStart_mod i_def mod_simps n_def)
  moreover have "(let v = lo + (normalizedStart s n + i) mod n in if used v then None else Some v) = None"
    using assms(1) i unfolding next_free_def n_def [symmetric] by (simp add: Let_def visit_None)
  ultimately show ?thesis by (simp split: if_splits)
qed


section \<open>Prefixes of IPv4\<close>

lemma word4_addr4 [simp]: "word4 (addr4 w) = w"
proof -
  have "[be32 w ! 0, be32 w ! 1, be32 w ! 2, be32 w ! 3] = be32 w" by (rule list4) simp
  then show ?thesis by (simp add: word4_def addr4_def Let_def)
qed

lemma Is4_addr4 [simp]: "Is4 (addr4 w)"
  by (simp add: addr4_def Let_def Is4_def)

lemma addr_word_4: "Is4 ip \<Longrightarrow> addr_word ip = ucast (word4 ip)"
  by (auto simp: Is4_def addr_word_def word4_def unbe_ucast [where ?'a = 128 and ?'b = 32] split: addr.splits)

lemma Is4_facts: "Is4 ip \<Longrightarrow> BitLen ip = 32 \<and> zone_of ip = [] \<and> ip \<noteq> NoAddr"
  by (auto simp: Is4_def BitLen_def zone_of_def split: addr.splits)

lemma BitLen_32: "BitLen ip = 32 \<longleftrightarrow> Is4 ip"
  by (auto simp: Is4_def BitLen_def split: addr.splits)

lemma Contains_4:
  assumes "Is4 (pf_Addr p)"
  shows "Contains p ip \<longleftrightarrow> pf_IsValid p \<and> Is4 ip \<and>
    drop_bit (32 - nat (pf_Bits p)) (word4 ip) = drop_bit (32 - nat (pf_Bits p)) (word4 (pf_Addr p))"
proof (cases "Is4 ip")
  case True
  show ?thesis
    unfolding Contains_def drop_bit_eq_0_xor addr_word_4 [OF True] addr_word_4 [OF assms]
    using Is4_facts [OF True] Is4_facts [OF assms] True by (simp add: drop_bit_ucast_eq)
qed (use Is4_facts [OF assms] BitLen_32 [of ip] in \<open>auto simp: Contains_def\<close>)

lemma drop_bit_mono: "drop_bit k a = drop_bit k (b :: 'a::len word) \<Longrightarrow> k \<le> n \<Longrightarrow> drop_bit n a = drop_bit n b"
  by (metis drop_bit_drop_bit le_add_diff_inverse2)

text \<open>Prefixes that share an address overlap.\<close>

lemma Contains_Overlaps:
  assumes "Contains p ip" "Contains q ip"
  shows "Overlaps p q"
proof -
  define m where "m = min (pf_Bits p) (pf_Bits q)"
  define n where "n = BitLen ip"
  have len: "BitLen (pf_Addr p) = n" "BitLen (pf_Addr q) = n" "pf_IsValid p" "pf_IsValid q"
    using assms by (simp_all add: Contains_def n_def)
  have "drop_bit (n - nat (pf_Bits p)) (addr_word ip) = drop_bit (n - nat (pf_Bits p)) (addr_word (pf_Addr p))"
    "drop_bit (n - nat (pf_Bits q)) (addr_word ip) = drop_bit (n - nat (pf_Bits q)) (addr_word (pf_Addr q))"
    using assms unfolding Contains_def drop_bit_eq_0_xor n_def by simp_all
  moreover have "n - nat (pf_Bits p) \<le> n - nat m" "n - nat (pf_Bits q) \<le> n - nat m" by (simp_all add: m_def)
  ultimately have "drop_bit (n - nat m) (addr_word ip) = drop_bit (n - nat m) (addr_word (pf_Addr p))"
    "drop_bit (n - nat m) (addr_word ip) = drop_bit (n - nat m) (addr_word (pf_Addr q))"
    by (blast intro: drop_bit_mono)+
  moreover have "Is4 (pf_Addr p) = Is4 (pf_Addr q)" using len by (simp flip: BitLen_32)
  ultimately show ?thesis
    using len unfolding Overlaps_def Let_def m_def [symmetric] drop_bit_eq_0_xor by simp
qed

lemma Contains_Masked:
  assumes "Is4 (pf_Addr p)" "Contains p ip"
  shows "Contains (Masked p) ip"
proof -
  define k where "k = 32 - nat (pf_Bits p)"
  have valid: "pf_IsValid p" using assms(2) by (simp add: Contains_def)
  obtain a b c d where p: "pf_Addr p = V4 a b c d" using assms(1) by (auto simp: Is4_def split: addr.splits)
  have "pf_Addr (Masked p) = addr4 (push_bit k (drop_bit k (word4 (pf_Addr p))))"
    by (simp add: Masked_def masked_address_def p masked4_def Let_def addr4_def word4_def k_def)
  moreover have "pf_Bits (Masked p) = pf_Bits p" by (simp add: Masked_def)
  moreover have "drop_bit k (push_bit k (drop_bit k w)) = drop_bit k (w :: u32)" for w
    by (rule drop_push_drop) (simp add: k_def)
  ultimately show ?thesis
    using assms valid by (simp add: Contains_4 pf_IsValid_def k_def [symmetric])
qed

lemma not_overlapsAny:
  assumes "\<not> overlapsAny candidate used" "p \<in> set used" "Is4 (pf_Addr p)" "0 < pf_Bits p" "Contains candidate ip"
  shows "\<not> Contains p ip"
proof
  assume "Contains p ip"
  then have "Overlaps candidate (Masked p)" by (intro Contains_Overlaps [OF assms(5)] Contains_Masked assms)
  with assms show False by (auto simp: overlapsAny_def pf_IsValid_def)
qed

section \<open>Candidates\<close>

lemma candidate_word:
  assumes "0 \<le> i" "i < candidateCount"
  shows "uint (word4 (pf_Addr (candidate_subnet i))) = 3323068416 + 4 * i"
    and "Is4 (pf_Addr (candidate_subnet i))" "pf_Bits (candidate_subnet i) = 30"
proof -
  have "word4 (V4 198 18 0 0) = 3323068416" by code_simp
  then have "word4 (pf_Addr (candidate_subnet i)) = word_of_int (3323068416 + 4 * i)"
    by (simp add: candidate_subnet_def addIPv4_def temporaryRange_def algebra_simps)
  then show "uint (word4 (pf_Addr (candidate_subnet i))) = 3323068416 + 4 * i"
    using assms unfolding candidateCount_def by (simp only: uint_word_of_int) simp
qed (simp_all add: candidate_subnet_def addIPv4_def)

lemma Contains_candidate:
  assumes "0 \<le> i" "i < candidateCount"
  shows "Contains (candidate_subnet i) ip \<longleftrightarrow> Is4 ip \<and> uint (word4 ip) div 4 = 830767104 + i"
proof -
  have "(drop_bit 2 (word4 ip) = drop_bit 2 (word4 (pf_Addr (candidate_subnet i)))) \<longleftrightarrow> uint (word4 ip) div 4 = 830767104 + i"
    unfolding drop_bit_eq_div word_uint_eq_iff uint_div_distrib candidate_word [OF assms] by simp
  then show ?thesis using candidate_word [OF assms] by (simp add: Contains_4 pf_IsValid_def)
qed

lemma addr4_word4 [simp]: "Is4 ip \<Longrightarrow> addr4 (word4 ip) = ip"
  by (auto simp: Is4_def addr4_def word4_def Let_def be_unbe split: addr.splits)

lemma Next_4:
  assumes "Is4 ip" "uint (word4 ip) < 4294967295"
  shows "Is4 (Next ip)" "uint (word4 (Next ip)) = uint (word4 ip) + 1"
proof -
  have *: "uint (word4 ip + 1) = uint (word4 ip) + 1" using assms(2) by (simp add: uint_word_ariths)
  then have "word4 ip + 1 \<noteq> 0" using uint_ge_0 [of "word4 ip"] by (intro notI) simp
  then have "Next ip = addr4 (word4 ip + 1)"
    using assms(1) by (cases ip) (simp_all add: Next_def Is4_def Let_def)
  with * show "Is4 (Next ip)" "uint (word4 (Next ip)) = uint (word4 ip) + 1" by simp_all
qed

text \<open>The two hosts of a candidate lie inside it; two candidates share no address.\<close>

lemma candidate_hosts:
  assumes "0 \<le> i" "i < candidateCount"
  defines "s \<equiv> candidate_subnet i"
  shows "Contains s (pf_Addr s)" "Contains s (Next (pf_Addr s))" "Contains s (Next (Next (pf_Addr s)))"
    and "Next (pf_Addr s) \<noteq> Next (Next (pf_Addr s))" "Contains temporaryRange (pf_Addr s)"
proof -
  note w = candidate_word [OF assms(1,2), folded s_def]
  have n1: "Is4 (Next (pf_Addr s))" "uint (word4 (Next (pf_Addr s))) = 3323068417 + 4 * i"
    using Next_4 [OF w(2)] w(1) assms(2) by (simp_all add: candidateCount_def)
  have n2: "Is4 (Next (Next (pf_Addr s)))" "uint (word4 (Next (Next (pf_Addr s)))) = 3323068418 + 4 * i"
    using Next_4 [OF n1(1)] n1(2) assms(2) by (simp_all add: candidateCount_def)
  show "Contains s (pf_Addr s)" "Contains s (Next (pf_Addr s))" "Contains s (Next (Next (pf_Addr s)))"
    using w n1 n2 unfolding s_def by (simp_all add: Contains_candidate [OF assms(1,2)])
  show "Next (pf_Addr s) \<noteq> Next (Next (pf_Addr s))" using n1(2) n2(2) by auto
  have "word4 (V4 198 18 0 0) = 3323068416" by code_simp
  then have "drop_bit 17 (word4 (pf_Addr s)) = drop_bit 17 (word4 (V4 198 18 0 0))"
    using assms(2,1) unfolding drop_bit_eq_div word_uint_eq_iff uint_div_distrib w(1) by (simp add: candidateCount_def)
  then show "Contains temporaryRange (pf_Addr s)"
    using w(2) by (simp add: Contains_4 temporaryRange_def pf_IsValid_def Is4_def)
qed


section \<open>What an allocation is\<close>

definition priorities_of :: "host_transfer \<Rightarrow> int list" where
  "priorities_of t = [ht_outboundPriority t, ht_returnPriority t]"

definition transfer_ok ::
  "crypto \<Rightarrow> run_id \<Rightarrow> host_inventory \<Rightarrow> allocation_starts \<Rightarrow> addr list \<Rightarrow> egress_selection \<Rightarrow> host_transfer \<Rightarrow> bool" where
  "transfer_ok cr rid inventory starts locals selected t \<longleftrightarrow>
     (\<exists>links i. transferLinks cr rid (as_ownerToken starts) (hs_transfer selected) = Inr links \<and>
        0 \<le> i \<and> i < candidateCount \<and>
        t = makeTransferAllocation selected links (candidate_subnet i) (ht_outboundPriority t) (ht_returnPriority t)) \<and>
     \<not> containsAnyAddress (ht_subnet t) (hi_conntrackOriginalSources inventory) \<and>
     \<not> hasPreemptingRule t (hi_routingRules inventory) \<and> \<not> hasPreemptingReturnRule t (hi_routingRules inventory) locals"

lemma nextPriorityFrom_Inr: "nextPriorityFrom used s = Inr v \<Longrightarrow> firstPriority \<le> v \<and> v \<le> lastPriority \<and> v \<notin> set used"
  by (auto simp: nextPriorityFrom_def dest!: next_free_Some split: option.splits)

lemma nextReturnTableFrom_Inr:
  "nextReturnTableFrom used s = Inr v \<Longrightarrow> firstReturnTable \<le> v \<and> v \<le> lastReturnTable \<and> v \<notin> set used"
  by (auto simp: nextReturnTableFrom_def dest!: next_free_Some split: option.splits)

lemma nextProtocolFrom_Inr:
  "nextProtocolFrom used s = Inr v \<Longrightarrow> firstClaimProtocol \<le> uint v \<and> uint v \<le> lastClaimProtocol \<and> v \<notin> set used"
  by (auto simp: nextProtocolFrom_def firstClaimProtocol_def lastClaimProtocol_def uint_word_of_int
      dest!: next_free_Some split: option.splits)

lemma nextTemporarySubnet_Inr:
  assumes "nextTemporarySubnetForTransferFrom selected links out ret used rules locals sources s = Inr subnet"
  obtains i where "0 \<le> i" "i < candidateCount" "subnet = candidate_subnet i" "\<not> overlapsAny subnet used"
    "\<not> containsAnyAddress subnet sources"
    "\<not> hasPreemptingRule (makeTransferAllocation selected links subnet out ret) rules"
    "\<not> hasPreemptingReturnRule (makeTransferAllocation selected links subnet out ret) rules locals"
proof -
  obtain v where "0 \<le> v" "v < candidateCount"
    and v: "subnet = candidate_subnet ((normalizedStart s candidateCount + v) mod candidateCount)"
    "\<not> overlapsAny subnet used" "\<not> containsAnyAddress subnet sources"
    "\<not> hasPreemptingRule (makeTransferAllocation selected links subnet out ret) rules"
    "\<not> hasPreemptingReturnRule (makeTransferAllocation selected links subnet out ret) rules locals"
    using assms
    by (auto simp: nextTemporarySubnetForTransferFrom_def Let_def dest!: visit_Some split: option.splits if_splits)
  have "0 \<le> (normalizedStart s candidateCount + v) mod candidateCount"
    "(normalizedStart s candidateCount + v) mod candidateCount < candidateCount"
    by (simp_all add: candidateCount_def)
  then show thesis using v by (rule that)
qed

lemma make_simps [simp]:
  "ht_subnet (makeTransferAllocation selected links subnet out ret) = subnet"
  "ht_hostVeth (makeTransferAllocation selected links subnet out ret) = lk_hostName links"
  "ht_outboundPriority (makeTransferAllocation selected links subnet out ret) = out"
  "ht_returnPriority (makeTransferAllocation selected links subnet out ret) = ret"
  "priorities_of (makeTransferAllocation selected links subnet out ret) = [out, ret]"
  "ht_transfer (makeTransferAllocation selected links subnet out ret) = hs_transfer selected"
  by (simp_all add: makeTransferAllocation_def priorities_of_def)

lemma overlapsAny_append [simp]: "overlapsAny c (used @ used') \<longleftrightarrow> overlapsAny c used \<or> overlapsAny c used'"
  by (auto simp: overlapsAny_def)

lemma append_transfers_Inr:
  assumes "append_transfers cr rid inventory starts locals names prefixes priorities sels = Inr ts"
  shows "list_all2 (transfer_ok cr rid inventory starts locals) sels ts \<and>
    (\<forall>t \<in> set ts. \<not> overlapsAny (ht_subnet t) prefixes) \<and>
    sorted_wrt (\<lambda>t t'. \<not> overlapsAny (ht_subnet t') [ht_subnet t]) ts \<and>
    distinct (map ht_hostVeth ts) \<and> ht_hostVeth ` set ts \<inter> set names = {} \<and>
    distinct (concat (map priorities_of ts)) \<and>
    (\<forall>t \<in> set ts. \<forall>p \<in> set (priorities_of t). firstPriority \<le> p \<and> p \<le> lastPriority \<and> p \<notin> set priorities)"
  using assms
proof (induction sels arbitrary: names prefixes priorities ts)
  case (Cons sel sels)
  obtain links names' out ret subnet ts' where
    links: "transferLinks cr rid (as_ownerToken starts) (hs_transfer sel) = Inr links"
    and names: "reserveHostLinkName names (lk_hostName links) = Inr names'"
    and out: "nextPriorityFrom priorities (as_priority starts) = Inr out"
    and ret: "nextPriorityFrom (out # priorities) (as_priority starts) = Inr ret"
    and subnet: "nextTemporarySubnetForTransferFrom sel links out ret prefixes (hi_routingRules inventory) locals
      (hi_conntrackOriginalSources inventory) (as_temporarySubnet starts) = Inr subnet"
    and rest: "append_transfers cr rid inventory starts locals names' (prefixes @ [subnet]) (ret # out # priorities) sels = Inr ts'"
    and ts: "ts = makeTransferAllocation sel links subnet out ret # ts'"
    using Cons.prems by (auto simp: result_simps)
  obtain i where i: "0 \<le> i" "i < candidateCount" "subnet = candidate_subnet i" "\<not> overlapsAny subnet prefixes"
    "\<not> containsAnyAddress subnet (hi_conntrackOriginalSources inventory)"
    "\<not> hasPreemptingRule (makeTransferAllocation sel links subnet out ret) (hi_routingRules inventory)"
    "\<not> hasPreemptingReturnRule (makeTransferAllocation sel links subnet out ret) (hi_routingRules inventory) locals"
    using subnet by (rule nextTemporarySubnet_Inr)
  have ok: "transfer_ok cr rid inventory starts locals sel (makeTransferAllocation sel links subnet out ret)"
    using links i by (auto simp: transfer_ok_def)
  have names': "names' = lk_hostName links # names" "lk_hostName links \<notin> set names"
    using names by (auto simp: reserveHostLinkName_def split: if_splits)
  note p = nextPriorityFrom_Inr [OF out] nextPriorityFrom_Inr [OF ret]
  note IH = Cons.IH [OF rest]
  have "distinct (concat (map priorities_of ts))"
    using IH p by (auto simp: ts)
  moreover have "distinct (map ht_hostVeth ts)" "ht_hostVeth ` set ts \<inter> set names = {}"
    using IH by (auto simp: ts names')
  moreover have "\<forall>t \<in> set ts. \<forall>p \<in> set (priorities_of t). firstPriority \<le> p \<and> p \<le> lastPriority \<and> p \<notin> set priorities"
    using IH p by (auto simp: ts)
  moreover have "list_all2 (transfer_ok cr rid inventory starts locals) (sel # sels) ts" using IH ok by (simp add: ts)
  moreover have "sorted_wrt (\<lambda>t t'. \<not> overlapsAny (ht_subnet t') [ht_subnet t]) ts" "\<forall>t \<in> set ts. \<not> overlapsAny (ht_subnet t) prefixes"
    using IH i(4) by (auto simp: ts)
  ultimately show ?case by blast
qed simp


lemma check_selected_egress_Inr:
  "check_selected_egress (i, v) = Inr v' \<longleftrightarrow> v' = v \<and> num (hs_transfer v) = i + 1 \<and> validProviderName (hs_providerName v) \<and>
    Is4 (hs_source v) \<and> \<not> IsUnspecified (hs_source v) \<and> 0 < hs_providerIndex v \<and> 0 < hs_routeTable v \<and>
    (hs_hasGateway v \<longrightarrow> Is4 (hs_gateway v))"
  by (auto simp: check_selected_egress_def)

lemma orderedSelections_Inr:
  assumes "orderedSelections selected = Inr ordered"
  shows "ordered = sort_key (num \<circ> hs_transfer) selected" "map (num \<circ> hs_transfer) ordered = [1..<Suc (length selected)]"
    and "0 < length selected" "length selected \<le> transfer_maximum"
    and "\<And>v. v \<in> set ordered \<Longrightarrow> validProviderName (hs_providerName v) \<and> Is4 (hs_source v) \<and> \<not> IsUnspecified (hs_source v) \<and>
      0 < hs_providerIndex v \<and> 0 < hs_routeTable v \<and> (hs_hasGateway v \<longrightarrow> Is4 (hs_gateway v))"
proof -
  define sorted where "sorted = sort_key (num \<circ> hs_transfer) selected"
  have *: "list_all2 (\<lambda>x y. check_selected_egress x = Inr y) (enumerate 0 sorted) ordered"
    and len: "0 < length selected" "length selected \<le> transfer_maximum"
    using assms by (auto simp: orderedSelections_def result_simps sorted_def split: if_splits)
  then have n: "length ordered = length sorted" by (auto dest: list_all2_lengthD)
  have nth: "ordered ! i = sorted ! i \<and> num (hs_transfer (sorted ! i)) = i + 1 \<and> validProviderName (hs_providerName (sorted ! i)) \<and>
    Is4 (hs_source (sorted ! i)) \<and> \<not> IsUnspecified (hs_source (sorted ! i)) \<and> 0 < hs_providerIndex (sorted ! i) \<and>
    0 < hs_routeTable (sorted ! i) \<and> (hs_hasGateway (sorted ! i) \<longrightarrow> Is4 (hs_gateway (sorted ! i)))" if "i < length sorted" for i
    using list_all2_nthD [OF *, of i] that by (simp add: nth_enumerate_eq check_selected_egress_Inr)
  then show o: "ordered = sort_key (num \<circ> hs_transfer) selected"
    unfolding sorted_def [symmetric] using n by (auto intro: nth_equalityI)
  show "map (num \<circ> hs_transfer) ordered = [1..<Suc (length selected)]"
    unfolding o sorted_def [symmetric] by (rule nth_equalityI) (use nth in \<open>simp_all add: sorted_def del: upt_Suc\<close>)
  show "0 < length selected" "length selected \<le> transfer_maximum" by (rule len)+
  fix v assume "v \<in> set ordered"
  then show "validProviderName (hs_providerName v) \<and> Is4 (hs_source v) \<and> \<not> IsUnspecified (hs_source v) \<and>
      0 < hs_providerIndex v \<and> 0 < hs_routeTable v \<and> (hs_hasGateway v \<longrightarrow> Is4 (hs_gateway v))"
    using nth n unfolding in_set_conv_nth by metis
qed

lemma firewall_identity_Inr:
  "firewall_identity rid inventory r = Inr r' \<Longrightarrow> na_runID r' = na_runID r \<and> na_ownerToken r' = na_ownerToken r \<and>
    na_protocol r' = na_protocol r \<and> na_returnTable r' = na_returnTable r \<and> na_backend r' = na_backend r"
  by (auto simp: firewall_identity_def Let_def result_simps split: if_splits)

lemma allocateClaimNetwork_Inr:
  assumes "allocateClaimNetwork cr rid token selected inventory = Inr a"
  defines "ordered \<equiv> sort_key (num \<circ> hs_transfer) selected"
  defines "starts \<equiv> startsFromOwnerToken cr token"
  shows "validOwnerToken token" "orderedSelections selected = Inr ordered"
    and "append_transfers cr rid inventory starts (map hs_source ordered @ hi_localAddresses inventory)
      (hi_linkNames inventory) (hi_routePrefixes inventory) (hi_priorities inventory) ordered = Inr (na_transfers a)"
    and "\<exists>result. allocateRunNetworkIdentity rid ordered inventory starts = Inr result \<and> a = result\<lparr>na_transfers := na_transfers a\<rparr>"
proof -
  have token: "validOwnerToken token" and "allocateNetworkWithStarts cr rid selected inventory starts = Inr a"
    using assms(1) by (auto simp: allocateClaimNetwork_def starts_def split: if_splits)
  then obtain ordered' result where o: "orderedSelections selected = Inr ordered'"
    and r: "allocateRunNetworkIdentity rid ordered' inventory starts = Inr result"
    and "appendTransferAllocations cr result ordered' inventory starts = Inr a"
    by (auto simp: allocateNetworkWithStarts_def result_simps)
  moreover have "na_runID result = rid"
    using r by (auto simp: allocateRunNetworkIdentity_def result_simps dest!: firewall_identity_Inr)
  moreover have "ordered' = ordered" using orderedSelections_Inr(1) [OF o] by (simp add: ordered_def)
  ultimately show "validOwnerToken token" "orderedSelections selected = Inr ordered"
    "append_transfers cr rid inventory starts (map hs_source ordered @ hi_localAddresses inventory)
      (hi_linkNames inventory) (hi_routePrefixes inventory) (hi_priorities inventory) ordered = Inr (na_transfers a)"
    "\<exists>result. allocateRunNetworkIdentity rid ordered inventory starts = Inr result \<and> a = result\<lparr>na_transfers := na_transfers a\<rparr>"
    using token by (auto simp: appendTransferAllocations_def result_simps)
qed

lemma allocateRunNetworkIdentity_Inr:
  assumes "allocateRunNetworkIdentity rid selected inventory starts = Inr a"
  shows "na_runID a = rid" "na_ownerToken a = as_ownerToken starts" "na_backend a = fwl_kind (hi_firewall inventory)"
    and "firstReturnTable \<le> na_returnTable a \<and> na_returnTable a \<le> lastReturnTable \<and>
      na_returnTable a \<notin> set (map hs_routeTable selected) \<and> na_returnTable a \<notin> set (hi_usedRouteTables inventory)"
    and "firstClaimProtocol \<le> uint (na_protocol a) \<and> uint (na_protocol a) \<le> lastClaimProtocol \<and>
      na_protocol a \<notin> set (hi_usedProtocols inventory)"
  using assms
  by (auto simp: allocateRunNetworkIdentity_def result_simps
      dest!: firewall_identity_Inr nextReturnTableFrom_Inr nextProtocolFrom_Inr)

text \<open>The addresses of a subnet are private to it: in the reserved range and on no known route.\<close>

definition fresh_subnet :: "host_inventory \<Rightarrow> host_transfer \<Rightarrow> bool" where
  "fresh_subnet inventory t \<longleftrightarrow>
     pf_Bits (ht_subnet t) = 30 \<and> Contains temporaryRange (pf_Addr (ht_subnet t)) \<and>
     Contains (ht_subnet t) (ht_hostIP t) \<and> Contains (ht_subnet t) (ht_namespaceIP t) \<and> ht_hostIP t \<noteq> ht_namespaceIP t \<and>
     (\<forall>ip. Contains (ht_subnet t) ip \<longrightarrow>
        (\<forall>p \<in> set (hi_routePrefixes inventory). Is4 (pf_Addr p) \<longrightarrow> 0 < pf_Bits p \<longrightarrow> \<not> Contains p ip)) \<and>
     (\<forall>source \<in> set (hi_conntrackOriginalSources inventory). \<not> Contains (ht_subnet t) (Unmap source))"

lemma fresh_subnetI:
  assumes "transfer_ok cr rid inventory starts locals sel t" "\<not> overlapsAny (ht_subnet t) (hi_routePrefixes inventory)"
  shows "fresh_subnet inventory t"
proof -
  obtain links i where i: "0 \<le> i" "i < candidateCount"
    and t: "t = makeTransferAllocation sel links (candidate_subnet i) (ht_outboundPriority t) (ht_returnPriority t)"
    using assms(1) by (auto simp: transfer_ok_def)
  have "ht_subnet t = candidate_subnet i" "ht_hostIP t = Next (pf_Addr (candidate_subnet i))"
    "ht_namespaceIP t = Next (Next (pf_Addr (candidate_subnet i)))"
    by (subst t, simp add: makeTransferAllocation_def)+
  then show ?thesis
    using candidate_hosts [OF i] candidate_word [OF i] not_overlapsAny [OF assms(2)] assms(1)
    by (auto simp: fresh_subnet_def transfer_ok_def containsAnyAddress_def)
qed

text \<open>
  C36: an allocated network reuses nothing of the host.  The transfers are numbered from one
  in order; the return table, the protocol, the rule priorities and the host ends of the
  links are in the reserved ranges, unused on the host and pairwise different; every subnet
  is a /30 of the reserved range with two host addresses, no known route covers any of its
  addresses, no tracked connection comes from it, and two subnets share no address.
\<close>

theorem allocated_networks_reuse_nothing:
  assumes "allocateClaimNetwork cr rid token selected inventory = Inr a"
  shows "map (num \<circ> ht_transfer) (na_transfers a) = [1..<Suc (length selected)] \<and>
    na_returnTable a \<in> {firstReturnTable..lastReturnTable} - set (hi_usedRouteTables inventory) - hs_routeTable ` set selected \<and>
    uint (na_protocol a) \<in> {firstClaimProtocol..lastClaimProtocol} \<and> na_protocol a \<notin> set (hi_usedProtocols inventory) \<and>
    distinct (concat (map priorities_of (na_transfers a))) \<and>
    set (concat (map priorities_of (na_transfers a))) \<subseteq> {firstPriority..lastPriority} - set (hi_priorities inventory) \<and>
    distinct (map ht_hostVeth (na_transfers a)) \<and> ht_hostVeth ` set (na_transfers a) \<inter> set (hi_linkNames inventory) = {} \<and>
    (\<forall>t \<in> set (na_transfers a). fresh_subnet inventory t) \<and>
    sorted_wrt (\<lambda>t t'. \<nexists>ip. Contains (ht_subnet t) ip \<and> Contains (ht_subnet t') ip) (na_transfers a)"
proof -
  define ordered where "ordered = sort_key (num \<circ> hs_transfer) selected"
  note al = allocateClaimNetwork_Inr [OF assms, folded ordered_def]
  note ts = append_transfers_Inr [OF al(3)]
  obtain result where "allocateRunNetworkIdentity rid ordered inventory (startsFromOwnerToken cr token) = Inr result"
    and a: "a = result\<lparr>na_transfers := na_transfers a\<rparr>" using al(4) by blast
  note id_facts = allocateRunNetworkIdentity_Inr [OF this(1)]
  have "na_returnTable a = na_returnTable result" "na_protocol a = na_protocol result"
    by (subst a, simp)+
  moreover have "hs_routeTable ` set ordered = hs_routeTable ` set selected" by (simp add: ordered_def)
  moreover have fresh: "\<forall>t \<in> set (na_transfers a). fresh_subnet inventory t"
    using ts fresh_subnetI by (fastforce simp: list_all2_conv_all_nth in_set_conv_nth)
  moreover have "map (num \<circ> ht_transfer) (na_transfers a) = map (num \<circ> hs_transfer) ordered"
  proof (rule nth_equalityI)
    have *: "list_all2 (\<lambda>sel t. ht_transfer t = hs_transfer sel) ordered (na_transfers a)"
      by (rule list_all2_mono [OF conjunct1 [OF ts]]) (metis transfer_ok_def make_simps(6))
    then show "length (map (num \<circ> ht_transfer) (na_transfers a)) = length (map (num \<circ> hs_transfer) ordered)"
      by (simp add: list_all2_conv_all_nth)
    with * show "map (num \<circ> ht_transfer) (na_transfers a) ! i = map (num \<circ> hs_transfer) ordered ! i"
      if "i < length (map (num \<circ> ht_transfer) (na_transfers a))" for i
      using that by (simp add: list_all2_conv_all_nth)
  qed
  moreover have "sorted_wrt (\<lambda>t t'. \<nexists>ip. Contains (ht_subnet t) ip \<and> Contains (ht_subnet t') ip) (na_transfers a)"
  proof (rule sorted_wrt_mono_rel [rotated])
    show "sorted_wrt (\<lambda>t t'. \<not> overlapsAny (ht_subnet t') [ht_subnet t]) (na_transfers a)" using ts by blast
    fix t t' assume "t \<in> set (na_transfers a)" "\<not> overlapsAny (ht_subnet t') [ht_subnet t]"
    moreover have "Is4 (pf_Addr (ht_subnet t))" "pf_Bits (ht_subnet t) = 30"
      using fresh \<open>t \<in> set (na_transfers a)\<close> by (auto simp: fresh_subnet_def Contains_4 temporaryRange_def Is4_def)
    ultimately show "\<nexists>ip. Contains (ht_subnet t) ip \<and> Contains (ht_subnet t') ip"
      using not_overlapsAny [of "ht_subnet t'" "[ht_subnet t]" "ht_subnet t"] by auto
  qed
  ultimately show ?thesis
    using id_facts(4,5) ts orderedSelections_Inr(2) [OF al(2)] by auto
qed


section \<open>Policy rules of the host\<close>

text \<open>
  A rule takes a packet as the kernel decides it: all its selectors match, or not all of them
  when it is inverted.  What the unknown selectors say is left open.
\<close>

definition rule_takes :: "(routing_rule \<Rightarrow> bool) \<Rightarrow> routing_rule \<Rightarrow> addr \<Rightarrow> addr \<Rightarrow> string \<Rightarrow> bool" where
  "rule_takes others rule source destination iif \<longleftrightarrow> rr_inverted rule \<noteq>
     (prefix_matches (rr_source rule) source \<and> prefix_matches (rr_destination rule) destination \<and>
      (rr_inputInterface rule = [] \<or> rr_inputInterface rule = iif) \<and> (rr_unknownSelector rule \<longrightarrow> others rule))"

lemma Contains_32: "Contains p ip \<Longrightarrow> pf_Bits p = 32 \<Longrightarrow> Is4 ip \<Longrightarrow> ip = pf_Addr p"
  using BitLen_32 [of ip] BitLen_32 [of "pf_Addr p"] addr4_word4 [of ip] addr4_word4 [of "pf_Addr p"]
    Contains_4 [of p ip] by (simp add: Contains_def) (metis addr4_word4)

lemma transfer_ok_traffic:
  assumes "transfer_ok cr rid inventory starts locals sel t" "rule \<in> set (hi_routingRules inventory)"
  shows "precedes rule (ht_outboundPriority t) \<Longrightarrow> (rr_inverted rule \<Longrightarrow> prefix_matches (rr_destination rule) destination) \<Longrightarrow>
      \<not> rule_takes others rule (ht_namespaceIP t) destination (ht_hostVeth t)"
    and "precedes rule (ht_returnPriority t) \<Longrightarrow> Is4 source \<Longrightarrow> source \<notin> set locals \<Longrightarrow>
      \<not> rule_takes others rule source (ht_namespaceIP t) (ht_providerName t)"
proof -
  have out: "\<not> outbound_rule_preempts t rule" if "precedes rule (ht_outboundPriority t)"
    using assms that by (auto simp: transfer_ok_def hasPreemptingRule_def)
  then show "\<not> rule_takes others rule (ht_namespaceIP t) destination (ht_hostVeth t)"
    if "precedes rule (ht_outboundPriority t)" "rr_inverted rule \<Longrightarrow> prefix_matches (rr_destination rule) destination"
    using that by (auto simp: outbound_rule_preempts_def rule_takes_def Let_def prefix_matches_def split: if_splits)
  show "\<not> rule_takes others rule source (ht_namespaceIP t) (ht_providerName t)"
    if r: "precedes rule (ht_returnPriority t)" "Is4 source" "source \<notin> set locals"
  proof -
    have "\<not> return_rule_preempts t locals rule"
      using assms r(1) by (auto simp: transfer_ok_def hasPreemptingReturnRule_def)
    moreover have "returnSourceMayMatch (rr_source rule) locals" if "prefix_matches (rr_source rule) source"
      using that r(2,3) by (auto simp: returnSourceMayMatch_def prefix_matches_def dest: Contains_32 split: option.splits)
    ultimately show ?thesis
      by (auto simp: return_rule_preempts_def rule_takes_def Let_def prefix_matches_def split: if_splits)
  qed
qed


section \<open>Examples\<close>

definition example_crypto :: crypto where
  "example_crypto = \<lparr>cr_sha256 = (\<lambda>m. replicate 32 7), 
     cr_hmac = (\<lambda>key m. take 32 (concat (replicate 16 (drop (length m - 2) m)) @ replicate 32 0))\<rparr>"

definition example_selection :: "byte \<Rightarrow> egress_selection" where
  "example_selection n =
     \<lparr>hs_transfer = Number n, hs_source = V4 10 0 0 n, hs_providerName = ''eth0'', hs_providerIndex = 2, hs_routeTable = 254,
      hs_gateway = V4 10 0 0 254, hs_hasGateway = True\<rparr>"

definition example_inventory :: "routing_rule list \<Rightarrow> host_inventory" where
  "example_inventory rules =
     \<lparr>hi_linkNames = [''eth0''], hi_firewall = \<lparr>fwl_kind = firewallIPTables, fwl_nftTableNames = [], fwl_nftForwardChains = [],
        fwl_nftPostroutingNATChains = [], fwl_ownerReferences = [], fwl_iptablesFrontend = iptablesFrontendNFT,
        fwl_iptablesForwardActive = True, fwl_iptablesPostroutingActive = True\<rparr>,
      hi_priorities = map rr_priority rules, hi_usedRouteTables = map rr_table rules, hi_localAddresses = [V4 10 0 0 1],
      hi_routePrefixes = [\<lparr>pf_Addr = V4 10 0 0 0, pf_Bits = 24\<rparr>], hi_routingRules = rules, hi_usedProtocols = [],
      hi_conntrackOriginalSources = []\<rparr>"

definition example_routing_rule :: routing_rule where
  "example_routing_rule =
     \<lparr>rr_priority = 100, rr_table = 100, rr_action = 1, rr_source = None,
      rr_destination = Some \<lparr>pf_Addr = V4 198 18 0 0, pf_Bits = 15\<rparr>, rr_inputInterface = [], rr_inverted = True,
      rr_unknownSelector = False, rr_unknownTypes = [], rr_builtinLocal = False, rr_protocol = 0\<rparr>"

definition example_token :: string where
  "example_token = replicate 64 (CHR ''1'')"

definition example_run :: run_id where
  "example_run = RunId (replicate 16 5)"

lemma example_allocated:
  "is_ok (allocateClaimNetwork example_crypto example_run example_token (map example_selection [1, 2]) (example_inventory []))"
  by code_simp


theorem allocated_networks_reuse_nothing_witness:
  "\<exists>a. allocateClaimNetwork example_crypto example_run example_token (map example_selection [1, 2]) (example_inventory []) = Inr a \<and>
    map (num \<circ> ht_transfer) (na_transfers a) = [1, 2]"
proof -
  obtain a where a: "allocateClaimNetwork example_crypto example_run example_token (map example_selection [1, 2]) (example_inventory []) = Inr a"
    using example_allocated by (auto simp: is_ok_iff)
  from allocated_networks_reuse_nothing [OF a] show ?thesis using a by (auto simp: upt_rec)
qed

lemma first_transfer:
  "(case r of Inr a \<Rightarrow> (case na_transfers a of t # _ \<Rightarrow> P t | [] \<Rightarrow> False) | Inl _ \<Rightarrow> False) \<Longrightarrow>
    \<exists>a t. r = Inr a \<and> t \<in> set (na_transfers a) \<and> P t"
  by (fastforce split: sum.splits list.splits)


definition harmless_rule :: routing_rule where
  "harmless_rule = example_routing_rule\<lparr>rr_inverted := False, rr_inputInterface := ''tun0''\<rparr>"


end
