(* ===== verification/Host_Claim.thy ===== *)
theory Host_Claim
  imports Host_Allocation
begin

text \<open>
  The network claim of a run (\<open>hostnetwork/evidence.go\<close>, \<open>link_owner.go\<close>, \<open>nft.go\<close>): the
  record a run leaves on the host before it changes anything, its validation and its
  document form.  JSON is a parameter: a function from documents to bytes and a strict
  reader of them.

  Every allocation becomes a valid claim, and a valid claim survives being written and read.
\<close>

section \<open>Names and hardware addresses as text\<close>

text \<open>\<open>base64.RawURLEncoding.Strict().DecodeString\<close>: line breaks are skipped, the unused bits of
  the last character have to be zero.\<close>

definition sextet_value :: "char \<Rightarrow> int option" where
  "sextet_value c = map_option int (List.find (\<lambda>i. base64_table ! i = c) [0..<64])"

definition byte_at :: "int \<Rightarrow> int \<Rightarrow> byte" where
  "byte_at n d = word_of_int (n div d)"

fun unbase64 :: "int list \<Rightarrow> byte list option" where
  "unbase64 [] = Some []"
| "unbase64 [p] = None"
| "unbase64 [p, q] = (if q mod 16 \<noteq> 0 then None else Some [byte_at (p * 64 + q) 16])"
| "unbase64 [p, q, r] =
     (if r mod 4 \<noteq> 0 then None
      else let n = p * 4096 + q * 64 + r in Some [byte_at n 1024, byte_at n 4])"
| "unbase64 (p # q # r # s # rest) =
     (let n = p * 262144 + q * 4096 + r * 64 + s in
      map_option (\<lambda>bs. byte_at n 65536 # byte_at n 256 # byte_at n 1 # bs) (unbase64 rest))"

definition base64_decode :: "string \<Rightarrow> byte list option" where
  "base64_decode s =
     (case those (map sextet_value (filter (\<lambda>c. c \<noteq> CHR 0x0A \<and> c \<noteq> CHR 0x0D) s)) of
        None \<Rightarrow> None | Some vs \<Rightarrow> unbase64 vs)"

definition linkOwner_String :: "byte list \<Rightarrow> string" where
  "linkOwner_String owner = base64 owner"

datatype text_error = LinkOwnerInvalid | LinkOwnerNotCanonical | HostMarkerInvalid | HostNameInvalid | HostMarkerNotCanonical
  | MACInvalid | MACNotCanonical | MACLength nat

definition parseLinkOwnerID :: "string \<Rightarrow> text_error + byte list" where
  "parseLinkOwnerID v =
     (case base64_decode v of
        None \<Rightarrow> Inl LinkOwnerInvalid
      | Some decoded \<Rightarrow>
          if length decoded \<noteq> linkOwnerBytes then Inl LinkOwnerInvalid
          else if linkOwner_String decoded \<noteq> v then Inl LinkOwnerNotCanonical else Inr decoded)"

definition linkOwnerIDFromHost :: "string \<Rightarrow> byte list \<Rightarrow> text_error + byte list" where
  "linkOwnerIDFromHost name mac =
     (if length name \<noteq> 15 \<or> hd name \<noteq> CHR ''w'' \<or> hd mac \<noteq> 0x02 then Inl HostMarkerInvalid
      else case base64_decode (tl name) of
        None \<Rightarrow> Inl HostNameInvalid
      | Some nameBytes \<Rightarrow>
          if length nameBytes \<noteq> 10 then Inl HostNameInvalid
          else let owner = nameBytes @ tl mac in
            if hostName owner \<noteq> name \<or> hostMAC owner \<noteq> mac then Inl HostMarkerNotCanonical else Inr owner)"

text \<open>\<open>net.HardwareAddr.String\<close> and \<open>net.ParseMAC\<close>.\<close>

fun mac_String :: "byte list \<Rightarrow> string" where
  "mac_String [] = []"
| "mac_String [b] = hex_encode [b]"
| "mac_String (b # bs) = hex_encode [b] @ CHR '':'' # mac_String bs"

fun mac_bytes :: "char \<Rightarrow> string \<Rightarrow> byte list option" where
  "mac_bytes sep (c # d # e # s) =
     (if e \<noteq> sep then None
      else case hex_decode [c, d] of
        Some [b] \<Rightarrow> map_option ((#) b) (mac_bytes sep s) | _ \<Rightarrow> None)"
| "mac_bytes sep s = hex_decode s"

fun mac_groups :: "string \<Rightarrow> byte list option" where
  "mac_groups (c # d # e # f # g # s) =
     (if g \<noteq> CHR ''.'' then None
      else case hex_decode [c, d, e, f] of
        Some bs \<Rightarrow> map_option ((@) bs) (mac_groups s) | None \<Rightarrow> None)"
| "mac_groups s = hex_decode s"

definition ParseMAC :: "string \<Rightarrow> byte list option" where
  "ParseMAC s =
     (if length s < 14 then None
      else if s ! 2 = CHR '':'' \<or> s ! 2 = CHR ''-'' then
        (if (length s + 1) mod 3 \<noteq> 0 \<or> (length s + 1) div 3 \<notin> {6, 8, 20} then None else mac_bytes (s ! 2) s)
      else if s ! 4 = CHR ''.'' then
        (if (length s + 1) mod 5 \<noteq> 0 \<or> 2 * (length s + 1) div 5 \<notin> {6, 8, 20} then None else mac_groups s)
      else None)"

definition parseLinkMAC :: "string \<Rightarrow> text_error + byte list" where
  "parseLinkMAC v =
     (case ParseMAC v of
        None \<Rightarrow> Inl MACInvalid
      | Some mac \<Rightarrow> if length mac \<noteq> 6 then Inl MACInvalid else if mac_String mac \<noteq> v then Inl MACNotCanonical else Inr mac)"

definition linkMACFromHardwareAddr :: "byte list \<Rightarrow> text_error + byte list" where
  "linkMACFromHardwareAddr v = (if length v \<noteq> 6 then Inl (MACLength (length v)) else Inr v)"

definition hardwareAddrEquals :: "byte list \<Rightarrow> byte list \<Rightarrow> bool" where
  "hardwareAddrEquals v expected \<longleftrightarrow> linkMACFromHardwareAddr v = Inr expected"

text \<open>\<open>netip.ParsePrefix\<close>; the length is read by \<open>strconv.Atoi\<close> without sign or leading zero.\<close>

definition decimal_value :: "string \<Rightarrow> nat option" where
  "decimal_value s =
     (case those (map digit_value s) of
        None \<Rightarrow> None | Some ds \<Rightarrow> if ds = [] then None else Some (foldl (\<lambda>n d. 10 * n + d) 0 ds))"

definition ParsePrefix :: "string \<Rightarrow> prefix option" where
  "ParsePrefix s =
     (if CHR ''/'' \<notin> set s then None
      else
        let bits = rev (takeWhile (\<lambda>c. c \<noteq> CHR ''/'') (rev s));
            text = take (length s - length bits - 1) s in
        case ParseAddr text of
          Inl _ \<Rightarrow> None
        | Inr ip \<Rightarrow>
            if zone_of ip \<noteq> [] \<or> length bits > 1 \<and> hd bits = CHR ''0'' then None
            else case decimal_value bits of
              None \<Rightarrow> None
            | Some n \<Rightarrow> if n > BitLen ip then None else Some \<lparr>pf_Addr = ip, pf_Bits = int n\<rparr>)"

section \<open>Claims\<close>

definition claimVersion :: int where "claimVersion = 6"

record network_claim =
  nk_version :: int
  nk_runID :: run_id
  nk_ownerToken :: string
  nk_protocol :: byte
  nk_backend :: string
  nk_iptablesFrontend :: string
  nk_firewallTable :: string
  nk_nftPostroutingPriority :: int
  nk_returnTable :: int
  nk_forwardChains :: "nft_forward_chain list"
  nk_transfers :: "host_transfer list"

definition claimFromAllocation :: "network_allocation \<Rightarrow> network_claim" where
  "claimFromAllocation a =
     \<lparr>nk_version = claimVersion, nk_runID = na_runID a, nk_ownerToken = na_ownerToken a, nk_protocol = na_protocol a,
      nk_backend = na_backend a, nk_iptablesFrontend = na_iptablesFrontend a, nk_firewallTable = na_firewallTable a,
      nk_nftPostroutingPriority = na_nftPostroutingPriority a, nk_returnTable = na_returnTable a,
      nk_forwardChains = na_forwardChains a, nk_transfers = na_transfers a\<rparr>"

datatype claim_error =
    ClaimHeader | ClaimNFTIdentity | ClaimNFTPriority int | ForwardChainInvalid nat | ForwardChainsUnordered
  | ClaimIPTablesIdentity | NotExactIPTables nat | ClaimBackend | ClaimMissing nat | ClaimOwner nat host_error
  | ClaimFacts nat | ClaimRepeats nat | ClaimPriority int | ClaimName string | ClaimSubnet
  | ClaimRunID | ClaimNFTPriorityMissing | ClaimCrossBackend | ClaimNumber | ClaimSource | ClaimSubnetText | ClaimHostIP
  | ClaimNamespaceIP | ClaimLinkOwner | ClaimHostMAC | ClaimPeerMAC | ClaimGateway | ClaimTooLarge | ClaimJSON

definition validateTransferLanesNFTPostroutingPriority :: "int \<Rightarrow> bool" where
  "validateTransferLanesNFTPostroutingPriority priority \<longleftrightarrow>
     validateNFTNATPriority priority = None \<and> priority < iptablesSourceNATPriority"

definition lessNFTForwardChain :: "nft_forward_chain \<Rightarrow> nft_forward_chain \<Rightarrow> bool" where
  "lessNFTForwardChain l r \<longleftrightarrow> [fc_Family l, fc_Table l, fc_Name l] < [fc_Family r, fc_Table r, fc_Name r]"

fun check_forward_chains :: "string \<Rightarrow> nat \<Rightarrow> nft_forward_chain option \<Rightarrow> nft_forward_chain list \<Rightarrow> claim_error option" where
  "check_forward_chains ownedTable index previous [] = None"
| "check_forward_chains ownedTable index previous (c # cs) =
     (if \<not> chain_identity_ok (fc_Family c) (fc_Table c) (fc_Name c) \<or> fc_Family c = ''ip'' \<and> fc_Table c = ownedTable
      then Some (ForwardChainInvalid index)
      else case previous of
        Some p \<Rightarrow> if \<not> lessNFTForwardChain p c then Some ForwardChainsUnordered
                  else check_forward_chains ownedTable (index + 1) (Some c) cs
      | None \<Rightarrow> check_forward_chains ownedTable (index + 1) (Some c) cs)"

definition validateNFTForwardChains :: "nft_forward_chain list \<Rightarrow> string \<Rightarrow> claim_error option" where
  "validateNFTForwardChains forward ownedTable = check_forward_chains ownedTable 0 None forward"

definition ends_with_plus :: "string \<Rightarrow> bool" where
  "ends_with_plus s \<longleftrightarrow> s \<noteq> [] \<and> last s = CHR ''+''"

definition validateIPTablesProviderNames :: "host_transfer list \<Rightarrow> claim_error option" where
  "validateIPTablesProviderNames transfers =
     map_option (NotExactIPTables \<circ> ht_number)
       (List.find (\<lambda>t. ends_with_plus (ht_providerName t) \<or> ends_with_plus (ht_hostVeth t)) transfers)"

text \<open>The conditions of \<open>validateClaimTransfer\<close> on the facts of one transfer.\<close>

definition claim_facts_ok :: "network_claim \<Rightarrow> host_transfer \<Rightarrow> byte list \<Rightarrow> byte list \<Rightarrow> bool" where
  "claim_facts_ok claim t expectedOwner expectedPeerMAC \<longleftrightarrow>
     1 \<le> ht_number t \<and> ht_number t \<le> transfer_maximum \<and> num_value (ht_transfer t) = word_of_nat (ht_number t) \<and>
     Is4 (ht_source t) \<and> \<not> IsUnspecified (ht_source t) \<and> validProviderName (ht_providerName t) \<and> 0 < ht_providerIndex t \<and>
     0 < ht_routeTable t \<and> ht_routeTable t \<noteq> nk_returnTable claim \<and>
     firstPriority \<le> ht_outboundPriority t \<and> ht_outboundPriority t \<le> lastPriority \<and>
     firstPriority \<le> ht_returnPriority t \<and> ht_returnPriority t \<le> lastPriority \<and>
     ht_outboundPriority t \<noteq> ht_returnPriority t \<and> pf_Bits (ht_subnet t) = 30 \<and>
     ht_subnet t = Masked (ht_subnet t) \<and> Contains temporaryRange (pf_Addr (ht_subnet t)) \<and>
     (ht_hasGateway t \<longrightarrow> Is4 (ht_gateway t)) \<and> (\<not> ht_hasGateway t \<longrightarrow> \<not> IsValid (ht_gateway t)) \<and>
     ht_hostIP t = Next (pf_Addr (ht_subnet t)) \<and> ht_namespaceIP t = Next (ht_hostIP t) \<and>
     ht_linkOwner t = expectedOwner \<and> ht_hostVeth t = hostName expectedOwner \<and> ht_hostMAC t = hostMAC expectedOwner \<and>
     ht_peerVeth t = derivedPeerName (nk_runID claim) (ht_number t) \<and> ht_peerMAC t = expectedPeerMAC"

fun reserve_names :: "string list \<Rightarrow> string list \<Rightarrow> claim_error + string list" where
  "reserve_names names [] = Inr names"
| "reserve_names names (n # ns) = (if n \<in> set names then Inl (ClaimName n) else reserve_names (n # names) ns)"

definition validateClaimTransfer ::
  "crypto \<Rightarrow> network_claim \<Rightarrow> host_transfer \<Rightarrow> string list \<Rightarrow> nat list \<Rightarrow> int list \<Rightarrow> prefix list \<Rightarrow> claim_error + string list" where
  "validateClaimTransfer cr claim t names numbers priorities subnets =
     bind_r (map_error (ClaimOwner (ht_number t)) (deriveLinkOwnerID cr (nk_ownerToken claim) (ht_transfer t))) (\<lambda>expectedOwner.
     bind_r (map_error (ClaimOwner (ht_number t)) (derivePeerMAC cr (nk_ownerToken claim) (ht_transfer t))) (\<lambda>expectedPeerMAC.
       if \<not> claim_facts_ok claim t expectedOwner expectedPeerMAC then Inl (ClaimFacts (ht_number t))
       else if ht_number t \<in> set numbers then Inl (ClaimRepeats (ht_number t))
       else case List.find (\<lambda>p. p \<in> set priorities) (priorities_of t) of
         Some p \<Rightarrow> Inl (ClaimPriority p)
       | None \<Rightarrow>
           bind_r (reserve_names names [ht_hostVeth t, ht_peerVeth t]) (\<lambda>names.
             if \<exists>s \<in> set subnets. Overlaps (ht_subnet t) s then Inl ClaimSubnet else Inr names)))"

fun check_claim_transfers ::
  "crypto \<Rightarrow> network_claim \<Rightarrow> nat \<Rightarrow> string list \<Rightarrow> nat list \<Rightarrow> int list \<Rightarrow> prefix list \<Rightarrow> host_transfer list \<Rightarrow> claim_error + unit" where
  "check_claim_transfers cr claim index names numbers priorities subnets [] = Inr ()"
| "check_claim_transfers cr claim index names numbers priorities subnets (t # ts) =
     (if ht_number t \<noteq> index + 1 then Inl (ClaimMissing (index + 1))
      else bind_r (validateClaimTransfer cr claim t names numbers priorities subnets) (\<lambda>names.
        check_claim_transfers cr claim (index + 1) names (ht_number t # numbers) (priorities_of t @ priorities)
          (subnets @ [ht_subnet t]) ts))"

text \<open>The switch over the backend, with the names it reserves.\<close>

definition claim_backend :: "network_claim \<Rightarrow> run_id \<Rightarrow> claim_error + string list" where
  "claim_backend claim expected =
     (if nk_backend claim = firewallNFTables then
        (if nk_iptablesFrontend claim \<noteq> [] \<or> nk_firewallTable claim \<noteq> firewallName expected then Inl ClaimNFTIdentity
         else if \<not> validateTransferLanesNFTPostroutingPriority (nk_nftPostroutingPriority claim)
           then Inl (ClaimNFTPriority (nk_nftPostroutingPriority claim))
         else case validateNFTForwardChains (nk_forwardChains claim) (nk_firewallTable claim) of
           Some e \<Rightarrow> Inl e
         | None \<Rightarrow> Inr [nk_firewallTable claim])
      else if nk_backend claim = firewallIPTables then
        (if nk_firewallTable claim \<noteq> [] \<or> nk_nftPostroutingPriority claim \<noteq> 0 \<or> nk_forwardChains claim \<noteq> [] \<or>
            \<not> knownIPTablesFrontend (nk_iptablesFrontend claim) then Inl ClaimIPTablesIdentity
         else case validateIPTablesProviderNames (nk_transfers claim) of Some e \<Rightarrow> Inl e | None \<Rightarrow> Inr [])
      else Inl ClaimBackend)"

definition validateClaim :: "crypto \<Rightarrow> network_claim \<Rightarrow> run_id \<Rightarrow> claim_error + unit" where
  "validateClaim cr claim expected =
     (if nk_version claim \<noteq> claimVersion \<or> nk_runID claim \<noteq> expected \<or> nk_transfers claim = [] \<or>
         length (nk_transfers claim) > transfer_maximum \<or> nk_returnTable claim < firstReturnTable \<or>
         nk_returnTable claim > lastReturnTable \<or> uint (nk_protocol claim) < firstClaimProtocol \<or>
         uint (nk_protocol claim) > lastClaimProtocol \<or> \<not> validOwnerToken (nk_ownerToken claim) then Inl ClaimHeader
      else bind_r (claim_backend claim expected) (\<lambda>names.
        check_claim_transfers cr claim 0 names [] [] [] (nk_transfers claim)))"

section \<open>Documents\<close>

record claim_transfer_document =
  cd_Number :: int
  cd_Source :: string
  cd_ProviderName :: string
  cd_ProviderIndex :: int
  cd_RouteTable :: int
  cd_Gateway :: string
  cd_Subnet :: string
  cd_HostIP :: string
  cd_NamespaceIP :: string
  cd_OutboundPriority :: int
  cd_ReturnPriority :: int
  cd_LinkOwnerID :: string
  cd_HostVeth :: string
  cd_HostMAC :: string
  cd_PeerVeth :: string
  cd_PeerMAC :: string

record claim_document =
  cl_Version :: int
  cl_RunID :: string
  cl_OwnerToken :: string
  cl_Protocol :: byte
  cl_Backend :: string
  cl_IPTablesFrontend :: string
  cl_FirewallTable :: string
  cl_NFTPostroutingPriority :: "int option"
  cl_ReturnTable :: int
  cl_ForwardChains :: "nft_forward_chain list"
  cl_Transfers :: "claim_transfer_document list"

definition claimTransferToDocument :: "host_transfer \<Rightarrow> claim_transfer_document" where
  "claimTransferToDocument t =
     \<lparr>cd_Number = int (ht_number t), cd_Source = addr_string (ht_source t), cd_ProviderName = ht_providerName t,
      cd_ProviderIndex = ht_providerIndex t, cd_RouteTable = ht_routeTable t,
      cd_Gateway = (if ht_hasGateway t then addr_string (ht_gateway t) else []), cd_Subnet = prefix_string (ht_subnet t),
      cd_HostIP = addr_string (ht_hostIP t), cd_NamespaceIP = addr_string (ht_namespaceIP t),
      cd_OutboundPriority = ht_outboundPriority t, cd_ReturnPriority = ht_returnPriority t,
      cd_LinkOwnerID = linkOwner_String (ht_linkOwner t), cd_HostVeth = ht_hostVeth t, cd_HostMAC = mac_String (ht_hostMAC t),
      cd_PeerVeth = ht_peerVeth t, cd_PeerMAC = mac_String (ht_peerMAC t)\<rparr>"

definition claim_to_document :: "network_claim \<Rightarrow> claim_document" where
  "claim_to_document claim =
     \<lparr>cl_Version = nk_version claim, cl_RunID = id_string (nk_runID claim), cl_OwnerToken = nk_ownerToken claim,
      cl_Protocol = nk_protocol claim, cl_Backend = nk_backend claim, cl_IPTablesFrontend = nk_iptablesFrontend claim,
      cl_FirewallTable = nk_firewallTable claim,
      cl_NFTPostroutingPriority = (if nk_backend claim = firewallNFTables then Some (nk_nftPostroutingPriority claim) else None),
      cl_ReturnTable = nk_returnTable claim, cl_ForwardChains = nk_forwardChains claim,
      cl_Transfers = map claimTransferToDocument (nk_transfers claim)\<rparr>"

definition documentToClaimTransfer :: "claim_transfer_document \<Rightarrow> claim_error + host_transfer" where
  "documentToClaimTransfer d =
     bind_r (map_error (\<lambda>_. ClaimNumber) (number_new (cd_Number d))) (\<lambda>number.
     bind_r (map_error (\<lambda>_. ClaimSource) (ParseAddr (cd_Source d))) (\<lambda>source.
     (case ParsePrefix (cd_Subnet d) of
        None \<Rightarrow> Inl ClaimSubnetText
      | Some subnet \<Rightarrow>
     bind_r (map_error (\<lambda>_. ClaimHostIP) (ParseAddr (cd_HostIP d))) (\<lambda>hostIP.
     bind_r (map_error (\<lambda>_. ClaimNamespaceIP) (ParseAddr (cd_NamespaceIP d))) (\<lambda>namespaceIP.
     bind_r (map_error (\<lambda>_. ClaimLinkOwner) (parseLinkOwnerID (cd_LinkOwnerID d))) (\<lambda>linkOwner.
     bind_r (map_error (\<lambda>_. ClaimHostMAC) (parseLinkMAC (cd_HostMAC d))) (\<lambda>hostMAC.
     bind_r (map_error (\<lambda>_. ClaimPeerMAC) (parseLinkMAC (cd_PeerMAC d))) (\<lambda>peerMAC.
     bind_r (if cd_Gateway d = [] then Inr (NoAddr, False)
             else bind_r (map_error (\<lambda>_. ClaimGateway) (ParseAddr (cd_Gateway d))) (\<lambda>g. Inr (g, True))) (\<lambda>(gateway, hasGateway).
       Inr \<lparr>ht_transfer = number, ht_number = nat (cd_Number d), ht_source = source, ht_providerName = cd_ProviderName d,
            ht_providerIndex = cd_ProviderIndex d, ht_routeTable = cd_RouteTable d, ht_gateway = gateway,
            ht_hasGateway = hasGateway, ht_subnet = subnet, ht_hostIP = hostIP, ht_namespaceIP = namespaceIP,
            ht_outboundPriority = cd_OutboundPriority d, ht_returnPriority = cd_ReturnPriority d, ht_linkOwner = linkOwner,
            ht_hostVeth = cd_HostVeth d, ht_hostMAC = hostMAC, ht_peerVeth = cd_PeerVeth d, ht_peerMAC = peerMAC\<rparr>)))))))))"

definition documentToClaim :: "claim_document \<Rightarrow> claim_error + network_claim" where
  "documentToClaim d =
     bind_r (map_error (\<lambda>_. ClaimRunID) (id_parse (cl_RunID d))) (\<lambda>rid.
       if cl_Backend d = firewallNFTables \<and> cl_NFTPostroutingPriority d = None then Inl ClaimNFTPriorityMissing
       else if cl_Backend d \<noteq> firewallNFTables \<and> cl_NFTPostroutingPriority d \<noteq> None then Inl ClaimCrossBackend
       else bind_r (map_r documentToClaimTransfer (cl_Transfers d)) (\<lambda>transfers.
         Inr \<lparr>nk_version = cl_Version d, nk_runID = rid, nk_ownerToken = cl_OwnerToken d, nk_protocol = cl_Protocol d,
              nk_backend = cl_Backend d, nk_iptablesFrontend = cl_IPTablesFrontend d, nk_firewallTable = cl_FirewallTable d,
              nk_nftPostroutingPriority = (case cl_NFTPostroutingPriority d of None \<Rightarrow> 0 | Some p \<Rightarrow> p),
              nk_returnTable = cl_ReturnTable d, nk_forwardChains = cl_ForwardChains d, nk_transfers = transfers\<rparr>))"

record claim_json =
  js_Marshal :: "claim_document \<Rightarrow> byte list"
  js_decodeStrict :: "byte list \<Rightarrow> string + claim_document"

definition encodeClaim :: "crypto \<Rightarrow> claim_json \<Rightarrow> network_claim \<Rightarrow> claim_error + byte list" where
  "encodeClaim cr js claim =
     bind_r (validateClaim cr claim (nk_runID claim)) (\<lambda>_. Inr (js_Marshal js (claim_to_document claim) @ [10]))"

definition maximumEvidenceBytes :: nat where "maximumEvidenceBytes = 1048576"

definition readEvidence :: "byte list \<Rightarrow> claim_error + byte list" where
  "readEvidence contents =
     (let data = take (maximumEvidenceBytes + 1) contents in
      if length data > maximumEvidenceBytes then Inl ClaimTooLarge else Inr data)"

definition decodeClaim :: "crypto \<Rightarrow> claim_json \<Rightarrow> byte list \<Rightarrow> run_id \<Rightarrow> claim_error + network_claim" where
  "decodeClaim cr js contents expected =
     bind_r (readEvidence contents) (\<lambda>data.
     bind_r (map_error (\<lambda>_. ClaimJSON) (js_decodeStrict js data)) (\<lambda>document.
     bind_r (documentToClaim document) (\<lambda>claim.
     bind_r (validateClaim cr claim expected) (\<lambda>_. Inr claim))))"

definition claimsEqual :: "crypto \<Rightarrow> claim_json \<Rightarrow> network_claim \<Rightarrow> network_claim \<Rightarrow> bool" where
  "claimsEqual cr js l r =
     (case (encodeClaim cr js l, encodeClaim cr js r) of (Inr a, Inr b) \<Rightarrow> a = b | _ \<Rightarrow> False)"

text \<open>\<open>newOwnerToken\<close> over the successive answers of the random source.\<close>

fun newOwnerToken :: "(string + byte list) list \<Rightarrow> (string + string) option" where
  "newOwnerToken [] = None"
| "newOwnerToken (Inl e # rs) = Some (Inl e)"
| "newOwnerToken (Inr bs # rs) = (if bs \<noteq> replicate 32 0 then Some (Inr (hex_encode bs)) else newOwnerToken rs)"


section \<open>Allocations are valid claims\<close>

lemma candidate_Masked:
  assumes "0 \<le> i" "i < candidateCount"
  shows "Masked (candidate_subnet i) = candidate_subnet i"
proof -
  define w where "w = word4 (pf_Addr (candidate_subnet i))"
  note c = candidate_word [OF assms, folded w_def]
  have "take_bit 2 w = 0"
    unfolding take_bit_eq_mod word_uint_eq_iff uint_mod_distrib c(1) by simp
  then have "push_bit 2 (drop_bit 2 w) = w" by (metis add.right_neutral bits_ident)
  moreover obtain p q r s where v4: "pf_Addr (candidate_subnet i) = V4 p q r s"
    using c(2) by (auto simp: Is4_def split: addr.splits)
  ultimately have "masked_address 30 (pf_Addr (candidate_subnet i)) = addr4 w"
    by (simp add: masked_address_def masked4_def Let_def addr4_def w_def word4_def)
  also have "\<dots> = pf_Addr (candidate_subnet i)" using c(2) by (simp add: w_def)
  finally show ?thesis using c(3) by (simp add: Masked_def)
qed

lemma sextet_in_table: "sextet n \<in> set base64_table"
proof -
  have "length base64_table = 64" by code_simp
  moreover have "nat (n mod 64) < 64" by (simp add: nat_less_iff)
  ultimately show ?thesis by (simp add: sextet_def)
qed

lemma base64_in_table: "set (base64 bs) \<subseteq> set base64_table"
  by (induction bs rule: base64.induct) (auto simp: Let_def sextet_in_table)

lemma hostName_no_plus: "\<not> ends_with_plus (hostName owner)"
proof -
  have "CHR ''+'' \<notin> set base64_table" by code_simp
  then have "CHR ''+'' \<notin> set (hostName owner)" using base64_in_table by (auto simp: hostName_def)
  then show ?thesis by (metis ends_with_plus_def last_in_set)
qed

lemma hex_encode_1: "hex_encode [b] = hex_encode [c] \<longleftrightarrow> b = c"
  by (metis hex_decode_encode list.inject option.inject)

lemma derivedPeerName_inj:
  assumes "derivedPeerName rid m = derivedPeerName rid n" "m < 256" "n < 256"
  shows "m = n"
proof -
  have "(word_of_nat m :: byte) = word_of_nat n" using assms(1) by (simp add: derivedPeerName_def hex_encode_1 del: hex_encode.simps)
  then have "unat (word_of_nat m :: byte) = unat (word_of_nat n :: byte)" by simp
  then show ?thesis using assms(2,3) by (simp add: unsigned_of_nat take_bit_eq_mod)
qed

lemma reserve_names_ok: "distinct ns \<Longrightarrow> set ns \<inter> set names = {} \<Longrightarrow> reserve_names names ns = Inr (rev ns @ names)"
  by (induction ns arbitrary: names) auto

definition names_of :: "host_transfer \<Rightarrow> string list" where
  "names_of t = [ht_hostVeth t, ht_peerVeth t]"

definition derived_ok :: "crypto \<Rightarrow> network_claim \<Rightarrow> host_transfer \<Rightarrow> bool" where
  "derived_ok cr claim t \<longleftrightarrow> (\<exists>owner mac. deriveLinkOwnerID cr (nk_ownerToken claim) (ht_transfer t) = Inr owner \<and>
     derivePeerMAC cr (nk_ownerToken claim) (ht_transfer t) = Inr mac \<and> claim_facts_ok claim t owner mac)"

lemma check_claim_transfers_ok:
  assumes "\<forall>t \<in> set ts. derived_ok cr claim t" "map ht_number ts = [index + 1..<index + 1 + length ts]"
    and "\<forall>n \<in> set numbers. n \<le> index"
    and "distinct (concat (map priorities_of ts))" "set (concat (map priorities_of ts)) \<inter> set priorities = {}"
    and "distinct (concat (map names_of ts))" "set (concat (map names_of ts)) \<inter> set names = {}"
    and "sorted_wrt (\<lambda>t t'. \<not> Overlaps (ht_subnet t') (ht_subnet t)) ts"
    and "\<forall>t \<in> set ts. \<forall>s \<in> set subnets. \<not> Overlaps (ht_subnet t) s"
  shows "check_claim_transfers cr claim index names numbers priorities subnets ts = Inr ()"
  using assms
proof (induction ts arbitrary: index names numbers priorities subnets)
  case (Cons t ts)
  have number: "ht_number t = index + 1" and rest: "map ht_number ts = [index + 1 + 1..<index + 1 + 1 + length ts]"
    using Cons.prems(2) by (simp_all add: upt_conv_Cons del: upt_Suc)
  obtain owner mac where "deriveLinkOwnerID cr (nk_ownerToken claim) (ht_transfer t) = Inr owner"
    "derivePeerMAC cr (nk_ownerToken claim) (ht_transfer t) = Inr mac" "claim_facts_ok claim t owner mac"
    using Cons.prems(1) by (auto simp: derived_ok_def)
  moreover have "ht_number t \<notin> set numbers" using Cons.prems(3) number by auto
  moreover have "List.find (\<lambda>p. p \<in> set priorities) (priorities_of t) = None"
    using Cons.prems(5) by (auto simp: find_None_iff)
  moreover have "reserve_names names (names_of t) = Inr (rev (names_of t) @ names)"
    using Cons.prems(6,7) by (intro reserve_names_ok) auto
  moreover have "\<not> (\<exists>s \<in> set subnets. Overlaps (ht_subnet t) s)" using Cons.prems(9) by simp
  ultimately have "validateClaimTransfer cr claim t names numbers priorities subnets = Inr (rev (names_of t) @ names)"
    by (simp add: validateClaimTransfer_def map_error_def bind_r_def names_of_def)
  moreover have "check_claim_transfers cr claim (index + 1) (rev (names_of t) @ names) (ht_number t # numbers)
      (priorities_of t @ priorities) (subnets @ [ht_subnet t]) ts = Inr ()"
    using Cons.prems number by (intro Cons.IH rest) auto
  ultimately show ?case using number by (simp add: bind_r_def)
qed simp

lemma transfer_ok_claim_facts:
  assumes ok: "transfer_ok cr rid inventory starts locals sel t"
    and sel: "validProviderName (hs_providerName sel) \<and> Is4 (hs_source sel) \<and> \<not> IsUnspecified (hs_source sel) \<and>
      0 < hs_providerIndex sel \<and> 0 < hs_routeTable sel \<and> (hs_hasGateway sel \<longrightarrow> Is4 (hs_gateway sel))"
    and "\<not> hs_hasGateway sel \<longrightarrow> hs_gateway sel = NoAddr" "num (hs_transfer sel) \<in> {1..transfer_maximum}"
    and "hs_routeTable sel \<noteq> nk_returnTable claim" "nk_runID claim = rid" "nk_ownerToken claim = as_ownerToken starts"
    and "\<forall>p \<in> set (priorities_of t). firstPriority \<le> p \<and> p \<le> lastPriority" "distinct (priorities_of t)"
  shows "derived_ok cr claim t"
proof -
  obtain links i out ret where links: "transferLinks cr rid (as_ownerToken starts) (hs_transfer sel) = Inr links"
    and i: "0 \<le> i" "i < candidateCount" and t: "t = makeTransferAllocation sel links (candidate_subnet i) out ret"
    using ok unfolding transfer_ok_def by blast
  obtain owner mac where derived: "deriveLinkOwnerID cr (as_ownerToken starts) (hs_transfer sel) = Inr owner"
    "derivePeerMAC cr (as_ownerToken starts) (hs_transfer sel) = Inr mac"
    and l: "links = \<lparr>lk_owner = owner, lk_hostName = hostName owner, lk_hostMAC = hostMAC owner,
      lk_peerName = derivedPeerName rid (num (hs_transfer sel)), lk_peerMAC = mac\<rparr>"
    using links by (auto simp: transferLinks_def result_simps)
  have "num_value (hs_transfer sel) = word_of_nat (num (hs_transfer sel))" by (simp add: num_def)
  then have "claim_facts_ok claim t owner mac"
    using sel assms(3-) candidate_hosts(5) [OF i] candidate_Masked [OF i] candidate_word(3) [OF i]
    by (auto simp: claim_facts_ok_def t makeTransferAllocation_def priorities_of_def l IsValid_def)
  then show ?thesis using derived assms(7) by (auto simp: derived_ok_def t)
qed


lemma fold_min:
  "foldl (\<lambda>e c. if nc_HasRules c \<and> nc_Priority c < e then nc_Priority c else e) e cs \<le> (e :: int)"
proof (induction cs arbitrary: e)
  case (Cons c cs)
  show ?case
    using Cons.IH [of e] Cons.IH [of "nc_Priority c"] by (auto intro: order_trans)
qed simp

lemma nextNFTPostroutingPriority_Inr:
  "nextNFTPostroutingPriority cs = Inr p \<Longrightarrow> validateTransferLanesNFTPostroutingPriority p"
  using fold_min [of iptablesSourceNATPriority cs]
  by (auto simp: nextNFTPostroutingPriority_def Let_def result_simps validateTransferLanesNFTPostroutingPriority_def
      validateNFTNATPriority_def split: if_splits)

text \<open>What the inventory and the selections owe the claim of the chosen backend.\<close>

definition backend_ready :: "run_id \<Rightarrow> egress_selection list \<Rightarrow> host_inventory \<Rightarrow> bool" where
  "backend_ready rid selected inventory \<longleftrightarrow>
     (fwl_kind (hi_firewall inventory) = firewallNFTables \<longrightarrow>
        validateNFTForwardChains (fwl_nftForwardChains (hi_firewall inventory)) (firewallName rid) = None) \<and>
     (fwl_kind (hi_firewall inventory) = firewallIPTables \<longrightarrow> (\<forall>s \<in> set selected. \<not> ends_with_plus (hs_providerName s)))"

lemma claim_backend_ok:
  assumes "allocateRunNetworkIdentity rid ordered inventory starts = Inr result"
    and "backend_ready rid ordered inventory"
    and "\<forall>t \<in> set ts. \<exists>s \<in> set ordered. ht_providerName t = hs_providerName s" "\<forall>t \<in> set ts. \<not> ends_with_plus (ht_hostVeth t)"
  shows "\<exists>names. claim_backend (claimFromAllocation (result\<lparr>na_transfers := ts\<rparr>)) rid = Inr names \<and> set names \<subseteq> {firewallName rid}"
proof -
  obtain r0 where r0: "firewall_identity rid inventory r0 = Inr result"
    and empty: "na_iptablesFrontend r0 = []" "na_firewallTable r0 = []" "na_nftPostroutingPriority r0 = 0" "na_forwardChains r0 = []"
      "na_backend r0 = fwl_kind (hi_firewall inventory)"
    using assms(1) by (fastforce simp: allocateRunNetworkIdentity_def result_simps)
  consider (nft) p where "fwl_kind (hi_firewall inventory) = firewallNFTables"
      "nextNFTPostroutingPriority (fwl_nftPostroutingNATChains (hi_firewall inventory)) = Inr p"
      "result = r0\<lparr>na_firewallTable := firewallName rid, na_forwardChains := fwl_nftForwardChains (hi_firewall inventory),
        na_nftPostroutingPriority := p\<rparr>"
    | (ipt) "fwl_kind (hi_firewall inventory) \<noteq> firewallNFTables" "fwl_kind (hi_firewall inventory) = firewallIPTables"
      "knownIPTablesFrontend (fwl_iptablesFrontend (hi_firewall inventory))"
      "result = r0\<lparr>na_iptablesFrontend := fwl_iptablesFrontend (hi_firewall inventory)\<rparr>"
    using r0 by (auto simp: firewall_identity_def Let_def result_simps split: if_splits)
  then show ?thesis
  proof cases
    case nft
    then show ?thesis
      using empty assms(2) nextNFTPostroutingPriority_Inr [OF nft(2)]
      by (simp add: claim_backend_def claimFromAllocation_def backend_ready_def)
  next
    case ipt
    moreover have "validateIPTablesProviderNames ts = None"
      using assms(2-4) ipt by (fastforce simp: validateIPTablesProviderNames_def find_None_iff backend_ready_def)
    ultimately show ?thesis
      using empty by (simp add: claim_backend_def claimFromAllocation_def)
  qed
qed

lemma distinct_names:
  assumes "distinct (map ht_hostVeth ts)" "distinct (map ht_peerVeth ts)" "ht_hostVeth ` set ts \<inter> ht_peerVeth ` set ts = {}"
  shows "distinct (concat (map names_of ts))"
  using assms by (induction ts) (auto simp: names_of_def)

lemma transfer_ok_names:
  assumes "transfer_ok cr rid inventory starts locals sel t"
  shows "ht_peerVeth t = derivedPeerName rid (ht_number t)" "ht_number t = num (hs_transfer sel)" "\<exists>owner. ht_hostVeth t = hostName owner"
    "ht_providerName t = hs_providerName sel" "Masked (ht_subnet t) = ht_subnet t" "pf_Bits (ht_subnet t) = 30" "Is4 (pf_Addr (ht_subnet t))"
    "ht_transfer t = hs_transfer sel"
proof -
  obtain links i out ret where links: "transferLinks cr rid (as_ownerToken starts) (hs_transfer sel) = Inr links"
    and i: "0 \<le> i" "i < candidateCount" and t: "t = makeTransferAllocation sel links (candidate_subnet i) out ret"
    using assms unfolding transfer_ok_def by blast
  then have l: "lk_peerName links = derivedPeerName rid (num (hs_transfer sel))" "\<exists>owner. lk_hostName links = hostName owner"
    by (auto simp: transferLinks_def result_simps)
  show "ht_peerVeth t = derivedPeerName rid (ht_number t)" "ht_number t = num (hs_transfer sel)" "\<exists>owner. ht_hostVeth t = hostName owner"
    "ht_providerName t = hs_providerName sel" "Masked (ht_subnet t) = ht_subnet t" "pf_Bits (ht_subnet t) = 30" "Is4 (pf_Addr (ht_subnet t))"
    "ht_transfer t = hs_transfer sel"
    using l candidate_Masked [OF i] candidate_word [OF i] by (auto simp: t makeTransferAllocation_def)
qed

lemma starts_token [simp]: "as_ownerToken (startsFromOwnerToken cr token) = token"
  by (simp add: startsFromOwnerToken_def Let_def)

lemma allocated_transfers:
  assumes "allocateClaimNetwork cr rid token selected inventory = Inr a"
  defines "locals \<equiv> map hs_source (sort_key (num \<circ> hs_transfer) selected) @ hi_localAddresses inventory"
  shows "\<And>t. t \<in> set (na_transfers a) \<Longrightarrow>
      \<exists>sel \<in> set selected. transfer_ok cr rid inventory (startsFromOwnerToken cr token) locals sel t"
    and "map ht_number (na_transfers a) = [1..<Suc (length selected)]" "length selected \<le> transfer_maximum"
    and "distinct (map ht_peerVeth (na_transfers a))"
    and "sorted_wrt (\<lambda>t t'. \<not> Overlaps (ht_subnet t') (ht_subnet t)) (na_transfers a)"
    and "\<And>n. n \<in> set (concat (map names_of (na_transfers a))) \<Longrightarrow> hd n = CHR ''w''"
proof -
  define ts where "ts = na_transfers a"
  define ordered where "ordered = sort_key (num \<circ> hs_transfer) selected"
  note al = allocateClaimNetwork_Inr [OF assms(1), folded ordered_def ts_def]
  note os = orderedSelections_Inr [OF al(2)]
  note tr = append_transfers_Inr [OF al(3), folded locals_def [folded ordered_def]]
  have ok: "\<exists>sel \<in> set ordered. transfer_ok cr rid inventory (startsFromOwnerToken cr token) locals sel t" if "t \<in> set ts" for t
    using tr that unfolding locals_def ordered_def [symmetric] by (metis list_all2_conv_all_nth in_set_conv_nth nth_mem)
  have "map ht_number ts = map (num \<circ> hs_transfer) ordered"
    using tr transfer_ok_names(2) by (intro nth_equalityI) (auto simp: list_all2_conv_all_nth)
  then have numbers: "map ht_number ts = [1..<Suc (length selected)]" using os(2) by simp
  have "map ht_peerVeth ts = map (derivedPeerName rid) (map ht_number ts)" using ok transfer_ok_names(1) by fastforce
  moreover have "inj_on (derivedPeerName rid) (set (map ht_number ts))"
    using derivedPeerName_inj os(4) numbers by (fastforce intro: inj_onI simp: transfer_maximum_def)
  ultimately have "distinct (map ht_peerVeth ts)" by (simp add: distinct_map numbers del: upt_Suc)
  moreover have "sorted_wrt (\<lambda>t t'. \<not> Overlaps (ht_subnet t') (ht_subnet t)) ts"
  proof (rule sorted_wrt_mono_rel [rotated])
    show "sorted_wrt (\<lambda>t t'. \<not> overlapsAny (ht_subnet t') [ht_subnet t]) ts" using tr by blast
    fix t t' assume t: "t \<in> set ts" "\<not> overlapsAny (ht_subnet t') [ht_subnet t]"
    then obtain sel where "transfer_ok cr rid inventory (startsFromOwnerToken cr token) locals sel t" using ok by blast
    from transfer_ok_names(5,6,7) [OF this] show "\<not> Overlaps (ht_subnet t') (ht_subnet t)"
      using t(2) by (simp add: overlapsAny_def pf_IsValid_def)
  qed
  moreover have "hd n = CHR ''w''" if "n \<in> set (concat (map names_of ts))" for n
    using that ok transfer_ok_names(1,3) by (fastforce simp: names_of_def derivedPeerName_def hostName_def)
  ultimately show "\<And>t. t \<in> set (na_transfers a) \<Longrightarrow>
      \<exists>sel \<in> set selected. transfer_ok cr rid inventory (startsFromOwnerToken cr token) locals sel t"
    "map ht_number (na_transfers a) = [1..<Suc (length selected)]" "length selected \<le> transfer_maximum"
    "distinct (map ht_peerVeth (na_transfers a))" "sorted_wrt (\<lambda>t t'. \<not> Overlaps (ht_subnet t') (ht_subnet t)) (na_transfers a)"
    "\<And>n. n \<in> set (concat (map names_of (na_transfers a))) \<Longrightarrow> hd n = CHR ''w''"
    using ok numbers os(4) by (simp_all add: ts_def [symmetric] ordered_def)
qed



section \<open>Text round trips\<close>

lemma sextet_value_sextet: "sextet_value (sextet n) = Some (n mod 64)"
proof -
  have "list_all (\<lambda>i. sextet_value (base64_table ! i) = Some (int i)) [0..<64]" by code_simp
  moreover have "nat (n mod 64) < 64" by (simp add: nat_less_iff)
  ultimately show ?thesis by (simp add: list_all_iff sextet_def)
qed

lemma base64_no_breaks: "filter (\<lambda>c. c \<noteq> CHR 0x0A \<and> c \<noteq> CHR 0x0D) (base64 bs) = base64 bs"
proof -
  have "list_all (\<lambda>c. c \<noteq> CHR 0x0A \<and> c \<noteq> CHR 0x0D) base64_table" by code_simp
  then show ?thesis using base64_in_table [of bs] by (auto simp: filter_id_conv list_all_iff)
qed

fun sextets :: "byte list \<Rightarrow> int list" where
  "sextets [] = []"
| "sextets [a] = (let n = uint a * 16 in [(n div 64) mod 64, n mod 64])"
| "sextets [a, b] = (let n = uint a * 1024 + uint b * 4 in [(n div 4096) mod 64, (n div 64) mod 64, n mod 64])"
| "sextets (a # b # c # bs) =
     (let n = uint a * 65536 + uint b * 256 + uint c in
      (n div 262144) mod 64 # (n div 4096) mod 64 # (n div 64) mod 64 # n mod 64 # sextets bs)"

lemma those_sextets: "those (map sextet_value (base64 bs)) = Some (sextets bs)"
  by (induction bs rule: base64.induct) (simp_all add: Let_def sextet_value_sextet)

lemma uint_byte: "0 \<le> uint (b :: byte)" "uint (b :: byte) < 256"
  using uint_lt2p [of b] by simp_all

lemma byte_at_sum: "0 \<le> r \<Longrightarrow> r < d \<Longrightarrow> byte_at ((q * 256 + uint b) * d + r) d = b"
proof -
  assume "0 \<le> r" "r < d"
  then have "((q * 256 + uint b) * d + r) div d = q * 256 + uint b" by (simp add: div_add1_eq [of _ r d])
  moreover have "(word_of_int (q * 256 + uint b) :: byte) = b"
    using uint_byte [of b] by (intro word_uint_eqI) (simp add: uint_word_of_int del: of_int_add)
  ultimately show ?thesis by (simp add: byte_at_def)
qed

lemma sextet_split: "(n :: int) = n div 64 * 64 + n mod 64" "n div 4096 = n div 64 div 64" "n div 262144 = n div 64 div 64 div 64"
  by (simp_all flip: zdiv_zmult2_eq)

lemma sextet_sum:
  assumes "0 \<le> (n :: int)"
  shows "n < 4096 \<Longrightarrow> (n div 64) mod 64 * 64 + n mod 64 = n"
    and "n < 262144 \<Longrightarrow> (n div 4096) mod 64 * 4096 + (n div 64) mod 64 * 64 + n mod 64 = n"
    and "n < 16777216 \<Longrightarrow> (n div 262144) mod 64 * 262144 + (n div 4096) mod 64 * 4096 + (n div 64) mod 64 * 64 + n mod 64 = n"
proof -
  define p where "p = n div 64"
  define q where "q = p div 64"
  define r where "r = q div 64"
  have s: "n = p * 64 + n mod 64" "p = q * 64 + p mod 64" "q = r * 64 + q mod 64"
    unfolding p_def q_def r_def by (rule sextet_split)+
  have d: "n div 64 = p" "n div 4096 = q" "n div 262144 = r" by (simp_all add: p_def q_def r_def sextet_split)
  have "0 \<le> p" "0 \<le> q" "0 \<le> r" using assms by (simp_all add: p_def q_def r_def pos_imp_zdiv_nonneg_iff)
  moreover have "n < 4096 \<Longrightarrow> p < 64" "n < 262144 \<Longrightarrow> q < 64" "n < 16777216 \<Longrightarrow> r < 64"
    unfolding d [symmetric] by (simp_all add: div_less_iff_less_mult)
  ultimately show "n < 4096 \<Longrightarrow> (n div 64) mod 64 * 64 + n mod 64 = n"
    "n < 262144 \<Longrightarrow> (n div 4096) mod 64 * 4096 + (n div 64) mod 64 * 64 + n mod 64 = n"
    "n < 16777216 \<Longrightarrow> (n div 262144) mod 64 * 262144 + (n div 4096) mod 64 * 4096 + (n div 64) mod 64 * 64 + n mod 64 = n"
    using s unfolding d by simp_all
qed

lemma unbase64_sextets: "unbase64 (sextets bs) = Some bs"
proof (induction bs rule: sextets.induct)
  case (2 a)
  define n where "n = uint a * 16"
  have n: "0 \<le> n" "n < 4096" using uint_byte [of a] by (simp_all add: n_def)
  have "n mod 64 mod 16 = 0" by (simp add: mod_mod_cancel n_def)
  moreover have "byte_at n 16 = a" using byte_at_sum [of 0 16 0 a] by (simp add: n_def)
  ultimately show ?case using sextet_sum(1) [OF n] by (simp add: n_def [symmetric] Let_def)
next
  case (3 a b)
  define n where "n = uint a * 1024 + uint b * 4"
  have n: "0 \<le> n" "n < 262144" using uint_byte [of a] uint_byte [of b] by (simp_all add: n_def)
  have "n mod 64 mod 4 = n mod 4" by (simp add: mod_mod_cancel)
  also have "\<dots> = 0" by (simp add: n_def mod_add_eq [symmetric])
  finally have "n mod 64 mod 4 = 0" .
  moreover have "byte_at n 1024 = a" using byte_at_sum [of "uint b * 4" 1024 0 a] uint_byte [of b] by (simp add: n_def)
  moreover have "byte_at n 4 = b" using byte_at_sum [of 0 4 "uint a" b] by (simp add: n_def algebra_simps)
  ultimately show ?case
    unfolding sextets.simps unbase64.simps Let_def n_def [symmetric] sextet_sum(2) [OF n] by (simp only: if_False simp_thms)
next
  case (4 a b c bs)
  define n where "n = uint a * 65536 + uint b * 256 + uint c"
  have n: "0 \<le> n" "n < 16777216" using uint_byte [of a] uint_byte [of b] uint_byte [of c] by (simp_all add: n_def)
  have "byte_at n 65536 = a" using byte_at_sum [of "uint b * 256 + uint c" 65536 0 a] uint_byte [of b] uint_byte [of c]
    by (simp add: n_def add.assoc)
  moreover have "byte_at n 256 = b" using byte_at_sum [of "uint c" 256 "uint a" b] uint_byte [of c] by (simp add: n_def algebra_simps)
  moreover have "byte_at n 1 = c" using byte_at_sum [of 0 1 "uint a * 256 + uint b" c] by (simp add: n_def algebra_simps)
  ultimately show ?case
    unfolding sextets.simps unbase64.simps Let_def n_def [symmetric] sextet_sum(3) [OF n] using 4 by simp
qed simp

lemma base64_round_trip: "base64_decode (base64 bs) = Some bs"
  unfolding base64_decode_def base64_no_breaks those_sextets by (simp add: unbase64_sextets)

lemma parseLinkOwnerID_String: "length owner = linkOwnerBytes \<Longrightarrow> parseLinkOwnerID (linkOwner_String owner) = Inr owner"
  by (simp add: parseLinkOwnerID_def linkOwner_String_def base64_round_trip)

lemma ParseMAC_String: "ParseMAC (mac_String [a, b, c, d, e, f]) = Some [a, b, c, d, e, f]"
proof -
  have two: "\<exists>h l. hex_encode [x] = [h, l] \<and> hex_decode [h, l] = Some [x]" for x :: byte
    using hex_decode_encode [of "[x]"] by simp
  obtain a1 a2 b1 b2 c1 c2 d1 d2 e1 e2 f1 f2 where
    "hex_encode [a] = [a1, a2] \<and> hex_decode [a1, a2] = Some [a]" "hex_encode [b] = [b1, b2] \<and> hex_decode [b1, b2] = Some [b]"
    "hex_encode [c] = [c1, c2] \<and> hex_decode [c1, c2] = Some [c]" "hex_encode [d] = [d1, d2] \<and> hex_decode [d1, d2] = Some [d]"
    "hex_encode [e] = [e1, e2] \<and> hex_decode [e1, e2] = Some [e]" "hex_encode [f] = [f1, f2] \<and> hex_decode [f1, f2] = Some [f]"
    using two by metis
  then show ?thesis by (simp add: ParseMAC_def numeral_2_eq_2 del: hex_encode.simps hex_decode.simps)
qed

lemma parseLinkMAC_String:
  assumes "length mac = 6"
  shows "parseLinkMAC (mac_String mac) = Inr mac"
proof -
  obtain a b c d e f where "mac = [a, b, c, d, e, f]"
    using assms by (auto simp: length_Suc_conv numeral_eq_Suc)
  then show ?thesis using ParseMAC_String [of a b c d e f] by (simp add: parseLinkMAC_def del: mac_String.simps)
qed

lemma ParsePrefix_30:
  assumes "Is4 ip"
  shows "ParsePrefix (prefix_string \<lparr>pf_Addr = ip, pf_Bits = 30\<rparr>) = Some \<lparr>pf_Addr = ip, pf_Bits = 30\<rparr>"
proof -
  have "int_text 30 = ''30''" "decimal_value ''30'' = Some 30" by code_simp+
  moreover have "ParseAddr (addr_string ip) = Inr ip" using Is4_facts [OF assms] by (simp add: ParseAddr_String IsValid_def)
  ultimately show ?thesis
    using Is4_facts [OF assms] by (simp add: ParsePrefix_def prefix_string_def pf_IsValid_def Let_def)
qed


section \<open>Claims survive being written and read\<close>

lemma validateClaimTransfer_Inr:
  "validateClaimTransfer cr claim t names numbers priorities subnets = Inr names' \<Longrightarrow> derived_ok cr claim t"
  by (auto simp: validateClaimTransfer_def derived_ok_def map_error_def bind_r_def split: sum.splits if_splits)

lemma check_claim_transfers_Inr:
  "check_claim_transfers cr claim index names numbers priorities subnets ts = Inr () \<Longrightarrow> t \<in> set ts \<Longrightarrow> derived_ok cr claim t"
  by (induction ts arbitrary: index names numbers priorities subnets)
    (auto simp: bind_r_def dest: validateClaimTransfer_Inr split: sum.splits if_splits)

lemma validateClaim_derived: "validateClaim cr claim rid = Inr () \<Longrightarrow> t \<in> set (nk_transfers claim) \<Longrightarrow> derived_ok cr claim t"
  by (auto simp: validateClaim_def bind_r_def dest: check_claim_transfers_Inr split: sum.splits if_splits)

lemma temporary_hosts:
  assumes "Contains temporaryRange ip"
  shows "Is4 ip" "Is4 (Next ip)" "Is4 (Next (Next ip))"
proof -
  have "word4 (V4 198 18 0 0) = 3323068416" by code_simp
  then have "drop_bit 17 (word4 ip) = drop_bit 17 (3323068416 :: u32)" and ip: "Is4 ip"
    using assms by (simp_all add: Contains_4 temporaryRange_def Is4_def)
  then have "uint (word4 ip) div 131072 = 25353"
    unfolding drop_bit_eq_div word_uint_eq_iff uint_div_distrib by simp
  then have "uint (word4 ip) < 3323199488" by linarith
  then show "Is4 ip" "Is4 (Next ip)" "Is4 (Next (Next ip))"
    using ip Next_4 [OF ip] Next_4 [of "Next ip"] by simp_all
qed

lemma ParseAddr_4: "Is4 ip \<Longrightarrow> ParseAddr (addr_string ip) = Inr ip"
  using Is4_facts [of ip] by (simp add: ParseAddr_String IsValid_def)

lemma documentToClaimTransfer_round_trip:
  assumes "derived_ok cr claim t" "\<And>key m. length (cr_hmac cr key m) = 32"
  shows "documentToClaimTransfer (claimTransferToDocument t) = Inr t"
proof -
  obtain owner mac where facts: "claim_facts_ok claim t owner mac"
    and d: "deriveLinkOwnerID cr (nk_ownerToken claim) (ht_transfer t) = Inr owner"
      "derivePeerMAC cr (nk_ownerToken claim) (ht_transfer t) = Inr mac"
    using assms(1) by (auto simp: derived_ok_def)
  have len: "length owner = linkOwnerBytes" "length mac = 6" "length (hostMAC owner) = 6"
    using d assms(2) by (auto simp: deriveLinkOwnerID_def derivePeerMAC_def keyedLinkDigest_def linkOwnerBytes_def hostMAC_def
        split: option.splits if_splits)
  have hosts: "Is4 (pf_Addr (ht_subnet t))" "Is4 (ht_hostIP t)" "Is4 (ht_namespaceIP t)"
    using facts temporary_hosts [of "pf_Addr (ht_subnet t)"] by (auto simp: claim_facts_ok_def)
  have "ht_subnet t = \<lparr>pf_Addr = pf_Addr (ht_subnet t), pf_Bits = 30\<rparr>" using facts by (simp add: claim_facts_ok_def)
  then have subnet: "ParsePrefix (prefix_string (ht_subnet t)) = Some (ht_subnet t)"
    using ParsePrefix_30 [OF hosts(1)] by simp
  have "num (ht_transfer t) = ht_number t"
    using facts by (simp add: claim_facts_ok_def num_def transfer_maximum_def unsigned_of_nat take_bit_eq_mod)
  then have number: "number_new (int (ht_number t)) = Inr (ht_transfer t)"
    using facts by (simp add: number_new_Inr_iff claim_facts_ok_def transfer_maximum_def)
  have gateway: "ht_hasGateway t \<Longrightarrow> addr_string (ht_gateway t) \<noteq> []"
    "ht_hasGateway t \<Longrightarrow> ParseAddr (addr_string (ht_gateway t)) = Inr (ht_gateway t)" "\<not> ht_hasGateway t \<Longrightarrow> ht_gateway t = NoAddr"
    using facts ParseAddr_4 [of "ht_gateway t"] by (auto simp: claim_facts_ok_def IsValid_def ParseAddr_def)
  show ?thesis
    using facts len hosts subnet number gateway ParseAddr_4 parseLinkOwnerID_String parseLinkMAC_String
    by (cases "ht_hasGateway t")
      (simp_all add: documentToClaimTransfer_def claimTransferToDocument_def claim_facts_ok_def map_error_def bind_r_def)
qed

lemma documentToClaim_round_trip:
  assumes "validateClaim cr claim (nk_runID claim) = Inr ()" "id_ok (nk_runID claim)" "\<And>key m. length (cr_hmac cr key m) = 32"
  shows "documentToClaim (claim_to_document claim) = Inr claim"
proof -
  have "map_r documentToClaimTransfer (map claimTransferToDocument (nk_transfers claim)) = Inr (nk_transfers claim)"
    using documentToClaimTransfer_round_trip [OF validateClaim_derived [OF assms(1)] assms(3)]
    by (simp add: map_r_Inr_iff list_all2_conv_all_nth)
  moreover have "nk_backend claim \<noteq> firewallNFTables \<Longrightarrow> nk_nftPostroutingPriority claim = 0"
    using assms(1) by (auto simp: validateClaim_def claim_backend_def bind_r_def split: sum.splits if_splits)
  ultimately show ?thesis
    using id_parse_string [OF assms(2)]
    by (simp add: documentToClaim_def claim_to_document_def map_error_def bind_r_def)
qed

text \<open>
  C39: a claim survives the file system.  Whatever valid claim a run writes, reading the
  evidence back gives the same claim, provided the JSON reader inverts the writer and the
  file keeps the size limit.
\<close>

theorem claim_round_trip:
  assumes "encodeClaim cr js claim = Inr bytes" "id_ok (nk_runID claim)" "\<And>key m. length (cr_hmac cr key m) = 32"
    and "js_decodeStrict js (js_Marshal js (claim_to_document claim) @ [10]) = Inr (claim_to_document claim)"
    and "length bytes \<le> maximumEvidenceBytes"
  shows "decodeClaim cr js bytes (nk_runID claim) = Inr claim"
proof -
  have valid: "validateClaim cr claim (nk_runID claim) = Inr ()" and "bytes = js_Marshal js (claim_to_document claim) @ [10]"
    using assms(1) by (auto simp: encodeClaim_def result_simps)
  then show ?thesis
    using documentToClaim_round_trip [OF valid assms(2,3)] assms(4,5)
    by (simp add: decodeClaim_def readEvidence_def Let_def map_error_def bind_r_def)
qed

section \<open>Examples\<close>

lemma example_claim:
  obtains a where
    "allocateClaimNetwork example_crypto example_run example_token (map example_selection [1, 2]) (example_inventory []) = Inr a"
    "ht_hostVeth ` set (na_transfers a) \<inter> ht_peerVeth ` set (na_transfers a) = {}"
    "nk_runID (claimFromAllocation a) = example_run" "validateClaim example_crypto (claimFromAllocation a) example_run = Inr ()"
proof -
  let ?alloc = "allocateClaimNetwork example_crypto example_run example_token (map example_selection [1, 2]) (example_inventory [])"
  have "(case ?alloc of Inl _ \<Rightarrow> False
    | Inr a \<Rightarrow> list_all (\<lambda>t. list_all (\<lambda>t'. ht_hostVeth t \<noteq> ht_peerVeth t') (na_transfers a)) (na_transfers a) \<and>
        nk_runID (claimFromAllocation a) = example_run \<and> is_ok (validateClaim example_crypto (claimFromAllocation a) example_run))"
    by code_simp
  then show thesis by (cases ?alloc) (auto simp: list_all_iff is_ok_iff intro!: that)
qed

lemma example_ready: "backend_ready example_run (map example_selection [1, 2]) (example_inventory [])"
  "\<forall>s \<in> set (map example_selection [1, 2]). \<not> hs_hasGateway s \<longrightarrow> hs_gateway s = NoAddr"
proof -
  have "firewallIPTables \<noteq> firewallNFTables" "\<not> ends_with_plus ''eth0''" by code_simp+
  then show "backend_ready example_run (map example_selection [1, 2]) (example_inventory [])"
    by (simp add: backend_ready_def example_inventory_def example_selection_def)
qed (simp add: example_selection_def)


theorem claim_round_trip_witness:
  "\<exists>claim. validateClaim example_crypto claim example_run = Inr () \<and>
    decodeClaim example_crypto \<lparr>js_Marshal = (\<lambda>_. []), js_decodeStrict = (\<lambda>_. Inr (claim_to_document claim))\<rparr> [10] example_run = Inr claim"
proof -
  obtain a where a: "nk_runID (claimFromAllocation a) = example_run"
      "validateClaim example_crypto (claimFromAllocation a) example_run = Inr ()"
    by (rule example_claim)
  let ?claim = "claimFromAllocation a"
  let ?js = "\<lparr>js_Marshal = (\<lambda>_. []), js_decodeStrict = (\<lambda>_. Inr (claim_to_document ?claim))\<rparr>"
  have "encodeClaim example_crypto ?js ?claim = Inr [10]" using a by (simp add: encodeClaim_def bind_r_def)
  moreover have "id_ok (nk_runID ?claim)" unfolding a(1) by code_simp
  moreover have "length (cr_hmac example_crypto key m) = 32" for key m :: "byte list"
    by (simp add: example_crypto_def)
  ultimately have "decodeClaim example_crypto ?js [10] (nk_runID ?claim) = Inr ?claim"
    using claim_round_trip [of example_crypto ?js ?claim "[10]"] by (simp add: maximumEvidenceBytes_def)
  then show ?thesis using a by metis
qed

end
