(* ===== verification/Spec2Isabelle.thy ===== *)
theory Spec2Isabelle
  imports View_Tree Transfer_Request Run_Completion List_Networks Upload_Measure Host_Claim
begin

text \<open>
  Verification of Transfer Lanes, the program under \<open>src/\<close>: it splits the files below one
  source directory over several network interfaces and runs one copy of a transfer command
  per interface, each copy seeing only its share of the files.

  \<^bold>\<open>How the program is put together.\<close>  The parent process parses the command line
  (\<open>internal/cli\<close>) into a list request or a run request.  Listing captures the links,
  addresses, rules and routes of the host (\<open>internal/networkcatalog\<close>), resolves the egress of
  every selected address and on request probes and measures it (\<open>internal/listnetworks\<close>,
  \<open>internal/throughput\<close>).  A run turns its request (\<open>internal/runcommand\<close>) into a start
  request (\<open>internal/transferstart\<close>) and hands that, with an open source directory, to a supervisor process over two pipes
  (\<open>internal/runsupervisor\<close>).  In the supervisor the worker (\<open>internal/transferworker\<close>)
  rebuilds a transfer request, captures the source tree (\<open>internal/sourcefiles\<close>), measures
  or reads the weights (\<open>internal/throughput\<close>, \<open>internal/transfer\<close>), allocates every file to
  one transfer, mounts one view per transfer (\<open>internal/fileviews\<close>), starts the commands
  (\<open>internal/childprocesses\<close>) and streams output, status and one final result back; the
  host network owner gives every transfer a private network (\<open>internal/hostnetwork\<close>).  The
  parent forwards the output to the raw logs and the display (\<open>internal/runoutput\<close>,
  \<open>internal/runlogs\<close>, \<open>internal/plainoutput\<close>) and reports the outcome.

  \<^bold>\<open>Theories.\<close>  Each theory models the source files its own introduction names; the
  operations keep the names of the code.
  \<^item> \<open>Prelude\<close>: error values as sums with \<open>bind_r\<close>, bytes and strings, big-endian integers,
    the scanning of lists with a set of seen keys; the collections \<open>result_simps\<close> and
    \<open>wire_simps\<close>.
  \<^item> \<open>Go_Path\<close>, \<open>Netip\<close>, \<open>Utf8\<close>: what the sources use of \<open>path\<close>, \<open>net/netip\<close> and
    \<open>unicode/utf8\<close>, written out as functions, with the round trip of printing and parsing
    addresses.
  \<^item> \<open>Identity\<close>: transfer numbers and run identifiers.
  \<^item> \<open>Source_Tree\<close>, \<open>Source_Allocation\<close>, \<open>View_Tree\<close>: the captured tree, the greedy weighted
    assignment and the tree of visible entries with its membership bits.  Every file and
    every empty directory belongs to exactly one transfer, the loads stay within one file of
    each other, the totals are exact, and each view shows exactly what its transfer owns.
  \<^item> \<open>Throughput\<close>, \<open>Child_Types\<close>: relative weights from measured rates, command groups, view
    paths and the ordered results of the children.
  \<^item> \<open>Transfer_Start\<close>, \<open>Run_Request\<close>, \<open>Transfer_Request\<close>: the way of a request from the
    command line to the worker: the ordered validation and its declarative meaning, the
    private encoding with its exact size, the capacity check of the parent and the
    translation in the worker.
  \<^item> \<open>Supervisor_Frame\<close>, \<open>Supervisor_Final\<close>, \<open>Supervisor_Codec\<close>: the wire protocol.  The
    locale \<open>frame_codec\<close> states what a message type owes the pipe (decoding inverts encoding,
    payloads fit a frame); controls, cancellations and events interpret it.
  \<^item> \<open>Supervisor_Events\<close>, \<open>Supervisor_Control\<close>, \<open>Supervisor_Session\<close>: the two ends of the
    pipes as state machines.  The event sender never writes after its final frame; the
    control sender is correct under every interleaving of its calls; a session releases its
    source descriptor once on every path and reports its work.
  \<^item> \<open>Plain_Sanitizer\<close>, \<open>Plain_Output\<close>: child output on a terminal.  Whatever a child prints,
    the lines written are printable, prefixed and bounded, and ordinary text is unchanged.
  \<^item> \<open>Command_Line\<close>: the two command lines.  A run is accepted exactly when it follows the
    declared grammar, and its weights keep the ratios that were written.
  \<^item> \<open>Run_Output\<close>, \<open>Run_Completion\<close>: raw logs, forwarding and the report.  The locale
    \<open>kept_display\<close> states what the forwarder needs of a display; the plain output interprets
    it.  Logs hold the exact bytes, the forwarder ends with its events, and the exit status
    tells the outcome.
  \<^item> \<open>Network_Catalog\<close>, \<open>Network_Rules\<close>, \<open>Network_Capture\<close>: the snapshot of the host, the
    decoder of policy rules and the capture through an arbitrary reader of a changing world.
    A runnable source leaves by the route that policy routing selects whatever the undecided
    selectors say; no rule attribute is lost; a captured snapshot is consistent and the
    capture returns.
  \<^item> \<open>Upload_Measure\<close>, \<open>List_Networks\<close>: the accounting of a measurement and the list command.
    The theorem of this theory composes them with the capture.
  \<^item> \<open>Host_Allocation\<close>, \<open>Host_Claim\<close>: the private network of a run and its claim.  Nothing
    of the host is reused, no earlier policy rule takes the traffic of a transfer (except an
    inverted rule on a destination, which the code misses, as a theorem shows), every
    allocation is a valid claim and a claim survives being written and read.

  \<^bold>\<open>Conventions.\<close>  A Go error is the \<open>Inl\<close> of a sum whose datatype has one constructor per
  error the code makes; machine integers are words where they can wrap and \<open>int\<close> or \<open>nat\<close>
  with the bounds of the code elsewhere.  The kernel and other writers are parameters: lists
  of answers, consumed one per call (the value \<open>None\<close> is a call that is still waiting), or
  functions of what they have received or of a world they may change.  No operation needs
  fuel: recursion is structural or has a measure, and only the transitive observation of links
  is a \<^emph>\<open>partial function\<close> (\<open>None\<close> for a capture that does not return), with a proof that it
  returns.  Hash functions and JSON are parameters.  Statements that something is delivered
  are proved as such once the answers suffice.  Goroutines are windows: where the code releases a mutex, the model lets
  any sequence of the other operations run.

  \<^bold>\<open>Not modelled.\<close>  Operations that only drive the operating system have no definition:
  the netlink, nftables, iptables and conntrack calls and the evidence files of
  \<open>hostnetwork\<close>, FUSE mounts (\<open>fileviews\<close>), process start and
  reaping (\<open>childprocesses\<close>, the platform files of \<open>runsupervisor\<close>), directories and locks
  (\<open>rundirectory\<close>), sockets (\<open>namespaceresolvers\<close>, \<open>probe\<close>, the preparation of an upload
  stream in \<open>throughput\<close>), the interactive screen (\<open>terminal\<close>) and the wiring of all of them
  (\<open>runcommand\<close>, \<open>transfer\<close>).  Their results enter the model as parameters.
\<close>


section \<open>The list command over the whole system\<close>

definition system_tools :: "(addr \<Rightarrow> url \<Rightarrow> string + public_observation) \<Rightarrow> transport \<Rightarrow> diagnostics" where
  "system_tools probe tp = \<lparr>dg_probe = probe, dg_observe = (\<lambda>targets settings. the (Observe tp targets settings))\<rparr>"

lemma those_total: "(\<forall>x \<in> set xs. x \<noteq> None) \<Longrightarrow> those xs \<noteq> None"
  by (induction xs) auto

lemma Observe_returns: "(\<And>target. observeTarget tp target settings \<noteq> None) \<Longrightarrow> Observe tp targets settings \<noteq> None"
  using those_total [of "map (\<lambda>t. observeTarget tp t settings) targets"] by (auto simp: Observe_def split: sum.splits)

text \<open>
  C35: the list command over the whole system.  Whatever the kernel answers, once a capture
  gives a snapshot, that snapshot is consistent and a valid request is listed without any of
  the internal consistency checks failing: the rows are exactly the selected networks of the
  snapshot, each once, in the requested order when they were named, and each row is marked,
  probed and measured exactly as the catalog and the request say.  The only hypothesis on
  the measurement is that its window ends it.
\<close>

theorem list_command_reports_the_captured_networks:
  assumes "capture nl sy w = Some (Inr s, w')" "validateRequest request = Inr v"
    and "\<And>target settings. observeTarget tp target settings \<noteq> None"
  shows "snapshot_consistent s \<and>
    (\<exists>result. listing_Run (system_tools probe tp) (captureSystemNetworks (Inr s)) request = Inr result \<and>
      distinct (map row_localIP (ls_rows result)) \<and>
      set (map row_localIP (ls_rows result)) = {ip \<in> selects s v. vr_explicit v \<noteq> [] \<or> vr_all v \<or> usable s ip} \<and>
      (vr_explicit v \<noteq> [] \<longrightarrow> map row_localIP (ls_rows result) = vr_explicit v) \<and>
      (\<forall>r \<in> set (ls_rows result). annotated s v r))"
proof -
  obtain links addresses rules routes where s: "s = newSnapshot links addresses rules routes"
    "\<forall>a \<in> set addresses. Is4 (pf_Addr (ao_prefix a))"
    using capture_addresses [OF assms(1)] by blast
  have "map ob_target (dg_observe (system_tools probe tp) targets settings) = targets" for targets settings
    using Observe_returns [OF assms(3)] Observe_targets by (fastforce simp: system_tools_def)
  from listing_reports_every_selected_network [OF s assms(2) this]
  show ?thesis using captured_consistent [OF assms(1) [unfolded capture_def]] by blast
qed

definition example_system :: "unit system" where
  "example_system =
     \<lparr>sy_Err = (\<lambda>w. (None, w)), sy_AddrList = (\<lambda>w. (Inr [(2, Some \<lparr>in_IP = [10, 0, 0, 2], in_Mask = [255, 255, 255, 0]\<rparr>)], w)),
      sy_RuleDump = (\<lambda>w. (Inr [example_message], w)),
      sy_RouteList = (\<lambda>w. (Inr [\<lparr>nr_Table = 254, nr_Dst = None, nr_Type = 1, nr_LinkIndex = 2, nr_Priority = 0, nr_MultiPath = 0,
        nr_Tos = 0, nr_ILinkIndex = 0, nr_Encap = False, nr_Via = False, nr_NewDst = False, nr_Gw = [10, 0, 0, 1]\<rparr>], w)),
      sy_LinkByIndex = (\<lambda>i w. (if i = 2 then LinkFound example_link else LinkMissing, w)),
      sy_LinkByName = (\<lambda>n w. (LinkMissing, w))\<rparr>"

definition refusing_transport :: transport where
  "refusing_transport = example_transport\<lparr>tp_prepare := (\<lambda>_ _ _. Some (ResolveEndpoint, ''refused''))\<rparr>"

theorem list_command_reports_the_captured_networks_witness:
  "\<exists>s w. capture example_netlink example_system () = Some (Inr s, w) \<and> snapshot_consistent s \<and>
    (\<exists>result. listing_Run (system_tools (\<lambda>_ _. Inl ''no route'') refusing_transport)
      (captureSystemNetworks (Inr s)) example_request = Inr result \<and> distinct (map row_localIP (ls_rows result)))"
proof -
  have "(case capture example_netlink example_system () of Some (Inr s, w) \<Rightarrow> True | _ \<Rightarrow> False)" by code_simp
  then obtain s w where "capture example_netlink example_system () = Some (Inr s, w)"
    by (auto split: option.splits prod.splits sum.splits)
  moreover have "validateRequest example_request = Inr \<lparr>vr_explicit = [], vr_all = True, vr_probe = None, vr_measure = None\<rparr>"
    by (simp add: validateRequest_def example_request_def)
  moreover have "observeTarget refusing_transport target settings \<noteq> None" for target settings
    by (simp add: observeTarget_def refusing_transport_def split: sum.split)
  ultimately show ?thesis
    using list_command_reports_the_captured_networks [of example_netlink example_system "()" s w example_request _ refusing_transport]
    by blast
qed

end
